(* ===== verification/Prelude.thy ===== *)
theory Prelude
  imports Main "HOL-Library.Word"
begin

text \<open>
  Shared vocabulary of the DSoftBus development: machine types, byte sequences, the error codes of
  \<^verbatim>\<open>interfaces/kits/common/softbus_error_code.h\<close>, the bounded memory functions the sources call and
  the generic list, byte and arithmetic lemmas the component theories use.

  Conventions.
  \<^item> A C buffer is a \<^typ>\<open>8 word list\<close>; a length or an unsigned 32-bit quantity that is only
    compared and added is a \<^typ>\<open>nat\<close>, with the wrap-around written \<open>u32\<close> where the C expression
    can overflow; values on which the source relies on modular or two's complement arithmetic (ring
    indices, sequence numbers) are words.
  \<^item> Status codes are the C integers.
  \<^item> What the environment decides (an allocation succeeding, a lock being acquired, a clock) is an
    argument of the definition.  Where a function body has several allocation sites the argument is a
    function from the number of the site, counted from 0 in source order, to its outcome.
\<close>

unbundle bit_operations_syntax

type_synonym byte = "8 word"
type_synonym bytes = "8 word list"

section \<open>Rule collections\<close>

text \<open>
  \<open>fifo_simps\<close> collects what an operation does to the abstract content of a queue,
  \<open>codec_simps\<close> the laws of byte encodings, \<open>inv_intros\<close> the preservation lemmas of the component
  invariants.
\<close>

named_theorems fifo_simps
named_theorems codec_simps
named_theorems inv_intros

section \<open>Status codes\<close>

abbreviation SOFTBUS_OK :: int where "SOFTBUS_OK \<equiv> 0"
abbreviation SOFTBUS_ERR :: int where "SOFTBUS_ERR \<equiv> - 426442705"
abbreviation SOFTBUS_TIMOUT :: int where "SOFTBUS_TIMOUT \<equiv> - 426442750"
abbreviation SOFTBUS_INVALID_PARAM :: int where "SOFTBUS_INVALID_PARAM \<equiv> - 426442749"
abbreviation SOFTBUS_MEM_ERR :: int where "SOFTBUS_MEM_ERR \<equiv> - 426442748"
abbreviation SOFTBUS_NO_INIT :: int where "SOFTBUS_NO_INIT \<equiv> - 426442746"
abbreviation SOFTBUS_MALLOC_ERR :: int where "SOFTBUS_MALLOC_ERR \<equiv> - 426442741"
abbreviation SOFTBUS_LOCK_ERR :: int where "SOFTBUS_LOCK_ERR \<equiv> - 426442734"
abbreviation SOFTBUS_NOT_FIND :: int where "SOFTBUS_NOT_FIND \<equiv> - 426442723"

text \<open>The size of a MAC address as text, with its terminator.\<close>

abbreviation BT_MAC_LEN :: nat where "BT_MAC_LEN \<equiv> 18"

section \<open>Faults\<close>

text \<open>
  What C leaves undefined is an outcome of its own, \<open>Inl\<close> of a sum: the use of a freed object, a floating-point
  value outside the range of the integer type it is cast to, a read or a write outside a buffer.
\<close>

datatype fault = InvalidPointer | OutOfRangeCast | OutOfRangeRead | OutOfRangeWrite

section \<open>Bounded memory functions\<close>

text \<open>
  \<open>memcpy_s dest destMax src count\<close> and \<open>memmove_s\<close> of the bounds checking library return \<open>EOK\<close>
  exactly when the destination size is neither 0 nor above \<open>SECUREC_MEM_MAX_LEN\<close> and the count
  fits.  The arguments at the modelled calls are never null and never overlap where \<open>memcpy_s\<close> is
  used.  \<open>mem_write\<close> is the effect of a successful copy to an offset of a buffer.
\<close>

definition SECUREC_MEM_MAX_LEN :: nat where
  "SECUREC_MEM_MAX_LEN = 0x7fffffff"

definition memcpy_s_ok :: "nat \<Rightarrow> nat \<Rightarrow> bool" where
  "memcpy_s_ok destMax count \<longleftrightarrow> destMax \<noteq> 0 \<and> destMax \<le> SECUREC_MEM_MAX_LEN \<and> count \<le> destMax"

definition mem_write :: "'a list \<Rightarrow> nat \<Rightarrow> 'a list \<Rightarrow> 'a list" where
  "mem_write dst off src = take off dst @ src @ drop (off + length src) dst"

lemma length_mem_write [simp]: "off + length src \<le> length dst \<Longrightarrow> length (mem_write dst off src) = length dst"
  by (simp add: mem_write_def)

lemma mem_write_Nil [simp]: "mem_write dst off [] = dst"
  by (simp add: mem_write_def)

lemma mem_write_all [simp]: "length src = length dst \<Longrightarrow> mem_write dst 0 src = src"
  by (simp add: mem_write_def)

lemma take_mem_write:
  "off + length src \<le> length dst \<Longrightarrow> take (off + length src) (mem_write dst off src) = take off dst @ src"
  by (simp add: mem_write_def min_absorb2)

lemma take_mem_write_before: "n \<le> off \<Longrightarrow> off \<le> length dst \<Longrightarrow> take n (mem_write dst off src) = take n dst"
  by (simp add: mem_write_def min_absorb1)

lemma drop_mem_write:
  "off + length src \<le> length dst \<Longrightarrow> drop (off + length src) (mem_write dst off src) = drop (off + length src) dst"
  by (simp add: mem_write_def)

section \<open>Unsigned 32-bit wrap-around on natural numbers\<close>

definition u32 :: "nat \<Rightarrow> nat" where
  "u32 n = n mod 4294967296"

definition u32_sub :: "nat \<Rightarrow> nat \<Rightarrow> nat" where
  "u32_sub a b = nat ((int a - int b) mod 4294967296)"

text \<open>A C \<open>int32_t\<close> result that may have overflowed.\<close>

definition s32 :: "int \<Rightarrow> int" where
  "s32 i = (i + 2 ^ 31) mod 2 ^ 32 - 2 ^ 31"

lemma s32_id [simp]: "- 2147483648 \<le> i \<Longrightarrow> i < 2147483648 \<Longrightarrow> s32 i = i"
  by (simp add: s32_def)

lemma u32_small [simp]: "n < 4294967296 \<Longrightarrow> u32 n = n"
  by (simp add: u32_def)

lemma u32_less [simp]: "u32 n < 4294967296"
  by (simp add: u32_def)

lemma u32_sub_le [simp]: "b \<le> a \<Longrightarrow> a < 4294967296 \<Longrightarrow> u32_sub a b = a - b"
  by (simp add: u32_sub_def nat_diff_distrib)

lemma u32_sub_less [simp]: "u32_sub a b < 4294967296"
  by (simp add: u32_sub_def nat_less_iff)

section \<open>Little-endian byte sequences\<close>

primrec le_nat :: "bytes \<Rightarrow> nat" where
  "le_nat [] = 0"
| "le_nat (b # bs) = unat b + 256 * le_nat bs"

primrec nat_le :: "nat \<Rightarrow> nat \<Rightarrow> bytes" where
  "nat_le 0 n = []"
| "nat_le (Suc k) n = word_of_nat n # nat_le k (n div 256)"

lemma length_nat_le [simp]: "length (nat_le k n) = k"
  by (induction k arbitrary: n) simp_all

lemma unat_byte_less [simp]: "unat (b :: byte) < 256"
  using unsigned_less [of b] by simp

lemma unat_of_nat_byte: "unat (word_of_nat n :: byte) = n mod 256"
  by (simp add: unat_of_nat)

lemma le_nat_nat_le: "le_nat (nat_le k n) = n mod 256 ^ k"
proof (induction k arbitrary: n)
  case 0
  then show ?case by simp
next
  case (Suc k)
  have "n mod 256 ^ Suc k = n mod 256 + 256 * (n div 256 mod 256 ^ k)"
    using mod_mult2_eq [of n 256 "256 ^ k"] by simp
  then show ?case by (simp add: Suc.IH unat_of_nat_byte)
qed

lemma le_nat_less: "le_nat bs < 256 ^ length bs"
proof (induction bs)
  case Nil
  then show ?case by simp
next
  case (Cons b bs)
  have "unat b < 256" by simp
  with Cons.IH have "unat b + 256 * le_nat bs < 256 * 256 ^ length bs"
    by linarith
  then show ?case by simp
qed

lemma nat_le_le_nat: "nat_le (length bs) (le_nat bs) = bs"
proof (induction bs)
  case Nil
  then show ?case by simp
next
  case (Cons b bs)
  have "(256 :: byte) = 0" by simp
  then have "word_of_nat (unat b + 256 * le_nat bs) = b"
    by (simp only: of_nat_add of_nat_mult of_nat_numeral mult_zero_left) simp
  moreover have "(unat b + 256 * le_nat bs) div 256 = le_nat bs"
    using unat_byte_less [of b] by simp
  ultimately show ?case by (simp add: Cons.IH)
qed

lemma le_nat_4 [codec_simps]: "n < 4294967296 \<Longrightarrow> le_nat (nat_le 4 n) = n"
  by (simp add: le_nat_nat_le)

lemma le_nat_8 [codec_simps]: "n < 18446744073709551616 \<Longrightarrow> le_nat (nat_le 8 n) = n"
  by (simp add: le_nat_nat_le)

lemma nat_le_2: "nat_le 2 n = [word_of_nat n, word_of_nat (n div 256)]"
proof -
  have "(2 :: nat) = Suc (Suc 0)" by simp
  then show ?thesis by (simp only: nat_le.simps)
qed

lemma nat_le_4:
  "nat_le 4 n = [word_of_nat n, word_of_nat (n div 256), word_of_nat (n div 256 div 256),
     word_of_nat (n div 256 div 256 div 256)]"
proof -
  have "(4 :: nat) = Suc (Suc (Suc (Suc 0)))" by simp
  then show ?thesis by (simp only: nat_le.simps)
qed

lemma nat_le_inject: "n < 256 ^ k \<Longrightarrow> m < 256 ^ k \<Longrightarrow> nat_le k n = nat_le k m \<longleftrightarrow> n = m"
  by (metis le_nat_nat_le mod_less)

section \<open>List segments\<close>

text \<open>\<open>segment off n xs\<close> is the run of \<open>n\<close> elements of \<open>xs\<close> that starts at \<open>off\<close>.\<close>

definition segment :: "nat \<Rightarrow> nat \<Rightarrow> 'a list \<Rightarrow> 'a list" where
  "segment off n xs = take n (drop off xs)"

lemma length_segment [simp]: "off + n \<le> length xs \<Longrightarrow> length (segment off n xs) = n"
  by (simp add: segment_def)

lemma segment_append_left [simp]: "off + n \<le> length xs \<Longrightarrow> segment off n (xs @ ys) = segment off n xs"
  by (simp add: segment_def)

lemma segment_append_right [simp]: "length xs \<le> off \<Longrightarrow> segment off n (xs @ ys) = segment (off - length xs) n ys"
  by (simp add: segment_def)

lemma segment_0 [simp]: "length xs = n \<Longrightarrow> segment 0 n xs = xs"
  by (simp add: segment_def)

lemma segment_0_append [simp]: "length xs = n \<Longrightarrow> segment 0 n (xs @ ys) = xs"
  by (simp add: segment_def)

lemma segment_all: "off \<le> length xs \<Longrightarrow> n = length xs - off \<Longrightarrow> segment off n xs = drop off xs"
  by (simp add: segment_def)

lemma segment_take_drop: "take off xs @ segment off n xs = take (off + n) xs"
  by (simp add: segment_def take_add)


lemma find_SomeD: "find P xs = Some x \<Longrightarrow> x \<in> set xs \<and> P x"
  by (induction xs) (auto split: if_splits)

lemma upt_split: "[0..<Suc n] = before @ p # after \<Longrightarrow> p \<le> n \<and> set before = {..<p}"
proof -
  assume split: "[0..<Suc n] = before @ p # after"
  then have "length (before @ p # after) = Suc n" by (metis length_upt minus_nat.diff_0)
  then have len: "length before < Suc n" by simp
  have "[0..<Suc n] ! length before = p" "take (length before) [0..<Suc n] = before"
    using split by (metis nth_append_length) (metis split append_eq_conv_conj)
  with len have "p = length before" "before = [0..<length before]"
    by (simp_all only: nth_upt take_upt) simp_all
  with len show ?thesis by (metis atLeast_upt less_Suc_eq_le)
qed

section \<open>Transition systems\<close>

text \<open>
  A component with state is a set of initial states, a step relation and an invariant.  The locale
  holds the one induction over runs; every component that has operations in sequence interprets it.
\<close>

locale transition_system =
  fixes start :: "'s \<Rightarrow> bool"
    and step :: "'s \<Rightarrow> 's \<Rightarrow> bool"
    and inv :: "'s \<Rightarrow> bool"
  assumes inv_start: "start s \<Longrightarrow> inv s"
    and inv_step: "inv s \<Longrightarrow> step s t \<Longrightarrow> inv t"
begin

lemma inv_rtranclp:
  assumes "step\<^sup>*\<^sup>* s t" and "inv s"
  shows "inv t"
  using assms by (induction rule: rtranclp_induct) (auto intro: inv_step)

lemma inv_reachable:
  assumes "start s" and "step\<^sup>*\<^sup>* s t"
  shows "inv t"
  using assms inv_rtranclp inv_start by blast

end

end
