(* ===== verification/Byte_Order.thy ===== *)
theory Byte_Order
  imports Prelude
begin

text \<open>
  Byte order conversion, \<^verbatim>\<open>adapter/common/kernel/posix/softbus_adapter_socket.c\<close>.  The
  host's byte order is a parameter \<open>e\<close> of every conversion.  \<open>host_bytes e k n\<close> is the memory image of
  a \<open>k\<close>-byte unsigned integer on the host, \<open>host_nat e bs\<close> the integer an image holds.  The results
  say that the \<open>HtoL\<close>/\<open>LtoH\<close> pair fixes a little-endian and \<open>htonl\<close>/\<open>ntohl\<close> a big-endian wire
  format on either kind of host.
\<close>

datatype endian = Little | Big

definition host_bytes :: "endian \<Rightarrow> nat \<Rightarrow> nat \<Rightarrow> bytes" where
  "host_bytes e k n = (case e of Little \<Rightarrow> nat_le k n | Big \<Rightarrow> rev (nat_le k n))"

definition host_nat :: "endian \<Rightarrow> bytes \<Rightarrow> nat" where
  "host_nat e bs = (case e of Little \<Rightarrow> le_nat bs | Big \<Rightarrow> le_nat (rev bs))"

text \<open>The C library's \<open>ntohl\<close> and \<open>htonl\<close>: the image is read, or written, most significant byte first.\<close>

definition ntohl :: "endian \<Rightarrow> nat \<Rightarrow> nat" where
  "ntohl e v = le_nat (rev (host_bytes e 4 v))"

definition htonl :: "endian \<Rightarrow> nat \<Rightarrow> nat" where
  "htonl e v = host_nat e (rev (nat_le 4 v))"

section \<open>The in-place byte swap\<close>

function ShiftByte_loop :: "bytes \<Rightarrow> int \<Rightarrow> int \<Rightarrow> bytes" where
  "ShiftByte_loop bs left right =
     (if left < right then
        let bs = bs[nat left := bs ! nat left XOR bs ! nat right];
            bs = bs[nat right := bs ! nat right XOR bs ! nat left];
            bs = bs[nat left := bs ! nat left XOR bs ! nat right]
        in ShiftByte_loop bs (left + 1) (right - 1)
      else bs)"
  by pat_completeness auto
termination
  by (relation "measure (\<lambda>(bs, left, right). nat (right - left))") auto

declare ShiftByte_loop.simps [simp del]

definition ShiftByte :: "bytes \<Rightarrow> int \<Rightarrow> bytes" where
  "ShiftByte bs inSize = ShiftByte_loop bs 0 (inSize - 1)"

definition IsLittleEndian :: "endian \<Rightarrow> bool" where
  "IsLittleEndian e = (let data = 1 in if data = ntohl e data then False else True)"

definition ProcByteOrder :: "endian \<Rightarrow> bytes \<Rightarrow> int \<Rightarrow> bytes" where
  "ProcByteOrder e val sz = (if IsLittleEndian e then val else ShiftByte val sz)"

definition SoftBusHtoLs :: "endian \<Rightarrow> nat \<Rightarrow> nat" where
  "SoftBusHtoLs e val = host_nat e (ProcByteOrder e (host_bytes e 2 val) 2)"

definition SoftBusHtoLl :: "endian \<Rightarrow> nat \<Rightarrow> nat" where
  "SoftBusHtoLl e val = host_nat e (ProcByteOrder e (host_bytes e 4 val) 4)"

definition SoftBusHtoLll :: "endian \<Rightarrow> nat \<Rightarrow> nat" where
  "SoftBusHtoLll e val = host_nat e (ProcByteOrder e (host_bytes e 8 val) 8)"

definition SoftBusLtoHs :: "endian \<Rightarrow> nat \<Rightarrow> nat" where
  "SoftBusLtoHs e val = host_nat e (ProcByteOrder e (host_bytes e 2 val) 2)"

definition SoftBusLtoHl :: "endian \<Rightarrow> nat \<Rightarrow> nat" where
  "SoftBusLtoHl e val = host_nat e (ProcByteOrder e (host_bytes e 4 val) 4)"

definition SoftBusLtoHll :: "endian \<Rightarrow> nat \<Rightarrow> nat" where
  "SoftBusLtoHll e val = host_nat e (ProcByteOrder e (host_bytes e 8 val) 8)"

section \<open>Lemmas\<close>

lemma length_host_bytes [simp]: "length (host_bytes e k n) = k"
  by (simp add: host_bytes_def split: endian.splits)

lemma host_nat_bytes: "host_nat e (host_bytes e k n) = n mod 256 ^ k"
  by (simp add: host_nat_def host_bytes_def le_nat_nat_le split: endian.splits)

lemma host_nat_bytes_4 [codec_simps]: "n < 4294967296 \<Longrightarrow> host_nat e (host_bytes e 4 n) = n"
  by (simp add: host_nat_bytes)

lemma host_nat_bytes_8 [codec_simps]: "n < 18446744073709551616 \<Longrightarrow> host_nat e (host_bytes e 8 n) = n"
  by (simp add: host_nat_bytes)

lemma host_bytes_nat: "length bs = k \<Longrightarrow> host_bytes e k (host_nat e bs) = bs"
  using nat_le_le_nat [of bs] nat_le_le_nat [of "rev bs"]
  by (auto simp: host_nat_def host_bytes_def split: endian.splits)

lemma host_nat_less: "host_nat e bs < 256 ^ length bs"
  using le_nat_less [of bs] le_nat_less [of "rev bs"] by (simp add: host_nat_def split: endian.splits)

lemma byte_xor_swap:
  "y XOR (x XOR y) = (x :: byte)" "(x XOR y) XOR x = (y :: byte)"
  by (simp_all add: xor.left_commute xor.commute)

text \<open>
  The three exclusive-or assignments of the loop exchange the two bytes, so a run of the loop from
  \<open>left\<close> to \<open>right\<close> reverses that segment and keeps the rest.
\<close>

lemma ShiftByte_step:
  fixes bs :: bytes
  assumes "i < length bs" and "j < length bs" and "i \<noteq> j"
  shows "(let bs = bs[i := bs ! i XOR bs ! j];
              bs = bs[j := bs ! j XOR bs ! i];
              bs = bs[i := bs ! i XOR bs ! j] in bs) = bs[i := bs ! j, j := bs ! i]"
  using assms by (simp add: Let_def byte_xor_swap list_update_swap [of j i])

lemma ShiftByte_loop_swap:
  assumes "0 \<le> left" and "left < right" and "right < int (length bs)"
  shows "ShiftByte_loop bs left right =
    ShiftByte_loop (bs[nat left := bs ! nat right, nat right := bs ! nat left]) (left + 1) (right - 1)"
  using ShiftByte_step [of "nat left" bs "nat right"] assms
  by (subst ShiftByte_loop.simps) (simp add: Let_def)

lemma ShiftByte_loop_rev:
  assumes "length mid = nat (right - left + 1)" and "left = int (length pre)" and "left \<le> right + 1"
  shows "ShiftByte_loop (pre @ mid @ post) left right = pre @ rev mid @ post"
  using assms
proof (induction "nat (right - left + 1)" arbitrary: pre mid post left right rule: less_induct)
  case less
  show ?case
  proof (cases "left < right")
    case False
    with less.prems have "length mid \<le> 1" by simp
    then have "rev mid = mid" by (cases mid) auto
    with False show ?thesis by (simp add: ShiftByte_loop.simps)
  next
    case True
    with less.prems(1) have len: "2 \<le> length mid" by linarith
    then obtain a m where m: "mid = a # m" and "m \<noteq> []" by (cases mid) (auto simp: Suc_le_length_iff)
    then obtain k b where k: "mid = a # k @ [b]" by (metis rev_exhaust)
    let ?bs = "pre @ mid @ post"
    have idx: "nat left = length pre" "nat right = length pre + Suc (length k)"
      using less.prems k True by auto
    have nth: "?bs ! nat left = a" "?bs ! nat right = b"
      unfolding idx k by (simp_all add: nth_append)
    have upd: "?bs[nat left := b, nat right := a] = (pre @ [b]) @ k @ (a # post)"
      unfolding idx k by (simp add: list_update_append)
    have "ShiftByte_loop ?bs left right = ShiftByte_loop ((pre @ [b]) @ k @ (a # post)) (left + 1) (right - 1)"
      using ShiftByte_loop_swap [of left right ?bs] True less.prems nth upd k by simp
    also have "\<dots> = (pre @ [b]) @ rev k @ (a # post)"
      using less.prems True k by (intro less.hyps) auto
    finally show ?thesis by (simp add: k)
  qed
qed

lemma ShiftByte_rev [simp]: "n = int (length bs) \<Longrightarrow> ShiftByte bs n = rev bs"
  using ShiftByte_loop_rev [of bs "int (length bs) - 1" 0 "[]" "[]"] by (simp add: ShiftByte_def)

lemma IsLittleEndian_iff [simp]: "IsLittleEndian e \<longleftrightarrow> e = Little"
  by (cases e) (simp_all add: IsLittleEndian_def ntohl_def host_bytes_def nat_le_4)

lemma ProcByteOrder_eq:
  "sz = int (length bs) \<Longrightarrow> ProcByteOrder e bs sz = (case e of Little \<Rightarrow> bs | Big \<Rightarrow> rev bs)"
  by (simp add: ProcByteOrder_def split: endian.splits)

lemma wire_le:
  "host_nat e (ProcByteOrder e (host_bytes e k n) (int k)) = host_nat e (nat_le k n)"
  by (simp add: ProcByteOrder_eq host_bytes_def split: endian.splits)

lemma SoftBusHtoLl_bytes [codec_simps]: "host_bytes e 4 (SoftBusHtoLl e v) = nat_le 4 v"
  using wire_le [of e 4 v] by (simp add: SoftBusHtoLl_def host_bytes_nat)

lemma SoftBusHtoLll_bytes [codec_simps]: "host_bytes e 8 (SoftBusHtoLll e v) = nat_le 8 v"
  using wire_le [of e 8 v] by (simp add: SoftBusHtoLll_def host_bytes_nat)

lemma SoftBusLtoHl_nat [codec_simps]: "length bs = 4 \<Longrightarrow> SoftBusLtoHl e (host_nat e bs) = le_nat bs"
  by (simp add: SoftBusLtoHl_def host_bytes_nat ProcByteOrder_eq) (simp add: host_nat_def split: endian.splits)

lemma SoftBusLtoHll_nat [codec_simps]: "length bs = 8 \<Longrightarrow> SoftBusLtoHll e (host_nat e bs) = le_nat bs"
  by (simp add: SoftBusLtoHll_def host_bytes_nat ProcByteOrder_eq) (simp add: host_nat_def split: endian.splits)

lemma htonl_bytes [codec_simps]: "host_bytes e 4 (htonl e v) = rev (nat_le 4 v)"
  by (simp add: htonl_def host_bytes_nat)

lemma ntohl_nat [codec_simps]: "length bs = 4 \<Longrightarrow> ntohl e (host_nat e bs) = le_nat (rev bs)"
  by (simp add: ntohl_def host_bytes_nat)

lemma SoftBusHtoLl_Little [simp]: "v < 4294967296 \<Longrightarrow> SoftBusHtoLl Little v = v"
  by (simp add: SoftBusHtoLl_def ProcByteOrder_eq host_nat_bytes)

lemma SoftBusLtoHl_Little [simp]: "v < 4294967296 \<Longrightarrow> SoftBusLtoHl Little v = v"
  by (simp add: SoftBusLtoHl_def ProcByteOrder_eq host_nat_bytes)

end
