(* ===== verification/Adapter_Mem.thy ===== *)
theory Adapter_Mem
  imports Prelude
begin

text \<open>
  The allocator of \<^verbatim>\<open>adapter/common/kernel/posix/softbus_adapter_mem.c\<close>.  Whether the C
  library's \<open>malloc\<close> succeeds is the argument \<open>ok\<close>.  \<open>memset_s\<close> refuses a block of size 0, so a
  request for no bytes never succeeds.
\<close>

definition MAX_MALLOC_SIZE :: nat where
  "MAX_MALLOC_SIZE = 512 * 1024 * 1024"

definition SoftBusMalloc :: "bool \<Rightarrow> nat \<Rightarrow> bool" where
  "SoftBusMalloc ok sz = (if sz > MAX_MALLOC_SIZE then False else ok)"

definition SoftBusCalloc :: "bool \<Rightarrow> nat \<Rightarrow> bytes option" where
  "SoftBusCalloc ok sz =
     (if \<not> SoftBusMalloc ok sz then None
      else if sz = 0 \<or> sz > SECUREC_MEM_MAX_LEN then None
      else Some (replicate sz 0))"

lemma SoftBusCalloc_Some:
  "SoftBusCalloc ok sz = Some m \<longleftrightarrow> ok \<and> 0 < sz \<and> sz \<le> MAX_MALLOC_SIZE \<and> m = replicate sz 0"
  by (auto simp: SoftBusCalloc_def SoftBusMalloc_def MAX_MALLOC_SIZE_def SECUREC_MEM_MAX_LEN_def)

lemma SoftBusCalloc_True: "0 < sz \<Longrightarrow> sz \<le> MAX_MALLOC_SIZE \<Longrightarrow> SoftBusCalloc True sz = Some (replicate sz 0)"
  by (simp add: SoftBusCalloc_Some)

end
