(* ===== verification/Seq_Verification.thy ===== *)
theory Seq_Verification
  imports Prelude
begin
unbundle bit_operations_syntax

text \<open>
  The receive window of \<^verbatim>\<open>core/common/security/sequence_verification/softbus_sequence_verification.c\<close>.
  Sequence numbers are 32-bit words read as two's complement; the subtractions of the source wrap, as its
  comment about the flip expects.  Every check returns whether the packet passes and the updated record.
\<close>

abbreviation MAX_SEQ_BIAS :: int where "MAX_SEQ_BIAS \<equiv> 60"

record SeqVerifyInfo =
  maxSeq :: "32 word"
  minSeq :: "32 word"
  recvBitmap :: "64 word"

definition IsDifferentSign :: "32 word \<Rightarrow> 32 word \<Rightarrow> bool" where
  "IsDifferentSign seqA seqB =
     (if (sint seqA \<ge> 0 \<and> sint seqB \<ge> 0) \<or> (sint seqA < 0 \<and> sint seqB < 0) then False else True)"

text \<open>
  \<open>0x1UL\<close> is a word of 64 bits, the width of the bitmap.  C leaves a shift by 64 or more undefined; here it gives 0.  In a window the shift is
  at most 59 (\<open>duplicate_shift\<close> below), so this choice matters only after a packet half the range of numbers away.
\<close>

definition IsPassDuplicateCheck :: "SeqVerifyInfo \<Rightarrow> 32 word \<Rightarrow> bool \<times> SeqVerifyInfo" where
  "IsPassDuplicateCheck s recvSeq =
     (let offset = maxSeq s - recvSeq;
          isRepeat = recvBitmap s AND push_bit (unat offset) 1
      in if isRepeat \<noteq> 0 then (False, s)
         else (True, s\<lparr>recvBitmap := recvBitmap s OR push_bit (unat offset) 1\<rparr>))"

definition IsPassOverMaxCheck :: "SeqVerifyInfo \<Rightarrow> 32 word \<Rightarrow> bool \<times> SeqVerifyInfo" where
  "IsPassOverMaxCheck s recvSeq =
     (if sint (recvSeq - maxSeq s) < 0 then (False, s)
      else if sint (recvSeq - minSeq s) \<ge> MAX_SEQ_BIAS then (False, s)
      else
        let seqOffset = recvSeq - maxSeq s + 1
        in (True, s\<lparr>maxSeq := recvSeq + 1,
                    recvBitmap := push_bit (unat seqOffset) (recvBitmap s) OR push_bit 1 1\<rparr>))"

definition IsPassAllRangeCheck :: "SeqVerifyInfo \<Rightarrow> 32 word \<Rightarrow> bool \<times> SeqVerifyInfo" where
  "IsPassAllRangeCheck s recvSeq =
     (if recvSeq = minSeq s then (True, s\<lparr>minSeq := recvSeq + 1\<rparr>)
      else if sint recvSeq > sint (minSeq s) then
        (if sint recvSeq < sint (maxSeq s) then IsPassDuplicateCheck s recvSeq
         else IsPassOverMaxCheck s recvSeq)
      else (False, s))"

definition IsPassNormalCheck :: "SeqVerifyInfo \<Rightarrow> 32 word \<Rightarrow> bool \<times> SeqVerifyInfo" where
  "IsPassNormalCheck s recvSeq =
     (if recvSeq = minSeq s then (True, s\<lparr>minSeq := recvSeq + 1, maxSeq := recvSeq + 1\<rparr>)
      else if \<not> IsDifferentSign recvSeq (minSeq s) then
        (if sint recvSeq > sint (maxSeq s) then IsPassOverMaxCheck s recvSeq else (False, s))
      else IsPassOverMaxCheck s recvSeq)"

definition IsPassNoflipDisorderCheck :: "SeqVerifyInfo \<Rightarrow> 32 word \<Rightarrow> bool \<times> SeqVerifyInfo" where
  "IsPassNoflipDisorderCheck s recvSeq =
     (if sint (minSeq s) \<ge> 0 then
        (if sint recvSeq \<ge> 0 then IsPassAllRangeCheck s recvSeq else IsPassOverMaxCheck s recvSeq)
      else if sint (maxSeq s) < 0 then
        (if sint recvSeq < 0 then IsPassAllRangeCheck s recvSeq else IsPassOverMaxCheck s recvSeq)
      else (False, s))"

definition IsPassFlipPositiveCheck :: "SeqVerifyInfo \<Rightarrow> 32 word \<Rightarrow> bool \<times> SeqVerifyInfo" where
  "IsPassFlipPositiveCheck s recvSeq =
     (if sint recvSeq \<ge> 0 then
        (if sint recvSeq < sint (maxSeq s) then IsPassDuplicateCheck s recvSeq
         else IsPassOverMaxCheck s recvSeq)
      else if recvSeq = minSeq s then (True, s\<lparr>minSeq := recvSeq + 1\<rparr>)
      else if sint recvSeq > sint (minSeq s) then IsPassDuplicateCheck s recvSeq
      else (False, s))"

definition IsPassFlipNegativeCheck :: "SeqVerifyInfo \<Rightarrow> 32 word \<Rightarrow> bool \<times> SeqVerifyInfo" where
  "IsPassFlipNegativeCheck s recvSeq =
     (if sint recvSeq \<ge> 0 then
        (if recvSeq = minSeq s then (True, s\<lparr>minSeq := recvSeq + 1\<rparr>)
         else if sint recvSeq > sint (minSeq s) then IsPassDuplicateCheck s recvSeq
         else (False, s))
      else if sint recvSeq < sint (maxSeq s) then IsPassDuplicateCheck s recvSeq
      else IsPassOverMaxCheck s recvSeq)"

text \<open>The pointer argument is an option; a null pointer is refused.\<close>

definition IsPassSeqCheck :: "SeqVerifyInfo option \<Rightarrow> 32 word \<Rightarrow> bool \<times> SeqVerifyInfo option" where
  "IsPassSeqCheck info recvSeq =
     (case info of None \<Rightarrow> (False, None)
      | Some s \<Rightarrow> apsnd Some
        (let isDifferentSign = IsDifferentSign (minSeq s) (maxSeq s)
         in if minSeq s = maxSeq s then IsPassNormalCheck s recvSeq
            else if sint (minSeq s) < sint (maxSeq s) \<and> \<not> isDifferentSign then IsPassNoflipDisorderCheck s recvSeq
            else if sint (minSeq s) > sint (maxSeq s) \<and> isDifferentSign then IsPassFlipNegativeCheck s recvSeq
            else if sint (minSeq s) < sint (maxSeq s) \<and> isDifferentSign then IsPassFlipPositiveCheck s recvSeq
            else (False, s)))"

section \<open>Reference window\<close>

text \<open>
  The window as the header documents it, on the distance of the packet from \<open>minSeq\<close>: below the window a
  packet is a duplicate, at \<open>minSeq\<close> the window advances, inside it the bitmap decides, above it the window
  grows up to \<open>MAX_SEQ_BIAS\<close>.
\<close>

definition window_check :: "SeqVerifyInfo \<Rightarrow> 32 word \<Rightarrow> bool \<times> SeqVerifyInfo" where
  "window_check s r =
     (let dist = sint (r - minSeq s); width = sint (maxSeq s - minSeq s)
      in if dist < 0 then (False, s)
         else if dist = 0 then
           (True, if width = 0 then s\<lparr>minSeq := r + 1, maxSeq := r + 1\<rparr> else s\<lparr>minSeq := r + 1\<rparr>)
         else if dist < width then
           (if bit (recvBitmap s) (nat (width - dist)) then (False, s)
            else (True, s\<lparr>recvBitmap := set_bit (nat (width - dist)) (recvBitmap s)\<rparr>))
         else if dist < MAX_SEQ_BIAS then
           (True, s\<lparr>maxSeq := r + 1, recvBitmap := set_bit 1 (push_bit (nat (dist - width + 1)) (recvBitmap s))\<rparr>)
         else (False, s))"

definition seq_window :: "SeqVerifyInfo \<Rightarrow> bool" where
  "seq_window s \<longleftrightarrow> 0 \<le> sint (maxSeq s - minSeq s) \<and> sint (maxSeq s - minSeq s) \<le> MAX_SEQ_BIAS"

text \<open>Packets half the number range away, where the two wrapped differences of the source disagree in sign.\<close>

definition seq_gap :: "SeqVerifyInfo \<Rightarrow> 32 word \<Rightarrow> bool" where
  "seq_gap s r \<longleftrightarrow> sint (r - minSeq s) < 0 \<and> sint (r - maxSeq s) \<ge> 0 \<and> minSeq s \<noteq> maxSeq s"

section \<open>Signed distances\<close>

lemma sint_range: "- 2147483648 \<le> sint (x :: 32 word)" "sint (x :: 32 word) \<le> 2147483647"
  using sint_ge [of x] sint_lt [of x] by simp_all

lemma smod32:
  assumes "- 4294967296 < d" "d < (4294967296 :: int)"
  shows "(d + 2147483648) mod 4294967296 - 2147483648 =
    (if d < - 2147483648 then d + 4294967296 else if d > 2147483647 then d - 4294967296 else d)"
proof -
  have "(d + 2147483648) mod 4294967296 = (d + 2147483648 + 4294967296) mod 4294967296"
    "(d + 2147483648) mod 4294967296 = (d + 2147483648 - 4294967296) mod 4294967296"
    by (simp_all only: mod_add_self2 minus_mod_self2)
  then show ?thesis
    using assms mod_pos_pos_trivial [of "d + 2147483648" 4294967296]
      mod_pos_pos_trivial [of "d + 2147483648 + 4294967296" 4294967296]
      mod_pos_pos_trivial [of "d + 2147483648 - 4294967296" 4294967296] by auto
qed

lemma sint_diff:
  "sint (a - b :: 32 word) =
     (if sint a - sint b < - 2147483648 then sint a - sint b + 4294967296
      else if sint a - sint b > 2147483647 then sint a - sint b - 4294967296
      else sint a - sint b)"
proof -
  have "sint (a - b) = (sint a - sint b + 2147483648) mod 4294967296 - 2147483648"
    by (simp add: sint_word_diff signed_take_bit_eq_take_bit_shift take_bit_eq_mod)
  also have "\<dots> = (if sint a - sint b < - 2147483648 then sint a - sint b + 4294967296
      else if sint a - sint b > 2147483647 then sint a - sint b - 4294967296
      else sint a - sint b)"
    by (rule smod32) (use sint_range [of a] sint_range [of b] in auto)
  finally show ?thesis .
qed
lemma unat_sint_nonneg: "0 \<le> sint (x :: 32 word) \<Longrightarrow> unat x = nat (sint x)"
proof -
  assume "0 \<le> sint x"
  then have "uint x = sint x"
    using sint_range [of x] uint_sint [of x] by (simp add: take_bit_eq_mod)
  then show ?thesis by (simp add: unat_eq_nat_uint)
qed

lemma sint_eq_iff: "a = b \<longleftrightarrow> sint (a :: 32 word) = sint b"
  by (rule word_eq_iff_signed)

lemma DuplicateCheck_eq:
  assumes "0 \<le> sint (maxSeq s - r)"
  shows "IsPassDuplicateCheck s r =
    (if bit (recvBitmap s) (nat (sint (maxSeq s - r))) then (False, s)
     else (True, s\<lparr>recvBitmap := set_bit (nat (sint (maxSeq s - r))) (recvBitmap s)\<rparr>))"
  using assms by (simp add: IsPassDuplicateCheck_def Let_def unat_sint_nonneg set_bit_def
      bit_iff_and_push_bit_not_eq_0 del: push_bit_of_1)

lemma sint_succ: "sint x < 2147483647 \<Longrightarrow> sint (x + 1 :: 32 word) = sint x + 1"
  using sint_range [of x] by (simp add: sint_word_add signed_take_bit_eq_take_bit_shift take_bit_eq_mod)

lemma OverMaxCheck_eq:
  assumes win: "seq_window s" and gap: "\<not> seq_gap s r"
  shows "IsPassOverMaxCheck s r =
    (let dist = sint (r - minSeq s); width = sint (maxSeq s - minSeq s)
     in if width \<le> dist \<and> dist < MAX_SEQ_BIAS
        then (True, s\<lparr>maxSeq := r + 1, recvBitmap := set_bit 1 (push_bit (nat (dist - width + 1)) (recvBitmap s))\<rparr>)
        else (False, s))"
proof -
  note facts = win gap sint_range [of r] sint_range [of "minSeq s"] sint_range [of "maxSeq s"]
  let ?over = "sint (r - maxSeq s)" and ?dist = "sint (r - minSeq s)" and ?width = "sint (maxSeq s - minSeq s)"
  have iff: "0 \<le> ?over \<and> ?dist < MAX_SEQ_BIAS \<longleftrightarrow> ?width \<le> ?dist \<and> ?dist < MAX_SEQ_BIAS"
    using facts unfolding seq_gap_def seq_window_def sint_eq_iff [of "minSeq s"] sint_diff
    by (auto split: if_splits)
  have off: "unat (r - maxSeq s + 1) = nat (?dist - ?width + 1)"
    if "0 \<le> ?over" "?dist < MAX_SEQ_BIAS"
  proof -
    have "?over = ?dist - ?width"
      using facts that unfolding seq_gap_def seq_window_def sint_eq_iff [of "minSeq s"] sint_diff
      by (auto split: if_splits)
    moreover have "?over < MAX_SEQ_BIAS"
      using that calculation win by (simp add: seq_window_def)
    ultimately show ?thesis
      using that by (subst unat_sint_nonneg) (simp_all add: sint_succ)
  qed
  show ?thesis
    using iff off by (auto simp: IsPassOverMaxCheck_def Let_def set_bit_def simp del: push_bit_of_1)
qed


text \<open>The duplicate check is reached for the numbers strictly between \<open>minSeq\<close> and \<open>maxSeq\<close>; its shift is defined there.\<close>

lemma duplicate_shift:
  assumes "seq_window s" "0 < sint (r - minSeq s)" "sint (r - minSeq s) < sint (maxSeq s - minSeq s)"
  shows "unat (maxSeq s - r) < 60"
proof -
  have "sint (maxSeq s - r) = sint (maxSeq s - minSeq s) - sint (r - minSeq s)"
    using assms sint_range [of r] sint_range [of "minSeq s"] sint_range [of "maxSeq s"] unfolding seq_window_def sint_diff by (auto split: if_splits)
  with assms show ?thesis by (simp add: unat_sint_nonneg seq_window_def nat_less_iff)
qed

lemmas seq_checks = IsPassNormalCheck_def IsPassNoflipDisorderCheck_def IsPassFlipPositiveCheck_def
  IsPassFlipNegativeCheck_def IsPassAllRangeCheck_def IsDifferentSign_def

text \<open>The signed comparisons of the source, in terms of the distance from \<open>minSeq\<close>.\<close>

lemma seq_check_window:
  assumes win: "seq_window s" and gap: "\<not> seq_gap s r"
  shows "IsPassSeqCheck (Some s) r = apsnd Some (window_check s r)"
proof -
  note facts = win gap sint_range [of r] sint_range [of "minSeq s"] sint_range [of "maxSeq s"]
  let ?dist = "sint (r - minSeq s)" and ?width = "sint (maxSeq s - minSeq s)"
  have dup: "IsPassDuplicateCheck s r = window_check s r" if "0 < ?dist" "?dist < ?width"
  proof -
    have "sint (maxSeq s - r) = ?width - ?dist"
      using facts that unfolding seq_window_def sint_diff by (auto split: if_splits)
    then show ?thesis using that by (simp add: DuplicateCheck_eq window_check_def Let_def)
  qed
  have over: "IsPassOverMaxCheck s r = window_check s r" if "?dist < 0 \<or> ?width \<le> ?dist \<and> 0 < ?dist"
    using that win gap by (auto simp: OverMaxCheck_eq window_check_def seq_window_def Let_def)
  have below: "window_check s r = (False, s)" if "?dist < 0"
    using that by (simp add: window_check_def Let_def)
  note arith = facts [unfolded seq_window_def seq_gap_def sint_eq_iff [of "minSeq s"] sint_diff]
  show ?thesis
  proof (cases "r = minSeq s")
    case True
    then have "window_check s r =
        (True, if minSeq s = maxSeq s then s\<lparr>minSeq := r + 1, maxSeq := r + 1\<rparr> else s\<lparr>minSeq := r + 1\<rparr>)"
      using arith by (auto simp: window_check_def Let_def sint_eq_iff [of "minSeq s"] sint_diff split: if_splits)
    with True show ?thesis
      using arith by (auto simp: IsPassSeqCheck_def Let_def seq_checks sint_eq_iff [of "minSeq s"] split: if_splits)
  next
    case False
    then have ne: "sint r \<noteq> sint (minSeq s)" by (simp add: sint_eq_iff)
    have normal: "IsPassNormalCheck s r = window_check s r" if "minSeq s = maxSeq s"
      using that False unfolding IsPassNormalCheck_def IsDifferentSign_def
      by (auto intro!: over below [symmetric]) (use ne arith in \<open>auto simp: sint_diff split: if_splits\<close>)
    have noflip: "IsPassNoflipDisorderCheck s r = window_check s r"
      if "sint (minSeq s) < sint (maxSeq s)" "\<not> IsDifferentSign (minSeq s) (maxSeq s)"
      using that False unfolding IsPassNoflipDisorderCheck_def IsPassAllRangeCheck_def IsDifferentSign_def
      by (auto intro!: dup over below [symmetric] split: if_splits)
        (use ne arith in \<open>auto simp: sint_diff split: if_splits\<close>)
    have negative: "IsPassFlipNegativeCheck s r = window_check s r"
      if "sint (minSeq s) > sint (maxSeq s)" "IsDifferentSign (minSeq s) (maxSeq s)"
      using that False unfolding IsPassFlipNegativeCheck_def IsDifferentSign_def
      by (auto intro!: dup over below [symmetric] split: if_splits)
        (use ne arith in \<open>auto simp: sint_diff split: if_splits\<close>)
    have positive: "IsPassFlipPositiveCheck s r = window_check s r"
      if "sint (minSeq s) < sint (maxSeq s)" "IsDifferentSign (minSeq s) (maxSeq s)"
      using that False unfolding IsPassFlipPositiveCheck_def IsDifferentSign_def
      by (auto intro!: dup over below [symmetric] split: if_splits)
        (use ne arith in \<open>auto simp: sint_diff split: if_splits\<close>)
    have "sint (minSeq s) < sint (maxSeq s) \<or> IsDifferentSign (minSeq s) (maxSeq s)" if "minSeq s \<noteq> maxSeq s"
      using that arith by (auto simp: sint_eq_iff IsDifferentSign_def split: if_splits)
    with normal noflip negative positive show ?thesis
      by (auto simp: IsPassSeqCheck_def Let_def sint_eq_iff [of "minSeq s"])
  qed
qed

section \<open>Runs of the window\<close>

text \<open>Packets are checked one after the other; \<open>seq_run\<close> gives the verdicts and the final record.\<close>

fun seq_run :: "SeqVerifyInfo \<Rightarrow> 32 word list \<Rightarrow> bool list \<times> SeqVerifyInfo" where
  "seq_run s [] = ([], s)"
| "seq_run s (r # rs) =
     (case IsPassSeqCheck (Some s) r of
        (b, Some s') \<Rightarrow> (case seq_run s' rs of (bs, s'') \<Rightarrow> (b # bs, s''))
      | (b, None) \<Rightarrow> ([b], s))"

fun no_gap :: "SeqVerifyInfo \<Rightarrow> 32 word list \<Rightarrow> bool" where
  "no_gap s [] = True"
| "no_gap s (r # rs) = (\<not> seq_gap s r \<and> no_gap (the (snd (IsPassSeqCheck (Some s) r))) rs)"

definition seq_start :: "32 word \<Rightarrow> SeqVerifyInfo" where
  "seq_start n = \<lparr>maxSeq = n, minSeq = n, recvBitmap = 0\<rparr>"

lemma sint_plus_one: "sint (x :: 32 word) \<le> 60 \<Longrightarrow> sint (x + 1) = sint x + 1"
  by (simp add: sint_succ)

lemma sint_diff_zero [simp]: "sint (a - b :: 32 word) = 0 \<longleftrightarrow> a = b"
  using sint_eq_iff [of "a - b" 0] by simp

abbreviation seq_dist :: "SeqVerifyInfo \<Rightarrow> 32 word \<Rightarrow> int" where
  "seq_dist s q \<equiv> sint (q - minSeq s)"

abbreviation seq_width :: "SeqVerifyInfo \<Rightarrow> int" where
  "seq_width s \<equiv> sint (maxSeq s - minSeq s)"

text \<open>The four ways a packet moves the window.\<close>

lemma window_check_cases:
  obtains (reject) "window_check s r = (False, s)"
      "seq_dist s r < 0 \<or> 0 < seq_dist s r \<and> seq_dist s r < seq_width s \<and> bit (recvBitmap s) (nat (seq_width s - seq_dist s r))
       \<or> MAX_SEQ_BIAS \<le> seq_dist s r"
  | (advance) "r = minSeq s"
      "window_check s r = (True, s\<lparr>minSeq := r + 1, maxSeq := (if minSeq s = maxSeq s then r + 1 else maxSeq s)\<rparr>)"
  | (mark) "0 < seq_dist s r" "seq_dist s r < seq_width s"
      "window_check s r = (True, s\<lparr>recvBitmap := set_bit (nat (seq_width s - seq_dist s r)) (recvBitmap s)\<rparr>)"
  | (grow) "0 < seq_dist s r" "seq_width s \<le> seq_dist s r" "seq_dist s r < MAX_SEQ_BIAS"
      "window_check s r = (True, s\<lparr>maxSeq := r + 1,
         recvBitmap := set_bit 1 (push_bit (nat (seq_dist s r - seq_width s + 1)) (recvBitmap s))\<rparr>)"
proof -
  consider "seq_dist s r < 0" | "r = minSeq s"
    | "0 < seq_dist s r" "seq_dist s r < seq_width s" "bit (recvBitmap s) (nat (seq_width s - seq_dist s r))"
    | "0 < seq_dist s r" "seq_dist s r < seq_width s" "\<not> bit (recvBitmap s) (nat (seq_width s - seq_dist s r))"
    | "0 < seq_dist s r" "seq_width s \<le> seq_dist s r" "seq_dist s r < MAX_SEQ_BIAS"
    | "0 < seq_dist s r" "seq_width s \<le> seq_dist s r" "MAX_SEQ_BIAS \<le> seq_dist s r"
    using sint_diff_zero [of r "minSeq s"] by linarith
  then show thesis
    by cases (rule that; simp add: window_check_def Let_def; fail
      | rule that; simp add: window_check_def Let_def del: sint_diff_zero; fail)+
qed

lemma seq_dist_advance:
  assumes "- 2147483648 < sint (a - b :: 32 word)"
  shows "sint (a - (b + 1)) = sint (a - b) - 1"
  using assms sint_range [of "a - b"] sint_diff [of "a - b" 1] by (simp only: diff_diff_eq) simp

lemma seq_dist_succ:
  assumes "sint (a - b :: 32 word) < MAX_SEQ_BIAS"
  shows "sint (a + 1 - b) = sint (a - b) + 1"
  using assms sint_plus_one [of "a - b"] by (simp only: diff_add_eq)

lemma window_check_window:
  assumes "seq_window s"
  shows "seq_window (snd (window_check s r))"
proof (cases rule: window_check_cases [of s r])
  case advance
  have "0 < seq_width s" if "minSeq s \<noteq> maxSeq s"
    using that assms sint_diff_zero [of "maxSeq s" "minSeq s"] by (auto simp: seq_window_def order_le_less)
  with advance assms show ?thesis by (auto simp: seq_window_def seq_dist_advance)
qed (use assms in \<open>auto simp: seq_window_def seq_dist_succ\<close>)

text \<open>
  What the record remembers of a packet \<open>q\<close>: it lies below the window, is marked in it, or is the next one
  expected; \<open>k\<close> bounds how far the window has moved past it.
\<close>

definition seq_seen :: "SeqVerifyInfo \<Rightarrow> 32 word \<Rightarrow> nat \<Rightarrow> bool" where
  "seq_seen s q k \<longleftrightarrow> - int k \<le> seq_dist s q \<and> seq_dist s q < max 1 (seq_width s) \<and>
     (0 < seq_dist s q \<longrightarrow> bit (recvBitmap s) (nat (seq_width s - seq_dist s q)))"

lemma bit_grow:
  fixes w :: "64 word"
  assumes "0 \<le> a" "a \<le> b" "b < 64"
  shows "bit (set_bit 1 (push_bit (nat a) w)) (nat b) \<longleftrightarrow> b = 1 \<or> bit w (nat (b - a))"
  using assms by (auto simp: bit_simps nat_diff_distrib' le_nat_iff)

lemma seq_seen_step:
  assumes win: "seq_window s" and seen: "seq_seen s q k" and k: "k < 2147483640"
  shows "seq_seen (snd (window_check s r)) q (Suc k)"
proof (cases rule: window_check_cases [of s r])
  case advance
  have "sint (q - (minSeq s + 1)) = seq_dist s q - 1"
    using seen k by (intro seq_dist_advance) (auto simp: seq_seen_def)
  moreover have "sint (maxSeq s - (minSeq s + 1)) = seq_width s - 1"
    using win by (intro seq_dist_advance) (auto simp: seq_window_def)
  ultimately show ?thesis
    using advance seen by (auto simp: seq_seen_def)
next
  case grow
  have "sint (r + 1 - minSeq s) = seq_dist s r + 1"
    using grow by (intro seq_dist_succ)
  moreover have "bit (set_bit 1 (push_bit (nat (seq_dist s r - seq_width s + 1)) (recvBitmap s))) (nat (seq_dist s r + 1 - seq_dist s q))"
    if "0 < seq_dist s q"
    using that grow seen by (subst bit_grow) (auto simp: seq_seen_def algebra_simps)
  ultimately show ?thesis
    using grow seen by (auto simp: seq_seen_def)
qed (use seen in \<open>auto simp: seq_seen_def bit_simps\<close>)

lemma seq_seen_rejected:
  assumes "seq_seen s q k" "q \<noteq> minSeq s"
  shows "\<not> fst (window_check s q)"
  using assms sint_diff_zero [of q "minSeq s"] by (auto simp: seq_seen_def window_check_def Let_def simp del: sint_diff_zero)

lemma seq_seen_accepted:
  assumes "fst (window_check s q)" "seq_window s"
  shows "seq_seen (snd (window_check s q)) q 1"
proof (cases rule: window_check_cases [of s q])
  case grow
  then have "sint (q + 1 - minSeq s) = seq_dist s q + 1" by (intro seq_dist_succ)
  with grow assms show ?thesis by (auto simp: seq_seen_def bit_simps seq_window_def)
next
  case mark
  with assms show ?thesis by (auto simp: seq_seen_def bit_simps seq_window_def)
next
  case advance
  then show ?thesis using seq_dist_advance [of q q] by (simp add: seq_seen_def)
qed (use assms in auto)

lemma seq_seen_no_gap:
  assumes "seq_window s" "seq_seen s q k" "k < 2147483500"
  shows "\<not> seq_gap s q"
  using assms sint_range [of q] sint_range [of "minSeq s"] sint_range [of "maxSeq s"]
  by (auto simp: seq_gap_def seq_seen_def seq_window_def sint_diff split: if_splits)

text \<open>The marks in the window stand for packets of \<open>A\<close>; the lowest bit is never used.\<close>

definition seq_marks :: "SeqVerifyInfo \<Rightarrow> 32 word set \<Rightarrow> bool" where
  "seq_marks s A \<longleftrightarrow> \<not> bit (recvBitmap s) 0 \<and>
     (\<forall>q. 0 < seq_dist s q \<and> seq_dist s q < seq_width s \<and> bit (recvBitmap s) (nat (seq_width s - seq_dist s q)) \<longrightarrow> q \<in> A)"

lemma seq_marks_step:
  assumes win: "seq_window s" and marks: "seq_marks s A"
  shows "seq_marks (snd (window_check s r)) (insert r A)"
proof (cases rule: window_check_cases [of s r])
  case advance
  have width: "sint (maxSeq s - (minSeq s + 1)) = seq_width s - 1"
    using win by (intro seq_dist_advance) (auto simp: seq_window_def)
  have "q \<in> A" if q: "0 < sint (q - (minSeq s + 1))" "sint (q - (minSeq s + 1)) < seq_width s - 1"
    "bit (recvBitmap s) (nat (seq_width s - 1 - sint (q - (minSeq s + 1))))" for q
  proof -
    have "seq_dist s q = sint (q - (minSeq s + 1)) + 1"
      using q win sint_plus_one [of "q - (minSeq s + 1)"] by (simp add: seq_window_def)
    with q marks show ?thesis by (auto simp: seq_marks_def algebra_simps)
  qed
  with width advance marks show ?thesis
    by (cases "minSeq s = maxSeq s") (auto simp: seq_marks_def)
next
  case mark
  have "q = r" if "seq_dist s q = seq_dist s r" for q
    using that by (simp flip: sint_eq_iff)
  with mark marks show ?thesis
    by (auto simp: seq_marks_def bit_simps nat_eq_iff)
next
  case grow
  have q: "sint (r + 1 - minSeq s) = seq_dist s r + 1"
    using grow by (intro seq_dist_succ)
  have "q = r" if "seq_dist s q = seq_dist s r" for q
    using that by (simp flip: sint_eq_iff)
  moreover have "bit (recvBitmap s) (nat (seq_width s - seq_dist s q)) \<and> 0 < seq_width s - seq_dist s q \<or> seq_dist s q = seq_dist s r"
    if "0 < seq_dist s q" "seq_dist s q < seq_dist s r + 1"
      "bit (set_bit 1 (push_bit (nat (seq_dist s r - seq_width s + 1)) (recvBitmap s))) (nat (seq_dist s r + 1 - seq_dist s q))" for q
  proof (cases "seq_dist s r - seq_width s + 1 \<le> seq_dist s r + 1 - seq_dist s q")
    case True
    have "\<not> bit (recvBitmap s) 0" using marks by (simp add: seq_marks_def)
    moreover have "seq_dist s r + 1 - seq_dist s q = 1 \<or> bit (recvBitmap s) (nat (seq_width s - seq_dist s q))"
      using True that grow bit_grow [of "seq_dist s r - seq_width s + 1" "seq_dist s r + 1 - seq_dist s q" "recvBitmap s"]
      by simp
    moreover have "0 \<le> seq_width s - seq_dist s q" using True by simp
    ultimately show ?thesis by (cases "seq_width s = seq_dist s q") auto
  next
    case False
    with that grow show ?thesis by (auto simp: bit_simps)
  qed
  moreover have "\<not> bit (set_bit 1 (push_bit (nat (seq_dist s r - seq_width s + 1)) (recvBitmap s))) 0"
    using grow by (simp add: bit_simps)
  ultimately show ?thesis
    using q grow marks unfolding seq_marks_def by (simp del: One_nat_def) (metis diff_gt_0_iff_gt)
qed (use marks in \<open>auto simp: seq_marks_def\<close>)

lemma seq_check_some:
  assumes "seq_window s" "\<not> seq_gap s r"
  shows "IsPassSeqCheck (Some s) r = (fst (window_check s r), Some (snd (window_check s r)))"
  by (simp add: seq_check_window [OF assms] apsnd_def map_prod_def split_beta)

lemma seq_run_Cons:
  assumes "seq_window s" "\<not> seq_gap s r"
  shows "snd (seq_run s (r # rs)) = snd (seq_run (snd (window_check s r)) rs)"
  by (simp add: seq_check_some [OF assms] split: prod.split)

lemma seq_run_inv:
  assumes "seq_window s" "no_gap s rs"
  shows "seq_window (snd (seq_run s rs)) \<and>
    (\<forall>q k. seq_seen s q k \<and> k + length rs < 2147483500 \<longrightarrow> seq_seen (snd (seq_run s rs)) q (k + length rs)) \<and>
    (\<forall>A. seq_marks s A \<longrightarrow> seq_marks (snd (seq_run s rs)) (A \<union> set rs))"
  using assms
proof (induction rs arbitrary: s)
  case (Cons r rs)
  let ?s = "snd (window_check s r)"
  have win: "seq_window ?s" and gap: "\<not> seq_gap s r" and rest: "no_gap ?s rs"
    using Cons.prems by (auto simp: seq_check_some window_check_window)
  note run = seq_run_Cons [OF Cons.prems(1) gap] and IH = Cons.IH [OF win rest]
  have "seq_seen (snd (seq_run s (r # rs))) q (k + length (r # rs))"
    if "seq_seen s q k" "k + length (r # rs) < 2147483500" for q k
    using IH that seq_seen_step [OF Cons.prems(1) that(1), of r] unfolding run by fastforce
  moreover have "seq_marks (snd (seq_run s (r # rs))) (A \<union> set (r # rs))" if "seq_marks s A" for A
    using IH seq_marks_step [OF Cons.prems(1) that, of r] unfolding run by fastforce
  ultimately show ?case using IH unfolding run by blast
qed simp

lemma seq_start_inv: "seq_window (seq_start n)" "seq_marks (seq_start n) {}"
  by (simp_all add: seq_start_def seq_window_def seq_marks_def)

definition seq_step :: "SeqVerifyInfo \<Rightarrow> SeqVerifyInfo \<Rightarrow> bool" where
  "seq_step s t \<longleftrightarrow> (\<exists>r. \<not> seq_gap s r \<and> snd (IsPassSeqCheck (Some s) r) = Some t)"

interpretation seqw: transition_system "\<lambda>s. \<exists>n. s = seq_start n" seq_step seq_window
  by unfold_locales (auto simp: seq_start_inv seq_step_def seq_check_some window_check_window)

section \<open>Properties\<close>

text \<open>
  C19: In every state the window reaches from a fresh session by packets that are not half the number range
  away, the sign case analysis of \<open>IsPassSeqCheck\<close> computes the documented window on wrapped distances, and
  the window never spans more than \<open>MAX_SEQ_BIAS\<close> numbers, so no shift exceeds the 64 bits of the bitmap.
\<close>

theorem seq_check_refines_window:
  assumes "seq_step\<^sup>*\<^sup>* (seq_start n) s" and "\<not> seq_gap s r"
  shows "IsPassSeqCheck (Some s) r = apsnd Some (window_check s r) \<and>
    0 \<le> seq_width s \<and> seq_width s \<le> MAX_SEQ_BIAS"
  using seqw.inv_reachable [OF _ assms(1)] seq_check_window [OF _ assms(2)] by (auto simp: seq_window_def)

theorem seq_check_refines_window_witness:
  "IsPassSeqCheck (Some (seq_start 2147483647)) (- 2147483648) =
     (True, Some \<lparr>maxSeq = - 2147483647, minSeq = 2147483647, recvBitmap = 2\<rparr>)"
proof -
  have "\<not> seq_gap (seq_start 2147483647) (- 2147483648)"
    by (simp add: seq_gap_def seq_start_def)
  from seq_check_refines_window [OF rtranclp.rtrancl_refl this]
  have "IsPassSeqCheck (Some (seq_start 2147483647)) (- 2147483648) =
      apsnd Some (window_check (seq_start 2147483647) (- 2147483648))" by blast
  also have "\<dots> = (True, Some \<lparr>maxSeq = - 2147483647, minSeq = 2147483647, recvBitmap = 2\<rparr>)"
    by code_simp
  finally show ?thesis .
qed

text \<open>
  C20: No replay.  A packet that was accepted by a well-formed window is refused when it is presented again within the next
  2^30 packets, unless its number is then \<open>minSeq\<close>, the one the window expects next.  This is for sessions in which no packet is half
  the range of numbers away, that is, neither the packet nor a later one compares as behind \<open>minSeq\<close> and yet not behind \<open>maxSeq\<close>
  while numbers are outstanding.
\<close>

theorem seq_check_no_replay:
  assumes "seq_window s" "\<not> seq_gap s q" "IsPassSeqCheck (Some s) q = (True, Some t)"
    and "no_gap t rs" "length rs < 2 ^ 30" "q \<noteq> minSeq (snd (seq_run t rs))"
  shows "IsPassSeqCheck (Some (snd (seq_run t rs))) q = (False, Some (snd (seq_run t rs)))"
proof -
  have t: "t = snd (window_check s q)" and acc: "fst (window_check s q)"
    using assms(1-3) by (simp_all add: seq_check_some)
  have win: "seq_window t" and seen: "seq_seen t q 1"
    unfolding t by (rule window_check_window [OF assms(1)] seq_seen_accepted [OF acc assms(1)])+
  let ?u = "snd (seq_run t rs)"
  have u: "seq_window ?u" "seq_seen ?u q (1 + length rs)"
    using seq_run_inv [OF win assms(4)] seen assms(5) by (simp_all del: One_nat_def)
  have rej: "\<not> fst (window_check ?u q)" by (rule seq_seen_rejected [OF u(2) assms(6)])
  then have "snd (window_check ?u q) = ?u"
    by (cases rule: window_check_cases [of ?u q]) auto
  then show ?thesis
    using rej u seq_seen_no_gap [OF u] assms(5) by (simp add: seq_check_some)
qed

theorem seq_check_no_replay_witness:
  "IsPassSeqCheck (Some (snd (seq_run \<lparr>maxSeq = 6, minSeq = 0, recvBitmap = 2\<rparr> [3, 0]))) 5 =
     (False, Some \<lparr>maxSeq = 6, minSeq = 1, recvBitmap = 10\<rparr>)"
proof -
  let ?t = "\<lparr>maxSeq = 6, minSeq = 0, recvBitmap = 2\<rparr>"
  have "seq_window (seq_start 0)" "\<not> seq_gap (seq_start 0) 5" "IsPassSeqCheck (Some (seq_start 0)) 5 = (True, Some ?t)"
    "no_gap ?t [3, 0]" and run: "snd (seq_run ?t [3, 0]) = \<lparr>maxSeq = 6, minSeq = 1, recvBitmap = 10\<rparr>"
    by code_simp+
  then show ?thesis
    using seq_check_no_replay [of "seq_start 0" 5 ?t "[3, 0]"] by simp
qed

text \<open>
  C21: No false refusal.  A packet that has not been received in the session is accepted when it is the expected number or less than
  \<open>MAX_SEQ_BIAS\<close> (60) ahead of it, however the earlier packets were ordered, as long as none of them was half the range of numbers away, that is,
  compared as behind \<open>minSeq\<close> and yet not behind \<open>maxSeq\<close> while numbers were outstanding.
\<close>

theorem seq_check_fresh_accepted:
  assumes "no_gap (seq_start n) rs" "q \<notin> set rs" "s = snd (seq_run (seq_start n) rs)"
    and "0 \<le> seq_dist s q" "seq_dist s q < MAX_SEQ_BIAS"
  shows "fst (IsPassSeqCheck (Some s) q)"
proof -
  have win: "seq_window s" and marks: "seq_marks s (set rs)"
    using seq_run_inv [OF seq_start_inv(1) assms(1)] seq_start_inv(2) assms(3) by fastforce+
  have "\<not> seq_gap s q" using assms(4) by (simp add: seq_gap_def)
  moreover have "fst (window_check s q)"
    using marks assms by (cases rule: window_check_cases [of s q]) (auto simp: seq_marks_def)
  ultimately show ?thesis using win by (simp add: seq_check_some)
qed

theorem seq_check_fresh_accepted_witness:
  "fst (IsPassSeqCheck (Some (snd (seq_run (seq_start (- 1)) [4, - 1, 2]))) 1)"
proof -
  have "no_gap (seq_start (- 1)) [4, - 1, 2]"
    "0 \<le> seq_dist (snd (seq_run (seq_start (- 1)) [4, - 1, 2])) 1"
    "seq_dist (snd (seq_run (seq_start (- 1)) [4, - 1, 2])) 1 < MAX_SEQ_BIAS"
    by code_simp+
  then show ?thesis
    by (intro seq_check_fresh_accepted [OF _ _ refl]) simp_all
qed

section \<open>Where the check departs from the documented window\<close>

text \<open>
  The header promises that a received number is not accepted twice.  The number equal to \<open>minSeq\<close> is accepted
  without a look at the bitmap, so a packet received early passes again once the window has reached it.
\<close>

lemma seq_replay_at_min: "fst (seq_run (seq_start 0) [1, 0, 1]) = [True, True, True]"
  by code_simp

text \<open>
  With packets outstanding, a number half the range away passes: the distance from \<open>maxSeq\<close> is still positive
  while the distance from \<open>minSeq\<close> has wrapped to a negative value, below the bias.
\<close>

lemma OverMaxCheck_accepts:
  "fst (IsPassOverMaxCheck s r) \<longleftrightarrow> 0 \<le> sint (r - maxSeq s) \<and> sint (r - minSeq s) < MAX_SEQ_BIAS"
  by (auto simp: IsPassOverMaxCheck_def Let_def)

lemma seq_half_range_accepted:
  "seq_run (seq_start 0) [20] = ([True], \<lparr>maxSeq = 21, minSeq = 0, recvBitmap = 2\<rparr>) \<and>
   fst (IsPassSeqCheck (Some \<lparr>maxSeq = 21, minSeq = 0, recvBitmap = 2\<rparr>) 2147483650)"
proof
  show "seq_run (seq_start 0) [20] = ([True], \<lparr>maxSeq = 21, minSeq = 0, recvBitmap = 2\<rparr>)" by code_simp
  show "fst (IsPassSeqCheck (Some \<lparr>maxSeq = 21, minSeq = 0, recvBitmap = 2\<rparr>) 2147483650)"
    by (simp add: IsPassSeqCheck_def IsPassNoflipDisorderCheck_def OverMaxCheck_accepts IsDifferentSign_def Let_def)
qed

end
