(* ===== verification/Flow_Control.thy ===== *)
theory Flow_Control
  imports Prelude
begin

text \<open>
  The sliding-window flow controller of \<^verbatim>\<open>core/connection/manager/softbus_conn_flow_control.c\<close>.
  A controller keeps the grants of the current window, newest first.  The body of \<open>Apply\<close> between taking and
  releasing the mutex is \<open>ApplyOnce\<close>; \<open>Apply\<close> repeats it after every sleep.  Each pass reads one
  \<open>attempt\<close>: whether the lock was taken, what the clock showed and whether the history node could be allocated.
  Time stamps are 64-bit, so their differences wrap.
\<close>

section \<open>Definitions\<close>

abbreviation MIN_WINDOW_IN_MILLIS :: int where "MIN_WINDOW_IN_MILLIS \<equiv> 100"
abbreviation MAX_WINDOW_IN_MILLIS :: int where "MAX_WINDOW_IN_MILLIS \<equiv> 2000"
abbreviation MIN_QUOTA_IN_BYTES :: int where "MIN_QUOTA_IN_BYTES \<equiv> 10 * 1024"
abbreviation MAX_QUOTA_IN_BYTES :: int where "MAX_QUOTA_IN_BYTES \<equiv> 2 * 1024 * 1024"

definition u64 :: "nat \<Rightarrow> nat" where "u64 n = n mod 2 ^ 64"

definition u64_sub :: "nat \<Rightarrow> nat \<Rightarrow> nat" where "u64_sub a b = (a + 2 ^ 64 - b) mod 2 ^ 64"

definition u64_of_int :: "int \<Rightarrow> nat" where "u64_of_int i = nat (i mod 2 ^ 64)"

record HistoryNode =
  timestamp :: nat
  amount :: int

record ConnSlideWindowController =
  active :: bool
  windowInMillis :: int
  quotaInBytes :: int
  histories :: "HistoryNode list"

record LimitConfiguration =
  lc_active :: bool
  lc_type :: nat
  lc_windowInMillis :: int
  lc_quotaInBytes :: int

record attempt =
  lockOk :: bool
  clock :: nat
  callocOk :: bool

datatype apply_result = Returned int | Sleeps nat

text \<open>The loop over the list: what stays in it, the total granted and the time stamp of the last node kept.\<close>

fun scan_histories :: "nat \<Rightarrow> HistoryNode list \<Rightarrow> int \<Rightarrow> nat \<Rightarrow> HistoryNode list \<times> int \<times> nat" where
  "scan_histories expiredTimestamp [] appliedTotal start = ([], appliedTotal, start)"
| "scan_histories expiredTimestamp (it # rest) appliedTotal start =
     (if timestamp it > expiredTimestamp then
        (case scan_histories expiredTimestamp rest (appliedTotal + amount it) (timestamp it) of
           (kept, tot, start') \<Rightarrow> (it # kept, tot, start'))
      else scan_histories expiredTimestamp rest appliedTotal start)"

definition ApplyOnce ::
  "attempt \<Rightarrow> ConnSlideWindowController option \<Rightarrow> int \<Rightarrow> apply_result \<times> ConnSlideWindowController option" where
  "ApplyOnce env self0 expect =
     (case self0 of None \<Rightarrow> (Returned SOFTBUS_INVALID_PARAM, None)
      | Some self \<Rightarrow>
        if \<not> lockOk env then (Returned SOFTBUS_LOCK_ERR, Some self)
        else if \<not> active self then (Returned expect, Some self)
        else
          let now = clock env;
              expiredTimestamp = u64_sub now (u64_of_int (windowInMillis self));
              (kept, appliedTotal, currentWindowStartTimestamp) = scan_histories expiredTimestamp (histories self) 0 0;
              self' = self\<lparr>histories := kept\<rparr>
          in if quotaInBytes self \<le> appliedTotal then
               let sleepMs = u64_sub (u64_of_int (windowInMillis self)) (u64_sub now currentWindowStartTimestamp) mod 2 ^ 32
               in (Sleeps sleepMs, Some self')
             else
               let remain = quotaInBytes self - appliedTotal;
                   amnt = (if remain > expect then expect else remain)
               in if \<not> callocOk env then (Returned expect, Some self')
                  else (Returned amnt, Some (self'\<lparr>histories := \<lparr>timestamp = now, amount = amnt\<rparr> # kept\<rparr>)))"

text \<open>The recursion of \<open>Apply\<close>, one attempt per pass; without a further attempt the call has not returned.\<close>

fun Apply :: "attempt list \<Rightarrow> ConnSlideWindowController option \<Rightarrow> int \<Rightarrow> (int \<times> ConnSlideWindowController option) option" where
  "Apply [] self expect = None"
| "Apply (env # envs) self expect =
     (case ApplyOnce env self expect of
        (Returned r, self') \<Rightarrow> Some (r, self')
      | (Sleeps ms, self') \<Rightarrow> Apply envs self' expect)"

definition CleanupHistoriesUnsafe :: "ConnSlideWindowController \<Rightarrow> ConnSlideWindowController" where
  "CleanupHistoriesUnsafe self = self\<lparr>histories := []\<rparr>"

definition ChangeConfiguration ::
  "bool \<Rightarrow> ConnSlideWindowController option \<Rightarrow> bool \<Rightarrow> int \<Rightarrow> int \<Rightarrow> int \<times> ConnSlideWindowController option" where
  "ChangeConfiguration lock self0 act window quota =
     (case self0 of None \<Rightarrow> (SOFTBUS_INVALID_PARAM, None)
      | Some self \<Rightarrow>
        if act \<and> \<not> (window \<ge> MIN_WINDOW_IN_MILLIS \<and> window \<le> MAX_WINDOW_IN_MILLIS)
        then (SOFTBUS_INVALID_PARAM, Some self)
        else if act \<and> \<not> (quota \<ge> MIN_QUOTA_IN_BYTES \<and> quota \<le> MAX_QUOTA_IN_BYTES)
        then (SOFTBUS_INVALID_PARAM, Some self)
        else if \<not> lock then (SOFTBUS_LOCK_ERR, Some self)
        else (SOFTBUS_OK, Some (CleanupHistoriesUnsafe
          (self\<lparr>windowInMillis := window, quotaInBytes := quota, active := act\<rparr>))))"

definition Enable ::
  "bool \<Rightarrow> ConnSlideWindowController option \<Rightarrow> int \<Rightarrow> int \<Rightarrow> int \<times> ConnSlideWindowController option" where
  "Enable lock self window quota = ChangeConfiguration lock self True window quota"

definition Disable :: "bool \<Rightarrow> ConnSlideWindowController option \<Rightarrow> int \<times> ConnSlideWindowController option" where
  "Disable lock self = ChangeConfiguration lock self False (- 1) (- 1)"

definition ConnSlideWindowControllerConstructor ::
  "bool \<Rightarrow> ConnSlideWindowController option \<Rightarrow> int \<times> ConnSlideWindowController option" where
  "ConnSlideWindowControllerConstructor mutexInit self0 =
     (case self0 of None \<Rightarrow> (SOFTBUS_INVALID_PARAM, None)
      | Some self \<Rightarrow>
        if \<not> mutexInit then (SOFTBUS_LOCK_ERR, Some self)
        else (SOFTBUS_OK, Some \<lparr>active = False, windowInMillis = - 1, quotaInBytes = - 1, histories = []\<rparr>))"

definition ConnSlideWindowControllerDestructor ::
  "bool \<Rightarrow> ConnSlideWindowController option \<Rightarrow> ConnSlideWindowController option" where
  "ConnSlideWindowControllerDestructor lock self0 =
     (case self0 of None \<Rightarrow> None
      | Some self \<Rightarrow> if \<not> lock then Some self else Some (CleanupHistoriesUnsafe self))"

text \<open>\<open>SoftBusCalloc\<close> gives zeroed memory; a null list head stands for no history.\<close>

definition ConnSlideWindowControllerNew :: "bool \<Rightarrow> bool \<Rightarrow> ConnSlideWindowController option" where
  "ConnSlideWindowControllerNew calloc mutexInit =
     (if \<not> calloc then None
      else case ConnSlideWindowControllerConstructor mutexInit
             (Some \<lparr>active = False, windowInMillis = 0, quotaInBytes = 0, histories = []\<rparr>) of
             (ret, controller) \<Rightarrow> if ret \<noteq> SOFTBUS_OK then None else controller)"

section \<open>The scan of the window\<close>

definition live :: "nat \<Rightarrow> HistoryNode list \<Rightarrow> HistoryNode list" where
  "live expired hs = filter (\<lambda>h. timestamp h > expired) hs"

definition granted :: "HistoryNode list \<Rightarrow> int" where
  "granted hs = sum_list (map amount hs)"

lemma scan_histories_eq:
  "scan_histories e hs a t =
     (live e hs, a + granted (live e hs), if live e hs = [] then t else timestamp (last (live e hs)))"
  by (induction hs arbitrary: a t) (auto simp: live_def granted_def)

lemma granted_simps [simp]: "granted [] = 0" "granted (h # hs) = amount h + granted hs" "granted (xs @ ys) = granted xs + granted ys"
  by (simp_all add: granted_def)

lemma u64_sub_le: "b \<le> a \<Longrightarrow> a < 2 ^ 64 \<Longrightarrow> u64_sub a b = a - b"
proof -
  assume "b \<le> a" "a < 2 ^ 64"
  then have "a + 2 ^ 64 - b = a - b + 2 ^ 64" by simp
  then show ?thesis using \<open>a < 2 ^ 64\<close> unfolding u64_sub_def by (simp only: mod_add_self2) simp
qed

lemma u64_of_int_small: "0 \<le> i \<Longrightarrow> i < 2 ^ 64 \<Longrightarrow> u64_of_int i = nat i"
  by (simp add: u64_of_int_def)

text \<open>Controllers that accept a configuration, and clocks far enough from the epoch for a whole window.\<close>

definition configured :: "ConnSlideWindowController \<Rightarrow> bool" where
  "configured c \<longleftrightarrow> active c \<and> MIN_WINDOW_IN_MILLIS \<le> windowInMillis c \<and> windowInMillis c \<le> MAX_WINDOW_IN_MILLIS \<and>
     MIN_QUOTA_IN_BYTES \<le> quotaInBytes c \<and> quotaInBytes c \<le> MAX_QUOTA_IN_BYTES"

definition clock_ok :: "nat \<Rightarrow> bool" where
  "clock_ok now \<longleftrightarrow> 2000 \<le> now \<and> now < 2 ^ 64"

lemma expired_eq:
  assumes "configured c" "clock_ok now"
  shows "u64_sub now (u64_of_int (windowInMillis c)) = now - nat (windowInMillis c)"
  using assms by (auto simp: configured_def clock_ok_def u64_of_int_small nat_le_iff intro!: u64_sub_le)

text \<open>One pass on a configured controller.\<close>

lemma ApplyOnce_configured:
  assumes "configured c" "clock_ok (clock env)" "lockOk env" "callocOk env"
  shows "ApplyOnce env (Some c) expect =
    (let kept = live (clock env - nat (windowInMillis c)) (histories c)
     in if quotaInBytes c \<le> granted kept
        then (Sleeps (u64_sub (nat (windowInMillis c)) (u64_sub (clock env) (if kept = [] then 0 else timestamp (last kept))) mod 2 ^ 32),
              Some (c\<lparr>histories := kept\<rparr>))
        else let amnt = min expect (quotaInBytes c - granted kept)
             in (Returned amnt, Some (c\<lparr>histories := \<lparr>timestamp = clock env, amount = amnt\<rparr> # kept\<rparr>)))"
  using assms expired_eq [OF assms(1,2)]
  by (simp add: ApplyOnce_def scan_histories_eq configured_def u64_of_int_small Let_def min_def)

section \<open>Concurrent callers\<close>

text \<open>
  Callers on several threads interleave at the mutex: a state of the system is the controller, every grant
  made so far (newest first) and the time.  A step is one pass of some caller at a later or equal time.
\<close>

type_synonym flow_state = "ConnSlideWindowController \<times> HistoryNode list \<times> nat"

inductive flow_sys :: "flow_state \<Rightarrow> flow_state \<Rightarrow> bool" where
  grant: "ApplyOnce env (Some c) expect = (Returned r, Some c') \<Longrightarrow> now \<le> clock env \<Longrightarrow> clock_ok (clock env) \<Longrightarrow>
    lockOk env \<Longrightarrow> callocOk env \<Longrightarrow> 0 \<le> expect \<Longrightarrow>
    flow_sys (c, P, now) (c', \<lparr>timestamp = clock env, amount = r\<rparr> # P, clock env)"
| wait: "ApplyOnce env (Some c) expect = (Sleeps ms, Some c') \<Longrightarrow> now \<le> clock env \<Longrightarrow> clock_ok (clock env) \<Longrightarrow>
    lockOk env \<Longrightarrow> callocOk env \<Longrightarrow> flow_sys (c, P, now) (c', P, clock env)"

inductive_cases flow_sysE: "flow_sys (c, P, now) st"

definition in_window :: "int \<Rightarrow> nat \<Rightarrow> HistoryNode list \<Rightarrow> HistoryNode list" where
  "in_window w t P = filter (\<lambda>h. timestamp h \<le> t \<and> t < timestamp h + nat w) P"

definition flow_start :: "int \<Rightarrow> int \<Rightarrow> flow_state \<Rightarrow> bool" where
  "flow_start w q = (\<lambda>(c, P, now). Enable True (Some \<lparr>active = False, windowInMillis = - 1, quotaInBytes = - 1, histories = []\<rparr>) w q
     = (SOFTBUS_OK, Some c) \<and> P = [])"

definition flow_inv :: "int \<Rightarrow> int \<Rightarrow> flow_state \<Rightarrow> bool" where
  "flow_inv w q = (\<lambda>(c, P, now). configured c \<and> windowInMillis c = w \<and> quotaInBytes c = q \<and>
     (\<forall>t \<ge> now. live (t - nat w) (histories c) = live (t - nat w) P) \<and>
     (\<forall>h \<in> set P. timestamp h \<le> now \<and> 0 \<le> amount h) \<and>
     (\<forall>t. granted (in_window w t P) \<le> q))"

lemma flow_start_inv: "flow_start w q st \<Longrightarrow> flow_inv w q st"
  by (auto simp: flow_start_def flow_inv_def Enable_def ChangeConfiguration_def configured_def in_window_def
      CleanupHistoriesUnsafe_def live_def split: if_splits)

lemma live_live: "e \<le> e' \<Longrightarrow> live e' (live e hs) = live e' hs"
  by (auto simp: live_def intro: filter_cong)

lemma in_window_now:
  assumes "\<forall>h \<in> set P. timestamp h \<le> now" "nat w \<le> now" "0 < w"
  shows "in_window w now P = live (now - nat w) P"
  using assms by (auto simp: in_window_def live_def intro!: filter_cong)

lemma granted_filter_mono:
  assumes "\<And>h. h \<in> set P \<Longrightarrow> Q h \<Longrightarrow> R h" "\<forall>h \<in> set P. 0 \<le> amount h"
  shows "granted (filter Q P) \<le> granted (filter R P)"
  using assms by (induction P) (force simp: granted_def)+

lemma flow_inv_wait:
  assumes inv: "flow_inv w q (c, P, now)" and "now \<le> t"
  shows "flow_inv w q (c\<lparr>histories := live (t - nat w) (histories c)\<rparr>, P, t)"
  using assms by (fastforce simp: flow_inv_def configured_def live_live intro: order_trans)

lemma flow_inv_grant:
  assumes inv: "flow_inv w q (c, P, now)" and t: "now \<le> t" "clock_ok t"
    and a: "0 \<le> a" "a + granted (live (t - nat w) P) \<le> q"
  shows "flow_inv w q (c\<lparr>histories := \<lparr>timestamp = t, amount = a\<rparr> # live (t - nat w) (histories c)\<rparr>,
    \<lparr>timestamp = t, amount = a\<rparr> # P, t)"
proof -
  let ?new = "\<lparr>timestamp = t, amount = a\<rparr>"
  have w: "0 < w" "nat w \<le> t" and pos: "\<forall>h \<in> set P. timestamp h \<le> t \<and> 0 \<le> amount h"
    using inv t by (auto simp: flow_inv_def configured_def clock_ok_def)
  have "granted (in_window w u (?new # P)) \<le> q" for u
  proof (cases "t \<le> u \<and> u < t + nat w")
    case True
    have "granted (in_window w u P) \<le> granted (live (t - nat w) P)"
      unfolding in_window_def live_def by (rule granted_filter_mono) (use True w pos in auto)
    with True a show ?thesis by (simp add: in_window_def)
  next
    case False
    then show ?thesis using inv by (auto simp: in_window_def flow_inv_def)
  qed
  moreover have "live (u - nat w) (?new # live (t - nat w) (histories c)) = live (u - nat w) (?new # P)" if "t \<le> u" for u
  proof -
    have "live (u - nat w) (live (t - nat w) (histories c)) = live (u - nat w) P"
      using inv t that by (simp add: live_live flow_inv_def)
    then show ?thesis by (simp add: live_def)
  qed
  ultimately show ?thesis
    using inv pos a(1) by (auto simp: flow_inv_def configured_def)
qed

lemma flow_inv_step:
  assumes inv: "flow_inv w q st" and step: "flow_sys st st'"
  shows "flow_inv w q st'"
proof -
  obtain c P now where st: "st = (c, P, now)" by (cases st)
  have conf: "configured c" "windowInMillis c = w" "quotaInBytes c = q"
    and past: "now \<le> t \<Longrightarrow> live (t - nat w) (histories c) = live (t - nat w) P" for t
    using inv by (auto simp: st flow_inv_def)
  from step [unfolded st] show ?thesis
  proof (cases rule: flow_sys.cases)
    case (grant env expect r c')
    note once = ApplyOnce_configured [OF conf(1) grant(4-6), of expect]
    have q: "0 \<le> r" "r + granted (live (clock env - nat w) P) \<le> q"
      and c': "c' = c\<lparr>histories := \<lparr>timestamp = clock env, amount = r\<rparr> # live (clock env - nat w) (histories c)\<rparr>"
      using grant(2,7) conf past [OF grant(3)] by (auto simp: once Let_def min_def split: if_splits)
    show ?thesis
      unfolding grant(1) c' using flow_inv_grant [OF inv [unfolded st] grant(3,4) q] .
  next
    case (wait env expect ms c')
    note once = ApplyOnce_configured [OF conf(1) wait(4-6), of expect]
    have "c' = c\<lparr>histories := live (clock env - nat w) (histories c)\<rparr>"
      using wait(2) conf by (auto simp: once Let_def split: if_splits)
    then show ?thesis
      unfolding wait(1) using flow_inv_wait [OF inv [unfolded st] wait(3)] by simp
  qed
qed

interpretation flow: transition_system "flow_start w q" flow_sys "flow_inv w q" for w q
  by unfold_locales (auto intro: flow_start_inv flow_inv_step)

section \<open>A caller that waits\<close>

definition attempt_ok :: "attempt \<Rightarrow> bool" where
  "attempt_ok env \<longleftrightarrow> lockOk env \<and> callocOk env \<and> clock_ok (clock env)"

text \<open>The passes of one call: a pass that sleeps is followed by one at least that much later.\<close>

fun awake :: "attempt list \<Rightarrow> ConnSlideWindowController \<Rightarrow> int \<Rightarrow> bool" where
  "awake [] c expect = True"
| "awake [env] c expect = attempt_ok env"
| "awake (env # env' # envs) c expect = (attempt_ok env \<and>
     (case ApplyOnce env (Some c) expect of
        (Sleeps ms, Some c') \<Rightarrow> clock env + ms \<le> clock env' \<and> awake (env' # envs) c' expect
      | _ \<Rightarrow> True))"

lemma sleep_length:
  assumes "ts \<le> now" "now - w < ts" "w \<le> 2000" "now < 2 ^ 64"
  shows "now + u64_sub w (u64_sub now ts) mod 2 ^ 32 = ts + w"
proof -
  have elapsed: "now - ts \<le> w" using assms(1,2) by simp
  have now: "u64_sub now ts = now - ts" by (rule u64_sub_le [OF assms(1,4)])
  have "w < 2 ^ 64" by (rule le_less_trans [OF assms(3)]) simp
  then have left: "u64_sub w (now - ts) = w - (now - ts)" by (rule u64_sub_le [OF elapsed])
  have "w - (now - ts) < 2 ^ 32" by (rule le_less_trans [OF diff_le_self le_less_trans [OF assms(3)]]) simp
  then have "(w - (now - ts)) mod 2 ^ 32 = w - (now - ts)" by (rule mod_less)
  with elapsed assms(1) show ?thesis unfolding now left by simp
qed

lemma ApplyOnce_sleeps:
  assumes conf: "configured c" and env: "attempt_ok env"
    and past: "\<forall>h \<in> set (histories c). timestamp h \<le> clock env"
    and once: "ApplyOnce env (Some c) expect = (Sleeps ms, Some c')"
  shows "configured c' \<and> (\<forall>h \<in> set (histories c'). timestamp h \<le> clock env) \<and> histories c' \<noteq> [] \<and>
    clock env + ms = timestamp (last (histories c')) + nat (windowInMillis c) \<and> windowInMillis c' = windowInMillis c \<and>
    length (histories c') \<le> length (histories c)"
proof -
  let ?w = "nat (windowInMillis c)"
  let ?kept = "live (clock env - ?w) (histories c)"
  have ok: "clock_ok (clock env)" "lockOk env" "callocOk env" using env by (auto simp: attempt_ok_def)
  have c': "c' = c\<lparr>histories := ?kept\<rparr>" and full: "quotaInBytes c \<le> granted ?kept"
    and ms: "ms = u64_sub ?w (u64_sub (clock env) (if ?kept = [] then 0 else timestamp (last ?kept))) mod 2 ^ 32"
    using once unfolding ApplyOnce_configured [OF conf ok] by (auto simp: Let_def split: if_splits)
  have ne: "?kept \<noteq> []" using full conf by (auto simp: configured_def)
  then have "last ?kept \<in> set ?kept" by (rule last_in_set)
  then have last: "timestamp (last ?kept) \<le> clock env" "clock env - ?w < timestamp (last ?kept)"
    using past by (auto simp: live_def)
  have bounds: "?w \<le> 2000" "2000 \<le> clock env" "clock env < 2 ^ 64"
    using conf ok by (auto simp: configured_def clock_ok_def)
  have "clock env + ms = timestamp (last ?kept) + ?w"
    using sleep_length [OF last bounds(1,3)] ne by (simp add: ms)
  with ne conf past show ?thesis
    by (auto simp: c' configured_def live_def)
qed

text \<open>After the sleep the oldest grant of the window has expired.\<close>

lemma live_last_expires:
  assumes "hs \<noteq> []" "timestamp (last hs) \<le> e"
  shows "length (live e hs) < length hs"
  using assms by (metis last_in_set length_filter_less live_def not_less)

lemma Apply_returns_aux:
  assumes "configured c" "awake envs c expect" "envs \<noteq> []"
    "\<forall>h \<in> set (histories c). timestamp h \<le> clock (hd envs)"
    "length (live (clock (hd envs) - nat (windowInMillis c)) (histories c)) < length envs" "0 < expect"
  shows "\<exists>r c'. Apply envs (Some c) expect = Some (r, Some c') \<and> 0 < r \<and> r \<le> expect"
  using assms
proof (induction envs arbitrary: c)
  case (Cons env envs)
  have ok: "attempt_ok env" using Cons.prems(2) by (cases envs) auto
  then have env: "clock_ok (clock env)" "lockOk env" "callocOk env" by (auto simp: attempt_ok_def)
  show ?case
  proof (cases "fst (ApplyOnce env (Some c) expect)")
    case (Returned r)
    then show ?thesis
      using \<open>0 < expect\<close> by (auto simp: ApplyOnce_configured [OF Cons.prems(1) env] Let_def split: if_splits)
  next
    case (Sleeps ms)
    then obtain c' where once: "ApplyOnce env (Some c) expect = (Sleeps ms, Some c')"
      by (auto simp: ApplyOnce_configured [OF Cons.prems(1) env] Let_def split: if_splits)
    have c': "histories c' = live (clock env - nat (windowInMillis c)) (histories c)"
      using once by (auto simp: ApplyOnce_configured [OF Cons.prems(1) env] Let_def split: if_splits)
    have past: "\<forall>h \<in> set (histories c). timestamp h \<le> clock env" using Cons.prems(4) by simp
    note slept = ApplyOnce_sleeps [OF Cons.prems(1) ok past once]
    have "0 < length (histories c')" using slept by blast
    then obtain env' envs' where envs: "envs = env' # envs'"
      using Cons.prems(5) c' by (cases envs) auto
    have later: "clock env + ms \<le> clock env'" and rest: "awake envs c' expect"
      using Cons.prems(2) once by (auto simp: envs)
    have "length (live (clock env' - nat (windowInMillis c')) (histories c')) < length (histories c')"
      using slept later by (intro live_last_expires) auto
    moreover have "\<forall>h \<in> set (histories c'). timestamp h \<le> clock env'"
      using slept later by (meson le_add1 order_trans)
    ultimately show ?thesis
      using Cons.IH [of c'] slept rest Cons.prems(5,6) c' by (auto simp: once envs)
  qed
qed simp

section \<open>Properties\<close>

text \<open>
  C17: The quota.  Whatever number of callers interleave on an enabled controller, the bytes granted within
  any window of \<open>windowInMillis\<close> never exceed \<open>quotaInBytes\<close>, provided that its configuration is not changed, that it gets its lock, that the allocation of the record of each grant succeeds,
  and that the clock, which is past the first two seconds, does not go backwards.  (A request whose record cannot be allocated is granted in full and not counted.)
\<close>

theorem flow_quota:
  assumes "flow_start w q st" "flow_sys\<^sup>*\<^sup>* st (c, P, now)"
  shows "granted (in_window w t P) \<le> q"
  using flow.inv_reachable [OF assms] by (simp add: flow_inv_def)

theorem flow_quota_witness:
  "\<exists>c1 c2 P. Enable True (Some \<lparr>active = False, windowInMillis = - 1, quotaInBytes = - 1, histories = []\<rparr>) 100 10240 = (SOFTBUS_OK, Some c1) \<and>
     flow_sys\<^sup>*\<^sup>* (c1, [], 0) (c2, P, 5000) \<and> map amount P = [240, 10000] \<and>
     fst (ApplyOnce \<lparr>lockOk = True, clock = 5000, callocOk = True\<rparr> (Some c2) 1) = Sleeps 99 \<and> granted (in_window 100 5000 P) \<le> 10240"
proof -
  let ?c = "\<lambda>hs. \<lparr>active = True, windowInMillis = 100, quotaInBytes = 10240, histories = hs\<rparr>"
  let ?h = "\<lparr>timestamp = 4999, amount = 10000\<rparr>" and ?h' = "\<lparr>timestamp = 5000, amount = 240\<rparr>"
  have "flow_start 100 10240 (?c [], [], 0)" by code_simp
  moreover have "flow_sys (?c [], [], 0) (?c [?h], [?h], 4999)"
    using flow_sys.grant [of "\<lparr>lockOk = True, clock = 4999, callocOk = True\<rparr>" "?c []" 10000 10000 "?c [?h]" 0 "[]"]
    by (simp add: ApplyOnce_def clock_ok_def u64_sub_def u64_of_int_def Let_def)
  moreover have "flow_sys (?c [?h], [?h], 4999) (?c [?h', ?h], [?h', ?h], 5000)"
    using flow_sys.grant [of "\<lparr>lockOk = True, clock = 5000, callocOk = True\<rparr>" "?c [?h]" 300 240 "?c [?h', ?h]" 4999 "[?h]"]
    by (simp add: ApplyOnce_def clock_ok_def u64_sub_def u64_of_int_def Let_def)
  ultimately have run: "flow_sys\<^sup>*\<^sup>* (?c [], [], 0) (?c [?h', ?h], [?h', ?h], 5000)" and start: "flow_start 100 10240 (?c [], [], 0)"
    by (meson converse_rtranclp_into_rtranclp rtranclp.rtrancl_refl)+
  have full: "fst (ApplyOnce \<lparr>lockOk = True, clock = 5000, callocOk = True\<rparr> (Some (?c [?h', ?h])) 1) = Sleeps 99"
    by (simp add: ApplyOnce_def u64_sub_def u64_of_int_def Let_def)
  show ?thesis
    by (rule exI [of _ "?c []"], rule exI [of _ "?c [?h', ?h]"], rule exI [of _ "[?h', ?h]"])
      (use flow_quota [OF start run, of 5000] run start full in \<open>simp add: flow_start_def\<close>)
qed

text \<open>
  C18: A call returns.  A caller whose sleeps last as long as computed gets a positive grant of at most what
  it asked for, after at most one pass per recorded grant and one more.
\<close>

theorem Apply_returns:
  assumes "configured c" "awake envs c expect" "length (histories c) < length envs" "0 < expect"
    and "\<forall>h \<in> set (histories c). timestamp h \<le> clock (hd envs)"
  shows "\<exists>r c'. Apply envs (Some c) expect = Some (r, Some c') \<and> 0 < r \<and> r \<le> expect"
proof (rule Apply_returns_aux [OF assms(1,2) _ assms(5) _ assms(4)])
  show "envs \<noteq> []" using assms(3) by auto
  show "length (live (clock (hd envs) - nat (windowInMillis c)) (histories c)) < length envs"
    using assms(3) length_filter_le unfolding live_def by (rule le_less_trans [rotated])
qed

theorem Apply_returns_witness:
  "\<exists>r c'. Apply [\<lparr>lockOk = True, clock = 5000, callocOk = True\<rparr>, \<lparr>lockOk = True, clock = 5099, callocOk = True\<rparr>]
     (Some \<lparr>active = True, windowInMillis = 100, quotaInBytes = 10240,
            histories = [\<lparr>timestamp = 4999, amount = 10240\<rparr>]\<rparr>) 7 = Some (r, Some c') \<and> 0 < r \<and> r \<le> 7"
  by (rule Apply_returns)
    (simp_all add: configured_def attempt_ok_def clock_ok_def ApplyOnce_def u64_sub_def u64_of_int_def)

end
