(* ===== verification/Lock_Free_Queue.thy ===== *)
theory Lock_Free_Queue
  imports Prelude
begin

text \<open>
  The lock-free ring of \<^verbatim>\<open>core/common/include/softbus_queue.h\<close> and
  \<^verbatim>\<open>core/common/queue/softbus_queue.c\<close>.  Head and tail are free-running 32-bit counters; a
  slot is addressed by the low bits of a counter, so every statement here holds across the wrap-around of
  the counters.

  A queue pointer is an option (\<^const>\<open>None\<close> is NULL), a node pointer as well.  The operations are
  the run of the body without interference, which is how the send queues call them (under their mutex);
  the waiting loop of the producer then either ends at once or never, and never is \<^const>\<open>None\<close>.
\<close>

abbreviation QUEUE_INVAL :: int where "QUEUE_INVAL \<equiv> - 10"
abbreviation QUEUE_FULL :: int where "QUEUE_FULL \<equiv> - 9"
abbreviation QUEUE_EMPTY :: int where "QUEUE_EMPTY \<equiv> - 8"

abbreviation QUEUE_HEADER_MAGIC :: "32 word" where "QUEUE_HEADER_MAGIC \<equiv> 0xccddddcc"
abbreviation QUEUE_SIZE_MAX :: "32 word" where "QUEUE_SIZE_MAX \<equiv> 8192"
abbreviation CACHE_LINE_SIZE :: "32 word" where "CACHE_LINE_SIZE \<equiv> 64"

record ring_side =
  rs_size :: "32 word"
  rs_mask :: "32 word"
  rs_head :: "32 word"
  rs_tail :: "32 word"

record 'a LockFreeQueue =
  magic :: "32 word"
  unitNum :: "32 word"
  producer :: ring_side
  consumer :: ring_side
  nodes :: "'a option list"

definition IS_POWER_OF_2 :: "32 word \<Rightarrow> bool" where
  "IS_POWER_OF_2 x \<longleftrightarrow> (x - 1) AND x = 0"

text \<open>
  \<open>QueueInit\<close> clears the header and sets both sides; the node array behind the header is not touched
  (\<open>CreateQueue\<close> passes zeroed memory).
\<close>

definition QueueInit :: "'a LockFreeQueue option \<Rightarrow> 32 word \<Rightarrow> int \<times> 'a LockFreeQueue option" where
  "QueueInit queue n =
     (case queue of None \<Rightarrow> (QUEUE_INVAL, None)
      | Some q \<Rightarrow>
        if n < 1 \<or> \<not> IS_POWER_OF_2 n then (QUEUE_INVAL, Some q)
        else (0, Some \<lparr>magic = QUEUE_HEADER_MAGIC, unitNum = n,
                       producer = \<lparr>rs_size = n, rs_mask = n - 1, rs_head = 0, rs_tail = 0\<rparr>,
                       consumer = \<lparr>rs_size = n, rs_mask = n - 1, rs_head = 0, rs_tail = 0\<rparr>,
                       nodes = nodes q\<rparr>))"

text \<open>
  \<open>QueueSizeCalc\<close> with \<open>sizeof (uintptr_t)\<close> and \<open>sizeof (LockFreeQueue)\<close> as arguments (8 and 192 on
  a 64-bit target); the first component is the return code, the second the value stored through the
  pointer argument.
\<close>

definition QueueSizeCalc :: "32 word \<Rightarrow> 32 word \<Rightarrow> 32 word \<Rightarrow> int \<times> 32 word option" where
  "QueueSizeCalc ptrSize headSize n =
     (if n > QUEUE_SIZE_MAX then (QUEUE_INVAL, None)
      else let size = ptrSize * n + headSize
           in (0, Some ((size + CACHE_LINE_SIZE - 1) AND NOT (CACHE_LINE_SIZE - 1))))"

definition QueueCountGet :: "'a LockFreeQueue option \<Rightarrow> int \<times> 32 word option" where
  "QueueCountGet queue =
     (case queue of None \<Rightarrow> (QUEUE_INVAL, None)
      | Some q \<Rightarrow>
        let producerTail = rs_tail (producer q); consumerTail = rs_tail (consumer q);
            mask = rs_mask (producer q)
        in (0, Some ((producerTail - consumerTail) AND mask)))"

text \<open>The zeroed block the allocator returns, seen as a queue of \<open>n\<close> empty slots.\<close>

definition zeroed_queue :: "nat \<Rightarrow> 'a LockFreeQueue" where
  "zeroed_queue n =
     \<lparr>magic = 0, unitNum = 0,
      producer = \<lparr>rs_size = 0, rs_mask = 0, rs_head = 0, rs_tail = 0\<rparr>,
      consumer = \<lparr>rs_size = 0, rs_mask = 0, rs_head = 0, rs_tail = 0\<rparr>,
      nodes = replicate n None\<rparr>"

definition CreateQueue :: "bool \<Rightarrow> 32 word \<Rightarrow> 'a LockFreeQueue option" where
  "CreateQueue callocOk n =
     (if n < 1 \<or> \<not> IS_POWER_OF_2 n then None
      else case QueueSizeCalc 8 192 n of (ret, queueSize) \<Rightarrow>
        if ret \<noteq> 0 then None
        else if \<not> callocOk then None
        else case QueueInit (Some (zeroed_queue (unat n))) n of (ret, queue) \<Rightarrow>
          if ret \<noteq> 0 then None else queue)"

definition QueueIsEmpty :: "'a LockFreeQueue option \<Rightarrow> int" where
  "QueueIsEmpty queue =
     (case queue of None \<Rightarrow> QUEUE_INVAL
      | Some q \<Rightarrow>
        let producerTail = rs_tail (producer q); consumerTail = rs_tail (consumer q);
            mask = rs_mask (producer q)
        in if (producerTail - consumerTail) AND mask = 0 then 0 else - 1)"

definition QueueSingleProducerEnqueue ::
  "'a LockFreeQueue option \<Rightarrow> 'a option \<Rightarrow> int \<times> 'a LockFreeQueue option" where
  "QueueSingleProducerEnqueue queue node =
     (case queue of None \<Rightarrow> (QUEUE_INVAL, None)
      | Some q \<Rightarrow>
        if node = None then (QUEUE_INVAL, Some q)
        else
          let mask = rs_mask (producer q);
              producerHead = rs_head (producer q);
              consumerTail = rs_tail (consumer q);
              availableCount = (mask + consumerTail) - producerHead
          in if availableCount < 1 then (QUEUE_FULL, Some q)
             else
               let producerNext = producerHead + 1;
                   q = q\<lparr>producer := (producer q)\<lparr>rs_head := producerNext\<rparr>\<rparr>;
                   q = q\<lparr>nodes := (nodes q)[unat (producerHead AND mask) := node]\<rparr>;
                   q = q\<lparr>producer := (producer q)\<lparr>rs_tail := producerNext\<rparr>\<rparr>
               in (0, Some q))"

text \<open>
  Without interference the compare-and-swap finds the value just read, so the first loop runs once; the
  second loop waits for the producers before this one and is over at once when \<open>tail\<close> equals the reserved
  position, else (\<^const>\<open>None\<close>) it does not end.
\<close>

definition QueueMultiProducerEnqueue ::
  "'a LockFreeQueue option \<Rightarrow> 'a option \<Rightarrow> (int \<times> 'a LockFreeQueue option) option" where
  "QueueMultiProducerEnqueue queue node =
     (case queue of None \<Rightarrow> Some (QUEUE_INVAL, None)
      | Some q \<Rightarrow>
        if node = None then Some (QUEUE_INVAL, Some q)
        else
          let mask = rs_mask (producer q);
              producerHead = rs_head (producer q);
              consumerTail = rs_tail (consumer q);
              availableCount = (mask + consumerTail) - producerHead
          in if availableCount < 1 then Some (QUEUE_FULL, Some q)
             else
               let producerNext = producerHead + 1;
                   q = q\<lparr>producer := (producer q)\<lparr>rs_head := producerNext\<rparr>\<rparr>;
                   q = q\<lparr>nodes := (nodes q)[unat (producerHead AND mask) := node]\<rparr>
               in if rs_tail (producer q) \<noteq> producerHead then None
                  else Some (0, Some (q\<lparr>producer := (producer q)\<lparr>rs_tail := rs_tail (producer q) + 1\<rparr>\<rparr>)))"

text \<open>The second component of a dequeue is the value stored through the \<open>node\<close> argument, if any.\<close>

definition QueueSingleConsumerDequeue ::
  "'a LockFreeQueue option \<Rightarrow> int \<times> 'a option option \<times> 'a LockFreeQueue option" where
  "QueueSingleConsumerDequeue queue =
     (case queue of None \<Rightarrow> (QUEUE_INVAL, None, None)
      | Some q \<Rightarrow>
        let mask = rs_mask (producer q);
            consumerHead = rs_head (consumer q);
            producerTail = rs_tail (producer q);
            availableCount = producerTail - consumerHead
        in if availableCount < 1 then (QUEUE_EMPTY, None, Some q)
           else
             let consumerNext = consumerHead + 1;
                 q = q\<lparr>consumer := (consumer q)\<lparr>rs_head := consumerNext\<rparr>\<rparr>;
                 node = nodes q ! unat (consumerHead AND mask);
                 q = q\<lparr>consumer := (consumer q)\<lparr>rs_tail := consumerNext\<rparr>\<rparr>
             in (0, Some node, Some q))"

definition QueueMultiConsumerDequeue ::
  "'a LockFreeQueue option \<Rightarrow> (int \<times> 'a option option \<times> 'a LockFreeQueue option) option" where
  "QueueMultiConsumerDequeue queue =
     (case queue of None \<Rightarrow> Some (QUEUE_INVAL, None, None)
      | Some q \<Rightarrow>
        let mask = rs_mask (producer q);
            consumerHead = rs_head (consumer q);
            producerTail = rs_tail (producer q);
            availableCount = producerTail - consumerHead
        in if availableCount < 1 then Some (QUEUE_EMPTY, None, Some q)
           else
             let consumerNext = consumerHead + 1;
                 q = q\<lparr>consumer := (consumer q)\<lparr>rs_head := consumerNext\<rparr>\<rparr>;
                 node = nodes q ! unat (consumerHead AND mask)
             in if rs_tail (consumer q) \<noteq> consumerHead then None
                else Some (0, Some node, Some (q\<lparr>consumer := (consumer q)\<lparr>rs_tail := rs_tail (consumer q) + 1\<rparr>\<rparr>)))"

section \<open>The abstract content and the invariant\<close>

definition queue_count :: "'a LockFreeQueue \<Rightarrow> nat" where
  "queue_count q = unat (rs_tail (producer q) - rs_tail (consumer q))"

definition queue_slot :: "'a LockFreeQueue \<Rightarrow> nat \<Rightarrow> nat" where
  "queue_slot q i = unat ((rs_tail (consumer q) + word_of_nat i) AND rs_mask (producer q))"

definition queue_list :: "'a LockFreeQueue \<Rightarrow> 'a list" where
  "queue_list q = map (\<lambda>i. the (nodes q ! queue_slot q i)) [0..<queue_count q]"

definition queue_cap :: "'a LockFreeQueue \<Rightarrow> nat" where
  "queue_cap q = unat (unitNum q) - 1"

definition queue_wf :: "nat \<Rightarrow> 'a LockFreeQueue \<Rightarrow> bool" where
  "queue_wf k q \<longleftrightarrow>
     k \<le> 13 \<and> unitNum q = 2 ^ k \<and>
     rs_mask (producer q) = 2 ^ k - 1 \<and> rs_mask (consumer q) = 2 ^ k - 1 \<and>
     rs_head (producer q) = rs_tail (producer q) \<and> rs_head (consumer q) = rs_tail (consumer q) \<and>
     length (nodes q) = 2 ^ k \<and> queue_count q < 2 ^ k \<and>
     (\<forall>i < queue_count q. nodes q ! queue_slot q i \<noteq> None)"

definition queue_inv :: "'a LockFreeQueue \<Rightarrow> bool" where
  "queue_inv q \<longleftrightarrow> (\<exists>k. queue_wf k q)"

section \<open>Counter arithmetic\<close>

lemma nat_and_pred_power:
  fixes x :: nat
  shows "0 < x \<Longrightarrow> x AND (x - 1) = 0 \<Longrightarrow> \<exists>k. x = 2 ^ k"
proof (induction x rule: less_induct)
  case (less x)
  show ?case
  proof (cases "even x")
    case True
    then obtain y where y: "x = 2 * y" by auto
    with less.prems have "0 < y" by simp
    have "x - 1 = 1 + 2 * (y - 1)" using y \<open>0 < y\<close> by simp
    then have "x AND (x - 1) = 2 * (y AND (y - 1))"
      using y by (simp add: and_rec [of "2 * y"])
    with less.prems have "y AND (y - 1) = 0" by simp
    with less.IH [of y] y \<open>0 < y\<close> obtain k where "y = 2 ^ k" by auto
    then show ?thesis using y by (metis power_Suc)
  next
    case False
    then obtain y where y: "x = 1 + 2 * y" by (metis oddE add.commute)
    then have "x AND (x - 1) = 2 * y" by (simp add: and_rec [of "Suc (2 * y)"])
    with less.prems y have "x = 2 ^ 0" by simp
    then show ?thesis by blast
  qed
qed

lemma word_power_of_2:
  assumes "IS_POWER_OF_2 n" and "1 \<le> n" and "n \<le> 8192"
  shows "\<exists>k \<le> 13. n = 2 ^ k"
proof -
  have pos: "0 < unat n" using assms(2) by (simp add: word_less_nat_alt word_le_nat_alt)
  have "unat (n - 1) = unat n - 1" using unat_sub [OF assms(2)] by simp
  moreover have "unat (n AND (n - 1)) = 0" using assms(1) by (simp add: IS_POWER_OF_2_def and.commute)
  ultimately have "unat n AND (unat n - 1) = 0" by (simp add: unsigned_and_eq)
  with pos obtain k where k: "unat n = 2 ^ k" using nat_and_pred_power by blast
  have "unat n \<le> 2 ^ 13" using assms(3) by (simp add: word_le_nat_alt)
  with k have "k \<le> 13" by (metis power_le_imp_le_exp one_less_numeral_iff semiring_norm(76))
  moreover have "n = 2 ^ k"
  proof -
    have "n = word_of_nat (unat n)" by simp
    also have "\<dots> = word_of_nat (2 ^ k)" by (simp only: k)
    also have "\<dots> = 2 ^ k" by simp
    finally show ?thesis .
  qed
  ultimately show ?thesis by blast
qed

lemma unat_and_mask: "unat ((x :: 32 word) AND (2 ^ k - 1)) = unat x mod 2 ^ k"
proof -
  have "x AND (2 ^ k - 1) = take_bit k x"
    by (simp only: take_bit_eq_mask mask_eq_exp_minus_1)
  then have "unat (x AND (2 ^ k - 1)) = take_bit k (unat x)" by (simp only: unsigned_take_bit_eq)
  then show ?thesis by (simp only: take_bit_eq_mod)
qed

lemma unat_add_of_nat_mod:
  assumes "k \<le> 13"
  shows "unat (c + word_of_nat i :: 32 word) mod 2 ^ k = (unat c + i) mod 2 ^ k"
proof -
  have d: "(2::nat) ^ k dvd 2 ^ 32" using assms by (intro le_imp_power_dvd) simp
  have "unat (c + word_of_nat i :: 32 word) = (unat c + i) mod 2 ^ 32"
    by (simp add: unat_word_ariths unat_of_nat mod_simps)
  then show ?thesis using mod_mod_cancel [OF d] by simp
qed

lemma power_13_less:
  assumes "k \<le> 13"
  shows "(2::nat) ^ k \<le> 8192" "unat (2 ^ k :: 32 word) = 2 ^ k" "unat (2 ^ k - 1 :: 32 word) = 2 ^ k - 1"
proof -
  show le: "(2::nat) ^ k \<le> 8192"
    using power_increasing [OF assms, of "2::nat"] by simp
  have "unat (2 ^ k :: 32 word) = unat (word_of_nat (2 ^ k) :: 32 word)" by simp
  also have "\<dots> = 2 ^ k" using le by (simp only: unat_of_nat) simp
  finally show u: "unat (2 ^ k :: 32 word) = 2 ^ k" .
  have "1 \<le> (2 ^ k :: 32 word)" using u by (simp add: word_le_nat_alt)
  then show "unat (2 ^ k - 1 :: 32 word) = 2 ^ k - 1" using u unat_sub by fastforce
qed

lemma queue_slot_eq: "queue_wf k q \<Longrightarrow> queue_slot q i = (unat (rs_tail (consumer q)) + i) mod 2 ^ k"
  by (simp add: queue_slot_def queue_wf_def unat_and_mask unat_add_of_nat_mod)

lemma slot_distinct:
  assumes "(c + i) mod n = (c + j) mod n" and "i < n" and "j < n"
  shows "i = (j::nat)"
proof -
  have gen: "a = b" if "(c + a) mod n = (c + b) mod n" "a \<le> b" "b < n" for a b :: nat
  proof -
    have "n dvd (c + b) - (c + a)" using that mod_eq_dvd_iff_nat [of "c + a" "c + b" n] by simp
    moreover have "b - a < n" using that by linarith
    ultimately have "b - a = 0" by (simp add: dvd_imp_le) (metis dvd_imp_le not_less zero_less_diff)
    with that show ?thesis by simp
  qed
  show ?thesis using gen [of i j] gen [of j i] assms by (cases "i \<le> j") auto
qed

text \<open>The number of free slots a producer computes, and the number of occupied ones a consumer sees.\<close>

lemma word_lt_1: "(x :: 32 word) < 1 \<longleftrightarrow> x = 0"
  by (simp add: word_less_nat_alt unat_eq_zero)

lemma available_count:
  assumes "queue_wf k q"
  shows "(rs_mask (producer q) + rs_tail (consumer q)) - rs_head (producer q) < 1 \<longleftrightarrow> queue_count q = queue_cap q"
proof -
  let ?p = "rs_tail (producer q)" and ?c = "rs_tail (consumer q)"
  from assms have k: "k \<le> 13" and lt: "queue_count q < 2 ^ k" by (simp_all add: queue_wf_def)
  have "(2 ^ k - 1 + ?c) - ?p < 1 \<longleftrightarrow> (2 ^ k - 1) - (?p - ?c) = 0"
    by (simp only: word_lt_1 diff_diff_eq2)
  also have "\<dots> \<longleftrightarrow> ?p - ?c = 2 ^ k - 1"
    unfolding right_minus_eq by (rule eq_commute)
  also have "\<dots> \<longleftrightarrow> unat (?p - ?c) = 2 ^ k - 1"
    using power_13_less(3) [OF k] by (metis word_unat_eq_iff)
  finally show ?thesis
    using assms power_13_less(2) [OF k] by (simp add: queue_wf_def queue_count_def queue_cap_def)
qed

lemma queue_count_word:
  "queue_wf k q \<Longrightarrow> (rs_tail (producer q) - rs_tail (consumer q)) AND rs_mask (producer q) = word_of_nat (queue_count q)"
  unfolding word_unat_eq_iff by (auto simp: queue_wf_def unat_and_mask queue_count_def)

lemma queue_count_empty:
  "queue_wf k q \<Longrightarrow> rs_tail (producer q) - rs_head (consumer q) < 1 \<longleftrightarrow> queue_count q = 0"
  by (auto simp: queue_wf_def queue_count_def word_less_nat_alt)

lemma length_queue_list [simp]: "length (queue_list q) = queue_count q"
  by (simp add: queue_list_def)

section \<open>What the operations do to the content\<close>

lemma enqueue_update:
  assumes wf: "queue_wf k q" and nonfull: "queue_count q < queue_cap q"
    and q': "q' = q\<lparr>producer := (producer q)\<lparr>rs_head := rs_head (producer q) + 1, rs_tail := rs_tail (producer q) + 1\<rparr>,
        nodes := (nodes q)[unat (rs_head (producer q) AND rs_mask (producer q)) := Some x]\<rparr>"
  shows "queue_wf k q' \<and> queue_list q' = queue_list q @ [x] \<and> queue_cap q' = queue_cap q"
proof -
  let ?n = "queue_count q" and ?c = "unat (rs_tail (consumer q))"
  from wf have k: "k \<le> 13" and cap: "queue_cap q = 2 ^ k - 1"
    by (simp_all add: queue_wf_def queue_cap_def power_13_less)
  have pc: "rs_tail (producer q) = rs_tail (consumer q) + word_of_nat ?n"
    by (simp add: queue_count_def)
  have n': "queue_count q' = Suc ?n"
  proof -
    have "rs_tail (producer q') - rs_tail (consumer q') = word_of_nat (Suc ?n)"
      using q' pc by (simp add: algebra_simps)
    moreover have "unat (word_of_nat (Suc ?n) :: 32 word) = Suc ?n"
      using nonfull cap power_13_less(1) [OF k] by (subst unat_of_nat) simp
    ultimately show ?thesis by (simp add: queue_count_def)
  qed
  have slot_n: "unat (rs_head (producer q) AND rs_mask (producer q)) = (?c + ?n) mod 2 ^ k"
    using wf pc unat_add_of_nat_mod [OF k] by (simp add: queue_wf_def unat_and_mask)
  have slot: "queue_slot q' i = (?c + i) mod 2 ^ k" for i
    using wf q' by (simp add: queue_slot_def queue_wf_def unat_and_mask unat_add_of_nat_mod)
  have len: "length (nodes q) = 2 ^ k" using wf by (simp add: queue_wf_def)
  have old: "nodes q' ! queue_slot q' i = nodes q ! queue_slot q i" if "i < ?n" for i
  proof -
    have "(?c + i) mod 2 ^ k \<noteq> (?c + ?n) mod 2 ^ k"
      using slot_distinct [of ?c i "2 ^ k" ?n] that nonfull cap by linarith
    then show ?thesis using q' slot slot_n queue_slot_eq [OF wf] by simp
  qed
  have new: "nodes q' ! queue_slot q' ?n = Some x"
    using q' slot slot_n len by simp
  have "queue_wf k q'"
    using wf q' n' old new nonfull cap by (auto simp: queue_wf_def less_Suc_eq)
  moreover have "queue_list q' = queue_list q @ [x]"
    using old new by (simp add: queue_list_def n')
  moreover have "queue_cap q' = queue_cap q" using q' by (simp add: queue_cap_def)
  ultimately show ?thesis by blast
qed

lemma dequeue_update:
  assumes wf: "queue_wf k q" and nonempty: "0 < queue_count q"
    and q': "q' = q\<lparr>consumer := (consumer q)\<lparr>rs_head := rs_head (consumer q) + 1, rs_tail := rs_tail (consumer q) + 1\<rparr>\<rparr>"
  shows "queue_wf k q' \<and> queue_list q' = tl (queue_list q) \<and> queue_cap q' = queue_cap q \<and>
    nodes q ! unat (rs_head (consumer q) AND rs_mask (producer q)) = Some (hd (queue_list q))"
proof -
  let ?n = "queue_count q"
  from nonempty obtain m where m: "?n = Suc m" by (cases ?n) auto
  from wf have k: "k \<le> 13" by (simp add: queue_wf_def)
  have n': "queue_count q' = m"
  proof -
    have "rs_tail (producer q') - rs_tail (consumer q') = (rs_tail (producer q) - rs_tail (consumer q)) - 1"
      using q' by (simp add: algebra_simps)
    moreover have "1 \<le> rs_tail (producer q) - rs_tail (consumer q)"
      using nonempty by (simp add: queue_count_def word_le_nat_alt)
    ultimately show ?thesis using unat_sub m by (metis queue_count_def diff_Suc_1 unat_1)
  qed
  have slot: "queue_slot q' i = queue_slot q (Suc i)" for i
    using q' by (simp add: queue_slot_def add.assoc)
  have live: "nodes q ! queue_slot q i \<noteq> None" if "i < ?n" for i
    using wf that by (simp add: queue_wf_def)
  have nodes': "nodes q' = nodes q" using q' by simp
  have "queue_wf k q'"
    using wf q' n' m live slot nodes' by (auto simp: queue_wf_def)
  moreover have "queue_list q' = tl (queue_list q)"
    unfolding queue_list_def n' m nodes' slot by (simp add: map_tl [symmetric] upt_rec [of 0 "Suc m"] map_Suc_upt [symmetric] comp_def del: upt_Suc)
  moreover have "queue_cap q' = queue_cap q" using q' by (simp add: queue_cap_def)
  moreover have "nodes q ! unat (rs_head (consumer q) AND rs_mask (producer q)) = Some (hd (queue_list q))"
  proof -
    have "unat (rs_head (consumer q) AND rs_mask (producer q)) = queue_slot q 0"
      using wf by (simp add: queue_slot_def queue_wf_def)
    moreover have "hd (queue_list q) = the (nodes q ! queue_slot q 0)"
      by (simp add: queue_list_def m upt_rec del: upt_Suc)
    ultimately show ?thesis using live [of 0] nonempty by auto
  qed
  ultimately show ?thesis by blast
qed

lemma queue_wf_sides:
  "queue_wf k q \<Longrightarrow> rs_head (producer q) = rs_tail (producer q) \<and> rs_head (consumer q) = rs_tail (consumer q)"
  by (simp add: queue_wf_def)

lemma MultiProducerEnqueue_ok:
  assumes "queue_inv q" and "length (queue_list q) < queue_cap q"
  shows "\<exists>q'. QueueMultiProducerEnqueue (Some q) (Some x) = Some (0, Some q') \<and> queue_inv q' \<and>
    queue_list q' = queue_list q @ [x] \<and> queue_cap q' = queue_cap q"
proof -
  from assms(1) obtain k where wf: "queue_wf k q" by (auto simp: queue_inv_def)
  let ?q = "q\<lparr>producer := (producer q)\<lparr>rs_head := rs_head (producer q) + 1, rs_tail := rs_tail (producer q) + 1\<rparr>,
        nodes := (nodes q)[unat (rs_head (producer q) AND rs_mask (producer q)) := Some x]\<rparr>"
  have "QueueMultiProducerEnqueue (Some q) (Some x) = Some (0, Some ?q)"
    using available_count [OF wf] queue_wf_sides [OF wf] assms(2)
    by (simp add: QueueMultiProducerEnqueue_def Let_def)
  moreover have "queue_wf k ?q \<and> queue_list ?q = queue_list q @ [x] \<and> queue_cap ?q = queue_cap q"
    using enqueue_update [OF wf _ refl] assms(2) by simp
  ultimately show ?thesis by (auto simp: queue_inv_def)
qed

lemma queue_count_le_cap: "queue_inv q \<Longrightarrow> queue_count q \<le> queue_cap q"
  by (auto simp: queue_inv_def queue_wf_def queue_cap_def power_13_less)

lemma MultiProducerEnqueue_full:
  assumes "queue_inv q" and "\<not> length (queue_list q) < queue_cap q"
  shows "QueueMultiProducerEnqueue (Some q) (Some x) = Some (QUEUE_FULL, Some q)"
proof -
  from assms(1) obtain k where wf: "queue_wf k q" by (auto simp: queue_inv_def)
  have "queue_count q = queue_cap q" using assms queue_count_le_cap [of q] by simp
  with available_count [OF wf] show ?thesis by (simp add: QueueMultiProducerEnqueue_def Let_def)
qed

lemma SingleConsumerDequeue_ok:
  assumes "queue_inv q" and "queue_list q \<noteq> []"
  shows "\<exists>q'. QueueSingleConsumerDequeue (Some q) = (0, Some (Some (hd (queue_list q))), Some q') \<and> queue_inv q' \<and>
    queue_list q' = tl (queue_list q) \<and> queue_cap q' = queue_cap q"
proof -
  from assms(1) obtain k where wf: "queue_wf k q" by (auto simp: queue_inv_def)
  from assms(2) have pos: "0 < queue_count q" by (metis length_greater_0_conv length_queue_list)
  let ?q = "q\<lparr>consumer := (consumer q)\<lparr>rs_head := rs_head (consumer q) + 1, rs_tail := rs_tail (consumer q) + 1\<rparr>\<rparr>"
  have upd: "queue_wf k ?q \<and> queue_list ?q = tl (queue_list q) \<and> queue_cap ?q = queue_cap q \<and>
    nodes q ! unat (rs_head (consumer q) AND rs_mask (producer q)) = Some (hd (queue_list q))"
    using dequeue_update [OF wf pos refl] .
  have "QueueSingleConsumerDequeue (Some q) = (0, Some (Some (hd (queue_list q))), Some ?q)"
    using queue_count_empty [OF wf] queue_wf_sides [OF wf] pos upd
    by (simp add: QueueSingleConsumerDequeue_def Let_def)
  with upd show ?thesis by (auto simp: queue_inv_def)
qed

lemma SingleConsumerDequeue_empty:
  assumes "queue_inv q" and "queue_list q = []"
  shows "QueueSingleConsumerDequeue (Some q) = (QUEUE_EMPTY, None, Some q)"
proof -
  from assms(1) obtain k where wf: "queue_wf k q" by (auto simp: queue_inv_def)
  from assms(2) have "queue_count q = 0" by (metis length_queue_list list.size(3))
  with queue_count_empty [OF wf] show ?thesis by (simp add: QueueSingleConsumerDequeue_def Let_def)
qed

lemma QueueCountGet_eq: "queue_inv q \<Longrightarrow> QueueCountGet (Some q) = (0, Some (word_of_nat (length (queue_list q))))"
  by (auto simp: QueueCountGet_def Let_def queue_inv_def queue_count_word)

lemma queue_cap_bound: "queue_inv q \<Longrightarrow> queue_cap q < 8192"
proof -
  assume "queue_inv q"
  then obtain k where "k \<le> 13" "unitNum q = 2 ^ k" by (auto simp: queue_inv_def queue_wf_def)
  moreover from this have "(0::nat) < 2 ^ k" by simp
  ultimately show ?thesis using power_13_less [of k] by (simp add: queue_cap_def)
qed

lemma QueueCountGet_unat:
  "queue_inv q \<Longrightarrow> QueueCountGet (Some q) = (0, Some c) \<Longrightarrow> unat c = length (queue_list q)"
  using queue_cap_bound [of q] queue_count_le_cap [of q] by (auto simp: QueueCountGet_eq unat_of_nat)

lemma CreateQueue_Some:
  assumes "CreateQueue ok n = Some (q :: 'a LockFreeQueue)"
  shows "queue_inv q \<and> queue_list q = [] \<and> queue_cap q = unat n - 1"
proof -
  from assms have n: "\<not> n < 1" "IS_POWER_OF_2 n" "\<not> n > 8192"
    and q: "q = \<lparr>magic = QUEUE_HEADER_MAGIC, unitNum = n,
                 producer = \<lparr>rs_size = n, rs_mask = n - 1, rs_head = 0, rs_tail = 0\<rparr>,
                 consumer = \<lparr>rs_size = n, rs_mask = n - 1, rs_head = 0, rs_tail = 0\<rparr>,
                 nodes = replicate (unat n) None\<rparr>"
    by (auto simp: CreateQueue_def QueueSizeCalc_def QueueInit_def Let_def zeroed_queue_def split: if_splits)
  have "1 \<le> n" "n \<le> 8192" using n(1,3) by (simp_all only: not_less)
  then obtain k where k: "k \<le> 13" "n = 2 ^ k"
    using word_power_of_2 [of n] n(2) by blast
  have "queue_wf k q"
    using k by (simp add: queue_wf_def q queue_count_def power_13_less)
  then show ?thesis by (auto simp: queue_inv_def queue_list_def queue_count_def queue_cap_def q)
qed

lemma CreateQueue_succeeds:
  assumes "IS_POWER_OF_2 n" and "1 \<le> n" and "n \<le> 8192"
  shows "\<exists>q :: 'a LockFreeQueue. CreateQueue True n = Some q"
  using assms by (simp add: CreateQueue_def QueueSizeCalc_def QueueInit_def Let_def not_less [symmetric])

section \<open>The bounded FIFO contract\<close>

text \<open>
  What the users of the ring rely on: a content list, a capacity, and enqueue and dequeue that append at
  the end, take from the front, and report full and empty without a change.
\<close>

locale fifo_queue =
  fixes invar :: "'q \<Rightarrow> bool"
    and content :: "'q \<Rightarrow> 'a list"
    and cap :: "'q \<Rightarrow> nat"
    and enq :: "'q option \<Rightarrow> 'a option \<Rightarrow> (int \<times> 'q option) option"
    and deq :: "'q option \<Rightarrow> int \<times> 'a option option \<times> 'q option"
  assumes enq_ok: "invar q \<Longrightarrow> length (content q) < cap q \<Longrightarrow>
      \<exists>q'. enq (Some q) (Some x) = Some (0, Some q') \<and> invar q' \<and> content q' = content q @ [x] \<and> cap q' = cap q"
    and enq_full: "invar q \<Longrightarrow> \<not> length (content q) < cap q \<Longrightarrow> enq (Some q) (Some x) = Some (QUEUE_FULL, Some q)"
    and deq_ok: "invar q \<Longrightarrow> content q \<noteq> [] \<Longrightarrow>
      \<exists>q'. deq (Some q) = (0, Some (Some (hd (content q))), Some q') \<and> invar q' \<and> content q' = tl (content q) \<and> cap q' = cap q"
    and deq_empty: "invar q \<Longrightarrow> content q = [] \<Longrightarrow> deq (Some q) = (QUEUE_EMPTY, None, Some q)"
begin

lemma enq_cases:
  assumes "invar q"
  obtains (stored) q' where "enq (Some q) (Some x) = Some (0, Some q')" "invar q'"
      "content q' = content q @ [x]" "cap q' = cap q" "length (content q) < cap q"
    | (full) "enq (Some q) (Some x) = Some (QUEUE_FULL, Some q)" "cap q \<le> length (content q)"
  using enq_ok [OF assms, of x] enq_full [OF assms, of x] by (cases "length (content q) < cap q") auto

lemma deq_cases:
  assumes "invar q"
  obtains (item) x xs q' where "deq (Some q) = (0, Some (Some x), Some q')" "invar q'"
      "content q = x # xs" "content q' = xs" "cap q' = cap q"
    | (empty) "deq (Some q) = (QUEUE_EMPTY, None, Some q)" "content q = []"
  using deq_ok [OF assms] deq_empty [OF assms] by (cases "content q") auto

end

text \<open>A sequence of calls, with the observable results of each, on a queue and on the bounded list.\<close>

datatype 'a qop = Enq 'a | Deq

fun queue_run :: "('q option \<Rightarrow> 'a option \<Rightarrow> (int \<times> 'q option) option) \<Rightarrow>
    ('q option \<Rightarrow> int \<times> 'a option option \<times> 'q option) \<Rightarrow> 'q option \<Rightarrow> 'a qop list \<Rightarrow>
    (int \<times> 'a option option) list option" where
  "queue_run enq deq q [] = Some []"
| "queue_run enq deq q (Enq x # ops) =
     (case enq q (Some x) of None \<Rightarrow> None
      | Some (ret, q') \<Rightarrow> map_option (Cons (ret, None)) (queue_run enq deq q' ops))"
| "queue_run enq deq q (Deq # ops) =
     (case deq q of (ret, node, q') \<Rightarrow> map_option (Cons (ret, node)) (queue_run enq deq q' ops))"

fun fifo_run :: "nat \<Rightarrow> 'a list \<Rightarrow> 'a qop list \<Rightarrow> (int \<times> 'a option option) list" where
  "fifo_run c xs [] = []"
| "fifo_run c xs (Enq x # ops) =
     (if length xs < c then (0, None) # fifo_run c (xs @ [x]) ops else (QUEUE_FULL, None) # fifo_run c xs ops)"
| "fifo_run c [] (Deq # ops) = (QUEUE_EMPTY, None) # fifo_run c [] ops"
| "fifo_run c (x # xs) (Deq # ops) = (0, Some (Some x)) # fifo_run c xs ops"

context fifo_queue
begin

lemma run_refines:
  assumes "invar q"
  shows "queue_run enq deq (Some q) ops = Some (fifo_run (cap q) (content q) ops)"
  using assms
proof (induction ops arbitrary: q)
  case Nil
  then show ?case by simp
next
  case (Cons op ops)
  show ?case
  proof (cases op)
    case (Enq x)
    show ?thesis
      by (cases rule: enq_cases [OF Cons.prems, of x]) (auto simp: Enq Cons.IH Cons.prems)
  next
    case Deq
    show ?thesis
      by (cases rule: deq_cases [OF Cons.prems]) (auto simp: Deq Cons.IH Cons.prems)
  qed
qed

end

interpretation lfq: fifo_queue queue_inv queue_list queue_cap QueueMultiProducerEnqueue QueueSingleConsumerDequeue
proof
  fix q :: "'a LockFreeQueue" and x :: 'a
  assume inv: "queue_inv q"
  show "length (queue_list q) < queue_cap q \<Longrightarrow>
      \<exists>q'. QueueMultiProducerEnqueue (Some q) (Some x) = Some (0, Some q') \<and> queue_inv q' \<and>
        queue_list q' = queue_list q @ [x] \<and> queue_cap q' = queue_cap q"
    by (rule MultiProducerEnqueue_ok [OF inv])
  show "\<not> length (queue_list q) < queue_cap q \<Longrightarrow>
      QueueMultiProducerEnqueue (Some q) (Some x) = Some (QUEUE_FULL, Some q)"
    by (rule MultiProducerEnqueue_full [OF inv])
  show "queue_list q \<noteq> [] \<Longrightarrow>
      \<exists>q'. QueueSingleConsumerDequeue (Some q) = (0, Some (Some (hd (queue_list q))), Some q') \<and> queue_inv q' \<and>
        queue_list q' = tl (queue_list q) \<and> queue_cap q' = queue_cap q"
    by (rule SingleConsumerDequeue_ok [OF inv])
  show "queue_list q = [] \<Longrightarrow> QueueSingleConsumerDequeue (Some q) = (QUEUE_EMPTY, None, Some q)"
    by (rule SingleConsumerDequeue_empty [OF inv])
qed

text \<open>
  The two variants of each operation agree when nothing interferes.
\<close>

lemma SingleProducerEnqueue_eq:
  "queue_inv q \<Longrightarrow> QueueMultiProducerEnqueue (Some q) node = Some (QueueSingleProducerEnqueue (Some q) node)"
  by (auto simp: queue_inv_def queue_wf_def QueueMultiProducerEnqueue_def QueueSingleProducerEnqueue_def Let_def)

lemma MultiConsumerDequeue_eq:
  "queue_inv q \<Longrightarrow> QueueMultiConsumerDequeue (Some q) = Some (QueueSingleConsumerDequeue (Some q))"
  by (auto simp: queue_inv_def queue_wf_def QueueMultiConsumerDequeue_def QueueSingleConsumerDequeue_def Let_def)

text \<open>A pointer to a ring, as the send queues hold it in an array slot.\<close>

definition slot_list :: "'a LockFreeQueue option \<Rightarrow> 'a list" where
  "slot_list slot = (case slot of None \<Rightarrow> [] | Some q \<Rightarrow> queue_list q)"

definition slot_ok :: "32 word \<Rightarrow> 'a LockFreeQueue option \<Rightarrow> bool" where
  "slot_ok sz slot \<longleftrightarrow> (\<forall>q. slot = Some q \<longrightarrow> queue_inv q \<and> queue_cap q = unat sz - 1)"

section \<open>Properties\<close>

text \<open>
  C1: a queue made by \<open>CreateQueue\<close> with \<open>n\<close> units is a bounded FIFO of capacity \<open>n - 1\<close>: every sequence
  of enqueue and dequeue calls returns exactly the codes and nodes that the bounded list returns, however
  often the 32-bit counters wrap, and no call spins for ever.
\<close>

theorem CreateQueue_refines_fifo:
  assumes "CreateQueue ok n = Some q"
  shows "queue_run QueueMultiProducerEnqueue QueueSingleConsumerDequeue (Some q) ops =
    Some (fifo_run (unat n - 1) [] ops)"
proof -
  from CreateQueue_Some [OF assms] have "queue_inv q" "queue_list q = []" "queue_cap q = unat n - 1"
    by auto
  then show ?thesis using lfq.run_refines [of q ops] by simp
qed

theorem CreateQueue_refines_fifo_witness:
  "\<exists>q :: nat LockFreeQueue. CreateQueue True 4 = Some q \<and>
     queue_run QueueMultiProducerEnqueue QueueSingleConsumerDequeue (Some q)
       [Enq 7, Enq 8, Enq 9, Enq 10, Deq, Deq, Deq, Deq] =
     Some [(0, None), (0, None), (0, None), (QUEUE_FULL, None),
           (0, Some (Some 7)), (0, Some (Some 8)), (0, Some (Some 9)), (QUEUE_EMPTY, None)]"
proof -
  have "IS_POWER_OF_2 4" by (simp add: IS_POWER_OF_2_def)
  then obtain q :: "nat LockFreeQueue" where q: "CreateQueue True 4 = Some q"
    using CreateQueue_succeeds [of 4] by auto
  show ?thesis
    using q CreateQueue_refines_fifo [OF q, of "[Enq 7, Enq 8, Enq 9, Enq 10, Deq, Deq, Deq, Deq]"] by auto
qed

text \<open>
  C28: on any state the operations reach, \<open>QueueCountGet\<close> returns the number of stored nodes,
  \<open>QueueIsEmpty\<close> returns 0 exactly when there is none, and the single-producer and multi-consumer variants
  compute the same as the operations of the FIFO contract.
\<close>

theorem queue_observers:
  assumes inv: "queue_inv q"
  shows "QueueCountGet (Some q) = (0, Some (word_of_nat (length (queue_list q)))) \<and>
    length (queue_list q) < 8192 \<and>
    QueueIsEmpty (Some q) = (if queue_list q = [] then 0 else - 1) \<and>
    QueueMultiProducerEnqueue (Some q) node = Some (QueueSingleProducerEnqueue (Some q) node) \<and>
    QueueMultiConsumerDequeue (Some q) = Some (QueueSingleConsumerDequeue (Some q))"
proof (intro conjI)
  show less: "length (queue_list q) < 8192"
    using queue_cap_bound [OF inv] queue_count_le_cap [OF inv] by simp
  have "word_of_nat (queue_count q) = (0 :: 32 word) \<longleftrightarrow> queue_count q = 0"
    using less by (simp add: unat_of_nat flip: unat_eq_zero)
  then show "QueueIsEmpty (Some q) = (if queue_list q = [] then 0 else - 1)"
    using inv by (auto simp: QueueIsEmpty_def Let_def queue_inv_def queue_count_word simp flip: length_0_conv)
qed (simp_all add: inv QueueCountGet_eq SingleProducerEnqueue_eq MultiConsumerDequeue_eq)

theorem queue_observers_witness:
  "\<exists>q :: nat LockFreeQueue. queue_inv q \<and> QueueCountGet (Some q) = (0, Some 0) \<and> QueueIsEmpty (Some q) = 0"
proof -
  have "IS_POWER_OF_2 4" by (simp add: IS_POWER_OF_2_def)
  then obtain q :: "nat LockFreeQueue" where q: "CreateQueue True 4 = Some q"
    using CreateQueue_succeeds [of 4] by auto
  with CreateQueue_Some [OF q] queue_observers [of q "Some 0"] show ?thesis by auto
qed

end
