(* ===== verification/Keyed_Fifo.thy ===== *)
theory Keyed_Fifo
  imports Prelude
begin

text \<open>
  The contract the three send queues of the connection layer share: a store of first-in first-out lists, one
  per key (the client and the priority of a message).  An operation takes an environment \<open>'e\<close> that carries
  the outcomes the operation does not control; a dequeue reports nothing only when every list is empty.
\<close>

datatype ('e, 'a) kop = KEnq 'e 'a | KDeq 'e

datatype 'a kevent = Stored 'a | Refused 'a | Taken 'a | Nothing

fun keyed_run ::
  "('e \<Rightarrow> 'q \<Rightarrow> 'a \<Rightarrow> bool \<times> 'q) \<Rightarrow> ('e \<Rightarrow> 'q \<Rightarrow> 'a option \<times> 'q) \<Rightarrow> 'q \<Rightarrow> ('e, 'a) kop list \<Rightarrow> 'a kevent list \<times> 'q" where
  "keyed_run enq deq q [] = ([], q)"
| "keyed_run enq deq q (KEnq e x # ops) =
     (case enq e q x of (ok, q') \<Rightarrow>
        apfst (Cons (if ok then Stored x else Refused x)) (keyed_run enq deq q' ops))"
| "keyed_run enq deq q (KDeq e # ops) =
     (case deq e q of (out, q') \<Rightarrow>
        apfst (Cons (case out of Some x \<Rightarrow> Taken x | None \<Rightarrow> Nothing)) (keyed_run enq deq q' ops))"

fun stored :: "'a kevent list \<Rightarrow> 'a list" where
  "stored [] = []"
| "stored (Stored x # es) = x # stored es"
| "stored (_ # es) = stored es"

fun taken :: "'a kevent list \<Rightarrow> 'a list" where
  "taken [] = []"
| "taken (Taken x # es) = x # taken es"
| "taken (_ # es) = taken es"

text \<open>
  Both round-robin lists keep one node per client; the messages of a client are those of its node.
\<close>

fun client_lookup :: "('c \<Rightarrow> int) \<Rightarrow> ('c \<Rightarrow> nat \<Rightarrow> 'a list) \<Rightarrow> 'c list \<Rightarrow> int \<Rightarrow> nat \<Rightarrow> 'a list" where
  "client_lookup ident items [] i = (\<lambda>p. [])"
| "client_lookup ident items (c # cs) i = (if ident c = i then items c else client_lookup ident items cs i)"

lemma client_lookup_append:
  "client_lookup ident items (xs @ ys) i =
     (if i \<in> ident ` set xs then client_lookup ident items xs i else client_lookup ident items ys i)"
  by (induction xs) auto

lemma client_lookup_notin: "i \<notin> ident ` set cs \<Longrightarrow> client_lookup ident items cs i = (\<lambda>p. [])"
  by (induction cs) auto

lemma client_lookup_empty:
  "\<forall>c \<in> set cs. items c = (\<lambda>p. []) \<Longrightarrow> client_lookup ident items cs i = (\<lambda>p. [])"
  by (induction cs) auto

lemma client_lookup_mem:
  "distinct (map ident cs) \<Longrightarrow> c \<in> set cs \<Longrightarrow> client_lookup ident items cs (ident c) = items c"
  by (induction cs) auto

text \<open>Serving a client: empty ones before it disappear, it moves to the end with its new content.\<close>

lemma client_lookup_rotate:
  assumes "distinct (map ident (before @ c # after))" "\<forall>b \<in> set before. items b = (\<lambda>p. [])" "ident c' = ident c"
  shows "client_lookup ident items (after @ [c']) = (client_lookup ident items (before @ c # after))(ident c := items c')"
proof
  fix i
  show "client_lookup ident items (after @ [c']) i = ((client_lookup ident items (before @ c # after))(ident c := items c')) i"
    using assms client_lookup_empty [OF assms(2)]
    by (auto simp: client_lookup_append client_lookup_notin image_iff)
qed

locale keyed_fifo =
  fixes invar :: "'q \<Rightarrow> bool"
    and content :: "'q \<Rightarrow> 'k \<Rightarrow> 'a list"
    and key :: "'a \<Rightarrow> 'k"
    and enq :: "'e \<Rightarrow> 'q \<Rightarrow> 'a \<Rightarrow> bool \<times> 'q"
    and deq :: "'e \<Rightarrow> 'q \<Rightarrow> 'a option \<times> 'q"
  assumes enq_law: "invar q \<Longrightarrow> enq e q x = (ok, q') \<Longrightarrow>
      invar q' \<and> content q' = (if ok then (content q)(key x := content q (key x) @ [x]) else content q)"
    and deq_some: "invar q \<Longrightarrow> deq e q = (Some x, q') \<Longrightarrow>
      invar q' \<and> content q (key x) \<noteq> [] \<and> x = hd (content q (key x)) \<and> content q' = (content q)(key x := tl (content q (key x)))"
    and deq_none: "invar q \<Longrightarrow> deq e q = (None, q') \<Longrightarrow> invar q' \<and> content q' = content q \<and> (\<forall>k. content q k = [])"
begin

lemma enq_invar: "invar q \<Longrightarrow> invar (snd (enq e q x))"
  using enq_law by (metis prod.collapse)

lemma deq_invar: "invar q \<Longrightarrow> invar (snd (deq e q))"
  using deq_some deq_none by (metis option.exhaust prod.collapse)

lemma run_invar: "invar q \<Longrightarrow> invar (snd (keyed_run enq deq q ops))"
proof (induction ops arbitrary: q)
  case (Cons op ops)
  then show ?case
    using enq_invar deq_invar by (cases op) (auto simp: split_beta)
qed simp

text \<open>For every key, what was there and what came in is what went out and what is left, in this order.\<close>

lemma run_fifo:
  assumes "invar q" "keyed_run enq deq q ops = (es, q')"
  shows "content q k @ filter (\<lambda>x. key x = k) (stored es) = filter (\<lambda>x. key x = k) (taken es) @ content q' k"
  using assms
proof (induction ops arbitrary: q es)
  case (Cons op ops)
  show ?case
  proof (cases op)
    case (KEnq e x)
    obtain ok q1 where enq: "enq e q x = (ok, q1)" by fastforce
    obtain es' where run: "keyed_run enq deq q1 ops = (es', q')" and es: "es = (if ok then Stored x else Refused x) # es'"
      using Cons.prems(2) by (cases "keyed_run enq deq q1 ops") (auto simp: KEnq enq)
    note law = enq_law [OF Cons.prems(1) enq]
    from Cons.IH [OF law [THEN conjunct1] run] law show ?thesis
      by (auto simp: es fun_upd_def split: if_splits)
  next
    case (KDeq e)
    obtain out q1 where deq: "deq e q = (out, q1)" by fastforce
    obtain es' where run: "keyed_run enq deq q1 ops = (es', q')"
      and es: "es = (case out of Some x \<Rightarrow> Taken x | None \<Rightarrow> Nothing) # es'"
      using Cons.prems(2) by (cases "keyed_run enq deq q1 ops") (auto simp: KDeq deq)
    show ?thesis
    proof (cases out)
      case None
      note law = deq_none [OF Cons.prems(1) deq [unfolded None]]
      with Cons.IH [OF _ run] show ?thesis by (auto simp: es None)
    next
      case (Some x)
      note law = deq_some [OF Cons.prems(1) deq [unfolded Some]]
      then obtain xs where "content q (key x) = x # xs" by (metis list.collapse)
      with law Cons.IH [OF _ run] show ?thesis by (auto simp: es Some)
    qed
  qed
qed simp

text \<open>When a dequeue reports nothing, everything stored has been taken.\<close>

lemma run_drained:
  assumes "invar q" "\<forall>k. content q k = []" "keyed_run enq deq q ops = (es, q')" "deq e q' = (None, q'')"
  shows "filter (\<lambda>x. key x = k) (taken es) = filter (\<lambda>x. key x = k) (stored es)"
proof -
  have "invar q'" using run_invar [OF assms(1), of ops] assms(3) by simp
  then show ?thesis using run_fifo [OF assms(1,3), of k] assms(2) deq_none [OF _ assms(4)] by simp
qed

end

end
