(* ===== verification/Fair_Priority_Queue.thy ===== *)
theory Fair_Priority_Queue
  imports Lock_Free_Queue Keyed_Fifo "HOL-Library.Signed_Division"
begin

text \<open>
  The fair priority queue of \<^verbatim>\<open>core/connection/common/src/softbus_conn_fair_priority_queue.c\<close>: one priority
  queue per client id in a round-robin list, and an inner queue (id 0) whose high and middle priorities go
  before the clients and whose low priority goes after them.  Every priority queue holds up to three lock-free
  rings, created on first use.

  The mutex makes each pass atomic.  A condition wait releases it: the argument \<open>condWait\<close> gives the return
  code of the wait and the queue as the other threads leave it.  Allocation outcomes are numbered in the order
  in which a call reaches them.
\<close>

section \<open>Data\<close>

abbreviation CONN_PRIORITY_HIGH :: nat where "CONN_PRIORITY_HIGH \<equiv> 0"
abbreviation CONN_PRIORITY_MIDDLE :: nat where "CONN_PRIORITY_MIDDLE \<equiv> 1"
abbreviation CONN_PRIORITY_LOW :: nat where "CONN_PRIORITY_LOW \<equiv> 2"
abbreviation CONN_PRIORITY_BUTT :: nat where "CONN_PRIORITY_BUTT \<equiv> 3"

abbreviation SOFTBUS_CONN_INTERNAL_ERR :: int where "SOFTBUS_CONN_INTERNAL_ERR \<equiv> - 425918366"

abbreviation FACTOR_S_MS_US :: int where "FACTOR_S_MS_US \<equiv> 1000"

record 'a ConnQueueItem =
  item_id :: int
  item_priority :: nat
  item_body :: 'a

record 'a PriorityQueue =
  pq_id :: int
  pq_queue :: "'a ConnQueueItem LockFreeQueue option list"
  pq_size :: "32 word"

record 'a ConnFairPriorityQueue =
  fq_size :: "32 word"
  fq_queues :: "'a PriorityQueue list"
  fq_inner :: "'a PriorityQueue"

section \<open>Operations\<close>

definition ConnQueueItemConstruct :: "'a ConnQueueItem option \<Rightarrow> int \<Rightarrow> nat \<Rightarrow> 'a ConnQueueItem option" where
  "ConnQueueItemConstruct item ident priority =
     (case item of None \<Rightarrow> None | Some i \<Rightarrow> Some (i\<lparr>item_id := ident, item_priority := priority\<rparr>))"

definition CreatePriorityQueue :: "bool \<Rightarrow> int \<Rightarrow> 32 word \<Rightarrow> 'a PriorityQueue option" where
  "CreatePriorityQueue callocOk ident sz =
     (if \<not> callocOk then None
      else Some \<lparr>pq_id = ident, pq_queue = replicate CONN_PRIORITY_BUTT None, pq_size = sz\<rparr>)"

text \<open>\<open>GetQueue\<close> returns the ring of a priority and the queue, in which it may just have been created.\<close>

definition GetQueue ::
  "bool \<Rightarrow> 'a PriorityQueue \<Rightarrow> nat \<Rightarrow> bool \<Rightarrow> 'a ConnQueueItem LockFreeQueue option \<times> 'a PriorityQueue" where
  "GetQueue callocOk queue priority createIfEmpty =
     (if \<not> priority < CONN_PRIORITY_BUTT then (None, queue)
      else
        let lfq = pq_queue queue ! priority
        in if \<not> createIfEmpty \<or> lfq \<noteq> None then (lfq, queue)
           else case CreateQueue callocOk (pq_size queue) of
                  None \<Rightarrow> (None, queue)
                | Some q \<Rightarrow> (Some q, queue\<lparr>pq_queue := (pq_queue queue)[priority := Some q]\<rparr>))"

definition Enqueue :: "bool \<Rightarrow> 'a PriorityQueue \<Rightarrow> 'a ConnQueueItem \<Rightarrow> (int \<times> 'a PriorityQueue) option" where
  "Enqueue callocOk queue item =
     (let priority = item_priority item
      in case GetQueue callocOk queue priority True of
           (None, queue) \<Rightarrow> Some (SOFTBUS_MALLOC_ERR, queue)
         | (Some lfq, queue) \<Rightarrow>
             (case QueueMultiProducerEnqueue (Some lfq) (Some item) of
                None \<Rightarrow> None
              | Some (ret, lfq') \<Rightarrow> Some (ret, queue\<lparr>pq_queue := (pq_queue queue)[priority := lfq']\<rparr>)))"

text \<open>The loop over the priorities still to try; the item is what \<open>out\<close> points to afterwards.\<close>

fun Dequeue_loop ::
  "'a PriorityQueue \<Rightarrow> nat list \<Rightarrow> int \<times> 'a ConnQueueItem option option \<times> 'a PriorityQueue" where
  "Dequeue_loop queue [] = (QUEUE_EMPTY, None, queue)"
| "Dequeue_loop queue (priority # rest) =
     (case GetQueue False queue priority False of
        (None, _) \<Rightarrow> Dequeue_loop queue rest
      | (Some lfq, _) \<Rightarrow>
          (case QueueSingleConsumerDequeue (Some lfq) of
             (ret, out, lfq') \<Rightarrow>
               let queue' = queue\<lparr>pq_queue := (pq_queue queue)[priority := lfq']\<rparr>
               in if ret = QUEUE_EMPTY then Dequeue_loop queue' rest else (ret, out, queue')))"

definition Dequeue :: "'a PriorityQueue \<Rightarrow> nat \<Rightarrow> int \<times> 'a ConnQueueItem option option \<times> 'a PriorityQueue" where
  "Dequeue queue least = Dequeue_loop queue [0..<Suc least]"

definition ConnCreateQueue ::
  "(nat \<Rightarrow> bool) \<Rightarrow> int \<Rightarrow> int \<Rightarrow> int \<Rightarrow> 32 word \<Rightarrow> 'a ConnFairPriorityQueue option" where
  "ConnCreateQueue al mutexInit dequeueInit enqueueInit sz =
     (if \<not> al 0 then None
      else if mutexInit \<noteq> SOFTBUS_OK then None
      else if dequeueInit \<noteq> SOFTBUS_OK then None
      else if enqueueInit \<noteq> SOFTBUS_OK then None
      else case CreatePriorityQueue (al 1) 0 sz of
             None \<Rightarrow> None
           | Some inner \<Rightarrow> Some \<lparr>fq_size = sz, fq_queues = [], fq_inner = inner\<rparr>)"

text \<open>
  Lookup of the priority queue of an id.  The result says where it is: the inner queue or a position of the
  list, whose tail may just have been extended.
\<close>

datatype pq_ref = Inner | At nat

fun find_id :: "int \<Rightarrow> 'a PriorityQueue list \<Rightarrow> nat option" where
  "find_id ident [] = None"
| "find_id ident (it # rest) = (if pq_id it = ident then Some 0 else map_option Suc (find_id ident rest))"

definition GetOrCreatePriorityQueue ::
  "bool \<Rightarrow> 'a ConnFairPriorityQueue \<Rightarrow> int \<Rightarrow> pq_ref option \<times> 'a ConnFairPriorityQueue" where
  "GetOrCreatePriorityQueue callocOk queue ident =
     (if ident = 0 then (Some Inner, queue)
      else case find_id ident (fq_queues queue) of
             Some k \<Rightarrow> (Some (At k), queue)
           | None \<Rightarrow>
               (case CreatePriorityQueue callocOk ident (fq_size queue) of
                  None \<Rightarrow> (None, queue)
                | Some pq \<Rightarrow> (Some (At (length (fq_queues queue))), queue\<lparr>fq_queues := fq_queues queue @ [pq]\<rparr>)))"

fun pq_at :: "'a ConnFairPriorityQueue \<Rightarrow> pq_ref \<Rightarrow> 'a PriorityQueue" where
  "pq_at queue Inner = fq_inner queue"
| "pq_at queue (At k) = fq_queues queue ! k"

fun pq_put :: "'a ConnFairPriorityQueue \<Rightarrow> pq_ref \<Rightarrow> 'a PriorityQueue \<Rightarrow> 'a ConnFairPriorityQueue" where
  "pq_put queue Inner pq = queue\<lparr>fq_inner := pq\<rparr>"
| "pq_put queue (At k) pq = queue\<lparr>fq_queues := (fq_queues queue)[k := pq]\<rparr>"

text \<open>
  \<open>WaitCondition\<close> with the deadline it computes; a negative timeout waits without one.  The product is
  computed in 32 bits.
\<close>

definition WaitCondition ::
  "((int \<times> int) option \<Rightarrow> 's \<Rightarrow> int \<times> 's) \<Rightarrow> int \<times> (int \<times> int) \<Rightarrow> int \<Rightarrow> 's \<Rightarrow> int \<times> 's" where
  "WaitCondition condWait getTime timeoutMs s =
     (if timeoutMs < 0 then condWait None s
      else case getTime of (ret, (sec, usec)) \<Rightarrow>
        if ret \<noteq> SOFTBUS_OK then (ret, s)
        else
          let us = s32 (timeoutMs * FACTOR_S_MS_US) + usec
          in condWait (Some (sec + us sdiv (FACTOR_S_MS_US * FACTOR_S_MS_US), us smod (FACTOR_S_MS_US * FACTOR_S_MS_US))) s)"

text \<open>
  The \<open>do\<close> loop of \<open>ConnEnqueue\<close>, entered again once after a wait; a pass uses two allocation sites.
  The outer option is None when the ring operation would spin.
\<close>

function ConnEnqueue_loop ::
  "('a ConnFairPriorityQueue \<Rightarrow> int \<times> 'a ConnFairPriorityQueue) \<Rightarrow> (nat \<Rightarrow> bool) \<Rightarrow> bool \<Rightarrow>
   'a ConnFairPriorityQueue \<Rightarrow> 'a ConnQueueItem \<Rightarrow> (int \<times> 'a ConnFairPriorityQueue) option" where
  "ConnEnqueue_loop wait al afterWait queue item =
     (case GetOrCreatePriorityQueue (al 0) queue (item_id item) of
        (None, queue) \<Rightarrow> Some (SOFTBUS_MALLOC_ERR, queue)
      | (Some r, queue) \<Rightarrow>
          (case Enqueue (al 1) (pq_at queue r) item of
             None \<Rightarrow> None
           | Some (code, pq) \<Rightarrow>
               let queue = pq_put queue r pq
               in if code = SOFTBUS_OK then Some (code, queue)
                  else if code \<noteq> QUEUE_FULL then Some (code, queue)
                  else if afterWait then Some (SOFTBUS_CONN_INTERNAL_ERR, queue)
                  else case wait queue of (code, queue) \<Rightarrow>
                    if code \<noteq> SOFTBUS_OK then Some (code, queue)
                    else ConnEnqueue_loop wait (\<lambda>i. al (i + 2)) True queue item))"
  by pat_completeness auto
termination
  by (relation "measure (\<lambda>(_, _, afterWait, _, _). if afterWait then 0 else 1)") auto

text \<open>The boolean result says whether the dequeue condition is signalled.\<close>

definition ConnEnqueue ::
  "((int \<times> int) option \<Rightarrow> 'a ConnFairPriorityQueue \<Rightarrow> int \<times> 'a ConnFairPriorityQueue) \<Rightarrow> int \<times> (int \<times> int) \<Rightarrow>
   (nat \<Rightarrow> bool) \<Rightarrow> int \<Rightarrow> 'a ConnFairPriorityQueue option \<Rightarrow> 'a ConnQueueItem option \<Rightarrow> int \<Rightarrow>
   (int \<times> bool \<times> 'a ConnFairPriorityQueue option) option" where
  "ConnEnqueue condWait getTime al lock queue item timeoutMs =
     (case queue of None \<Rightarrow> Some (SOFTBUS_INVALID_PARAM, False, None)
      | Some q \<Rightarrow>
       (case item of None \<Rightarrow> Some (SOFTBUS_INVALID_PARAM, False, Some q)
        | Some it \<Rightarrow>
          if lock \<noteq> SOFTBUS_OK then Some (lock, False, Some q)
          else case ConnEnqueue_loop (WaitCondition condWait getTime timeoutMs) al False q it of
                 None \<Rightarrow> None
               | Some (code, q') \<Rightarrow> Some (code, code = SOFTBUS_OK, Some q')))"

definition DequeueInner ::
  "'a ConnFairPriorityQueue \<Rightarrow> nat \<Rightarrow> int \<times> 'a ConnQueueItem option option \<times> 'a ConnFairPriorityQueue" where
  "DequeueInner queue least =
     (case Dequeue (fq_inner queue) least of (ret, out, pq) \<Rightarrow> (ret, out, queue\<lparr>fq_inner := pq\<rparr>))"

fun DequeueFairly_loop ::
  "'a PriorityQueue list \<Rightarrow> int \<times> 'a ConnQueueItem option option \<times> 'a PriorityQueue list" where
  "DequeueFairly_loop [] = (QUEUE_EMPTY, None, [])"
| "DequeueFairly_loop (it # rest) =
     (case Dequeue it CONN_PRIORITY_LOW of (ret, out, it') \<Rightarrow>
        if ret = QUEUE_EMPTY then DequeueFairly_loop rest else (ret, out, rest @ [it']))"

definition DequeueFairly ::
  "'a ConnFairPriorityQueue \<Rightarrow> int \<times> 'a ConnQueueItem option option \<times> 'a ConnFairPriorityQueue" where
  "DequeueFairly queue =
     (case DequeueFairly_loop (fq_queues queue) of (ret, out, qs) \<Rightarrow> (ret, out, queue\<lparr>fq_queues := qs\<rparr>))"

function ConnDequeue_loop ::
  "('a ConnFairPriorityQueue \<Rightarrow> int \<times> 'a ConnFairPriorityQueue) \<Rightarrow> bool \<Rightarrow> 'a ConnFairPriorityQueue \<Rightarrow>
   int \<times> 'a ConnQueueItem option option \<times> 'a ConnFairPriorityQueue" where
  "ConnDequeue_loop wait afterWait queue =
     (case DequeueInner queue CONN_PRIORITY_MIDDLE of (code, out, queue) \<Rightarrow>
      if code \<noteq> QUEUE_EMPTY then (code, out, queue)
      else case DequeueFairly queue of (code, out, queue) \<Rightarrow>
      if code \<noteq> QUEUE_EMPTY then (code, out, queue)
      else case DequeueInner queue CONN_PRIORITY_LOW of (code, out, queue) \<Rightarrow>
      if code \<noteq> QUEUE_EMPTY then (code, out, queue)
      else if afterWait then (SOFTBUS_CONN_INTERNAL_ERR, None, queue)
      else case wait queue of (code, queue) \<Rightarrow>
      if code = SOFTBUS_TIMOUT then (code, None, queue)
      else if code \<noteq> SOFTBUS_OK then (code, None, queue)
      else ConnDequeue_loop wait True queue)"
  by pat_completeness auto
termination
  by (relation "measure (\<lambda>(_, afterWait, _). if afterWait then 0 else 1)") auto

definition ConnDequeue ::
  "((int \<times> int) option \<Rightarrow> 'a ConnFairPriorityQueue \<Rightarrow> int \<times> 'a ConnFairPriorityQueue) \<Rightarrow> int \<times> (int \<times> int) \<Rightarrow>
   int \<Rightarrow> 'a ConnFairPriorityQueue option \<Rightarrow> bool \<Rightarrow> int \<Rightarrow>
   int \<times> 'a ConnQueueItem option option \<times> bool \<times> 'a ConnFairPriorityQueue option" where
  "ConnDequeue condWait getTime lock queue outMsgNonNull timeoutMs =
     (case queue of None \<Rightarrow> (SOFTBUS_INVALID_PARAM, None, False, None)
      | Some q \<Rightarrow>
        if \<not> outMsgNonNull then (SOFTBUS_INVALID_PARAM, None, False, Some q)
        else if lock \<noteq> SOFTBUS_OK then (lock, None, False, Some q)
        else case ConnDequeue_loop (WaitCondition condWait getTime timeoutMs) False q of
               (code, out, q') \<Rightarrow> (code, out, code = SOFTBUS_OK, Some q'))"

section \<open>Abstract content\<close>

text \<open>The items waiting for an id and a priority, oldest first.\<close>

definition pq_items :: "'a PriorityQueue \<Rightarrow> nat \<Rightarrow> 'a ConnQueueItem list" where
  "pq_items pq p = (if p < CONN_PRIORITY_BUTT then slot_list (pq_queue pq ! p) else [])"

abbreviation client_items :: "'a PriorityQueue list \<Rightarrow> int \<Rightarrow> nat \<Rightarrow> 'a ConnQueueItem list" where
  "client_items \<equiv> client_lookup pq_id pq_items"

definition fq_items :: "'a ConnFairPriorityQueue \<Rightarrow> int \<Rightarrow> nat \<Rightarrow> 'a ConnQueueItem list" where
  "fq_items q i = (if i = 0 then pq_items (fq_inner q) else client_items (fq_queues q) i)"

definition size_ok :: "32 word \<Rightarrow> bool" where
  "size_ok sz \<longleftrightarrow> IS_POWER_OF_2 sz \<and> 1 \<le> sz \<and> sz \<le> 8192"

definition pq_wf :: "32 word \<Rightarrow> 'a PriorityQueue \<Rightarrow> bool" where
  "pq_wf sz pq \<longleftrightarrow> length (pq_queue pq) = CONN_PRIORITY_BUTT \<and> pq_size pq = sz \<and>
     (\<forall>slot \<in> set (pq_queue pq). slot_ok sz slot) \<and>
     (\<forall>p. \<forall>it \<in> set (pq_items pq p). item_id it = pq_id pq \<and> item_priority it = p)"

definition fq_inv :: "'a ConnFairPriorityQueue \<Rightarrow> bool" where
  "fq_inv q \<longleftrightarrow> size_ok (fq_size q) \<and> pq_wf (fq_size q) (fq_inner q) \<and> pq_id (fq_inner q) = 0 \<and>
     (\<forall>pq \<in> set (fq_queues q). pq_wf (fq_size q) pq) \<and>
     distinct (map pq_id (fq_queues q)) \<and> 0 \<notin> pq_id ` set (fq_queues q)"

lemma pq_items_update:
  assumes "p < CONN_PRIORITY_BUTT" "length (pq_queue pq) = CONN_PRIORITY_BUTT"
  shows "pq_items (pq\<lparr>pq_queue := (pq_queue pq)[p := slot]\<rparr>) = (pq_items pq)(p := slot_list slot)"
  using assms by (auto simp: pq_items_def fun_eq_iff nth_list_update)

lemma pq_wf_update:
  assumes "pq_wf sz pq" "p < CONN_PRIORITY_BUTT" "slot_ok sz slot"
    and "\<forall>it \<in> set (slot_list slot). item_id it = pq_id pq \<and> item_priority it = p"
  shows "pq_wf sz (pq\<lparr>pq_queue := (pq_queue pq)[p := slot]\<rparr>)"
proof -
  have len: "length (pq_queue pq) = CONN_PRIORITY_BUTT" using assms(1) by (simp add: pq_wf_def)
  show ?thesis
    using assms set_update_subset_insert [of "pq_queue pq" p slot]
    by (auto simp: pq_wf_def pq_items_update [OF assms(2) len])
qed

text \<open>The four outcomes of \<open>Enqueue\<close> on one priority queue.\<close>

lemma Enqueue_cases:
  assumes wf: "pq_wf sz pq" and sz: "size_ok sz" and it: "item_id it = pq_id pq"
  obtains (stored) pq' where "Enqueue ok pq it = Some (SOFTBUS_OK, pq')" "pq_wf sz pq'" "pq_id pq' = pq_id pq"
      "item_priority it < CONN_PRIORITY_BUTT"
      "length (pq_items pq (item_priority it)) < unat sz - 1"
      "pq_items pq' = (pq_items pq)(item_priority it := pq_items pq (item_priority it) @ [it])"
  | (full) pq' where "Enqueue ok pq it = Some (QUEUE_FULL, pq')" "pq_wf sz pq'" "pq_id pq' = pq_id pq"
      "item_priority it < CONN_PRIORITY_BUTT"
      "unat sz - 1 \<le> length (pq_items pq (item_priority it))" "pq_items pq' = pq_items pq"
  | (failed) "Enqueue ok pq it = Some (SOFTBUS_MALLOC_ERR, pq)"
      "\<not> ok \<and> pq_items pq (item_priority it) = [] \<or> \<not> item_priority it < CONN_PRIORITY_BUTT"
proof (cases "item_priority it < CONN_PRIORITY_BUTT")
  case p: True
  let ?p = "item_priority it"
  have len: "length (pq_queue pq) = CONN_PRIORITY_BUTT" and size: "pq_size pq = sz"
    using wf by (simp_all add: pq_wf_def)
  have item: "\<forall>x \<in> set (pq_items pq ?p). item_id x = pq_id pq \<and> item_priority x = ?p"
    using wf by (simp add: pq_wf_def)
  consider (none) "pq_queue pq ! ?p = None" "CreateQueue ok sz = (None :: 'a ConnQueueItem LockFreeQueue option)"
    | (ring) lfq where "queue_inv lfq" "queue_cap lfq = unat sz - 1" "queue_list lfq = pq_items pq ?p"
        "GetQueue ok pq ?p True = (Some lfq, pq\<lparr>pq_queue := (pq_queue pq)[?p := Some lfq]\<rparr>)"
  proof (cases "pq_queue pq ! ?p")
    case None
    then show thesis
      using that p size CreateQueue_Some [of ok sz] by (cases "CreateQueue ok sz :: 'a ConnQueueItem LockFreeQueue option")
        (auto simp: GetQueue_def pq_items_def slot_list_def)
  next
    case (Some lfq)
    then have "slot_ok sz (Some lfq)" using wf p nth_mem [of ?p "pq_queue pq"] by (auto simp: pq_wf_def)
    with Some p show thesis
      using that(2) [of lfq] list_update_id [of "pq_queue pq" ?p]
      by (simp add: GetQueue_def pq_items_def slot_list_def slot_ok_def)
  qed
  then show thesis
  proof cases
    case none
    have "\<exists>q :: 'a ConnQueueItem LockFreeQueue. CreateQueue True sz = Some q"
      using sz CreateQueue_succeeds [of sz] by (simp add: size_ok_def)
    then have "\<not> ok" using none(2) by (cases ok) auto
    with none p size show thesis
      by (intro failed) (auto simp: Enqueue_def GetQueue_def pq_items_def slot_list_def)
  next
    case ring
    note wf' = pq_wf_update [OF wf p, of "Some _"] and items' = pq_items_update [OF p len]
    from ring(1) show thesis
    proof (cases rule: lfq.enq_cases [where x = it])
      case (stored lfq')
      show thesis
        by (rule that(1) [of "pq\<lparr>pq_queue := (pq_queue pq)[?p := Some lfq']\<rparr>"])
          (use stored ring p item it in \<open>auto simp: Enqueue_def items' slot_list_def slot_ok_def intro!: wf'\<close>)
    next
      case full
      show thesis
        by (rule that(2) [of "pq\<lparr>pq_queue := (pq_queue pq)[?p := Some lfq]\<rparr>"])
          (use full ring p item it in \<open>auto simp: Enqueue_def items' slot_list_def slot_ok_def intro!: wf'\<close>)
    qed
  qed
next
  case False
  then show thesis by (intro failed) (auto simp: Enqueue_def GetQueue_def)
qed

lemma pq_items_empty_slot:
  assumes "pq_wf sz pq" "p < CONN_PRIORITY_BUTT" "pq_queue pq ! p = Some lfq"
  shows "queue_inv lfq" "queue_cap lfq = unat sz - 1" "pq_items pq p = queue_list lfq"
  using assms nth_mem [of p "pq_queue pq"] by (fastforce simp: pq_wf_def slot_ok_def pq_items_def slot_list_def)+

lemma Dequeue_loop_cases:
  assumes wf: "pq_wf sz pq" and ps: "\<forall>p \<in> set ps. p < CONN_PRIORITY_BUTT"
  obtains (item) it p rest before after pq' where "Dequeue_loop pq ps = (SOFTBUS_OK, Some (Some it), pq')"
      "ps = before @ p # after" "\<forall>p' \<in> set before. pq_items pq p' = []" "pq_items pq p = it # rest"
      "pq_items pq' = (pq_items pq)(p := rest)" "pq_wf sz pq'" "pq_id pq' = pq_id pq"
  | (empty) "Dequeue_loop pq ps = (QUEUE_EMPTY, None, pq)" "\<forall>p \<in> set ps. pq_items pq p = []"
  using ps
proof (induction ps arbitrary: thesis)
  case Nil
  then show ?case by simp
next
  case (Cons p ps)
  have p: "p < CONN_PRIORITY_BUTT" and len: "length (pq_queue pq) = CONN_PRIORITY_BUTT"
    using Cons.prems(3) wf by (auto simp: pq_wf_def)
  have skip: thesis if "Dequeue_loop pq (p # ps) = Dequeue_loop pq ps" "pq_items pq p = []"
  proof (rule Cons.IH)
    show "\<forall>p \<in> set ps. p < CONN_PRIORITY_BUTT" using Cons.prems(3) by simp
  next
    fix it p' rest before after pq'
    assume "Dequeue_loop pq ps = (SOFTBUS_OK, Some (Some it), pq')" "ps = before @ p' # after"
      "\<forall>p' \<in> set before. pq_items pq p' = []" "pq_items pq p' = it # rest"
      "pq_items pq' = (pq_items pq)(p' := rest)" "pq_wf sz pq'" "pq_id pq' = pq_id pq"
    with that show thesis by (intro Cons.prems(1) [of it pq' "p # before" p' after rest]) auto
  next
    assume "Dequeue_loop pq ps = (QUEUE_EMPTY, None, pq)" "\<forall>p \<in> set ps. pq_items pq p = []"
    with that show thesis by (intro Cons.prems(2)) auto
  qed
  show ?case
  proof (cases "pq_queue pq ! p")
    case None
    with p show thesis by (intro skip) (simp_all add: GetQueue_def pq_items_def slot_list_def)
  next
    case (Some lfq)
    note ring = pq_items_empty_slot [OF wf p Some]
    from ring(1) show thesis
    proof (cases rule: lfq.deq_cases)
      case (item it xs lfq')
      have "set xs \<subseteq> set (pq_items pq p)" using item(3) ring(3) by auto
      then have "\<forall>x \<in> set xs. item_id x = pq_id pq \<and> item_priority x = p"
        using wf unfolding pq_wf_def by blast
      then have "pq_wf sz (pq\<lparr>pq_queue := (pq_queue pq)[p := Some lfq']\<rparr>)"
        using item ring by (intro pq_wf_update [OF wf p]) (auto simp: slot_ok_def slot_list_def)
      with item ring Some p show thesis
        by (intro Cons.prems(1) [of it "pq\<lparr>pq_queue := (pq_queue pq)[p := Some lfq']\<rparr>" "[]" p ps xs])
          (auto simp: GetQueue_def pq_items_update [OF p len] slot_list_def)
    next
      case empty
      with Some ring p show thesis
        using list_update_id [of "pq_queue pq" p] by (intro skip) (simp_all add: GetQueue_def)
    qed
  qed
qed

text \<open>The item with the smallest priority number among those asked for.\<close>

lemma Dequeue_cases:
  assumes wf: "pq_wf sz pq" and least: "least < CONN_PRIORITY_BUTT"
  obtains (item) it p rest pq' where "Dequeue pq least = (SOFTBUS_OK, Some (Some it), pq')"
      "p \<le> least" "\<forall>p' < p. pq_items pq p' = []" "pq_items pq p = it # rest"
      "pq_items pq' = (pq_items pq)(p := rest)" "pq_wf sz pq'" "pq_id pq' = pq_id pq"
  | (empty) "Dequeue pq least = (QUEUE_EMPTY, None, pq)" "\<forall>p \<le> least. pq_items pq p = []"
proof -
  have "\<forall>p \<in> set [0..<Suc least]. p < CONN_PRIORITY_BUTT" using least by auto
  with wf show thesis
  proof (cases rule: Dequeue_loop_cases)
    case (item it p rest before after pq')
    from upt_split [OF item(2)] item show thesis
      by (intro that(1) [of it pq' p rest]) (simp_all add: Dequeue_def del: upt_Suc)
  next
    case empty
    then show thesis by (intro that(2)) (auto simp: Dequeue_def simp del: upt_Suc)
  qed
qed

section \<open>The fair queue\<close>

lemma find_id_None: "find_id i pqs = None \<longleftrightarrow> i \<notin> pq_id ` set pqs"
  by (induction pqs) auto

lemma find_id_Some: "find_id i pqs = Some k \<Longrightarrow> k < length pqs \<and> pq_id (pqs ! k) = i \<and> pq_items (pqs ! k) = client_items pqs i"
  by (induction pqs arbitrary: k) (auto split: if_splits)

lemma find_id_update:
  "find_id j pqs = Some k \<Longrightarrow> pq_id pq = j \<Longrightarrow> find_id i (pqs[k := pq]) = find_id i pqs"
  by (induction pqs arbitrary: k) (auto split: if_splits)

lemma find_id_append:
  "find_id i (pqs @ [pq]) = (case find_id i pqs of Some k \<Rightarrow> Some k | None \<Rightarrow> if pq_id pq = i then Some (length pqs) else None)"
  by (induction pqs) (auto split: option.splits)

lemma client_items_update:
  "find_id j pqs = Some k \<Longrightarrow> pq_id pq = j \<Longrightarrow> client_items (pqs[k := pq]) = (client_items pqs)(j := pq_items pq)"
  by (induction pqs arbitrary: k) (auto simp: fun_eq_iff split: if_splits)

lemma map_pq_id_update: "find_id j pqs = Some k \<Longrightarrow> pq_id pq = j \<Longrightarrow> map pq_id (pqs[k := pq]) = map pq_id pqs"
  by (induction pqs arbitrary: k) (auto split: if_splits)

text \<open>Replacing the priority queue of an id changes the content of that id only.\<close>

lemma fq_put_inner:
  assumes "fq_inv q" "pq_wf (fq_size q) pq" "pq_id pq = 0"
  shows "fq_inv (q\<lparr>fq_inner := pq\<rparr>)" "fq_items (q\<lparr>fq_inner := pq\<rparr>) = (fq_items q)(0 := pq_items pq)"
  using assms by (auto simp: fq_inv_def fq_items_def fun_eq_iff)

lemma fq_put_at:
  assumes "fq_inv q" "i \<noteq> 0" "find_id i (fq_queues q) = Some k" "pq_wf (fq_size q) pq" "pq_id pq = i"
  shows "fq_inv (q\<lparr>fq_queues := (fq_queues q)[k := pq]\<rparr>)"
    "fq_items (q\<lparr>fq_queues := (fq_queues q)[k := pq]\<rparr>) = (fq_items q)(i := pq_items pq)"
proof -
  note ids = map_pq_id_update [OF assms(3,5)]
  show "fq_inv (q\<lparr>fq_queues := (fq_queues q)[k := pq]\<rparr>)"
    using assms(1,4) ids set_update_subset_insert [of "fq_queues q" k pq]
    unfolding fq_inv_def by (auto simp flip: set_map)
  show "fq_items (q\<lparr>fq_queues := (fq_queues q)[k := pq]\<rparr>) = (fq_items q)(i := pq_items pq)"
    using assms(2) by (auto simp: fq_items_def fun_eq_iff client_items_update [OF assms(3,5)])
qed

lemma fq_append:
  assumes "fq_inv q" "i \<noteq> 0" "find_id i (fq_queues q) = None" "pq_wf (fq_size q) pq" "pq_id pq = i" "\<forall>p. pq_items pq p = []"
  shows "fq_inv (q\<lparr>fq_queues := fq_queues q @ [pq]\<rparr>)"
    "fq_items (q\<lparr>fq_queues := fq_queues q @ [pq]\<rparr>) = fq_items q"
  using assms by (auto simp: fq_inv_def fq_items_def fun_eq_iff client_lookup_append find_id_None client_lookup_notin)

lemma pq_wf_new:
  "pq_wf sz \<lparr>pq_id = i, pq_queue = replicate CONN_PRIORITY_BUTT None, pq_size = sz\<rparr>"
  "pq_items \<lparr>pq_id = i, pq_queue = replicate CONN_PRIORITY_BUTT None, pq_size = sz\<rparr> p = []"
  by (auto simp: pq_wf_def pq_items_def slot_list_def slot_ok_def)

text \<open>Lookup finds or appends a well-formed priority queue and leaves the content alone.\<close>

lemma GetOrCreate_cases:
  assumes inv: "fq_inv q"
  obtains (found) r q' where "GetOrCreatePriorityQueue ok q i = (Some r, q')" "fq_inv q'" "fq_size q' = fq_size q"
      "fq_items q' = fq_items q" "pq_wf (fq_size q) (pq_at q' r)" "pq_id (pq_at q' r) = i" "pq_items (pq_at q' r) = fq_items q i"
      "\<And>pq. pq_wf (fq_size q) pq \<Longrightarrow> pq_id pq = i \<Longrightarrow> fq_inv (pq_put q' r pq) \<and> fq_size (pq_put q' r pq) = fq_size q \<and>
         fq_items (pq_put q' r pq) = (fq_items q)(i := pq_items pq) \<and>
         (\<forall>j. find_id j (fq_queues (pq_put q' r pq)) = find_id j (fq_queues q') )"
      "\<And>j k. find_id j (fq_queues q) = Some k \<Longrightarrow> find_id j (fq_queues q') = Some k"
  | (failed) "GetOrCreatePriorityQueue ok q i = (None, q)" "\<not> ok"
proof (cases "i = 0")
  case True
  show thesis
    by (rule found [of Inner q]) (use inv True in \<open>auto simp: GetOrCreatePriorityQueue_def fq_put_inner fq_items_def fq_inv_def\<close>)
next
  case False
  show thesis
  proof (cases "find_id i (fq_queues q)")
    case (Some k)
    note k = find_id_Some [OF Some]
    have "pq_wf (fq_size q) (fq_queues q ! k)" using inv k by (simp add: fq_inv_def)
    with inv False Some k show thesis
      by (intro found [of "At k" q])
        (auto simp: GetOrCreatePriorityQueue_def fq_put_at find_id_update [OF Some] fq_items_def)
  next
    case None
    let ?pq = "\<lparr>pq_id = i, pq_queue = replicate CONN_PRIORITY_BUTT None, pq_size = fq_size q\<rparr>"
    let ?q = "q\<lparr>fq_queues := fq_queues q @ [?pq]\<rparr>"
    have new: "fq_inv ?q" "fq_items ?q = fq_items q"
      by (rule fq_append [OF inv False None]; simp only: pq_wf_new PriorityQueue.simps simp_thms)+
    have at: "find_id i (fq_queues ?q) = Some (length (fq_queues q))"
      using None by (simp add: find_id_append)
    show thesis
    proof (cases ok)
      case True
      have none: "fq_items q i = pq_items ?pq"
        using False None by (simp only: fq_items_def find_id_None client_lookup_notin fun_eq_iff pq_wf_new(2) if_False simp_thms)
      have get: "GetOrCreatePriorityQueue ok q i = (Some (At (length (fq_queues q))), ?q)"
        using True False None by (simp add: GetOrCreatePriorityQueue_def CreatePriorityQueue_def)
      have at': "pq_at ?q (At (length (fq_queues q))) = ?pq" by simp
      have put: "fq_inv (pq_put ?q (At (length (fq_queues q))) pq) \<and> fq_size (pq_put ?q (At (length (fq_queues q))) pq) = fq_size q \<and>
         fq_items (pq_put ?q (At (length (fq_queues q))) pq) = (fq_items q)(i := pq_items pq) \<and>
         (\<forall>j. find_id j (fq_queues (pq_put ?q (At (length (fq_queues q))) pq)) = find_id j (fq_queues ?q))"
        if "pq_wf (fq_size q) pq" "pq_id pq = i" for pq
        using fq_put_at [OF new(1) False at _ that(2)] find_id_update [OF at that(2)] that(1) new(2)
        by (simp del: list_update_append list_update_length)
      have pos: "find_id j (fq_queues ?q) = Some k" if "find_id j (fq_queues q) = Some k" for j k
        using that by (simp add: find_id_append)
      have sz: "fq_size ?q = fq_size q" by simp
      show thesis
        by (rule found [OF get new(1) sz new(2) _ _ _ put pos]) (simp_all only: at' none pq_wf_new(1) PriorityQueue.simps)
    next
      case False
      with None \<open>i \<noteq> 0\<close> show thesis
        by (intro failed) (auto simp: GetOrCreatePriorityQueue_def CreatePriorityQueue_def)
    qed
  qed
qed

declare ConnEnqueue_loop.simps [simp del] ConnDequeue_loop.simps [simp del]

text \<open>One pass of \<open>ConnEnqueue\<close>.\<close>

lemma ConnEnqueue_loop_cases:
  assumes inv: "fq_inv q"
  obtains (stored) q' where "ConnEnqueue_loop w al b q it = Some (SOFTBUS_OK, q')" "fq_inv q'" "fq_size q' = fq_size q"
      "item_priority it < CONN_PRIORITY_BUTT"
      "length (fq_items q (item_id it) (item_priority it)) < unat (fq_size q) - 1"
      "fq_items q' = (fq_items q)(item_id it := (fq_items q (item_id it))(item_priority it := fq_items q (item_id it) (item_priority it) @ [it]))"
      "\<And>j k. find_id j (fq_queues q) = Some k \<Longrightarrow> find_id j (fq_queues q') = Some k"
  | (full) q' where "ConnEnqueue_loop w al b q it =
        (if b then Some (SOFTBUS_CONN_INTERNAL_ERR, q')
         else case w q' of (code, q'') \<Rightarrow>
           if code \<noteq> SOFTBUS_OK then Some (code, q'') else ConnEnqueue_loop w (\<lambda>i. al (i + 2)) True q'' it)"
      "fq_inv q'" "fq_size q' = fq_size q" "fq_items q' = fq_items q"
      "unat (fq_size q) - 1 \<le> length (fq_items q (item_id it) (item_priority it))"
      "item_priority it < CONN_PRIORITY_BUTT"
      "\<And>j k. find_id j (fq_queues q) = Some k \<Longrightarrow> find_id j (fq_queues q') = Some k"
  | (failed) q' where "ConnEnqueue_loop w al b q it = Some (SOFTBUS_MALLOC_ERR, q')" "fq_inv q'" "fq_size q' = fq_size q"
      "fq_items q' = fq_items q" "\<not> (al 0 \<and> al 1) \<or> \<not> item_priority it < CONN_PRIORITY_BUTT"
      "\<And>j k. find_id j (fq_queues q) = Some k \<Longrightarrow> find_id j (fq_queues q') = Some k"
  using inv
proof (cases rule: GetOrCreate_cases [where ok = "al 0" and i = "item_id it"])
  case (found r q')
  have sz: "size_ok (fq_size q)" using inv by (simp add: fq_inv_def)
  from found(5) sz found(6) [symmetric] show thesis
  proof (cases rule: Enqueue_cases [where ok = "al 1"])
    case (stored pq')
    with found show thesis
      by (intro that(1) [of "pq_put q' r pq'"]) (auto simp: ConnEnqueue_loop.simps [of w al b q it] Let_def)
  next
    case (full pq')
    with found show thesis
      by (intro that(2) [of "pq_put q' r pq'"])
        (auto simp: ConnEnqueue_loop.simps [of w al b q it] Let_def split: prod.splits)
  next
    case failed
    with found found(8) [OF found(5,6)] show thesis
      by (intro that(3) [of "pq_put q' r (pq_at q' r)"]) (auto simp: ConnEnqueue_loop.simps [of w al b q it] Let_def)
  qed
next
  case failed
  then show thesis
    using inv by (intro that(3) [of q]) (auto simp: ConnEnqueue_loop.simps [of w al b q it])
qed

text \<open>The choice of \<open>DequeueFairly\<close>: clients without items leave the list, the first one with an item is served and moves to its end.\<close>

lemma DequeueFairly_loop_cases:
  assumes "\<forall>pq \<in> set pqs. pq_wf sz pq" "distinct (map pq_id pqs)"
  obtains (item) it p rest before pq after pq' where
      "DequeueFairly_loop pqs = (SOFTBUS_OK, Some (Some it), after @ [pq'])" "pqs = before @ pq # after"
      "\<forall>b \<in> set before. \<forall>p \<le> CONN_PRIORITY_LOW. pq_items b p = []"
      "p \<le> CONN_PRIORITY_LOW" "\<forall>p' < p. pq_items pq p' = []" "pq_items pq p = it # rest"
      "pq_items pq' = (pq_items pq)(p := rest)" "pq_wf sz pq'" "pq_id pq' = pq_id pq"
  | (empty) "DequeueFairly_loop pqs = (QUEUE_EMPTY, None, [])" "\<forall>pq \<in> set pqs. \<forall>p \<le> CONN_PRIORITY_LOW. pq_items pq p = []"
  using assms
proof (induction pqs arbitrary: thesis)
  case (Cons pq pqs)
  have wf: "pq_wf sz pq" and low: "CONN_PRIORITY_LOW < CONN_PRIORITY_BUTT" using Cons.prems by auto
  from wf low show ?case
  proof (cases rule: Dequeue_cases)
    case (item it p rest pq')
    then show thesis by (intro Cons.prems(1) [of it pqs pq' "[]" pq p rest]) auto
  next
    case empty
    have step: "DequeueFairly_loop (pq # pqs) = DequeueFairly_loop pqs" using empty(1) by simp
    show thesis
    proof (rule Cons.IH)
      fix it after pq' before pq'' p rest
      assume "DequeueFairly_loop pqs = (SOFTBUS_OK, Some (Some it), after @ [pq'])" "pqs = before @ pq'' # after"
        "\<forall>b \<in> set before. \<forall>p \<le> CONN_PRIORITY_LOW. pq_items b p = []"
        "p \<le> CONN_PRIORITY_LOW" "\<forall>p' < p. pq_items pq'' p' = []" "pq_items pq'' p = it # rest"
        "pq_items pq' = (pq_items pq'')(p := rest)" "pq_wf sz pq'" "pq_id pq' = pq_id pq''"
      with empty(2) step show thesis by (intro Cons.prems(1) [of it after pq' "pq # before" pq'' p rest]) auto
    next
      assume "DequeueFairly_loop pqs = (QUEUE_EMPTY, None, [])" "\<forall>pq \<in> set pqs. \<forall>p \<le> CONN_PRIORITY_LOW. pq_items pq p = []"
      with empty(2) step show thesis by (intro Cons.prems(2)) auto
    qed (use Cons.prems in auto)
  qed
qed simp

lemma client_items_all_empty:
  "\<forall>pq \<in> set pqs. \<forall>p \<le> CONN_PRIORITY_LOW. pq_items pq p = [] \<Longrightarrow> client_items pqs i = (\<lambda>p. [])"
  by (induction pqs) (auto simp: fun_eq_iff pq_items_def)

lemma find_id_rotate:
  "find_id j (before @ pq # after) = Some k \<Longrightarrow> j \<noteq> pq_id pq \<Longrightarrow> j \<notin> pq_id ` set before \<Longrightarrow>
   \<exists>k'. find_id j (after @ [pq']) = Some k' \<and> k' < k"
proof (induction before arbitrary: k)
  case Nil
  then show ?case by (auto simp: find_id_append)
next
  case (Cons b before)
  then obtain z where "find_id j (before @ pq # after) = Some z" "k = Suc z" by auto
  with Cons.IH [of z] Cons.prems show ?case by (auto intro: less_SucI)
qed

lemma DequeueFairly_cases:
  assumes inv: "fq_inv q"
  obtains (item) it i p rest q' where "DequeueFairly q = (SOFTBUS_OK, Some (Some it), q')" "i \<noteq> 0" "p \<le> CONN_PRIORITY_LOW"
      "fq_items q i p = it # rest" "\<forall>p' < p. fq_items q i p' = []"
      "fq_items q' = (fq_items q)(i := (fq_items q i)(p := rest))" "fq_inv q'" "fq_size q' = fq_size q" "fq_inner q' = fq_inner q"
      "\<And>j k p. find_id j (fq_queues q) = Some k \<Longrightarrow> j \<noteq> i \<Longrightarrow> fq_items q j p \<noteq> [] \<Longrightarrow> j \<noteq> 0 \<Longrightarrow> \<exists>k'. find_id j (fq_queues q') = Some k' \<and> k' < k"
  | (empty) q' where "DequeueFairly q = (QUEUE_EMPTY, None, q')" "\<And>i p. i \<noteq> 0 \<Longrightarrow> fq_items q i p = []"
      "fq_items q' = fq_items q" "fq_inv q'" "fq_size q' = fq_size q" "fq_inner q' = fq_inner q" "fq_queues q' = []"
proof -
  have wf: "\<forall>pq \<in> set (fq_queues q). pq_wf (fq_size q) pq" and dist: "distinct (map pq_id (fq_queues q))"
    and zero: "0 \<notin> pq_id ` set (fq_queues q)" using inv by (auto simp: fq_inv_def)
  from wf dist show thesis
  proof (cases rule: DequeueFairly_loop_cases)
    case (item it p rest before pq after pq')
    let ?q = "q\<lparr>fq_queues := after @ [pq']\<rparr>"
    have i: "pq_id pq \<noteq> 0" using zero item(2) by auto
    have dist': "distinct (map pq_id (before @ pq # after))" using dist item(2) by simp
    have "\<forall>b \<in> set before. pq_items b = (\<lambda>p. [])"
      using item(3) by (auto simp: fun_eq_iff pq_items_def)
    note rotate = client_lookup_rotate [OF dist' this item(9)]
    have here: "fq_items q (pq_id pq) = pq_items pq"
      using i dist' by (auto simp: fq_items_def item(2) client_lookup_append)
    have "fq_items ?q = (fq_items q)(pq_id pq := (fq_items q (pq_id pq))(p := rest))"
      unfolding here using i by (auto simp: fq_items_def rotate item(7) fun_eq_iff item(2))
    moreover have "fq_inv ?q"
      using inv item dist' by (auto simp: fq_inv_def)
    moreover have "\<exists>k'. find_id j (fq_queues ?q) = Some k' \<and> k' < k"
      if "find_id j (fq_queues q) = Some k" "j \<noteq> pq_id pq" "fq_items q j p0 \<noteq> []" "j \<noteq> 0" for j k p0
    proof -
      have "j \<notin> pq_id ` set before"
        using that(3,4) client_items_all_empty [OF item(3), of j] by (auto simp: fq_items_def item(2) client_lookup_append split: if_splits)
      then show ?thesis using find_id_rotate [OF _ that(2)] that(1) by (simp add: item(2))
    qed
    ultimately show thesis
      using item here i by (intro that(1) [of it ?q "pq_id pq" p rest]) (auto simp: DequeueFairly_def)
  next
    case empty
    have items: "fq_items q i = (\<lambda>p. [])" if "i \<noteq> 0" for i
      using that client_items_all_empty [OF empty(2)] by (simp add: fq_items_def)
    have "fq_items (q\<lparr>fq_queues := []\<rparr>) = fq_items q"
      using items by (auto simp: fun_eq_iff) (auto simp: fq_items_def)
    with empty(1) inv items show thesis
      by (intro that(2) [of "q\<lparr>fq_queues := []\<rparr>"]) (auto simp: DequeueFairly_def fq_inv_def)
  qed
qed

lemma DequeueInner_cases:
  assumes inv: "fq_inv q" and least: "least < CONN_PRIORITY_BUTT"
  obtains (item) it p rest q' where "DequeueInner q least = (SOFTBUS_OK, Some (Some it), q')" "p \<le> least"
      "fq_items q 0 p = it # rest" "\<forall>p' < p. fq_items q 0 p' = []"
      "fq_items q' = (fq_items q)(0 := (fq_items q 0)(p := rest))" "fq_inv q'" "fq_size q' = fq_size q" "fq_queues q' = fq_queues q"
  | (empty) "DequeueInner q least = (QUEUE_EMPTY, None, q)" "\<forall>p \<le> least. fq_items q 0 p = []"
proof -
  have wf: "pq_wf (fq_size q) (fq_inner q)" and id0: "pq_id (fq_inner q) = 0" using inv by (auto simp: fq_inv_def)
  have here: "fq_items q 0 = pq_items (fq_inner q)" by (simp add: fq_items_def)
  from wf least show thesis
  proof (cases rule: Dequeue_cases)
    case (item it p rest pq')
    then show thesis
      using fq_put_inner [OF inv item(6)] id0
      by (intro that(1) [of it "q\<lparr>fq_inner := pq'\<rparr>" p rest]) (auto simp: DequeueInner_def here)
  next
    case empty
    then show thesis by (intro that(2)) (auto simp: DequeueInner_def here)
  qed
qed

text \<open>
  Which item goes next: the inner queue's high and middle priority, then a client, within it the highest
  priority, then the inner queue's low priority.
\<close>

definition served :: "'a ConnFairPriorityQueue \<Rightarrow> int \<Rightarrow> nat \<Rightarrow> bool" where
  "served q i p \<longleftrightarrow> fq_items q i p \<noteq> [] \<and> (\<forall>p' < p. fq_items q i p' = []) \<and>
     (i \<noteq> 0 \<longrightarrow> fq_items q 0 CONN_PRIORITY_HIGH = [] \<and> fq_items q 0 CONN_PRIORITY_MIDDLE = []) \<and>
     (i = 0 \<and> p = CONN_PRIORITY_LOW \<longrightarrow> (\<forall>j p'. j \<noteq> 0 \<longrightarrow> fq_items q j p' = []))"

lemma fq_items_high: "p \<ge> CONN_PRIORITY_BUTT \<Longrightarrow> fq_items q i p = []"
proof -
  assume p: "p \<ge> CONN_PRIORITY_BUTT"
  then have "client_items pqs i p = []" for pqs :: "'a PriorityQueue list"
    by (induction pqs) (auto simp: pq_items_def)
  with p show ?thesis by (simp add: fq_items_def pq_items_def)
qed

lemma ConnDequeue_loop_cases:
  assumes inv: "fq_inv q"
  obtains (item) it i p rest q' where "ConnDequeue_loop w b q = (SOFTBUS_OK, Some (Some it), q')"
      "fq_items q i p = it # rest" "served q i p" "fq_items q' = (fq_items q)(i := (fq_items q i)(p := rest))"
      "fq_inv q'" "fq_size q' = fq_size q"
      "\<And>j k p. find_id j (fq_queues q) = Some k \<Longrightarrow> j \<noteq> i \<Longrightarrow> j \<noteq> 0 \<Longrightarrow> fq_items q j p \<noteq> [] \<Longrightarrow>
         \<exists>k'. find_id j (fq_queues q') = Some k' \<and> (if i = 0 then k' = k else k' < k)"
  | (empty) q' where "\<And>i p. fq_items q i p = []" "fq_items q' = fq_items q" "fq_inv q'" "fq_size q' = fq_size q"
      "ConnDequeue_loop w b q =
        (if b then (SOFTBUS_CONN_INTERNAL_ERR, None, q')
         else case w q' of (code, q'') \<Rightarrow>
           if code = SOFTBUS_OK then ConnDequeue_loop w True q'' else (code, None, q''))"
proof -
  have mid: "CONN_PRIORITY_MIDDLE < CONN_PRIORITY_BUTT" and low: "CONN_PRIORITY_LOW < CONN_PRIORITY_BUTT" by simp_all
  note unfold = ConnDequeue_loop.simps [of w b q]
  from inv mid show thesis
  proof (cases rule: DequeueInner_cases)
    case (item it p rest q')
    then show thesis
      by (intro that(1) [of it q' 0 p rest]) (auto simp: unfold served_def)
  next
    case empty1: empty
    then have inner: "fq_items q 0 CONN_PRIORITY_HIGH = []" "fq_items q 0 CONN_PRIORITY_MIDDLE = []" by auto
    from inv show thesis
    proof (cases rule: DequeueFairly_cases)
      case (item it i p rest q')
      then show thesis
        using empty1 inner by (intro that(1) [of it q' i p rest]) (auto simp: unfold served_def)
    next
      case empty2: (empty q1)
      from empty2(4) low show thesis
      proof (cases rule: DequeueInner_cases)
        case (item it p rest q')
        have items: "fq_items q1 = fq_items q" by (rule empty2(3))
        have "served q 0 p" using item empty2(2) by (auto simp: served_def items)
        with item empty1 empty2 show thesis
          by (intro that(1) [of it q' 0 p rest]) (auto simp: unfold items)
      next
        case empty3: empty
        have "fq_items q i p = []" for i p
          using empty2(2) [of i p] empty3(2) fq_items_high [of p q i] by (cases "i = 0"; cases "p \<le> CONN_PRIORITY_LOW") (auto simp: empty2(3))
        with empty1 empty2 empty3 show thesis
          by (intro that(2) [of q1]) (auto simp: unfold split: prod.splits)
      qed
    qed
  qed
qed

section \<open>The keyed FIFO contract\<close>

lemma fq_items_key:
  assumes "fq_inv q" "it \<in> set (fq_items q i p)"
  shows "item_id it = i \<and> item_priority it = p"
proof (cases "i = 0")
  case True
  with assms show ?thesis by (auto simp: fq_inv_def pq_wf_def fq_items_def)
next
  case False
  have "item_id it = i \<and> item_priority it = p"
    if "it \<in> set (client_items pqs i p)" "\<forall>pq \<in> set pqs. pq_wf sz pq" for pqs sz
    using that by (induction pqs) (auto simp: pq_wf_def split: if_splits)
  with assms False show ?thesis by (auto simp: fq_inv_def fq_items_def)
qed

text \<open>
  A call in which nobody else changes the queue while it waits: the environment is the outcome of the
  allocations and the code of the wait.
\<close>

definition item_key :: "'a ConnQueueItem \<Rightarrow> int \<times> nat" where
  "item_key it = (item_id it, item_priority it)"

definition fair_content :: "'a ConnFairPriorityQueue \<Rightarrow> int \<times> nat \<Rightarrow> 'a ConnQueueItem list" where
  "fair_content q = (\<lambda>(i, p). fq_items q i p)"

definition fair_enq ::
  "(nat \<Rightarrow> bool) \<times> int \<Rightarrow> 'a ConnFairPriorityQueue \<Rightarrow> 'a ConnQueueItem \<Rightarrow> bool \<times> 'a ConnFairPriorityQueue" where
  "fair_enq e q it =
     (case ConnEnqueue (\<lambda>deadline s. (snd e, s)) (SOFTBUS_OK, (0, 0)) (fst e) SOFTBUS_OK (Some q) (Some it) 0 of
        Some (code, signal, Some q') \<Rightarrow> (code = SOFTBUS_OK, q')
      | _ \<Rightarrow> (False, q))"

definition fair_deq ::
  "(nat \<Rightarrow> bool) \<times> int \<Rightarrow> 'a ConnFairPriorityQueue \<Rightarrow> 'a ConnQueueItem option \<times> 'a ConnFairPriorityQueue" where
  "fair_deq e q =
     (case ConnDequeue (\<lambda>deadline s. (snd e, s)) (SOFTBUS_OK, (0, 0)) SOFTBUS_OK (Some q) True 0 of
        (code, out, signal, Some q') \<Rightarrow> (if code = SOFTBUS_OK then Option.bind out id else None, q')
      | _ \<Rightarrow> (None, q))"

lemma WaitCondition_const: "WaitCondition (\<lambda>dl s. (c, s)) (0, (a, b)) t s = (c, s)"
  by (simp add: WaitCondition_def Let_def)

lemma fair_enq_cases:
  assumes inv: "fq_inv q"
  obtains (stored) q' where "fair_enq e q it = (True, q')" "fq_inv q'" "fq_size q' = fq_size q"
      "fair_content q' = (fair_content q)(item_key it := fair_content q (item_key it) @ [it])"
      "\<And>j k. find_id j (fq_queues q) = Some k \<Longrightarrow> find_id j (fq_queues q') = Some k"
  | (refused) q' where "fair_enq e q it = (False, q')" "fq_inv q'" "fq_size q' = fq_size q" "fair_content q' = fair_content q"
      "\<And>j k. find_id j (fq_queues q) = Some k \<Longrightarrow> find_id j (fq_queues q') = Some k"
proof -
  let ?w = "WaitCondition (\<lambda>dl s. (snd e, s)) (SOFTBUS_OK, (0, 0)) 0"
  from inv show thesis
  proof (cases rule: ConnEnqueue_loop_cases [where w = ?w and al = "fst e" and b = False and it = it])
    case (stored q')
    then show thesis
      by (intro that(1) [of q']) (auto simp: fair_enq_def ConnEnqueue_def fair_content_def item_key_def fun_eq_iff)
  next
    case (failed q')
    then show thesis
      by (intro that(2) [of q']) (auto simp: fair_enq_def ConnEnqueue_def fair_content_def)
  next
    case first: (full q1)
    from first(2) show thesis
    proof (cases rule: ConnEnqueue_loop_cases [where w = ?w and al = "\<lambda>i. fst e (i + 2)" and b = True and it = it])
      case (stored q')
      with first show thesis by auto
    next
      case (full q')
      with first show thesis
        by (intro that(2) [of "if snd e = SOFTBUS_OK then q' else q1"])
          (auto simp: fair_enq_def ConnEnqueue_def fair_content_def WaitCondition_const)
    next
      case (failed q')
      with first show thesis
        by (intro that(2) [of "if snd e = SOFTBUS_OK then q' else q1"])
          (auto simp: fair_enq_def ConnEnqueue_def fair_content_def WaitCondition_const)
    qed
  qed
qed

lemma fair_deq_cases:
  assumes inv: "fq_inv q"
  obtains (item) it rest q' where "fair_deq e q = (Some it, q')" "fq_inv q'" "fq_size q' = fq_size q"
      "fair_content q (item_key it) = it # rest" "served q (item_id it) (item_priority it)"
      "fair_content q' = (fair_content q)(item_key it := rest)"
      "\<And>j k p. find_id j (fq_queues q) = Some k \<Longrightarrow> j \<noteq> item_id it \<Longrightarrow> j \<noteq> 0 \<Longrightarrow> fq_items q j p \<noteq> [] \<Longrightarrow>
         \<exists>k'. find_id j (fq_queues q') = Some k' \<and> (if item_id it = 0 then k' = k else k' < k)"
  | (idle) q' where "fair_deq e q = (None, q')" "fq_inv q'" "fq_size q' = fq_size q" "fair_content q' = fair_content q"
      "\<And>k. fair_content q k = []"
proof -
  let ?w = "WaitCondition (\<lambda>dl s. (snd e, s)) (SOFTBUS_OK, (0, 0)) 0"
  from inv show thesis
  proof (cases rule: ConnDequeue_loop_cases [where w = ?w and b = False])
    case (item it i p rest q')
    have "item_id it = i" "item_priority it = p"
      using fq_items_key [OF inv, of it i p] item(2) by auto
    with item show thesis
      by (intro that(1) [of it q' rest]) (auto simp: fair_deq_def ConnDequeue_def fair_content_def item_key_def fun_eq_iff)
  next
    case first: (empty q1)
    from first(3) show thesis
    proof (cases rule: ConnDequeue_loop_cases [where w = ?w and b = True])
      case (item it i p rest q')
      with first show thesis by auto
    next
      case (empty q')
      with first show thesis
        by (intro that(2) [of "if snd e = SOFTBUS_OK then q' else q1"])
          (auto simp: fair_deq_def ConnDequeue_def fair_content_def WaitCondition_const)
    qed
  qed
qed

interpretation fair: keyed_fifo fq_inv fair_content item_key fair_enq fair_deq
proof
  fix q q' :: "'a ConnFairPriorityQueue" and e it
  assume inv: "fq_inv q"
  show "fq_inv q' \<and> fair_content q' =
      (if ok then (fair_content q)(item_key it := fair_content q (item_key it) @ [it]) else fair_content q)"
    if "fair_enq e q it = (ok, q')" for ok
    using inv that by (cases rule: fair_enq_cases [where e = e and it = it]) auto
  show "fq_inv q' \<and> fair_content q (item_key it) \<noteq> [] \<and> it = hd (fair_content q (item_key it)) \<and>
      fair_content q' = (fair_content q)(item_key it := tl (fair_content q (item_key it)))"
    if "fair_deq e q = (Some it, q')"
    using inv that by (cases rule: fair_deq_cases [where e = e]) auto
  show "fq_inv q' \<and> fair_content q' = fair_content q \<and> (\<forall>k. fair_content q k = [])"
    if "fair_deq e q = (None, q')"
    using inv that by (cases rule: fair_deq_cases [where e = e]) auto
qed

lemma ConnCreateQueue_inv:
  assumes "ConnCreateQueue al m d c sz = Some q" "size_ok sz"
  shows "fq_inv q" "fair_content q k = []"
proof -
  have q: "q = \<lparr>fq_size = sz, fq_queues = [], fq_inner = \<lparr>pq_id = 0, pq_queue = replicate CONN_PRIORITY_BUTT None, pq_size = sz\<rparr>\<rparr>"
    using assms(1) by (simp add: ConnCreateQueue_def CreatePriorityQueue_def split: if_splits)
  show "fq_inv q" unfolding q fq_inv_def ConnFairPriorityQueue.simps PriorityQueue.simps
    using assms(2) pq_wf_new(1) [of sz 0] by simp
  show "fair_content q k = []"
    unfolding q fair_content_def fq_items_def ConnFairPriorityQueue.simps pq_wf_new(2) by (simp split: prod.split)
qed

text \<open>A small queue with two clients waiting, for the concrete instances below.\<close>

definition fair_example :: "nat ConnFairPriorityQueue" where
  "fair_example = snd (keyed_run fair_enq fair_deq (the (ConnCreateQueue (\<lambda>_. True) 0 0 0 4))
     [KEnq (\<lambda>_. True, 0) \<lparr>item_id = 7, item_priority = 2, item_body = 1\<rparr>,
      KEnq (\<lambda>_. True, 0) \<lparr>item_id = 8, item_priority = 0, item_body = 2\<rparr>])"

lemma fair_example_inv: "fq_inv fair_example"
proof -
  have "ConnCreateQueue (\<lambda>_. True) 0 0 0 4 = Some (the (ConnCreateQueue (\<lambda>_. True) 0 0 0 4) :: nat ConnFairPriorityQueue)"
    by (simp add: ConnCreateQueue_def CreatePriorityQueue_def)
  moreover have "size_ok 4" by (simp add: size_ok_def IS_POWER_OF_2_def)
  ultimately show ?thesis
    unfolding fair_example_def by (intro fair.run_invar ConnCreateQueue_inv(1))
qed

text \<open>How many items of clients a run takes.\<close>

definition clients_taken :: "'a ConnQueueItem kevent list \<Rightarrow> nat" where
  "clients_taken es = length (filter (\<lambda>x. item_id x \<noteq> 0) (taken es))"

section \<open>Properties\<close>

text \<open>
  C2: FIFO per client and priority.  For a fresh queue and any sequence of enqueue and dequeue calls, with any
  allocation failures and timeouts, the items of one client and priority come out in the order they were
  stored, none lost and none repeated: stored = taken followed by what is still waiting.
\<close>

theorem fair_queue_fifo:
  assumes "ConnCreateQueue al m d c sz = Some q" "size_ok sz" "keyed_run fair_enq fair_deq q ops = (es, q')"
  shows "filter (\<lambda>x. item_key x = k) (stored es) = filter (\<lambda>x. item_key x = k) (taken es) @ fair_content q' k"
  using fair.run_fifo [OF ConnCreateQueue_inv(1) [OF assms(1,2)] assms(3), of k] ConnCreateQueue_inv(2) [OF assms(1,2)]
  by simp

theorem fair_queue_fifo_witness:
  "\<exists>q es q'. ConnCreateQueue (\<lambda>_. True) 0 0 0 4 = Some (q :: nat ConnFairPriorityQueue) \<and>
     keyed_run fair_enq fair_deq q
       [KEnq (\<lambda>_. True, 0) \<lparr>item_id = 7, item_priority = 2, item_body = 1\<rparr>,
        KEnq (\<lambda>_. True, 0) \<lparr>item_id = 7, item_priority = 2, item_body = 2\<rparr>, KDeq (\<lambda>_. True, 0)] = (es, q') \<and>
     filter (\<lambda>x. item_key x = (7, 2)) (stored es) = filter (\<lambda>x. item_key x = (7, 2)) (taken es) @ fair_content q' (7, 2)"
proof -
  have "size_ok 4" by (simp add: size_ok_def IS_POWER_OF_2_def)
  moreover obtain q :: "nat ConnFairPriorityQueue" where "ConnCreateQueue (\<lambda>_. True) 0 0 0 4 = Some q"
    by (simp add: ConnCreateQueue_def CreatePriorityQueue_def)
  ultimately show ?thesis
    using fair_queue_fifo [of "\<lambda>_. True" 0 0 0 4 q] by (metis surj_pair)
qed

text \<open>Nothing is waiting; and taking the next item, with the queue before and after.\<close>

definition fq_idle :: "'a ConnFairPriorityQueue \<Rightarrow> bool" where
  "fq_idle q \<longleftrightarrow> (\<forall>i p. fq_items q i p = [])"

definition takes :: "'a ConnFairPriorityQueue \<Rightarrow> 'a ConnQueueItem \<Rightarrow> 'a ConnFairPriorityQueue \<Rightarrow> bool" where
  "takes q it q' \<longleftrightarrow> served q (item_id it) (item_priority it) \<and>
     (\<exists>rest. fq_items q (item_id it) (item_priority it) = it # rest \<and>
        fq_items q' = (fq_items q)(item_id it := (fq_items q (item_id it))(item_priority it := rest)))"

lemma ConnDequeue_loop_takes:
  assumes "fq_inv q" "\<not> fq_idle q"
  shows "\<exists>it q'. ConnDequeue_loop w b q = (SOFTBUS_OK, Some (Some it), q') \<and> fq_inv q' \<and> takes q it q'"
  using assms(1)
proof (cases rule: ConnDequeue_loop_cases [where w = w and b = b])
  case (item it i p rest q')
  have "item_id it = i" "item_priority it = p" using fq_items_key [OF assms(1), of it i p] item(2) by auto
  with item(2,3,4) have "takes q it q'" by (simp add: takes_def)
  with item(1,5) show ?thesis by blast
next
  case (empty q')
  then have False using assms(2) unfolding fq_idle_def by simp
  then show ?thesis ..
qed

lemma ConnDequeue_loop_idle:
  assumes "fq_inv q" "fq_idle q"
  shows "\<exists>q'. fq_inv q' \<and> fq_idle q' \<and> ConnDequeue_loop w b q =
    (if b then (SOFTBUS_CONN_INTERNAL_ERR, None, q')
     else case w q' of (code, q'') \<Rightarrow> if code = SOFTBUS_OK then ConnDequeue_loop w True q'' else (code, None, q''))"
  using assms(1)
proof (cases rule: ConnDequeue_loop_cases [where w = w and b = b])
  case (item it i p rest q')
  then have False using assms(2) unfolding fq_idle_def by simp
  then show ?thesis ..
next
  case (empty q')
  then have "fq_idle q'" unfolding fq_idle_def by simp
  with empty(3,5) show ?thesis by blast
qed

text \<open>
  C3: Order of service.  A dequeue on a queue in which something is waiting returns the item that is next and removes just that item: the
  oldest of its client and priority, from the inner queue's high and middle priority first, then from a client in order of
  priority, and from the inner queue's low priority only when no client has anything.  On a queue in which nothing is waiting it waits: if the wait
  fails its status is returned and no item; otherwise the dequeue serves what other threads have put into the queue meanwhile in the same
  order, and returns \<open>SOFTBUS_CONN_INTERNAL_ERR\<close> and no item when there is nothing.  The lock succeeds, and other threads keep the
  invariant of the queue.
\<close>

theorem fair_queue_served:
  assumes "fq_inv q" "\<forall>deadline s. fq_inv s \<longrightarrow> fq_inv (snd (condWait deadline s))"
  shows "\<exists>code out q'. ConnDequeue condWait getTime SOFTBUS_OK (Some q) True t = (code, out, code = SOFTBUS_OK, Some q') \<and> fq_inv q' \<and>
    (if \<not> fq_idle q then code = SOFTBUS_OK \<and> (\<exists>it. out = Some (Some it) \<and> takes q it q')
     else \<exists>q1. fq_inv q1 \<and> fq_idle q1 \<and>
       (case WaitCondition condWait getTime t q1 of (c, q2) \<Rightarrow>
          if c \<noteq> SOFTBUS_OK then code = c \<and> out = None \<and> q' = q2
          else if \<not> fq_idle q2 then code = SOFTBUS_OK \<and> (\<exists>it. out = Some (Some it) \<and> takes q2 it q')
          else code = SOFTBUS_CONN_INTERNAL_ERR \<and> out = None \<and> fq_idle q'))"
proof (cases "fq_idle q")
  case False
  from ConnDequeue_loop_takes [OF assms(1) False, of "WaitCondition condWait getTime t" False] show ?thesis
    using False by (auto simp: ConnDequeue_def simp del: ConnDequeue_loop.simps)
next
  case True
  let ?w = "WaitCondition condWait getTime t"
  obtain q1 where q1: "fq_inv q1" "fq_idle q1" "ConnDequeue_loop ?w False q =
      (case ?w q1 of (code, q'') \<Rightarrow> if code = SOFTBUS_OK then ConnDequeue_loop ?w True q'' else (code, None, q''))"
    using ConnDequeue_loop_idle [OF assms(1) True, of ?w False] by (auto simp del: ConnDequeue_loop.simps)
  obtain c q2 where c: "?w q1 = (c, q2)" by (cases "?w q1")
  have inv: "fq_inv q2" using c q1(1) assms(2) [rule_format, OF q1(1)]
    by (auto simp: WaitCondition_def Let_def split: if_splits prod.splits) (metis snd_conv)+
  show ?thesis
  proof (cases "c = SOFTBUS_OK")
    case ok: True
    show ?thesis
    proof (cases "fq_idle q2")
      case idle: True
      from ConnDequeue_loop_idle [OF inv idle, of ?w True] show ?thesis
        using True q1 c ok idle by (auto simp: ConnDequeue_def simp del: ConnDequeue_loop.simps intro!: exI [of _ q1])
    next
      case False
      from ConnDequeue_loop_takes [OF inv False, of ?w True] show ?thesis
        using True q1 c ok False by (auto simp: ConnDequeue_def simp del: ConnDequeue_loop.simps intro!: exI [of _ q1])
    qed
  next
    case False
    then show ?thesis using True q1 c inv by (auto simp: ConnDequeue_def simp del: ConnDequeue_loop.simps intro!: exI [of _ q1])
  qed
qed

lemma fair_example_waiting: "\<not> fq_idle fair_example"
proof -
  have "fq_items fair_example 7 2 \<noteq> []" by code_simp
  then show ?thesis by (auto simp: fq_idle_def)
qed

text \<open>A queue in which something is waiting, and a fresh queue into which another thread puts it during the wait.\<close>

theorem fair_queue_served_witness:
  "(\<exists>it q'. ConnDequeue (\<lambda>dl s. (SOFTBUS_OK, fair_example)) (0, (0, 0)) SOFTBUS_OK (Some fair_example) True 0 =
      (SOFTBUS_OK, Some (Some it), True, Some q') \<and> takes fair_example it q') \<and>
   (\<exists>q it q'. ConnCreateQueue (\<lambda>_. True) 0 0 0 4 = Some q \<and>
      ConnDequeue (\<lambda>dl s. (SOFTBUS_OK, fair_example)) (0, (0, 0)) SOFTBUS_OK (Some q) True 0 =
        (SOFTBUS_OK, Some (Some it), True, Some q') \<and> takes fair_example it q')"
proof
  let ?wait = "\<lambda>(dl :: (int \<times> int) option) (s :: nat ConnFairPriorityQueue). (SOFTBUS_OK, fair_example)"
  have keep: "\<forall>dl s. fq_inv s \<longrightarrow> fq_inv (snd (?wait dl s))" using fair_example_inv by simp
  from fair_queue_served [OF fair_example_inv keep, of "(0, (0, 0))" 0] show
    "\<exists>it q'. ConnDequeue ?wait (0, (0, 0)) SOFTBUS_OK (Some fair_example) True 0 = (SOFTBUS_OK, Some (Some it), True, Some q') \<and> takes fair_example it q'"
    using fair_example_waiting by auto
  obtain q :: "nat ConnFairPriorityQueue" where q: "ConnCreateQueue (\<lambda>_. True) 0 0 0 4 = Some q"
    by (simp add: ConnCreateQueue_def CreatePriorityQueue_def)
  have "size_ok 4" by (simp add: size_ok_def IS_POWER_OF_2_def)
  note q' = ConnCreateQueue_inv [OF q this]
  have "fq_idle q" using q'(2) by (auto simp: fq_idle_def fair_content_def)
  with fair_queue_served [OF q'(1) keep, of "(0, (0, 0))" 0] fair_example_waiting q show
    "\<exists>q it q'. ConnCreateQueue (\<lambda>_. True) 0 0 0 4 = Some q \<and>
       ConnDequeue ?wait (0, (0, 0)) SOFTBUS_OK (Some q) True 0 = (SOFTBUS_OK, Some (Some it), True, Some q') \<and> takes fair_example it q'"
    by (auto simp: WaitCondition_def)
qed

text \<open>
  C4: Fairness.  While a client with something to send is not served, every item served to another client
  moves it forward: at most as many items of other clients are taken before it as there are clients in
  front of it, whatever is enqueued meanwhile.
\<close>

theorem fair_queue_bounded_wait:
  assumes "fq_inv q" "keyed_run fair_enq fair_deq q ops = (es, q')"
    and "j \<noteq> 0" "fq_items q j p \<noteq> []" "find_id j (fq_queues q) = Some k"
    and "\<forall>x \<in> set (taken es). item_id x \<noteq> j"
  shows "clients_taken es \<le> k"
  using assms
proof (induction ops arbitrary: q es k)
  case (Cons op ops)
  note inv = Cons.prems(1)
  show ?case
  proof (cases op)
    case (KEnq e x)
    from inv show ?thesis
    proof (cases rule: fair_enq_cases [where e = e and it = x])
      case (stored q1)
      have "fq_items q1 j p \<noteq> []"
        using Cons.prems(4) fun_cong [OF stored(4), of "(j, p)"] by (auto simp: fair_content_def split: if_splits)
      with stored Cons.prems Cons.IH [of q1 "tl es" k] show ?thesis
        by (cases "keyed_run fair_enq fair_deq q1 ops") (auto simp: KEnq clients_taken_def)
    next
      case (refused q1)
      have "fq_items q1 j p \<noteq> []"
        using Cons.prems(4) fun_cong [OF refused(4), of "(j, p)"] by (auto simp: fair_content_def)
      with refused Cons.prems Cons.IH [of q1 "tl es" k] show ?thesis
        by (cases "keyed_run fair_enq fair_deq q1 ops") (auto simp: KEnq clients_taken_def)
    qed
  next
    case (KDeq e)
    from inv show ?thesis
    proof (cases rule: fair_deq_cases [where e = e])
      case (item it rest q1)
      obtain es1 where run: "keyed_run fair_enq fair_deq q1 ops = (es1, q')" "es = Taken it # es1"
        using Cons.prems(2) item(1) by (cases "keyed_run fair_enq fair_deq q1 ops") (auto simp: KDeq)
      have ne: "item_id it \<noteq> j" using Cons.prems(6) run by auto
      then have "fq_items q1 j p \<noteq> []"
        using Cons.prems(4) fun_cong [OF item(6), of "(j, p)"] by (auto simp: fair_content_def item_key_def)
      moreover obtain k' where k': "find_id j (fq_queues q1) = Some k'" "if item_id it = 0 then k' = k else k' < k"
        using item(7) [OF Cons.prems(5) _ Cons.prems(3,4)] ne by auto
      ultimately have "clients_taken es1 \<le> k'"
        using Cons.IH [OF item(2) run(1) Cons.prems(3)] Cons.prems(6) run(2) by auto
      with k' run(2) show ?thesis by (auto simp: clients_taken_def split: if_splits)
    next
      case (idle q1)
      from idle(5) [of "(j, p)"] Cons.prems(4) show ?thesis by (simp add: fair_content_def)
    qed
  qed
qed (simp add: clients_taken_def)

theorem fair_queue_bounded_wait_witness:
  "clients_taken (fst (keyed_run fair_enq fair_deq fair_example [KDeq (\<lambda>_. True, 0)])) \<le> 1"
  by (rule fair_queue_bounded_wait [OF fair_example_inv prod.collapse [symmetric], of 8 0]) (code_simp+)

text \<open>
  The wait deadline.  For timeouts of up to 2147483 ms the absolute time handed to the condition wait is
  the current time plus the timeout, with the microseconds normalised.
\<close>

theorem WaitCondition_deadline:
  assumes "0 \<le> t" "t \<le> 2147483" "0 \<le> usec" "usec < 1000000"
  shows "\<exists>sec' usec'. WaitCondition condWait (SOFTBUS_OK, (sec, usec)) t s = condWait (Some (sec', usec')) s \<and>
    0 \<le> usec' \<and> usec' < 1000000 \<and> sec' * 1000000 + usec' = sec * 1000000 + usec + t * 1000"
proof -
  let ?us = "t * FACTOR_S_MS_US + usec"
  have "s32 (t * FACTOR_S_MS_US) = t * FACTOR_S_MS_US" using assms by simp
  moreover have "?us sdiv 1000000 = ?us div 1000000" "?us smod 1000000 = ?us mod 1000000"
    using assms by (cases "?us = 0"; simp add: signed_divide_int_def signed_modulo_int_def)+
  ultimately have "WaitCondition condWait (SOFTBUS_OK, (sec, usec)) t s = condWait (Some (sec + ?us div 1000000, ?us mod 1000000)) s"
    using assms by (simp add: WaitCondition_def Let_def)
  moreover have "?us div 1000000 * 1000000 + ?us mod 1000000 = ?us" by (rule div_mult_mod_eq)
  ultimately show ?thesis by (intro exI [of _ "sec + ?us div 1000000"] exI [of _ "?us mod 1000000"]) simp
qed

theorem WaitCondition_deadline_witness:
  "\<exists>sec' usec'. WaitCondition (\<lambda>dl s. (SOFTBUS_TIMOUT, dl)) (SOFTBUS_OK, (7, 999999)) 1500 None = (SOFTBUS_TIMOUT, Some (sec', usec')) \<and>
    0 \<le> usec' \<and> usec' < 1000000 \<and> sec' * 1000000 + usec' = 9499999"
  using WaitCondition_deadline [of 1500 999999 "\<lambda>dl s. (SOFTBUS_TIMOUT, dl)" 7 None] by simp

end
