(* ===== verification/Conn_Common.thy ===== *)
theory Conn_Common
  imports Lock_Free_Queue Adapter_Mem Keyed_Fifo "HOL-Library.Signed_Division"
begin

text \<open>
  The helpers of \<^verbatim>\<open>core/connection/common/src/softbus_conn_common.c\<close> that the BR and BLE connections share:
  the bounded receive buffer, the timed condition wait, the wait for room in a ring, and \<open>GetMsg\<close> over the
  three rings of a \<open>ConnectionQueue\<close>.

  A pointer that code keeps while the mutex is released is an address looked up again; a lookup that fails is
  the outcome \<open>InvalidPointer\<close>.  A wait consumes one entry of a list: its return code and the state the other
  threads leave; when the list ends the caller is still blocked, which is the value None.
\<close>

section \<open>Definitions\<close>

abbreviation SOFTBUS_CONN_COND_WAIT_FAIL :: int where "SOFTBUS_CONN_COND_WAIT_FAIL \<equiv> - 425918367"
abbreviation SOFTBUS_CONN_GET_TIME_FAIL :: int where "SOFTBUS_CONN_GET_TIME_FAIL \<equiv> - 425918364"
abbreviation SOFTBUS_CONN_GET_MSG_FAIL :: int where "SOFTBUS_CONN_GET_MSG_FAIL \<equiv> - 425918363"

abbreviation SOFTBUS_CONN_BR_INTERNAL_ERR :: int where "SOFTBUS_CONN_BR_INTERNAL_ERR \<equiv> - 425918447"

abbreviation CONN_LOW :: int where "CONN_LOW \<equiv> 1"
abbreviation CONN_MIDDLE :: int where "CONN_MIDDLE \<equiv> 2"
abbreviation CONN_HIGH :: int where "CONN_HIGH \<equiv> 3"
abbreviation MAX_DATA_LEN :: nat where "MAX_DATA_LEN \<equiv> 40000"
abbreviation WAIT_QUEUE_BUFFER_PERIOD_LEN :: "32 word" where "WAIT_QUEUE_BUFFER_PERIOD_LEN \<equiv> 2"
abbreviation QUEUE_NUM_PER_PID :: nat where "QUEUE_NUM_PER_PID \<equiv> 3"
abbreviation HIGH_PRIORITY :: nat where "HIGH_PRIORITY \<equiv> 0"
abbreviation MIDDLE_PRIORITY :: nat where "MIDDLE_PRIORITY \<equiv> 1"
abbreviation LOW_PRIORITY :: nat where "LOW_PRIORITY \<equiv> 2"

datatype ConnSideType = CONN_SIDE_ANY | CONN_SIDE_CLIENT | CONN_SIDE_SERVER

record LimitedBuffer =
  capacity :: nat
  buffer :: bytes
  length_of :: nat

text \<open>Both allocations are attempted; \<open>SoftBusCalloc\<close> refuses a capacity of zero.\<close>

definition ConnNewLimitedBuffer :: "(nat \<Rightarrow> bool) \<Rightarrow> nat \<Rightarrow> int \<times> LimitedBuffer option" where
  "ConnNewLimitedBuffer al cap =
     (case SoftBusCalloc (al 1) cap of
        None \<Rightarrow> (SOFTBUS_MEM_ERR, None)
      | Some tmpByteBuffer \<Rightarrow>
          if \<not> al 0 then (SOFTBUS_MEM_ERR, None)
          else (SOFTBUS_OK, Some \<lparr>capacity = cap, buffer = tmpByteBuffer, length_of = 0\<rparr>))"

definition ConnectSoftBusCondWait ::
  "((int \<times> int) option \<Rightarrow> 's \<Rightarrow> int \<times> 's) \<Rightarrow> int \<times> (int \<times> int) \<Rightarrow> nat \<Rightarrow> 's \<Rightarrow> int \<times> 's" where
  "ConnectSoftBusCondWait condWait getTime timeMillis s =
     (if timeMillis = 0 then condWait None s
      else case getTime of (ret, (sec, usec)) \<Rightarrow>
        if ret \<noteq> SOFTBUS_OK then (SOFTBUS_CONN_GET_TIME_FAIL, s)
        else
          let us = usec + s32 (int timeMillis) * 1000
          in condWait (Some (sec + us sdiv 1000000, us smod 1000000)) s)"

fun WaitQueueLength ::
  "('s \<Rightarrow> 'a LockFreeQueue option option) \<Rightarrow> (int \<times> 's) list \<Rightarrow> 's \<Rightarrow> 32 word \<Rightarrow> 32 word \<Rightarrow> (fault + int \<times> 's) option" where
  "WaitQueueLength deref waits s maxLen diffLen =
     (case deref s of
        None \<Rightarrow> Some (Inl InvalidPointer)
      | Some lockFreeQueue \<Rightarrow>
          (case QueueCountGet lockFreeQueue of
             (ret, queueCount) \<Rightarrow>
               if ret \<noteq> 0 then Some (Inr (SOFTBUS_OK, s))
               else if the queueCount < maxLen - diffLen then Some (Inr (SOFTBUS_OK, s))
               else case waits of
                      [] \<Rightarrow> None
                    | (status, s') # waits' \<Rightarrow>
                        if status \<noteq> SOFTBUS_OK \<and> status \<noteq> SOFTBUS_TIMOUT
                        then Some (Inr (SOFTBUS_CONN_COND_WAIT_FAIL, s'))
                        else WaitQueueLength deref waits' s' maxLen diffLen))"

definition QUEUE_LIMIT :: "int list" where
  "QUEUE_LIMIT = [32, 32, 32]"

text \<open>The error code of an invalid index is returned as an unsigned number.\<close>

definition GetQueueLimit :: "int \<Rightarrow> 32 word" where
  "GetQueueLimit index =
     (if index \<ge> int QUEUE_NUM_PER_PID \<or> index < 0 then word_of_int SOFTBUS_INVALID_PARAM
      else word_of_int (QUEUE_LIMIT ! nat index))"

record 'a ConnectionQueue =
  cq_addr :: nat
  cq_pid :: int
  cq_queue :: "'a LockFreeQueue option list"

fun GetMsg_loop ::
  "'a ConnectionQueue \<Rightarrow> bool \<Rightarrow> nat list \<Rightarrow> int \<times> 'a option option \<times> bool \<times> 'a ConnectionQueue" where
  "GetMsg_loop queue isFull [] = (SOFTBUS_CONN_GET_MSG_FAIL, None, isFull, queue)"
| "GetMsg_loop queue isFull (i # rest) =
     (case QueueCountGet (cq_queue queue ! i) of
        (ret, queueCount) \<Rightarrow>
          if ret \<noteq> 0 then GetMsg_loop queue isFull rest
          else
            let isFull = (sint (the queueCount) \<ge> QUEUE_LIMIT ! i - sint WAIT_QUEUE_BUFFER_PERIOD_LEN)
            in case QueueSingleConsumerDequeue (cq_queue queue ! i) of
                 (ret, msg, lfq) \<Rightarrow>
                   let queue = queue\<lparr>cq_queue := (cq_queue queue)[i := lfq]\<rparr>
                   in if ret \<noteq> 0 then GetMsg_loop queue isFull rest else (SOFTBUS_OK, msg, isFull, queue))"

definition GetMsg ::
  "'a ConnectionQueue \<Rightarrow> bool \<Rightarrow> nat \<Rightarrow> int \<times> 'a option option \<times> bool \<times> 'a ConnectionQueue" where
  "GetMsg queue isFull leastPriority = GetMsg_loop queue isFull [0..<Suc leastPriority]"

declare WaitQueueLength.simps [simp del]

section \<open>The rings of a client\<close>

definition cq_items :: "'a ConnectionQueue \<Rightarrow> nat \<Rightarrow> 'a list" where
  "cq_items cq p = (if p < QUEUE_NUM_PER_PID then slot_list (cq_queue cq ! p) else [])"

definition cq_wf :: "'a ConnectionQueue \<Rightarrow> bool" where
  "cq_wf cq \<longleftrightarrow> length (cq_queue cq) = QUEUE_NUM_PER_PID \<and> (\<forall>slot \<in> set (cq_queue cq). slot \<noteq> None \<and> slot_ok 32 slot)"

lemma GetQueueLimit_priority: "p < QUEUE_NUM_PER_PID \<Longrightarrow> GetQueueLimit (int p) = 32"
  by (auto simp: GetQueueLimit_def QUEUE_LIMIT_def less_Suc_eq numeral_3_eq_3)

lemma QUEUE_LIMIT_nth: "p < QUEUE_NUM_PER_PID \<Longrightarrow> QUEUE_LIMIT ! p = 32"
  by (auto simp: QUEUE_LIMIT_def less_Suc_eq numeral_3_eq_3)

lemma cq_slot:
  assumes "cq_wf cq" "p < QUEUE_NUM_PER_PID"
  obtains lfq where "cq_queue cq ! p = Some lfq" "queue_inv lfq" "queue_cap lfq = 31" "queue_list lfq = cq_items cq p"
proof -
  have "cq_queue cq ! p \<in> set (cq_queue cq)" using assms by (simp add: cq_wf_def)
  with assms show thesis
    using that by (cases "cq_queue cq ! p") (auto simp: cq_wf_def slot_ok_def cq_items_def slot_list_def)
qed

lemma cq_items_update:
  assumes "cq_wf cq" "p < QUEUE_NUM_PER_PID"
  shows "cq_items (cq\<lparr>cq_queue := (cq_queue cq)[p := slot]\<rparr>) = (cq_items cq)(p := slot_list slot)"
  using assms by (auto simp: cq_items_def cq_wf_def fun_eq_iff nth_list_update)

lemma cq_wf_update:
  assumes "cq_wf cq" "queue_inv lfq" "queue_cap lfq = 31"
  shows "cq_wf (cq\<lparr>cq_queue := (cq_queue cq)[p := Some lfq]\<rparr>)"
  using assms set_update_subset_insert [of "cq_queue cq" p "Some lfq"] by (auto simp: cq_wf_def slot_ok_def)

lemma cq_items_bound:
  assumes "cq_wf cq"
  shows "length (cq_items cq p) \<le> 31"
proof (cases "p < QUEUE_NUM_PER_PID")
  case True
  obtain lfq where "queue_inv lfq" "queue_cap lfq = 31" "queue_list lfq = cq_items cq p"
    by (rule cq_slot [OF assms True])
  then show ?thesis using queue_count_le_cap [of lfq] length_queue_list [of lfq] by simp
qed (simp add: cq_items_def)

lemma count_small: "n \<le> 31 \<Longrightarrow> sint (word_of_nat n :: 32 word) = int n"
  by (subst of_int_of_nat_eq [symmetric], subst int_word_sint) simp

lemma count_small_less: "n \<le> 31 \<Longrightarrow> (word_of_nat n :: 32 word) < 30 \<longleftrightarrow> n < 30"
  by (simp add: word_less_nat_alt unat_of_nat)

lemma QueueCountGet_slot:
  assumes "cq_wf cq" "p < QUEUE_NUM_PER_PID"
  shows "QueueCountGet (cq_queue cq ! p) = (0, Some (word_of_nat (length (cq_items cq p))))"
  by (rule cq_slot [OF assms]) (simp add: QueueCountGet_eq)

lemma GetMsg_loop_cases:
  assumes wf: "cq_wf cq" and ps: "\<forall>p \<in> set ps. p < QUEUE_NUM_PER_PID"
  obtains (item) x p rest before after cq' where
      "GetMsg_loop cq f ps = (SOFTBUS_OK, Some (Some x), 30 \<le> length (cq_items cq p), cq')"
      "ps = before @ p # after" "\<forall>p' \<in> set before. cq_items cq p' = []" "cq_items cq p = x # rest"
      "cq_items cq' = (cq_items cq)(p := rest)" "cq_wf cq'" "cq_pid cq' = cq_pid cq" "cq_addr cq' = cq_addr cq"
  | (empty) "GetMsg_loop cq f ps = (SOFTBUS_CONN_GET_MSG_FAIL, None, f \<and> ps = [], cq)" "\<forall>p \<in> set ps. cq_items cq p = []"
  using ps
proof (induction ps arbitrary: thesis f)
  case Nil
  then show ?case by simp
next
  case (Cons p ps)
  have p: "p < QUEUE_NUM_PER_PID" using Cons.prems(3) by simp
  obtain lfq where ring: "cq_queue cq ! p = Some lfq" "queue_inv lfq" "queue_cap lfq = 31" "queue_list lfq = cq_items cq p"
    by (rule cq_slot [OF wf p])
  have full: "30 \<le> sint (word_of_nat (length (cq_items cq p)) :: 32 word) \<longleftrightarrow> 30 \<le> length (cq_items cq p)"
    using count_small [OF cq_items_bound [OF wf, of p]] by simp
  have unfold: "GetMsg_loop cq f (p # ps) =
      (case QueueSingleConsumerDequeue (Some lfq) of (ret, msg, l) \<Rightarrow>
         if ret \<noteq> 0 then GetMsg_loop (cq\<lparr>cq_queue := (cq_queue cq)[p := l]\<rparr>) (30 \<le> length (cq_items cq p)) ps
         else (SOFTBUS_OK, msg, 30 \<le> length (cq_items cq p), cq\<lparr>cq_queue := (cq_queue cq)[p := l]\<rparr>))"
    using QueueCountGet_slot [OF wf p] full by (simp add: QUEUE_LIMIT_nth [OF p] Let_def ring(1) split: prod.split)
  from ring(2) show ?case
  proof (cases rule: lfq.deq_cases)
    case (item x xs lfq')
    have "cq_items cq p = x # xs" using item ring by simp
    with item unfold wf p show thesis
      by (intro Cons.prems(1) [of x p "cq\<lparr>cq_queue := (cq_queue cq)[p := Some lfq']\<rparr>" "[]" ps xs])
        (simp_all add: cq_items_update cq_wf_update slot_list_def ring(3))
  next
    case empty
    then have none: "cq_items cq p = []" using ring by simp
    have step: "GetMsg_loop cq f (p # ps) = GetMsg_loop cq False ps"
      using empty none list_update_id [of "cq_queue cq" p] by (simp add: unfold ring(1) del: GetMsg_loop.simps)
    show thesis
    proof (rule Cons.IH [of False])
      fix x p' cq' before after rest
      assume "GetMsg_loop cq False ps = (SOFTBUS_OK, Some (Some x), 30 \<le> length (cq_items cq p'), cq')"
        "ps = before @ p' # after" "\<forall>p' \<in> set before. cq_items cq p' = []" "cq_items cq p' = x # rest"
        "cq_items cq' = (cq_items cq)(p' := rest)" "cq_wf cq'" "cq_pid cq' = cq_pid cq" "cq_addr cq' = cq_addr cq"
      with none step show thesis by (intro Cons.prems(1) [of x p' cq' "p # before" after rest]) auto
    next
      assume "GetMsg_loop cq False ps = (SOFTBUS_CONN_GET_MSG_FAIL, None, False \<and> ps = [], cq)" "\<forall>p \<in> set ps. cq_items cq p = []"
      with none step show thesis by (intro Cons.prems(2)) auto
    qed (use Cons.prems in auto)
  qed
qed

lemma GetMsg_cases:
  assumes wf: "cq_wf cq" and least: "least < QUEUE_NUM_PER_PID"
  obtains (item) x p rest cq' where "GetMsg cq f least = (SOFTBUS_OK, Some (Some x), 30 \<le> length (cq_items cq p), cq')"
      "p \<le> least" "\<forall>p' < p. cq_items cq p' = []" "cq_items cq p = x # rest"
      "cq_items cq' = (cq_items cq)(p := rest)" "cq_wf cq'" "cq_pid cq' = cq_pid cq" "cq_addr cq' = cq_addr cq"
  | (empty) "GetMsg cq f least = (SOFTBUS_CONN_GET_MSG_FAIL, None, False, cq)" "\<forall>p \<le> least. cq_items cq p = []"
proof -
  have "\<forall>p \<in> set [0..<Suc least]. p < QUEUE_NUM_PER_PID" using least by auto
  with wf show thesis
  proof (cases rule: GetMsg_loop_cases [where f = f])
    case (item x p rest before after cq')
    from upt_split [OF item(2)] item show thesis
      by (intro that(1) [of x p cq' rest]) (simp_all add: GetMsg_def del: upt_Suc)
  next
    case empty
    then show thesis by (intro that(2)) (auto simp: GetMsg_def simp del: upt_Suc)
  qed
qed

end
