(* ===== verification/Br_Send_Queue.thy ===== *)
theory Br_Send_Queue
  imports Conn_Common
begin

text \<open>
  The send queue of the BR connection, \<^verbatim>\<open>core/connection/br/src/softbus_conn_br_send_queue.c\<close>: an inner
  \<open>ConnectionQueue\<close> for the service's own control messages and a round-robin list of one queue per client
  process.  The globals of the file are a record; list nodes carry an address so that a pointer kept across
  a wait can be followed.
\<close>

section \<open>Definitions\<close>

abbreviation SOFTBUS_CONN_BR_CREATE_QUEUE_FAIL :: int where "SOFTBUS_CONN_BR_CREATE_QUEUE_FAIL \<equiv> - 425918352"


record SendBrQueueNode =
  bn_connectionId :: nat
  bn_pid :: int
  bn_flag :: int
  bn_isInner :: bool
  bn_module :: int
  bn_seq :: int
  bn_data :: bytes

record 'a send_queues =
  sq_list :: "'a ConnectionQueue list"
  sq_inner :: "'a ConnectionQueue option"
  sq_next :: nat

fun create_rings :: "(nat \<Rightarrow> bool) \<Rightarrow> nat list \<Rightarrow> 'a LockFreeQueue option list option" where
  "create_rings al [] = Some []"
| "create_rings al (i # rest) =
     (case CreateQueue (al (Suc i)) (GetQueueLimit (int i)) of
        None \<Rightarrow> None
      | Some lfq \<Rightarrow> map_option (Cons (Some lfq)) (create_rings al rest))"

definition CreateBrQueue :: "(nat \<Rightarrow> bool) \<Rightarrow> nat \<Rightarrow> int \<Rightarrow> 'a ConnectionQueue option" where
  "CreateBrQueue al addr pid =
     (if \<not> al 0 then None
      else case create_rings al [0..<QUEUE_NUM_PER_PID] of
             None \<Rightarrow> None
           | Some queues \<Rightarrow> Some \<lparr>cq_addr = addr, cq_pid = pid, cq_queue = queues\<rparr>)"

definition GetPriority :: "int \<Rightarrow> nat" where
  "GetPriority flag =
     (if flag = CONN_HIGH then HIGH_PRIORITY else if flag = CONN_MIDDLE then MIDDLE_PRIORITY else LOW_PRIORITY)"

text \<open>Reading and writing a ring through the pointer \<open>g_innerQueue\<close> and through a list node.\<close>

definition deref_inner :: "nat \<Rightarrow> 'a send_queues \<Rightarrow> 'a LockFreeQueue option option" where
  "deref_inner p s = map_option (\<lambda>cq. cq_queue cq ! p) (sq_inner s)"

definition put_inner :: "nat \<Rightarrow> 'a LockFreeQueue option \<Rightarrow> 'a send_queues \<Rightarrow> 'a send_queues" where
  "put_inner p lfq s = s\<lparr>sq_inner := map_option (\<lambda>cq. cq\<lparr>cq_queue := (cq_queue cq)[p := lfq]\<rparr>) (sq_inner s)\<rparr>"

definition deref_node :: "nat \<Rightarrow> nat \<Rightarrow> 'a send_queues \<Rightarrow> 'a LockFreeQueue option option" where
  "deref_node addr p s = map_option (\<lambda>cq. cq_queue cq ! p) (find (\<lambda>cq. cq_addr cq = addr) (sq_list s))"

definition put_node :: "nat \<Rightarrow> nat \<Rightarrow> 'a LockFreeQueue option \<Rightarrow> 'a send_queues \<Rightarrow> 'a send_queues" where
  "put_node addr p lfq s =
     s\<lparr>sq_list := map (\<lambda>cq. if cq_addr cq = addr then cq\<lparr>cq_queue := (cq_queue cq)[p := lfq]\<rparr> else cq) (sq_list s)\<rparr>"

definition enqueue_ring ::
  "('a send_queues \<Rightarrow> 'a LockFreeQueue option option) \<Rightarrow> ('a LockFreeQueue option \<Rightarrow> 'a send_queues \<Rightarrow> 'a send_queues) \<Rightarrow>
   'a \<Rightarrow> 'a send_queues \<Rightarrow> (fault + int \<times> 'a send_queues) option" where
  "enqueue_ring deref put msg s =
     (case deref s of
        None \<Rightarrow> Some (Inl InvalidPointer)
      | Some lfq \<Rightarrow>
          (case QueueMultiProducerEnqueue lfq (Some msg) of
             None \<Rightarrow> None
           | Some (ret, lfq') \<Rightarrow> Some (Inr (ret, put lfq' s))))"

text \<open>
  The result of an enqueue: the return code, whether \<open>g_sendCond\<close> was signalled, and the globals.
\<close>

definition ConnBrEnqueueNonBlock ::
  "(nat \<Rightarrow> bool) \<Rightarrow> bool \<Rightarrow> (int \<times> SendBrQueueNode send_queues) list \<Rightarrow> SendBrQueueNode option \<Rightarrow>
   SendBrQueueNode send_queues \<Rightarrow> (fault + int \<times> bool \<times> SendBrQueueNode send_queues) option" where
  "ConnBrEnqueueNonBlock al lockOk waits msg s =
     (case msg of None \<Rightarrow> Some (Inr (SOFTBUS_INVALID_PARAM, False, s))
      | Some queueNode \<Rightarrow>
        let priority = GetPriority (bn_flag queueNode); limit = GetQueueLimit (int priority)
        in if \<not> lockOk then Some (Inr (SOFTBUS_LOCK_ERR, False, s))
           else if bn_pid queueNode = 0 \<and> bn_isInner queueNode then
             (case WaitQueueLength (deref_inner priority) waits s limit WAIT_QUEUE_BUFFER_PERIOD_LEN of
                None \<Rightarrow> None
              | Some (Inl f) \<Rightarrow> Some (Inl f)
              | Some (Inr (ret, s)) \<Rightarrow>
                  if ret = SOFTBUS_OK then
                    map_option (map_sum id (\<lambda>(ret, s). (ret, True, s)))
                      (enqueue_ring (deref_inner priority) (put_inner priority) queueNode s)
                  else Some (Inr (ret, True, s)))
           else
             let isListEmpty = (sq_list s = []);
                 lockFreeQueue = (case find (\<lambda>item. cq_pid item = bn_pid queueNode) (sq_list s) of
                                    None \<Rightarrow> None
                                  | Some item \<Rightarrow> map_option (\<lambda>_. cq_addr item) (cq_queue item ! priority))
             in case lockFreeQueue of
                  None \<Rightarrow>
                    (case CreateBrQueue al (sq_next s) (bn_pid queueNode) of
                       None \<Rightarrow> Some (Inr (SOFTBUS_CONN_BR_INTERNAL_ERR, isListEmpty, s))
                     | Some newQueue \<Rightarrow>
                         let s = s\<lparr>sq_list := sq_list s @ [newQueue], sq_next := Suc (sq_next s)\<rparr>
                         in map_option (map_sum id (\<lambda>(r, s). (if r \<noteq> 0 then SOFTBUS_CONN_BR_INTERNAL_ERR else SOFTBUS_OK, isListEmpty, s)))
                              (enqueue_ring (deref_node (cq_addr newQueue) priority) (put_node (cq_addr newQueue) priority) queueNode s))
                | Some addr \<Rightarrow>
                    (case WaitQueueLength (deref_node addr priority) waits s limit WAIT_QUEUE_BUFFER_PERIOD_LEN of
                       None \<Rightarrow> None
                     | Some (Inl f) \<Rightarrow> Some (Inl f)
                     | Some (Inr (ret, s)) \<Rightarrow>
                         if ret \<noteq> SOFTBUS_OK then Some (Inr (ret, isListEmpty, s))
                         else map_option (map_sum id (\<lambda>(r, s). (if r \<noteq> 0 then ret else SOFTBUS_OK, isListEmpty, s)))
                                (enqueue_ring (deref_node addr priority) (put_node addr priority) queueNode s)))"

text \<open>The walk over the client list: a client without messages is destroyed, the first one with a message goes to the tail.\<close>

fun BrDequeue_scan :: "'a ConnectionQueue list \<Rightarrow> bool \<Rightarrow> bool \<times> 'a option option \<times> bool \<times> 'a ConnectionQueue list" where
  "BrDequeue_scan [] isFull = (False, None, isFull, [])"
| "BrDequeue_scan (item # next) isFull =
     (case GetMsg item isFull LOW_PRIORITY of (ret, msg, isFull, item) \<Rightarrow>
        if ret = SOFTBUS_OK then (True, msg, isFull, next @ [item]) else BrDequeue_scan next isFull)"

text \<open>
  The body of the loop up to the wait: whether a message was found, with the queues as the pass leaves them.
\<close>

definition BrDequeue_pass :: "bool \<Rightarrow> 'a send_queues \<Rightarrow> fault + bool \<times> 'a option option \<times> bool \<times> 'a send_queues" where
  "BrDequeue_pass isFull s =
     (case sq_inner s of
        None \<Rightarrow> Inl InvalidPointer
      | Some inner \<Rightarrow>
        (case GetMsg inner isFull MIDDLE_PRIORITY of (ret, msg, isFull, inner) \<Rightarrow>
         if ret = SOFTBUS_OK then Inr (True, msg, isFull, s\<lparr>sq_inner := Some inner\<rparr>)
         else case BrDequeue_scan (sq_list s) isFull of (found, msg, isFull, queues) \<Rightarrow>
         if found then Inr (True, msg, isFull, s\<lparr>sq_inner := Some inner, sq_list := queues\<rparr>)
         else case GetMsg inner isFull LOW_PRIORITY of (ret, msg, isFull, inner) \<Rightarrow>
           Inr (ret = SOFTBUS_OK, msg, isFull, s\<lparr>sq_inner := Some inner, sq_list := queues\<rparr>)))"

fun ConnBrDequeue_loop ::
  "(int \<times> 'a send_queues) list \<Rightarrow> bool \<Rightarrow> 'a send_queues \<Rightarrow> (fault + int \<times> 'a option option \<times> bool \<times> 'a send_queues) option" where
  "ConnBrDequeue_loop waits isFull s =
     (case BrDequeue_pass isFull s of
        Inl f \<Rightarrow> Some (Inl f)
      | Inr (found, msg, isFull, s) \<Rightarrow>
          if found then Some (Inr (SOFTBUS_OK, msg, isFull, s))
          else case waits of
                 [] \<Rightarrow> None
               | (ret, s') # waits' \<Rightarrow>
                   if ret \<noteq> SOFTBUS_OK then
                     (if ret = SOFTBUS_TIMOUT then Some (Inr (SOFTBUS_TIMOUT, None, isFull, s'))
                      else Some (Inr (SOFTBUS_CONN_COND_WAIT_FAIL, None, isFull, s')))
                   else ConnBrDequeue_loop waits' isFull s')"

text \<open>The boolean result says whether \<open>g_sendWaitCond\<close> was signalled.\<close>

definition ConnBrDequeueBlock ::
  "int \<Rightarrow> bool \<Rightarrow> bool \<Rightarrow> (int \<times> 'a send_queues) list \<Rightarrow> 'a send_queues \<Rightarrow>
   (fault + int \<times> 'a option option \<times> bool \<times> 'a send_queues) option" where
  "ConnBrDequeueBlock getTime msgNonNull lockOk waits s =
     (if getTime \<noteq> SOFTBUS_OK then Some (Inr (SOFTBUS_INVALID_PARAM, None, False, s))
      else if \<not> msgNonNull then Some (Inr (SOFTBUS_INVALID_PARAM, None, False, s))
      else if \<not> lockOk then Some (Inr (SOFTBUS_LOCK_ERR, None, False, s))
      else ConnBrDequeue_loop waits False s)"

definition ConnBrInnerQueueInit ::
  "(nat \<Rightarrow> bool) \<Rightarrow> int \<Rightarrow> int \<Rightarrow> int \<Rightarrow> 'a send_queues \<Rightarrow> int \<times> 'a send_queues" where
  "ConnBrInnerQueueInit al mutexInit waitCondInit condInit s =
     (if mutexInit \<noteq> SOFTBUS_OK then (SOFTBUS_LOCK_ERR, s)
      else if waitCondInit \<noteq> SOFTBUS_OK then (SOFTBUS_NO_INIT, s)
      else if condInit \<noteq> SOFTBUS_OK then (SOFTBUS_NO_INIT, s)
      else case CreateBrQueue al (sq_next s) 0 of
             None \<Rightarrow> (SOFTBUS_CONN_BR_CREATE_QUEUE_FAIL, s\<lparr>sq_inner := None\<rparr>)
           | Some inner \<Rightarrow> (SOFTBUS_OK, s\<lparr>sq_inner := Some inner, sq_next := Suc (sq_next s)\<rparr>))"

definition ConnBrInnerQueueDeinit :: "'a send_queues \<Rightarrow> 'a send_queues" where
  "ConnBrInnerQueueDeinit s = s\<lparr>sq_inner := None\<rparr>"

section \<open>Abstract content\<close>

text \<open>Keys are the inner queue or a process, with a priority.\<close>

type_synonym send_key = "int option \<times> nat"

abbreviation list_items :: "'a ConnectionQueue list \<Rightarrow> int \<Rightarrow> nat \<Rightarrow> 'a list" where
  "list_items \<equiv> client_lookup cq_pid cq_items"

definition sq_content :: "'a send_queues \<Rightarrow> send_key \<Rightarrow> 'a list" where
  "sq_content s = (\<lambda>(c, p).
     case c of None \<Rightarrow> (case sq_inner s of None \<Rightarrow> [] | Some cq \<Rightarrow> cq_items cq p) | Some pid \<Rightarrow> list_items (sq_list s) pid p)"

definition sq_inv :: "('a \<Rightarrow> send_key) \<Rightarrow> 'a send_queues \<Rightarrow> bool" where
  "sq_inv keyof s \<longleftrightarrow> (\<exists>cq. sq_inner s = Some cq \<and> cq_wf cq) \<and> (\<forall>cq \<in> set (sq_list s). cq_wf cq \<and> cq_addr cq < sq_next s) \<and>
     distinct (map cq_pid (sq_list s)) \<and> distinct (map cq_addr (sq_list s)) \<and>
     (\<forall>k. \<forall>x \<in> set (sq_content s k). keyof x = k)"

lemma create_rings_Some:
  assumes "create_rings al is = Some qs" "\<forall>i \<in> set is. i < QUEUE_NUM_PER_PID"
  shows "length qs = length is \<and> (\<forall>slot \<in> set qs. slot \<noteq> None \<and> slot_ok 32 slot \<and> slot_list slot = [])"
  using assms
  by (induction "is" arbitrary: qs)
    (auto simp: GetQueueLimit_priority slot_ok_def slot_list_def dest!: CreateQueue_Some split: option.splits)

lemma create_rings_True:
  assumes "\<forall>i \<in> set is. i < QUEUE_NUM_PER_PID"
  shows "\<exists>qs. create_rings (\<lambda>_. True) is = Some (qs :: 'a LockFreeQueue option list)"
proof -
  have "\<exists>q :: 'a LockFreeQueue. CreateQueue True 32 = Some q"
    by (rule CreateQueue_succeeds) (simp_all add: IS_POWER_OF_2_def)
  then show ?thesis using assms by (induction "is") (auto simp: GetQueueLimit_priority)
qed

lemma CreateBrQueue_Some:
  assumes "CreateBrQueue al a pid = Some cq"
  shows "cq_wf cq \<and> cq_addr cq = a \<and> cq_pid cq = pid \<and> cq_items cq = (\<lambda>p. [])"
proof -
  obtain qs where qs: "create_rings al [0..<QUEUE_NUM_PER_PID] = Some qs" and cq: "cq = \<lparr>cq_addr = a, cq_pid = pid, cq_queue = qs\<rparr>"
    using assms by (auto simp: CreateBrQueue_def simp del: upt_rec_numeral split: if_splits option.splits)
  have "length qs = QUEUE_NUM_PER_PID \<and> (\<forall>slot \<in> set qs. slot \<noteq> None \<and> slot_ok 32 slot \<and> slot_list slot = [])"
    using create_rings_Some [OF qs] by simp
  then show ?thesis by (auto simp: cq cq_wf_def cq_items_def fun_eq_iff)
qed

lemma CreateBrQueue_True: "\<exists>cq. CreateBrQueue (\<lambda>_. True) a pid = Some (cq :: 'a ConnectionQueue)"
proof -
  obtain qs :: "'a LockFreeQueue option list" where "create_rings (\<lambda>_. True) [0..<QUEUE_NUM_PER_PID] = Some qs"
    using create_rings_True [of "[0..<QUEUE_NUM_PER_PID]"] by auto
  then show ?thesis by (simp add: CreateBrQueue_def del: upt_rec_numeral)
qed

lemma create_rings_cong: "\<forall>i \<in> set is. al (Suc i) = al' (Suc i) \<Longrightarrow> create_rings al is = create_rings al' is"
  by (induction "is") (auto split: option.split)

lemma CreateBrQueue_None:
  assumes "CreateBrQueue al a pid = (None :: 'a ConnectionQueue option)"
  shows "\<not> (al 0 \<and> al 1 \<and> al 2 \<and> al 3)"
proof
  assume all: "al 0 \<and> al 1 \<and> al 2 \<and> al 3"
  have "create_rings al [0..<QUEUE_NUM_PER_PID] = (create_rings (\<lambda>_. True) [0..<QUEUE_NUM_PER_PID] :: 'a LockFreeQueue option list option)"
    by (rule create_rings_cong) (use all in \<open>auto simp: less_Suc_eq numeral_2_eq_2 numeral_3_eq_3\<close>)
  then have "CreateBrQueue al a pid = (CreateBrQueue (\<lambda>_. True) a pid :: 'a ConnectionQueue option)"
    using all unfolding CreateBrQueue_def by simp
  moreover obtain cq :: "'a ConnectionQueue" where "CreateBrQueue (\<lambda>_. True) a pid = Some cq"
    using CreateBrQueue_True by blast
  ultimately show False using assms by simp
qed

section \<open>Storing a message\<close>

lemma find_addr:
  "distinct (map cq_addr cqs) \<Longrightarrow> cq \<in> set cqs \<Longrightarrow> find (\<lambda>c. cq_addr c = cq_addr cq) cqs = Some cq"
  by (induction cqs) auto

lemma list_items_put:
  assumes "distinct (map cq_pid cqs)" "distinct (map cq_addr cqs)" "cq \<in> set cqs" "\<And>c. cq_pid (f c) = cq_pid c"
  shows "list_items (map (\<lambda>c. if cq_addr c = cq_addr cq then f c else c) cqs) = (list_items cqs)(cq_pid cq := cq_items (f cq))"
proof -
  have "client_lookup cq_pid cq_items (map (\<lambda>c. if cq_addr c = cq_addr cq then f c else c) cs) i =
      (if i = cq_pid cq \<and> cq \<in> set cs then cq_items (f cq) else list_items cs i)"
    if "set cs \<subseteq> set cqs" for cs i
    using that
  proof (induction cs)
    case (Cons c cs)
    have "c = cq" if "cq_addr c = cq_addr cq \<or> cq_pid c = cq_pid cq"
      using that Cons.prems assms(1-3) by (auto simp: distinct_map inj_on_def)
    with Cons show ?case by (auto simp: assms(4))
  qed simp
  from this [of cqs] show ?thesis using assms(3) by (auto simp: fun_eq_iff)
qed

text \<open>One ring of the inner queue or of a client in the list.\<close>

definition ring_at :: "('a send_queues \<Rightarrow> 'a LockFreeQueue option option) \<Rightarrow>
    ('a LockFreeQueue option \<Rightarrow> 'a send_queues \<Rightarrow> 'a send_queues) \<Rightarrow> send_key \<Rightarrow> 'a send_queues \<Rightarrow> bool" where
  "ring_at deref put k s \<longleftrightarrow> (\<exists>lfq. deref s = Some (Some lfq) \<and> queue_inv lfq \<and> queue_cap lfq = 31 \<and> queue_list lfq = sq_content s k \<and>
     (\<forall>keyof lfq'. sq_inv keyof s \<and> queue_inv lfq' \<and> queue_cap lfq' = 31 \<and> (\<forall>x \<in> set (queue_list lfq'). keyof x = k) \<longrightarrow>
        sq_inv keyof (put (Some lfq') s) \<and> sq_content (put (Some lfq') s) = (sq_content s)(k := queue_list lfq') \<and>
        map cq_pid (sq_list (put (Some lfq') s)) = map cq_pid (sq_list s)))"

lemma ring_at_inner:
  assumes inv: "sq_inv keyof s" and p: "p < QUEUE_NUM_PER_PID"
  shows "ring_at (deref_inner p) (put_inner p) (None, p) s"
proof -
  obtain cq where cq: "sq_inner s = Some cq" "cq_wf cq" using inv by (auto simp: sq_inv_def)
  obtain lfq where lfq: "cq_queue cq ! p = Some lfq" "queue_inv lfq" "queue_cap lfq = 31" "queue_list lfq = cq_items cq p"
    by (rule cq_slot [OF cq(2) p])
  have content: "sq_content (put_inner p (Some lfq') s) = (sq_content s)((None, p) := queue_list lfq')" for lfq'
    using cq by (auto simp: sq_content_def put_inner_def fun_eq_iff cq_items_update [OF cq(2) p] slot_list_def split: option.split)
  have "sq_inv keyof' (put_inner p (Some lfq') s)"
    if "sq_inv keyof' s" "queue_inv lfq'" "queue_cap lfq' = 31" "\<forall>x \<in> set (queue_list lfq'). keyof' x = (None, p)" for keyof' lfq'
    using that cq_wf_update [OF cq(2) that(2,3), of p] cq unfolding sq_inv_def content by (auto simp: put_inner_def)
  with cq lfq content show ?thesis
    unfolding ring_at_def by (intro exI [of _ lfq]) (auto simp: deref_inner_def sq_content_def put_inner_def)
qed

lemma ring_at_node:
  assumes inv: "sq_inv keyof s" and p: "p < QUEUE_NUM_PER_PID" and cq: "cq \<in> set (sq_list s)"
  shows "ring_at (deref_node (cq_addr cq) p) (put_node (cq_addr cq) p) (Some (cq_pid cq), p) s"
proof -
  have wf: "cq_wf cq" and dist: "distinct (map cq_pid (sq_list s))" "distinct (map cq_addr (sq_list s))"
    using inv cq by (auto simp: sq_inv_def)
  obtain lfq where lfq: "cq_queue cq ! p = Some lfq" "queue_inv lfq" "queue_cap lfq = 31" "queue_list lfq = cq_items cq p"
    by (rule cq_slot [OF wf p])
  let ?f = "\<lambda>lfq' c. c\<lparr>cq_queue := (cq_queue c)[p := Some lfq']\<rparr>"
  have put: "sq_list (put_node (cq_addr cq) p (Some lfq') s) = map (\<lambda>c. if cq_addr c = cq_addr cq then ?f lfq' c else c) (sq_list s)"
    "sq_inner (put_node (cq_addr cq) p (Some lfq') s) = sq_inner s" "sq_next (put_node (cq_addr cq) p (Some lfq') s) = sq_next s" for lfq'
    by (simp_all add: put_node_def)
  have ids: "map cq_pid (sq_list (put_node (cq_addr cq) p (Some lfq') s)) = map cq_pid (sq_list s)"
    "map cq_addr (sq_list (put_node (cq_addr cq) p (Some lfq') s)) = map cq_addr (sq_list s)" for lfq'
    by (simp_all add: put comp_def)
  have content: "sq_content (put_node (cq_addr cq) p (Some lfq') s) = (sq_content s)((Some (cq_pid cq), p) := queue_list lfq')" for lfq'
    using list_items_put [OF dist cq, of "?f lfq'"] cq_items_update [OF wf p] client_lookup_mem [OF dist(1) cq, of cq_items]
    by (auto simp: sq_content_def fun_eq_iff put slot_list_def split: option.split)
  have "sq_inv keyof' (put_node (cq_addr cq) p (Some lfq') s)"
    if "sq_inv keyof' s" "queue_inv lfq'" "queue_cap lfq' = 31" "\<forall>x \<in> set (queue_list lfq'). keyof' x = (Some (cq_pid cq), p)" for keyof' lfq'
    using that cq_wf_update [OF _ that(2,3), of _ p] unfolding sq_inv_def content ids by (auto simp: put)
  with lfq content ids find_addr [OF dist(2) cq] client_lookup_mem [OF dist(1) cq, of cq_items] show ?thesis
    unfolding ring_at_def by (intro exI [of _ lfq]) (auto simp: deref_node_def sq_content_def)
qed

lemma WaitQueueLength_ring:
  assumes "ring_at deref put k s"
  shows "WaitQueueLength deref waits s 32 WAIT_QUEUE_BUFFER_PERIOD_LEN =
    (if length (sq_content s k) < 30 then Some (Inr (SOFTBUS_OK, s))
     else case waits of
            [] \<Rightarrow> None
          | (status, s') # waits' \<Rightarrow>
              if status \<noteq> SOFTBUS_OK \<and> status \<noteq> SOFTBUS_TIMOUT then Some (Inr (SOFTBUS_CONN_COND_WAIT_FAIL, s'))
              else WaitQueueLength deref waits' s' 32 WAIT_QUEUE_BUFFER_PERIOD_LEN)"
proof -
  obtain lfq where lfq: "deref s = Some (Some lfq)" "queue_inv lfq" "queue_cap lfq = 31" "queue_list lfq = sq_content s k"
    using assms by (auto simp: ring_at_def)
  have "length (sq_content s k) \<le> 31"
    using queue_count_le_cap [OF lfq(2)] length_queue_list [of lfq] lfq(3,4) by simp
  then show ?thesis
    using lfq by (subst WaitQueueLength.simps) (simp add: QueueCountGet_eq count_small_less)
qed

lemma enqueue_ring_cases:
  assumes ring: "ring_at deref put k s" and inv: "sq_inv keyof s" and x: "keyof x = k"
  obtains (stored) s' where "enqueue_ring deref put x s = Some (Inr (SOFTBUS_OK, s'))" "sq_inv keyof s'"
      "sq_content s' = (sq_content s)(k := sq_content s k @ [x])" "map cq_pid (sq_list s') = map cq_pid (sq_list s)"
  | (full) "31 \<le> length (sq_content s k)"
proof -
  obtain lfq where lfq: "deref s = Some (Some lfq)" "queue_inv lfq" "queue_cap lfq = 31" "queue_list lfq = sq_content s k"
    and put: "\<And>lfq'. queue_inv lfq' \<Longrightarrow> queue_cap lfq' = 31 \<Longrightarrow> \<forall>x \<in> set (queue_list lfq'). keyof x = k \<Longrightarrow>
        sq_inv keyof (put (Some lfq') s) \<and> sq_content (put (Some lfq') s) = (sq_content s)(k := queue_list lfq') \<and>
        map cq_pid (sq_list (put (Some lfq') s)) = map cq_pid (sq_list s)"
    using ring inv by (auto simp: ring_at_def)
  have keys: "\<forall>y \<in> set (sq_content s k). keyof y = k" using inv unfolding sq_inv_def by blast
  from lfq(2) show thesis
  proof (cases rule: lfq.enq_cases [where x = x])
    case (stored lfq')
    have "\<forall>y \<in> set (queue_list lfq'). keyof y = k" using stored lfq keys x by auto
    with stored put [of lfq'] lfq show thesis
      by (intro that(1) [of "put (Some lfq') s"]) (auto simp: enqueue_ring_def)
  next
    case full
    with lfq show thesis by (intro that(2)) simp
  qed
qed

section \<open>The keyed FIFO contract\<close>

definition br_key :: "SendBrQueueNode \<Rightarrow> send_key" where
  "br_key x = (if bn_pid x = 0 \<and> bn_isInner x then None else Some (bn_pid x), GetPriority (bn_flag x))"

lemma GetPriority_less: "GetPriority f < QUEUE_NUM_PER_PID"
  by (simp add: GetPriority_def)

text \<open>
  An enqueue whose wait, if it needs one, returns the given code with the queues unchanged.  A caller that is
  still blocked has not stored anything.
\<close>

definition br_enq ::
  "(nat \<Rightarrow> bool) \<times> int \<Rightarrow> SendBrQueueNode send_queues \<Rightarrow> SendBrQueueNode \<Rightarrow> bool \<times> SendBrQueueNode send_queues" where
  "br_enq e s x =
     (case ConnBrEnqueueNonBlock (fst e) True [(snd e, s)] (Some x) s of
        Some (Inr (ret, signal, s')) \<Rightarrow> (ret = SOFTBUS_OK, s')
      | _ \<Rightarrow> (False, s))"

lemma sq_append:
  assumes inv: "sq_inv keyof s" and pid: "find (\<lambda>c. cq_pid c = pid) (sq_list s) = None"
    and cq: "cq_wf cq" "cq_addr cq = sq_next s" "cq_pid cq = pid" "cq_items cq = (\<lambda>p. [])"
  defines "s' \<equiv> s\<lparr>sq_list := sq_list s @ [cq], sq_next := Suc (sq_next s)\<rparr>"
  shows "sq_inv keyof s'" "sq_content s' = sq_content s"
proof -
  have new: "pid \<notin> cq_pid ` set (sq_list s)" using pid by (auto simp: find_None_iff)
  have "list_items (sq_list s @ [cq]) = list_items (sq_list s)"
    using new cq by (auto simp: fun_eq_iff client_lookup_append client_lookup_notin)
  then show content: "sq_content s' = sq_content s"
    by (auto simp: sq_content_def s'_def fun_eq_iff split: option.split)
  show "sq_inv keyof s'"
    using inv new cq unfolding sq_inv_def content by (auto simp: s'_def less_SucI)
qed

text \<open>
  What the BR and the BLE enqueue have in common: storing into the inner queue or into a client's queue, which
  is created on demand.  They differ in the error code and in how the code of the ring is turned into a result.
\<close>

definition send_enqueue ::
  "(nat \<Rightarrow> bool) \<Rightarrow> (int \<times> 'a send_queues) list \<Rightarrow> bool \<Rightarrow> int \<Rightarrow> nat \<Rightarrow> int \<Rightarrow> (int \<Rightarrow> int) \<Rightarrow> (int \<Rightarrow> int) \<Rightarrow> 'a \<Rightarrow>
   'a send_queues \<Rightarrow> (fault + int \<times> bool \<times> 'a send_queues) option" where
  "send_enqueue al waits inner pid p err created existing x s =
     (if inner then
        (case WaitQueueLength (deref_inner p) waits s 32 WAIT_QUEUE_BUFFER_PERIOD_LEN of
           None \<Rightarrow> None
         | Some (Inl f) \<Rightarrow> Some (Inl f)
         | Some (Inr (ret, s)) \<Rightarrow>
             if ret = SOFTBUS_OK then map_option (map_sum id (\<lambda>(ret, s). (ret, True, s))) (enqueue_ring (deref_inner p) (put_inner p) x s)
             else Some (Inr (ret, True, s)))
      else case (case find (\<lambda>item. cq_pid item = pid) (sq_list s) of
                   None \<Rightarrow> None | Some item \<Rightarrow> map_option (\<lambda>_. cq_addr item) (cq_queue item ! p)) of
             None \<Rightarrow>
               (case CreateBrQueue al (sq_next s) pid of
                  None \<Rightarrow> Some (Inr (err, sq_list s = [], s))
                | Some cq \<Rightarrow>
                    map_option (map_sum id (\<lambda>(r, s'). (created r, sq_list s = [], s')))
                      (enqueue_ring (deref_node (cq_addr cq) p) (put_node (cq_addr cq) p) x
                        (s\<lparr>sq_list := sq_list s @ [cq], sq_next := Suc (sq_next s)\<rparr>)))
           | Some addr \<Rightarrow>
               (case WaitQueueLength (deref_node addr p) waits s 32 WAIT_QUEUE_BUFFER_PERIOD_LEN of
                  None \<Rightarrow> None
                | Some (Inl f) \<Rightarrow> Some (Inl f)
                | Some (Inr (ret, s')) \<Rightarrow>
                    if ret \<noteq> SOFTBUS_OK then Some (Inr (ret, sq_list s = [], s'))
                    else map_option (map_sum id (\<lambda>(r, s'). (existing r, sq_list s = [], s')))
                           (enqueue_ring (deref_node addr p) (put_node addr p) x s')))"

text \<open>The part after a lookup: at once if there is room, otherwise through the wait.\<close>

definition enqueue_waiting ::
  "('a send_queues \<Rightarrow> 'a LockFreeQueue option option) \<Rightarrow> ('a LockFreeQueue option \<Rightarrow> 'a send_queues \<Rightarrow> 'a send_queues) \<Rightarrow>
   (int \<times> 'a send_queues) list \<Rightarrow> (int \<Rightarrow> int) \<Rightarrow> bool \<Rightarrow> 'a \<Rightarrow> 'a send_queues \<Rightarrow> (fault + int \<times> bool \<times> 'a send_queues) option" where
  "enqueue_waiting deref put waits post signal x s =
     (case WaitQueueLength deref waits s 32 WAIT_QUEUE_BUFFER_PERIOD_LEN of
        None \<Rightarrow> None
      | Some (Inl f) \<Rightarrow> Some (Inl f)
      | Some (Inr (ret, s')) \<Rightarrow>
          if ret \<noteq> SOFTBUS_OK then Some (Inr (ret, signal, s'))
          else map_option (map_sum id (\<lambda>(r, s'). (post r, signal, s'))) (enqueue_ring deref put x s'))"

lemma enqueue_waiting_cases:
  assumes ring: "ring_at deref put (keyof x) s" and inv: "sq_inv keyof s" and post: "post SOFTBUS_OK = SOFTBUS_OK"
  obtains (stored) s' where "enqueue_waiting deref put waits post signal x s = Some (Inr (SOFTBUS_OK, signal, s'))" "sq_inv keyof s'"
      "sq_content s' = (sq_content s)(keyof x := sq_content s (keyof x) @ [x])"
  | (waits) "30 \<le> length (sq_content s (keyof x))"
  using ring inv refl
proof (cases rule: enqueue_ring_cases [where keyof = keyof and x = x])
  case (stored s')
  then show thesis
    using that post by (cases "length (sq_content s (keyof x)) < 30") (auto simp: enqueue_waiting_def WaitQueueLength_ring [OF ring])
qed (use that in simp)

lemma send_enqueue_cases:
  assumes inv: "sq_inv keyof s" and key: "keyof x = (if inner then None else Some pid, p)" and p: "p < QUEUE_NUM_PER_PID"
    and post: "created SOFTBUS_OK = SOFTBUS_OK" "existing SOFTBUS_OK = SOFTBUS_OK"
  obtains (stored) s' where "send_enqueue al waits inner pid p err created existing x s =
        Some (Inr (SOFTBUS_OK, inner \<or> sq_list s = [], s'))" "sq_inv keyof s'"
      "sq_content s' = (sq_content s)(keyof x := sq_content s (keyof x) @ [x])"
  | (failed) "send_enqueue al waits inner pid p err created existing x s = Some (Inr (err, sq_list s = [], s))" "\<not> (al 0 \<and> al 1 \<and> al 2 \<and> al 3)" "\<not> inner"
  | (waits) deref put where "30 \<le> length (sq_content s (keyof x))" "ring_at deref put (keyof x) s"
      "send_enqueue al waits inner pid p err created existing x s =
         enqueue_waiting deref put waits (if inner then id else existing) (inner \<or> sq_list s = []) x s"
proof -
  note room = stored and blocked = waits
  have through: thesis if ring: "ring_at deref put (keyof x) s"
    and eq: "send_enqueue al waits inner pid p err created existing x s =
      enqueue_waiting deref put waits (if inner then id else existing) (inner \<or> sq_list s = []) x s" for deref put
  proof -
    have "(if inner then id else existing) SOFTBUS_OK = SOFTBUS_OK" using post by simp
    with ring inv show ?thesis
    proof (cases rule: enqueue_waiting_cases [where waits = waits and signal = "inner \<or> sq_list s = []"])
      case (stored s')
      then show ?thesis using eq by (intro room [of s']) auto
    next
      case waits
      then show ?thesis by (rule blocked [OF _ ring eq])
    qed
  qed
  show thesis
  proof (cases inner)
    case True
    have ring: "ring_at (deref_inner p) (put_inner p) (keyof x) s" using ring_at_inner [OF inv p] by (simp add: key True)
    then show thesis
      by (rule through) (auto simp: send_enqueue_def enqueue_waiting_def True split: option.split sum.split)
  next
    case outer: False
    show thesis
    proof (cases "find (\<lambda>item. cq_pid item = pid) (sq_list s)")
      case None
      show thesis
      proof (cases "CreateBrQueue al (sq_next s) pid :: 'a ConnectionQueue option")
        case none: None
        with None outer CreateBrQueue_None [OF none] show thesis by (intro failed) (auto simp: send_enqueue_def)
      next
        case (Some cq)
        note cq = CreateBrQueue_Some [OF Some]
        let ?s = "s\<lparr>sq_list := sq_list s @ [cq], sq_next := Suc (sq_next s)\<rparr>"
        have new: "sq_inv keyof ?s" "sq_content ?s = sq_content s" using sq_append [OF inv None] cq by auto
        have ring: "ring_at (deref_node (cq_addr cq) p) (put_node (cq_addr cq) p) (keyof x) ?s"
          using ring_at_node [OF new(1) p, of cq] cq key outer by simp
        have "pid \<notin> cq_pid ` set (sq_list s)" using None by (auto simp: find_None_iff)
        then have empty: "sq_content s (keyof x) = []" by (simp add: key outer sq_content_def client_lookup_notin)
        from ring new(1) refl show thesis
        proof (cases rule: enqueue_ring_cases [where keyof = keyof and x = x])
          case (stored s')
          then show thesis using None Some new outer post by (intro that(1) [of s']) (simp_all add: send_enqueue_def)
        qed (use empty new(2) in simp)
      qed
    next
      case (Some item)
      then have item: "item \<in> set (sq_list s)" "cq_pid item = pid" by (auto dest: find_SomeD)
      have "cq_wf item" using inv item by (auto simp: sq_inv_def)
      then obtain lfq where slot: "cq_queue item ! p = Some lfq" by (rule cq_slot [OF _ p])
      have "ring_at (deref_node (cq_addr item) p) (put_node (cq_addr item) p) (keyof x) s"
        using ring_at_node [OF inv p item(1)] by (simp add: key item(2) outer)
      then show thesis
        by (rule through) (use Some slot outer in \<open>auto simp: send_enqueue_def enqueue_waiting_def split: option.split sum.split\<close>)
    qed
  qed
qed

lemma ConnBrEnqueue_eq:
  "ConnBrEnqueueNonBlock al True waits (Some x) s =
     send_enqueue al waits (bn_pid x = 0 \<and> bn_isInner x) (bn_pid x) (GetPriority (bn_flag x)) SOFTBUS_CONN_BR_INTERNAL_ERR
       (\<lambda>r. if r \<noteq> 0 then SOFTBUS_CONN_BR_INTERNAL_ERR else SOFTBUS_OK) (\<lambda>r. SOFTBUS_OK) x s"
  unfolding ConnBrEnqueueNonBlock_def send_enqueue_def GetQueueLimit_priority [OF GetPriority_less] Let_def
  by (simp split: option.split sum.split)

lemma ConnBrEnqueue_cases:
  assumes inv: "sq_inv br_key s"
  obtains (stored) s' where "ConnBrEnqueueNonBlock al True waits (Some x) s =
        Some (Inr (SOFTBUS_OK, bn_pid x = 0 \<and> bn_isInner x \<or> sq_list s = [], s'))" "sq_inv br_key s'"
      "sq_content s' = (sq_content s)(br_key x := sq_content s (br_key x) @ [x])"
  | (failed) "ConnBrEnqueueNonBlock al True waits (Some x) s =
        Some (Inr (SOFTBUS_CONN_BR_INTERNAL_ERR, sq_list s = [], s))" "\<not> (al 0 \<and> al 1 \<and> al 2 \<and> al 3)"
  | (waits) deref put post where "30 \<le> length (sq_content s (br_key x))" "ring_at deref put (br_key x) s"
      "ConnBrEnqueueNonBlock al True waits (Some x) s =
         enqueue_waiting deref put waits post (bn_pid x = 0 \<and> bn_isInner x \<or> sq_list s = []) x s"
  by (rule send_enqueue_cases [of br_key s x "bn_pid x = 0 \<and> bn_isInner x" "bn_pid x" "GetPriority (bn_flag x)"
      "\<lambda>r. if r \<noteq> 0 then SOFTBUS_CONN_BR_INTERNAL_ERR else SOFTBUS_OK" "\<lambda>r. SOFTBUS_OK" al waits SOFTBUS_CONN_BR_INTERNAL_ERR,
      folded ConnBrEnqueue_eq])
    (use inv that GetPriority_less in \<open>auto simp: br_key_def\<close>)

section \<open>Taking a message\<close>

lemma BrDequeue_scan_cases:
  assumes "\<forall>cq \<in> set cqs. cq_wf cq"
  obtains (item) x p rest before cq after cq' where
      "BrDequeue_scan cqs f = (True, Some (Some x), 30 \<le> length (cq_items cq p), after @ [cq'])" "cqs = before @ cq # after"
      "\<forall>b \<in> set before. cq_items b = (\<lambda>p. [])" "\<forall>p' < p. cq_items cq p' = []" "cq_items cq p = x # rest"
      "cq_items cq' = (cq_items cq)(p := rest)" "cq_wf cq'" "cq_pid cq' = cq_pid cq" "cq_addr cq' = cq_addr cq"
  | (empty) "BrDequeue_scan cqs f = (False, None, f \<and> cqs = [], [])" "\<forall>cq \<in> set cqs. cq_items cq = (\<lambda>p. [])"
  using assms
proof (induction cqs arbitrary: thesis f)
  case (Cons cq cqs)
  have wf: "cq_wf cq" and low: "LOW_PRIORITY < QUEUE_NUM_PER_PID" using Cons.prems by auto
  from wf low show ?case
  proof (cases rule: GetMsg_cases [where f = f])
    case (item x p rest cq')
    then show thesis by (intro Cons.prems(1) [of x cq p cqs cq' "[]" rest]) auto
  next
    case empty
    have none: "cq_items cq = (\<lambda>p. [])" using empty(2) by (auto simp: fun_eq_iff cq_items_def)
    have step: "BrDequeue_scan (cq # cqs) f = BrDequeue_scan cqs False" using empty(1) by simp
    show thesis
    proof (rule Cons.IH [of False])
      fix x cq1 p after cq' before rest
      assume "BrDequeue_scan cqs False = (True, Some (Some x), 30 \<le> length (cq_items cq1 p), after @ [cq'])" "cqs = before @ cq1 # after"
        "\<forall>b \<in> set before. cq_items b = (\<lambda>p. [])" "\<forall>p' < p. cq_items cq1 p' = []" "cq_items cq1 p = x # rest"
        "cq_items cq' = (cq_items cq1)(p := rest)" "cq_wf cq'" "cq_pid cq' = cq_pid cq1" "cq_addr cq' = cq_addr cq1"
      with none step show thesis by (intro Cons.prems(1) [of x cq1 p after cq' "cq # before" rest]) auto
    next
      assume "BrDequeue_scan cqs False = (False, None, False \<and> cqs = [], [])" "\<forall>cq \<in> set cqs. cq_items cq = (\<lambda>p. [])"
      with none step show thesis by (intro Cons.prems(2)) auto
    qed (use Cons.prems in auto)
  qed
qed simp

lemma sq_inv_take:
  assumes inv: "sq_inv keyof s" and x: "sq_content s k = x # rest" and content: "sq_content s' = (sq_content s)(k := rest)"
    and wf: "\<exists>cq. sq_inner s' = Some cq \<and> cq_wf cq" "\<forall>cq \<in> set (sq_list s'). cq_wf cq \<and> cq_addr cq < sq_next s'"
      "distinct (map cq_pid (sq_list s'))" "distinct (map cq_addr (sq_list s'))"
  shows "sq_inv keyof s'" "keyof x = k"
proof -
  have keys: "\<forall>k. \<forall>x \<in> set (sq_content s k). keyof x = k" using inv unfolding sq_inv_def by blast
  show "keyof x = k" using keys x by (metis list.set_intros(1))
  have "\<forall>y \<in> set (sq_content s' k'). keyof y = k'" for k'
  proof -
    have "set (sq_content s' k') \<subseteq> set (sq_content s k')" using x by (auto simp: content)
    then show ?thesis using keys by blast
  qed
  then show "sq_inv keyof s'" using wf unfolding sq_inv_def by blast
qed

text \<open>Taking from the inner queue and from the client list.\<close>

lemma take_inner:
  assumes inv: "sq_inv keyof s" and cq: "sq_inner s = Some cq" "cq_items cq p = x # rest"
    and cq': "cq_items cq' = (cq_items cq)(p := rest)" "cq_wf cq'"
    and list: "\<forall>c \<in> set cqs. cq_wf c \<and> cq_addr c < sq_next s" "distinct (map cq_pid cqs)" "distinct (map cq_addr cqs)"
      "list_items cqs = list_items (sq_list s)"
  defines "s' \<equiv> s\<lparr>sq_inner := Some cq', sq_list := cqs\<rparr>"
  shows "sq_inv keyof s'" "keyof x = (None, p)" "sq_content s' = (sq_content s)((None, p) := rest)" "sq_content s (None, p) = x # rest"
proof -
  show k: "sq_content s (None, p) = x # rest" using cq by (simp add: sq_content_def)
  show content: "sq_content s' = (sq_content s)((None, p) := rest)"
    using cq cq' list(4) by (auto simp: sq_content_def s'_def fun_eq_iff split: option.split)
  show "sq_inv keyof s'" "keyof x = (None, p)"
    using sq_inv_take [OF inv k content] cq' list by (auto simp: s'_def)
qed

lemma take_client:
  assumes inv: "sq_inv keyof s" and list: "sq_list s = before @ cq # after" "\<forall>b \<in> set before. cq_items b = (\<lambda>p. [])"
    and cq': "cq_items cq p = x # rest" "cq_items cq' = (cq_items cq)(p := rest)" "cq_wf cq'" "cq_pid cq' = cq_pid cq" "cq_addr cq' = cq_addr cq"
  defines "s' \<equiv> s\<lparr>sq_list := after @ [cq']\<rparr>"
  shows "sq_inv keyof s'" "keyof x = (Some (cq_pid cq), p)" "sq_content s' = (sq_content s)((Some (cq_pid cq), p) := rest)"
    "sq_content s (Some (cq_pid cq), p) = x # rest"
proof -
  have dist: "distinct (map cq_pid (before @ cq # after))" using inv list(1) by (simp add: sq_inv_def)
  have mem: "list_items (before @ cq # after) (cq_pid cq) = cq_items cq"
    by (rule client_lookup_mem [OF dist]) simp
  show k: "sq_content s (Some (cq_pid cq), p) = x # rest"
    using mem cq' by (simp add: sq_content_def list(1))
  show content: "sq_content s' = (sq_content s)((Some (cq_pid cq), p) := rest)"
  proof
    fix k' :: send_key
    show "sq_content s' k' = ((sq_content s)((Some (cq_pid cq), p) := rest)) k'"
      using client_lookup_rotate [OF dist list(2) cq'(4)] mem cq'(2)
      by (cases k') (simp add: sq_content_def s'_def list(1) split: option.split)
  qed
  have "\<forall>c \<in> set (sq_list s'). cq_wf c \<and> cq_addr c < sq_next s'" "distinct (map cq_pid (sq_list s'))" "distinct (map cq_addr (sq_list s'))"
    using inv cq' by (auto simp: s'_def sq_inv_def list(1))
  then show "sq_inv keyof s'" "keyof x = (Some (cq_pid cq), p)"
    using sq_inv_take [OF inv k content] inv by (auto simp: s'_def sq_inv_def)
qed

text \<open>Which list goes next, as for the fair queue.\<close>

definition send_served :: "'a send_queues \<Rightarrow> send_key \<Rightarrow> bool" where
  "send_served s = (\<lambda>(c, p). sq_content s (c, p) \<noteq> [] \<and> (\<forall>p' < p. sq_content s (c, p') = []) \<and>
     (c \<noteq> None \<longrightarrow> sq_content s (None, HIGH_PRIORITY) = [] \<and> sq_content s (None, MIDDLE_PRIORITY) = []) \<and>
     (c = None \<and> p = LOW_PRIORITY \<longrightarrow> (\<forall>pid p'. sq_content s (Some pid, p') = [])))"

declare ConnBrDequeue_loop.simps [simp del]

text \<open>The client queues in the list, by address and process.\<close>

definition node_ids :: "'a send_queues \<Rightarrow> (nat \<times> int) set" where
  "node_ids s = (\<lambda>cq. (cq_addr cq, cq_pid cq)) ` set (sq_list s)"

lemma BrDequeue_pass_cases:
  assumes inv: "sq_inv keyof s"
  obtains (item) x rest s' where
      "BrDequeue_pass f s = Inr (True, Some (Some x), 30 \<le> length (sq_content s (keyof x)), s')"
      "sq_content s (keyof x) = x # rest" "send_served s (keyof x)"
      "sq_content s' = (sq_content s)(keyof x := rest)" "sq_inv keyof s'" "node_ids s' \<subseteq> node_ids s" "sq_next s' = sq_next s"
  | (empty) msg where "\<forall>k. sq_content s k = []" "BrDequeue_pass f s = Inr (False, msg, False, s\<lparr>sq_list := []\<rparr>)"
proof -
  obtain cq where cq: "sq_inner s = Some cq" "cq_wf cq" using inv by (auto simp: sq_inv_def)
  have list: "\<forall>c \<in> set (sq_list s). cq_wf c" using inv by (auto simp: sq_inv_def)
  have inner: "sq_content s (None, p) = cq_items cq p" for p using cq by (simp add: sq_content_def)
  have mid: "MIDDLE_PRIORITY < QUEUE_NUM_PER_PID" and low: "LOW_PRIORITY < QUEUE_NUM_PER_PID" by simp_all
  note unfold = BrDequeue_pass_def [of f s]
  from cq(2) mid show thesis
  proof (cases rule: GetMsg_cases [where f = f])
    case (item x p rest cq')
    have old: "s\<lparr>sq_inner := Some cq', sq_list := sq_list s\<rparr> = s\<lparr>sq_inner := Some cq'\<rparr>" by simp
    note take = take_inner [OF inv cq(1) item(4,5,6), of "sq_list s", unfolded old]
    have "sq_inv keyof (s\<lparr>sq_inner := Some cq'\<rparr>)" "keyof x = (None, p)"
      "sq_content (s\<lparr>sq_inner := Some cq'\<rparr>) = (sq_content s)((None, p) := rest)"
      using take inv by (auto simp: sq_inv_def)
    with item inner cq(1) show thesis
      by (intro that(1) [of x "s\<lparr>sq_inner := Some cq'\<rparr>" rest]) (auto simp: unfold send_served_def node_ids_def)
  next
    case empty1: empty
    then have hm: "sq_content s (None, HIGH_PRIORITY) = []" "sq_content s (None, MIDDLE_PRIORITY) = []" by (auto simp: inner)
    have same: "s\<lparr>sq_inner := Some cq\<rparr> = s" using cq(1) by simp
    from list show thesis
    proof (cases rule: BrDequeue_scan_cases [where f = False])
      case (item x p rest before c after c')
      note take = take_client [OF inv item(2,3,5,6,7,8,9)]
      have "sq_content s (Some (cq_pid c), p') = []" if "p' < p" for p'
        using that item(4) inv client_lookup_mem [of cq_pid "sq_list s" c cq_items] by (auto simp: sq_content_def item(2) sq_inv_def)
      with item hm empty1(1) cq(1) take same show thesis
        by (intro that(1) [of x "s\<lparr>sq_list := after @ [c']\<rparr>" rest])
          (auto simp: unfold send_served_def sq_content_def node_ids_def)
    next
      case empty2: empty
      have clients: "list_items (sq_list s) = list_items []"
        using client_lookup_empty [OF empty2(2), of cq_pid] by (simp add: fun_eq_iff)
      from cq(2) low show thesis
      proof (cases rule: GetMsg_cases [where f = False])
        case (item x p rest cq')
        note take = take_inner [OF inv cq(1) item(4,5,6), of "[]"]
        have "send_served s (None, p)"
          using item hm clients cq(1) by (auto simp: send_served_def sq_content_def)
        with item hm empty1(1) empty2(1) cq(1) take clients inner show thesis
          by (intro that(1) [of x "s\<lparr>sq_inner := Some cq', sq_list := []\<rparr>" rest]) (auto simp: unfold node_ids_def)
      next
        case empty3: empty
        have "cq_items cq p = []" for p using empty3(2) by (cases "p \<le> LOW_PRIORITY") (auto simp: cq_items_def)
        then have "\<forall>k. sq_content s k = []"
          using clients cq(1) by (auto simp: sq_content_def split: option.split)
        with empty1(1) empty2(1) empty3(1) cq(1) show thesis
          by (intro that(2)) (auto simp: unfold split: list.split)
      qed
    qed
  qed
qed

lemma ConnBrDequeue_loop_cases:
  assumes inv: "sq_inv keyof s"
  obtains (item) x rest s' where
      "ConnBrDequeue_loop waits f s = Some (Inr (SOFTBUS_OK, Some (Some x), 30 \<le> length (sq_content s (keyof x)), s'))"
      "sq_content s (keyof x) = x # rest" "send_served s (keyof x)"
      "sq_content s' = (sq_content s)(keyof x := rest)" "sq_inv keyof s'"
  | (empty) "\<forall>k. sq_content s k = []"
      "ConnBrDequeue_loop waits f s =
        (case waits of [] \<Rightarrow> None
         | (ret, s') # waits' \<Rightarrow>
             if ret = SOFTBUS_OK then ConnBrDequeue_loop waits' False s'
             else Some (Inr (if ret = SOFTBUS_TIMOUT then SOFTBUS_TIMOUT else SOFTBUS_CONN_COND_WAIT_FAIL, None, False, s')))"
  using inv
proof (cases rule: BrDequeue_pass_cases [where f = f])
  case (item x rest s')
  then show thesis by (intro that(1) [of x s' rest]) (simp_all add: ConnBrDequeue_loop.simps [of waits f s])
next
  case (empty msg)
  then show thesis by (intro that(2)) (simp_all add: ConnBrDequeue_loop.simps [of waits f s] split: list.split)
qed

text \<open>A dequeue up to the point where it returns a message or waits.\<close>

definition br_deq ::
  "(nat \<Rightarrow> bool) \<times> int \<Rightarrow> SendBrQueueNode send_queues \<Rightarrow> SendBrQueueNode option \<times> SendBrQueueNode send_queues" where
  "br_deq e s =
     (case BrDequeue_pass False s of
        Inr (found, msg, isFull, s') \<Rightarrow> (if found then Option.bind msg id else None, s')
      | Inl _ \<Rightarrow> (None, s))"

lemma br_enq_law:
  assumes inv: "sq_inv br_key s" and enq: "br_enq e s x = (ok, s')"
  shows "sq_inv br_key s' \<and> sq_content s' = (if ok then (sq_content s)(br_key x := sq_content s (br_key x) @ [x]) else sq_content s)"
  using inv
proof (cases rule: ConnBrEnqueue_cases [where al = "fst e" and waits = "[(snd e, s)]" and x = x])
  case (stored s1)
  with enq show ?thesis by (auto simp: br_enq_def)
next
  case failed
  with enq inv show ?thesis by (auto simp: br_enq_def)
next
  case (waits deref put post)
  with enq inv show ?thesis
    by (auto simp: br_enq_def enqueue_waiting_def WaitQueueLength_ring [OF waits(2)] split: if_splits)
qed

lemma sq_inv_clear:
  assumes "sq_inv keyof s" "\<forall>k. sq_content s k = []"
  shows "sq_inv keyof (s\<lparr>sq_list := []\<rparr>)" "sq_content (s\<lparr>sq_list := []\<rparr>) = sq_content s"
proof -
  have "sq_content (s\<lparr>sq_list := []\<rparr>) k = []" for k
    using assms(2) [rule_format, of k] by (cases k) (auto simp: sq_content_def split: option.splits)
  then show content: "sq_content (s\<lparr>sq_list := []\<rparr>) = sq_content s" using assms(2) by (simp add: fun_eq_iff)
  show "sq_inv keyof (s\<lparr>sq_list := []\<rparr>)" using assms(1) unfolding sq_inv_def content by auto
qed

interpretation br: keyed_fifo "sq_inv br_key" sq_content br_key br_enq br_deq
proof
  fix s s' :: "SendBrQueueNode send_queues" and e x
  assume inv: "sq_inv br_key s"
  show "sq_inv br_key s' \<and> sq_content s' =
      (if ok then (sq_content s)(br_key x := sq_content s (br_key x) @ [x]) else sq_content s)"
    if "br_enq e s x = (ok, s')" for ok
    by (rule br_enq_law [OF inv that])
  show "sq_inv br_key s' \<and> sq_content s (br_key x) \<noteq> [] \<and> x = hd (sq_content s (br_key x)) \<and>
      sq_content s' = (sq_content s)(br_key x := tl (sq_content s (br_key x)))"
    if "br_deq e s = (Some x, s')"
    using inv that by (cases rule: BrDequeue_pass_cases [where f = False]) (auto simp: br_deq_def)
  show "sq_inv br_key s' \<and> sq_content s' = sq_content s \<and> (\<forall>k. sq_content s k = [])"
    if "br_deq e s = (None, s')"
    using inv that sq_inv_clear [OF inv] by (cases rule: BrDequeue_pass_cases [where f = False]) (auto simp: br_deq_def)
qed

section \<open>Wake-ups\<close>

text \<open>
  The sender thread and the callers: the queues, whether the sender waits on \<open>g_sendCond\<close>, whether that
  condition has been signalled since, and the callers that wait for room.  Such a caller is given by the outcomes of its
  allocations, its message, the queues it was called with and the wake-ups it has had.  A waiting thread may go on at any time, when it was
  signalled, when its time is over or for no reason.
\<close>

type_synonym room_wait =
  "(nat \<Rightarrow> bool) \<times> SendBrQueueNode \<times> SendBrQueueNode send_queues \<times> (int \<times> SendBrQueueNode send_queues) list"

type_synonym wake_state = "SendBrQueueNode send_queues \<times> bool \<times> bool \<times> room_wait list"

inductive br_wake :: "wake_state \<Rightarrow> wake_state \<Rightarrow> bool" where
  enqueue: "ConnBrEnqueueNonBlock al lockOk [] (Some x) s = Some (Inr (ret, signal, s')) \<Longrightarrow>
    br_wake (s, waiting, signalled, cs) (s', waiting, signalled \<or> signal, cs)"
| enqueue_waits: "ConnBrEnqueueNonBlock al True [] (Some x) s = None \<Longrightarrow>
    br_wake (s, waiting, signalled, cs) (s, waiting, signalled, (al, x, s, []) # cs)"
| resume: "ConnBrEnqueueNonBlock al True (ws @ [(status, s)]) (Some x) s0 = Some (Inr (ret, signal, s')) \<Longrightarrow>
    br_wake (s, waiting, signalled, cs @ (al, x, s0, ws) # cs') (s', waiting, signalled \<or> signal, cs @ cs')"
| resume_waits: "ConnBrEnqueueNonBlock al True (ws @ [(status, s)]) (Some x) s0 = None \<Longrightarrow>
    br_wake (s, waiting, signalled, cs @ (al, x, s0, ws) # cs') (s, waiting, signalled, cs @ (al, x, s0, ws @ [(status, s)]) # cs')"
| dequeue: "BrDequeue_pass isFull s = Inr (True, msg, isFull', s') \<Longrightarrow>
    br_wake (s, False, signalled, cs) (s', False, signalled, cs)"
| block: "BrDequeue_pass isFull s = Inr (False, msg, isFull', s') \<Longrightarrow> br_wake (s, False, signalled, cs) (s', True, False, cs)"
| wake: "br_wake (s, True, signalled, cs) (s, False, False, cs)"

definition br_start :: "wake_state \<Rightarrow> bool" where
  "br_start = (\<lambda>(s, waiting, signalled, cs). \<not> waiting \<and> cs = [] \<and>
     (\<exists>al. ConnBrInnerQueueInit al SOFTBUS_OK SOFTBUS_OK SOFTBUS_OK \<lparr>sq_list = [], sq_inner = None, sq_next = 0\<rparr> = (SOFTBUS_OK, s)))"

text \<open>A caller that waits for room of the inner queue, or of a queue that is still its client's if it is still there.\<close>

definition room_at ::
  "nat \<Rightarrow> (nat \<times> int) set \<Rightarrow> SendBrQueueNode \<Rightarrow> (SendBrQueueNode send_queues \<Rightarrow> SendBrQueueNode LockFreeQueue option option) \<Rightarrow>
   (SendBrQueueNode LockFreeQueue option \<Rightarrow> SendBrQueueNode send_queues \<Rightarrow> SendBrQueueNode send_queues) \<Rightarrow> bool \<Rightarrow> bool" where
  "room_at fresh ids x deref put signal \<longleftrightarrow>
     (let p = GetPriority (bn_flag x)
      in if bn_pid x = 0 \<and> bn_isInner x then deref = deref_inner p \<and> put = put_inner p \<and> signal
         else \<exists>addr. deref = deref_node addr p \<and> put = put_node addr p \<and> addr < fresh \<and> (\<forall>pid. (addr, pid) \<in> ids \<longrightarrow> pid = bn_pid x))"

definition room_wait_ok :: "nat \<Rightarrow> (nat \<times> int) set \<Rightarrow> room_wait \<Rightarrow> bool" where
  "room_wait_ok fresh ids = (\<lambda>(al, x, s0, ws). \<exists>deref put post signal. room_at fresh ids x deref put signal \<and>
     (\<forall>waits. ConnBrEnqueueNonBlock al True waits (Some x) s0 = enqueue_waiting deref put waits post signal x s0) \<and>
     WaitQueueLength deref ws s0 32 WAIT_QUEUE_BUFFER_PERIOD_LEN = None \<and> post SOFTBUS_OK = SOFTBUS_OK)"

definition br_wake_inv :: "wake_state \<Rightarrow> bool" where
  "br_wake_inv = (\<lambda>(s, waiting, signalled, cs). sq_inv br_key s \<and> list_all (room_wait_ok (sq_next s) (node_ids s)) cs \<and>
     (waiting \<and> \<not> signalled \<longrightarrow> sq_list s = [] \<and> (\<forall>k. sq_content s k = [])))"

lemma init_inv:
  assumes "ConnBrInnerQueueInit al a b c \<lparr>sq_list = [], sq_inner = None, sq_next = 0\<rparr> = (SOFTBUS_OK, s)"
  shows "sq_inv keyof s" "sq_content s k = []"
proof -
  obtain cq where cq: "CreateBrQueue al 0 0 = Some cq" and s: "s = \<lparr>sq_list = [], sq_inner = Some cq, sq_next = 1\<rparr>"
    using assms by (auto simp: ConnBrInnerQueueInit_def split: if_splits option.splits)
  note cq' = CreateBrQueue_Some [OF cq]
  have content: "sq_content s k = []" for k using cq' by (cases k) (auto simp: s sq_content_def split: option.split)
  then show "sq_content s k = []" .
  show "sq_inv keyof s" using cq' content unfolding sq_inv_def by (auto simp: s)
qed

lemma br_wake_inv_start: "br_start st \<Longrightarrow> br_wake_inv st"
  by (auto simp: br_start_def br_wake_inv_def init_inv)

lemma room_at_mono: "room_at n ids x d put b \<Longrightarrow> n \<le> n' \<Longrightarrow> ids' \<subseteq> ids \<union> {n..} \<times> UNIV \<Longrightarrow> room_at n' ids' x d put b"
  by (fastforce simp: room_at_def Let_def split: if_splits)

lemma room_wait_ok_mono: "room_wait_ok n ids c \<Longrightarrow> n \<le> n' \<Longrightarrow> ids' \<subseteq> ids \<union> {n..} \<times> UNIV \<Longrightarrow> room_wait_ok n' ids' c"
  unfolding room_wait_ok_def by (cases c) (use room_at_mono in \<open>simp, blast\<close>)

text \<open>A call that waits goes on with the queues of the last wake-up.\<close>

lemma WaitQueueLength_resume:
  "WaitQueueLength deref ws s0 m d = None \<Longrightarrow> WaitQueueLength deref (ws @ [(status, s)]) s0 m d =
     (if status \<noteq> SOFTBUS_OK \<and> status \<noteq> SOFTBUS_TIMOUT then Some (Inr (SOFTBUS_CONN_COND_WAIT_FAIL, s)) else WaitQueueLength deref [] s m d)"
proof (induction ws arbitrary: s0)
  case Nil
  then show ?case unfolding append_Nil WaitQueueLength.simps [of deref _ s0]
    by (auto split: option.splits prod.splits if_splits)
next
  case (Cons w ws)
  then show ?case unfolding append_Cons WaitQueueLength.simps [of deref _ s0]
    by (auto split: option.splits prod.splits if_splits)
qed

lemma enqueue_waiting_resume:
  "WaitQueueLength deref ws s0 32 WAIT_QUEUE_BUFFER_PERIOD_LEN = None \<Longrightarrow>
   enqueue_waiting deref put (ws @ [(status, s)]) post signal x s0 =
     (if status \<noteq> SOFTBUS_OK \<and> status \<noteq> SOFTBUS_TIMOUT then Some (Inr (SOFTBUS_CONN_COND_WAIT_FAIL, signal, s))
      else enqueue_waiting deref put [] post signal x s)"
  unfolding enqueue_waiting_def WaitQueueLength_resume by simp

text \<open>With a ring to store into, there is room now or the call waits.\<close>

lemma enqueue_now_cases:
  assumes ring: "ring_at deref put (br_key x) s" and inv: "sq_inv br_key s" and post: "post SOFTBUS_OK = SOFTBUS_OK"
  obtains (stored) s' where "enqueue_waiting deref put [] post signal x s = Some (Inr (SOFTBUS_OK, signal, s'))" "sq_inv br_key s'"
      "enqueue_ring deref put x s = Some (Inr (SOFTBUS_OK, s'))"
  | (waits) "enqueue_waiting deref put [] post signal x s = None" "WaitQueueLength deref [] s 32 WAIT_QUEUE_BUFFER_PERIOD_LEN = None"
proof (cases "30 \<le> length (sq_content s (br_key x))")
  case True
  then show thesis by (intro that(2)) (simp_all add: enqueue_waiting_def WaitQueueLength_ring [OF ring])
next
  case False
  from ring inv refl show thesis
  proof (cases rule: enqueue_ring_cases [where keyof = br_key and x = x])
    case (stored s')
    then show thesis using False post by (intro that(1) [of s']) (simp_all add: enqueue_waiting_def WaitQueueLength_ring [OF ring])
  qed (use False in simp)
qed

lemma node_ids_put [simp]: "node_ids (put_inner p lfq s) = node_ids s" "node_ids (put_node addr p lfq s) = node_ids s"
proof -
  let ?id = "\<lambda>cq. (cq_addr cq, cq_pid cq)"
  have "map ?id (map (\<lambda>cq. if cq_addr cq = addr then cq\<lparr>cq_queue := (cq_queue cq)[p := lfq]\<rparr> else cq) qs) = map ?id qs" for qs :: "'a ConnectionQueue list"
    by (induction qs) simp_all
  then show "node_ids (put_node addr p lfq s) = node_ids s" unfolding node_ids_def put_node_def set_map [symmetric] by (simp del: map_map set_map)
qed (simp add: node_ids_def put_inner_def)

lemma enqueue_ring_ids:
  assumes "enqueue_ring deref put x s = Some (Inr (r, s'))" "put = put_inner p \<or> put = put_node addr p"
  shows "node_ids s' = node_ids s \<and> sq_next s' = sq_next s"
proof -
  obtain lfq where "s' = put lfq s" using assms(1) by (auto simp: enqueue_ring_def split: option.splits)
  moreover have "sq_next (put_inner p lfq s) = sq_next s" "sq_next (put_node addr p lfq s) = sq_next s" by (simp_all add: put_inner_def put_node_def)
  ultimately show ?thesis using assms(2) by auto
qed

lemma WaitQueueLength_here: "WaitQueueLength deref [] s m d = Some (Inr (r, s')) \<Longrightarrow> s' = s"
  by (auto simp: WaitQueueLength.simps [of deref "[]" s] split: option.splits prod.splits if_splits)

lemma mapped_result:
  "map_option (map_sum id (\<lambda>(r, s). (f r, b, s))) m = Some (Inr (ret, c, s')) \<longleftrightarrow> (\<exists>r. m = Some (Inr (r, s')) \<and> ret = f r \<and> c = b)"
  by (cases m; cases "the m") auto

lemma enqueue_ids:
  assumes "ConnBrEnqueueNonBlock al lockOk [] (Some x) s = Some (Inr (ret, signal, s'))"
  shows "node_ids s' \<subseteq> node_ids s \<union> {sq_next s..} \<times> UNIV \<and> sq_next s \<le> sq_next s'"
proof (cases lockOk)
  case True
  then have call: "ConnBrEnqueueNonBlock al True [] (Some x) s = Some (Inr (ret, signal, s'))" using assms by simp
  have new: "node_ids s1 \<subseteq> node_ids s \<union> {sq_next s..} \<times> UNIV \<and> sq_next s \<le> sq_next s1"
    if "enqueue_ring (deref_node a p) (put_node a p) x (s\<lparr>sq_list := sq_list s @ [cq], sq_next := Suc (sq_next s)\<rparr>) = Some (Inr (r, s1))"
      "cq_addr cq = sq_next s" for a p r s1 cq
  proof -
    have "node_ids s1 = node_ids (s\<lparr>sq_list := sq_list s @ [cq], sq_next := Suc (sq_next s)\<rparr>) \<and> sq_next s1 = Suc (sq_next s)"
      using enqueue_ring_ids [OF that(1), of p a] by simp
    then show ?thesis using that(2) by (auto simp: node_ids_def)
  qed
  have old: "node_ids s1 = node_ids s \<and> sq_next s1 = sq_next s"
    if "enqueue_ring deref put x s = Some (Inr (r, s1))" "put = put_inner p \<or> put = put_node a p" for deref put p a r s1
    by (rule enqueue_ring_ids [OF that])
  show ?thesis using call unfolding ConnBrEnqueue_eq send_enqueue_def
    by (auto simp: mapped_result split: if_splits option.splits sum.splits prod.splits simp del: map_option_eq_Some
        dest!: WaitQueueLength_here old new CreateBrQueue_Some)
next
  case False
  then show ?thesis using assms by (auto simp: ConnBrEnqueueNonBlock_def Let_def)
qed

lemma enqueue_first_wait:
  assumes inv: "sq_inv br_key s" and call: "ConnBrEnqueueNonBlock al True [] (Some x) s = None"
  shows "room_wait_ok (sq_next s) (node_ids s) (al, x, s, [])"
proof -
  let ?p = "GetPriority (bn_flag x)" and ?inner = "bn_pid x = 0 \<and> bn_isInner x"
  note call' = call [unfolded ConnBrEnqueue_eq send_enqueue_def]
  show ?thesis
  proof (cases ?inner)
    case True
    have eq: "ConnBrEnqueueNonBlock al True waits (Some x) s = enqueue_waiting (deref_inner ?p) (put_inner ?p) waits id True x s" for waits
      unfolding ConnBrEnqueue_eq using True by (auto simp: send_enqueue_def enqueue_waiting_def split: option.split sum.split)
    have ring: "ring_at (deref_inner ?p) (put_inner ?p) (br_key x) s" using ring_at_inner [OF inv GetPriority_less] True by (simp add: br_key_def)
    have "WaitQueueLength (deref_inner ?p) [] s 32 WAIT_QUEUE_BUFFER_PERIOD_LEN = None"
      by (rule enqueue_now_cases [OF ring inv, of id True]) (use call eq [of "[]"] in auto)
    then show ?thesis unfolding room_wait_ok_def room_at_def prod.case using True eq
      by (intro exI [of _ "deref_inner ?p"] exI [of _ "put_inner ?p"] exI [of _ id] exI [of _ True]) simp
  next
    case False
    have "CreateBrQueue al (sq_next s) (bn_pid x) = (None :: SendBrQueueNode ConnectionQueue option) \<or>
        find (\<lambda>item. cq_pid item = bn_pid x) (sq_list s) \<noteq> None"
    proof (rule ccontr)
      assume no: "\<not> ?thesis"
      from inv show False
      proof (cases rule: ConnBrEnqueue_cases [where al = al and waits = "[]" and x = x])
        case (waits deref put post)
        have "bn_pid x \<notin> cq_pid ` set (sq_list s)" using no by (auto simp: find_None_iff)
        then have "sq_content s (br_key x) = []" using False by (auto simp: br_key_def sq_content_def client_lookup_notin)
        then show False using waits(1) by simp
      qed (use call in auto)
    qed
    then obtain item where find: "find (\<lambda>item. cq_pid item = bn_pid x) (sq_list s) = Some item"
      using call' False by (auto split: option.splits)
    then have item: "item \<in> set (sq_list s)" "cq_pid item = bn_pid x" by (auto dest: find_SomeD)
    have "cq_wf item" "cq_addr item < sq_next s" using inv item by (auto simp: sq_inv_def)
    then obtain lfq where slot: "cq_queue item ! ?p = Some lfq" by (metis cq_slot GetPriority_less)
    let ?d = "deref_node (cq_addr item) ?p" and ?put = "put_node (cq_addr item) ?p"
    have eq: "ConnBrEnqueueNonBlock al True waits (Some x) s = enqueue_waiting ?d ?put waits (\<lambda>r. SOFTBUS_OK) (sq_list s = []) x s" for waits
      unfolding ConnBrEnqueue_eq using False find slot by (auto simp: send_enqueue_def enqueue_waiting_def split: option.split sum.split)
    have ring: "ring_at ?d ?put (br_key x) s" using ring_at_node [OF inv GetPriority_less item(1), of "bn_flag x"] item(2) False by (auto simp: br_key_def)
    have "WaitQueueLength ?d [] s 32 WAIT_QUEUE_BUFFER_PERIOD_LEN = None"
      by (rule enqueue_now_cases [OF ring inv, of "\<lambda>r. SOFTBUS_OK" "sq_list s = []"]) (use call eq [of "[]"] in auto)
    moreover have "pid = bn_pid x" if member: "(cq_addr item, pid) \<in> node_ids s" for pid
    proof -
      have dist: "distinct (map cq_addr (sq_list s))" using inv by (simp add: sq_inv_def)
      obtain cq where "cq \<in> set (sq_list s)" "cq_addr cq = cq_addr item" "cq_pid cq = pid" using member by (auto simp: node_ids_def)
      moreover from this have "cq = item" using find_addr [OF dist] item(1) by (metis option.inject)
      ultimately show ?thesis using item(2) by simp
    qed
    ultimately have "room_at (sq_next s) (node_ids s) x ?d ?put (sq_list s = []) \<and>
        WaitQueueLength ?d [] s 32 WAIT_QUEUE_BUFFER_PERIOD_LEN = None"
      using False \<open>cq_addr item < sq_next s\<close> unfolding room_at_def Let_def by (simp only: if_False) blast
    then show ?thesis unfolding room_wait_ok_def prod.case using eq by fastforce
  qed
qed

text \<open>A caller that waited goes on: it fails, it waits again, or it stores into a ring that is still there.\<close>

lemma resume_cases:
  assumes ok: "room_wait_ok (sq_next s) (node_ids s) (al, x, s0, ws)" and inv: "sq_inv br_key s"
  obtains (failed) signal where "ConnBrEnqueueNonBlock al True (ws @ [(status, s)]) (Some x) s0 = Some (Inr (SOFTBUS_CONN_COND_WAIT_FAIL, signal, s))"
  | (gone) f where "ConnBrEnqueueNonBlock al True (ws @ [(status, s)]) (Some x) s0 = Some (Inl f)"
  | (waits) "ConnBrEnqueueNonBlock al True (ws @ [(status, s)]) (Some x) s0 = None" "room_wait_ok (sq_next s) (node_ids s) (al, x, s0, ws @ [(status, s)])"
  | (stored) signal s' where "ConnBrEnqueueNonBlock al True (ws @ [(status, s)]) (Some x) s0 = Some (Inr (SOFTBUS_OK, signal, s'))"
      "sq_inv br_key s'" "node_ids s' = node_ids s" "sq_next s' = sq_next s" "signal \<or> sq_list s \<noteq> []"
proof -
  note done_stored = stored and done_waits = waits and done_gone = gone
  let ?p = "GetPriority (bn_flag x)"
  obtain deref put post signal where d: "room_at (sq_next s) (node_ids s) x deref put signal" "post SOFTBUS_OK = SOFTBUS_OK"
      "\<And>waits. ConnBrEnqueueNonBlock al True waits (Some x) s0 = enqueue_waiting deref put waits post signal x s0"
      "WaitQueueLength deref ws s0 32 WAIT_QUEUE_BUFFER_PERIOD_LEN = None"
    using ok unfolding room_wait_ok_def prod.case by blast
  note res = enqueue_waiting_resume [OF d(4), of put status s post signal x, folded d(3)]
  show thesis
  proof (cases "status \<noteq> SOFTBUS_OK \<and> status \<noteq> SOFTBUS_TIMOUT")
    case True
    with res show thesis by (intro failed) auto
  next
    case False
    then have res': "ConnBrEnqueueNonBlock al True (ws @ [(status, s)]) (Some x) s0 = enqueue_waiting deref put [] post signal x s" using res by auto
    have through: thesis if ring: "ring_at deref put (br_key x) s" and there: "signal \<or> sq_list s \<noteq> []"
      and kind: "put = put_inner ?p \<or> put = put_node addr ?p" for addr
      using ring inv d(2)
    proof (cases rule: enqueue_now_cases [where signal = signal])
      case (stored s')
      then show thesis using done_stored [of signal s'] res' there enqueue_ring_ids [OF stored(3) kind] by simp
    next
      case waits
      have "WaitQueueLength deref (ws @ [(status, s)]) s0 32 WAIT_QUEUE_BUFFER_PERIOD_LEN = None"
        unfolding WaitQueueLength_resume [OF d(4)] using False waits(2) by simp
      then have "room_wait_ok (sq_next s) (node_ids s) (al, x, s0, ws @ [(status, s)])"
        unfolding room_wait_ok_def prod.case using d(1-3) by blast
      then show thesis using done_waits res' waits(1) by simp
    qed
    show thesis
    proof (cases "bn_pid x = 0 \<and> bn_isInner x")
      case True
      with d(1) have "deref = deref_inner ?p" "put = put_inner ?p" signal by (auto simp: room_at_def Let_def)
      then show thesis using ring_at_inner [OF inv GetPriority_less, of "bn_flag x"] True through by (simp add: br_key_def)
    next
      case outer: False
      with d(1) obtain addr where a: "deref = deref_node addr ?p" "put = put_node addr ?p" "\<forall>pid. (addr, pid) \<in> node_ids s \<longrightarrow> pid = bn_pid x"
        by (auto simp: room_at_def Let_def)
      show thesis
      proof (cases "find (\<lambda>cq. cq_addr cq = addr) (sq_list s)")
        case None
        then have "deref s = None" by (simp add: a deref_node_def)
        then show thesis using res' by (intro done_gone [of InvalidPointer]) (simp add: enqueue_waiting_def WaitQueueLength.simps [of deref])
      next
        case (Some cq)
        then have cq: "cq \<in> set (sq_list s)" "cq_addr cq = addr" by (auto dest: find_SomeD)
        then have "cq_pid cq = bn_pid x" using a(3) by (auto simp: node_ids_def)
        then have "ring_at deref put (br_key x) s"
          using ring_at_node [OF inv GetPriority_less cq(1), of "bn_flag x"] cq(2) outer by (auto simp: a br_key_def)
        moreover have "sq_list s \<noteq> []" using cq(1) by auto
        ultimately show thesis using a(2) through by blast
      qed
    qed
  qed
qed

lemma br_wake_inv_step:
  assumes inv: "br_wake_inv st" and step: "br_wake st st'"
  shows "br_wake_inv st'"
  using step
proof (cases rule: br_wake.cases)
  case (enqueue al lockOk x s ret signal s' waiting signalled cs)
  have s: "sq_inv br_key s" "list_all (room_wait_ok (sq_next s) (node_ids s)) cs" using inv enqueue(1) by (simp_all add: br_wake_inv_def)
  have cs: "list_all (room_wait_ok (sq_next s') (node_ids s')) cs"
    using s(2) enqueue_ids [OF enqueue(3)] room_wait_ok_mono by (fastforce simp: list_all_iff)
  show ?thesis
  proof (cases lockOk)
    case True
    from s(1) show ?thesis
    proof (cases rule: ConnBrEnqueue_cases [where al = al and waits = "[]" and x = x])
      case (waits deref put post)
      then show ?thesis using enqueue True by (simp add: enqueue_waiting_def WaitQueueLength_ring [OF waits(2)])
    qed (use enqueue inv s(1) cs True in \<open>auto simp: br_wake_inv_def\<close>)
  next
    case False
    then show ?thesis using enqueue inv by (auto simp: ConnBrEnqueueNonBlock_def Let_def)
  qed
next
  case (enqueue_waits al x s waiting signalled cs)
  then show ?thesis using inv enqueue_first_wait [of s al x] by (simp add: br_wake_inv_def)
next
  case (resume al ws status s x s0 ret signal s' waiting signalled cs cs')
  then have s: "sq_inv br_key s" "room_wait_ok (sq_next s) (node_ids s) (al, x, s0, ws)" using inv by (simp_all add: br_wake_inv_def)
  from s(2,1) show ?thesis
    by (cases rule: resume_cases [where status = status]) (use resume inv in \<open>auto simp: br_wake_inv_def\<close>)
next
  case (resume_waits al ws status s x s0 waiting signalled cs cs')
  then have s: "sq_inv br_key s" "room_wait_ok (sq_next s) (node_ids s) (al, x, s0, ws)" using inv by (simp_all add: br_wake_inv_def)
  from s(2,1) show ?thesis
    by (cases rule: resume_cases [where status = status]) (use resume_waits inv in \<open>auto simp: br_wake_inv_def\<close>)
next
  case (dequeue isFull s msg isFull' s' signalled cs)
  then have "sq_inv br_key s" using inv by (simp add: br_wake_inv_def)
  then show ?thesis
  proof (cases rule: BrDequeue_pass_cases [where f = isFull])
    case (item x rest s1)
    have "node_ids s1 \<subseteq> node_ids s \<union> {sq_next s..} \<times> UNIV" using item(6) by blast
    then show ?thesis using item dequeue inv room_wait_ok_mono [of "sq_next s" "node_ids s" _ "sq_next s" "node_ids s1"]
      by (auto simp: br_wake_inv_def list_all_iff)
  qed (use dequeue in auto)
next
  case (block isFull s msg isFull' s' signalled cs)
  then have s: "sq_inv br_key s" using inv by (simp add: br_wake_inv_def)
  then show ?thesis
  proof (cases rule: BrDequeue_pass_cases [where f = isFull])
    case (empty m)
    have "node_ids (s\<lparr>sq_list := []\<rparr>) \<subseteq> node_ids s \<union> {sq_next s..} \<times> UNIV" by (simp add: node_ids_def)
    then show ?thesis using empty block inv sq_inv_clear [OF s empty(1)] room_wait_ok_mono [of "sq_next s" "node_ids s" _ "sq_next s" "node_ids (s\<lparr>sq_list := []\<rparr>)"]
      by (auto simp: br_wake_inv_def list_all_iff)
  qed (use block in auto)
next
  case (wake s signalled cs)
  then show ?thesis using inv by (simp add: br_wake_inv_def)
qed

interpretation brwake: transition_system br_start br_wake br_wake_inv
  by unfold_locales (fact br_wake_inv_start, fact br_wake_inv_step)

text \<open>A freshly initialised queue, and a message for it.\<close>

definition br_example :: "SendBrQueueNode send_queues" where
  "br_example = snd (ConnBrInnerQueueInit (\<lambda>_. True) 0 0 0 \<lparr>sq_list = [], sq_inner = None, sq_next = 0\<rparr>)"

definition br_message :: "int \<Rightarrow> SendBrQueueNode" where
  "br_message n = \<lparr>bn_connectionId = 1, bn_pid = 9, bn_flag = CONN_HIGH, bn_isInner = False, bn_module = 3, bn_seq = n, bn_data = [5]\<rparr>"

lemma br_example_init:
  "ConnBrInnerQueueInit (\<lambda>_. True) 0 0 0 \<lparr>sq_list = [], sq_inner = None, sq_next = 0\<rparr> = (SOFTBUS_OK, br_example)"
proof -
  obtain cq :: "SendBrQueueNode ConnectionQueue" where "CreateBrQueue (\<lambda>_. True) 0 0 = Some cq"
    using CreateBrQueue_True by blast
  then show ?thesis by (simp add: br_example_def ConnBrInnerQueueInit_def)
qed

lemmas br_example_inv = init_inv [OF br_example_init]

section \<open>Properties\<close>

text \<open>
  C5: FIFO per client and priority for the BR send queue: after initialisation, for any sequence of enqueue
  and dequeue calls with any allocation failures and wait results, what was stored for a client and priority
  is what was taken, in order, followed by what still waits; nothing is lost when empty client queues are
  destroyed.
\<close>

theorem br_send_fifo:
  assumes "ConnBrInnerQueueInit al a b c \<lparr>sq_list = [], sq_inner = None, sq_next = 0\<rparr> = (SOFTBUS_OK, s)"
    and "keyed_run br_enq br_deq s ops = (es, s')"
  shows "filter (\<lambda>x. br_key x = k) (stored es) = filter (\<lambda>x. br_key x = k) (taken es) @ sq_content s' k"
  using br.run_fifo [OF init_inv(1) [OF assms(1)] assms(2), of k] init_inv(2) [OF assms(1)] by simp

theorem br_send_fifo_witness:
  "\<exists>es s'. keyed_run br_enq br_deq br_example [KEnq (\<lambda>_. True, 0) (br_message 1), KDeq (\<lambda>_. True, 0)] = (es, s') \<and>
     filter (\<lambda>x. br_key x = (Some 9, 0)) (stored es) = filter (\<lambda>x. br_key x = (Some 9, 0)) (taken es) @ sq_content s' (Some 9, 0)"
  using br_send_fifo [OF br_example_init] by (metis surj_pair)

text \<open>
  What an enqueue does.  With memory available and fewer than 30 messages waiting in its ring, a message
  is stored at once and the call succeeds; the sender is signalled when the message is an inner one or no
  client queue existed.
\<close>

theorem br_enqueue_stores:
  assumes "sq_inv br_key s" "length (sq_content s (br_key x)) < 30"
  shows "\<exists>s'. ConnBrEnqueueNonBlock (\<lambda>_. True) True waits (Some x) s =
      Some (Inr (SOFTBUS_OK, bn_pid x = 0 \<and> bn_isInner x \<or> sq_list s = [], s')) \<and>
    sq_inv br_key s' \<and> sq_content s' = (sq_content s)(br_key x := sq_content s (br_key x) @ [x])"
  using assms(1)
proof (cases rule: ConnBrEnqueue_cases [where al = "\<lambda>_. True" and waits = waits and x = x])
  case (waits deref put post)
  then show ?thesis using assms(2) by simp
qed auto

theorem br_enqueue_stores_witness:
  "\<exists>s'. ConnBrEnqueueNonBlock (\<lambda>_. True) True [] (Some (br_message 1)) br_example = Some (Inr (SOFTBUS_OK, True, s')) \<and>
    sq_content s' (Some 9, 0) = [br_message 1]"
proof -
  have "length (sq_content br_example (br_key (br_message 1))) < 30" by (simp add: br_example_inv)
  moreover have "sq_list br_example = []" "br_key (br_message 1) = (Some 9, 0)" by code_simp+
  ultimately show ?thesis
    using br_enqueue_stores [OF br_example_inv(1), of "br_message 1" "[]"] by (auto simp: br_example_inv)
qed

text \<open>
  What a dequeue does.  If anything waits, the call returns without blocking the oldest message of the
  list that is next in turn, and signals the waiting callers exactly when that ring held 30 or more messages,
  which is when callers wait for it.
\<close>

theorem br_dequeue_served:
  assumes "sq_inv br_key s" "sq_content s k \<noteq> []"
  shows "\<exists>x s'. ConnBrDequeueBlock SOFTBUS_OK True True waits s =
      Some (Inr (SOFTBUS_OK, Some (Some x), 30 \<le> length (sq_content s (br_key x)), s')) \<and>
    x = hd (sq_content s (br_key x)) \<and> send_served s (br_key x) \<and> sq_inv br_key s'"
  using assms(1)
proof (cases rule: ConnBrDequeue_loop_cases [where waits = waits and f = False])
  case (item x rest s')
  then show ?thesis by (auto simp: ConnBrDequeueBlock_def)
next
  case empty
  then show ?thesis using assms(2) by blast
qed

theorem br_dequeue_served_witness:
  "\<exists>x s'. ConnBrDequeueBlock SOFTBUS_OK True True [] (snd (br_enq (\<lambda>_. True, 0) br_example (br_message 1))) =
      Some (Inr (SOFTBUS_OK, Some (Some x), 30 \<le> length (sq_content (snd (br_enq (\<lambda>_. True, 0) br_example (br_message 1))) (br_key x)), s'))"
proof -
  have "sq_content (snd (br_enq (\<lambda>_. True, 0) br_example (br_message 1))) (Some 9, 0) \<noteq> []" by code_simp
  from br_dequeue_served [OF br.enq_invar [OF br_example_inv(1)] this, of "[]"] show ?thesis by blast
qed

text \<open>
  C6: No lost wake-up.  However callers, among them callers that wait for room in a queue, and the sender thread interleave, with any
  allocation and lock failures and any reasons for waking up, a sender that waits without having been signalled has nothing to send.  Runs are those
  of the step relation \<open>br_wake\<close>, in which no call is a fault: a caller that goes on with a queue that was freed while it waited for
  room (\<open>br_enqueue_dangling\<close>) ends the run.
\<close>

theorem br_no_lost_wakeup:
  assumes "br_start st" "br_wake\<^sup>*\<^sup>* st (s, True, False, cs)"
  shows "sq_content s k = []"
  using brwake.inv_reachable [OF assms] by (cases k) (simp add: br_wake_inv_def)

text \<open>
  A run: thirty messages are stored, the caller of one more waits for room, the sender takes a message, the caller goes on, the sender takes
  the other messages and waits.
\<close>

definition store_step :: "SendBrQueueNode \<Rightarrow> SendBrQueueNode send_queues \<Rightarrow> SendBrQueueNode send_queues" where
  "store_step x s = (case ConnBrEnqueueNonBlock (\<lambda>_. True) True [] (Some x) s of Some (Inr (_, _, s')) \<Rightarrow> s' | _ \<Rightarrow> s)"

definition take_step :: "SendBrQueueNode send_queues \<Rightarrow> SendBrQueueNode send_queues" where
  "take_step s = (case BrDequeue_pass False s of Inr (True, _, _, s') \<Rightarrow> s' | _ \<Rightarrow> s)"

lemma store_steps: "\<exists>b'. br_wake\<^sup>*\<^sup>* (s, False, b, cs) (fold store_step xs s, False, b', cs)"
proof (induction xs arbitrary: s b)
  case (Cons x xs)
  have "\<exists>b1. br_wake\<^sup>*\<^sup>* (s, False, b, cs) (store_step x s, False, b1, cs)"
    unfolding store_step_def by (auto split: option.split sum.split intro!: br_wake.enqueue exI)
  then obtain b1 where 1: "br_wake\<^sup>*\<^sup>* (s, False, b, cs) (store_step x s, False, b1, cs)" ..
  obtain b2 where "br_wake\<^sup>*\<^sup>* (store_step x s, False, b1, cs) (fold store_step xs (store_step x s), False, b2, cs)"
    using Cons.IH by blast
  from rtranclp_trans [OF 1 this] show ?case by auto
qed auto

lemma take_steps: "br_wake\<^sup>*\<^sup>* (s, False, b, cs) (fold (\<lambda>_. take_step) ns s, False, b, cs)"
proof (induction ns arbitrary: s)
  case (Cons n ns)
  have "br_wake\<^sup>*\<^sup>* (s, False, b, cs) (take_step s, False, b, cs)"
    unfolding take_step_def by (auto split: sum.split bool.split intro: br_wake.dequeue)
  from rtranclp_trans [OF this Cons.IH] show ?case by simp
qed simp

definition wake_run1 :: "SendBrQueueNode send_queues" where
  "wake_run1 = fold store_step (map (br_message \<circ> int) [0..<30]) br_example"

definition wake_run2 :: "SendBrQueueNode send_queues" where
  "wake_run2 = (case ConnBrEnqueueNonBlock (\<lambda>_. True) True [(SOFTBUS_OK, take_step wake_run1)] (Some (br_message 30)) wake_run1 of
     Some (Inr (_, _, s)) \<Rightarrow> s | _ \<Rightarrow> br_example)"

definition wake_run3 :: "SendBrQueueNode send_queues" where
  "wake_run3 = (case BrDequeue_pass False (fold (\<lambda>_. take_step) [0..<30] wake_run2) of Inr (False, _, _, s) \<Rightarrow> s | _ \<Rightarrow> br_example)"

theorem br_no_lost_wakeup_witness:
  "br_wake\<^sup>*\<^sup>* (br_example, False, False, []) (wake_run3, True, False, []) \<and> sq_content wake_run3 (Some 9, 0) = []"
proof -
  let ?c = "(\<lambda>_. True, br_message 30, wake_run1, [])"
  obtain b where b: "br_wake\<^sup>*\<^sup>* (br_example, False, False, []) (wake_run1, False, b, [])"
    unfolding wake_run1_def using store_steps by blast
  have "ConnBrEnqueueNonBlock (\<lambda>_. True) True [] (Some (br_message 30)) wake_run1 = None" by code_simp
  from br_wake.enqueue_waits [OF this] have w: "br_wake\<^sup>*\<^sup>* (wake_run1, False, b, []) (wake_run1, False, b, [?c])" by blast
  have t: "br_wake\<^sup>*\<^sup>* (wake_run1, False, b, [?c]) (take_step wake_run1, False, b, [?c])"
    using take_steps [of wake_run1 b "[?c]" "[0]"] by simp
  obtain ret signal where "ConnBrEnqueueNonBlock (\<lambda>_. True) True [(SOFTBUS_OK, take_step wake_run1)] (Some (br_message 30)) wake_run1 =
      Some (Inr (ret, signal, wake_run2))"
  proof -
    have "case ConnBrEnqueueNonBlock (\<lambda>_. True) True [(SOFTBUS_OK, take_step wake_run1)] (Some (br_message 30)) wake_run1 of
        Some (Inr _) \<Rightarrow> True | _ \<Rightarrow> False" by code_simp
    then show thesis using that by (auto simp: wake_run2_def split: option.splits sum.splits)
  qed
  then have r: "br_wake\<^sup>*\<^sup>* (take_step wake_run1, False, b, [?c]) (wake_run2, False, b \<or> signal, [])"
    using br_wake.resume [of _ "[]" SOFTBUS_OK "take_step wake_run1" "br_message 30" wake_run1 ret signal wake_run2 False b "[]" "[]"] by auto
  have "case BrDequeue_pass False (fold (\<lambda>_. take_step) [0..<30] wake_run2) of Inr (found, _) \<Rightarrow> \<not> found | _ \<Rightarrow> False" by code_simp
  then obtain m f where "BrDequeue_pass False (fold (\<lambda>_. take_step) [0..<30] wake_run2) = Inr (False, m, f, wake_run3)"
    by (auto simp: wake_run3_def split: sum.splits)
  from br_wake.block [OF this] have "br_wake\<^sup>*\<^sup>* (fold (\<lambda>_. take_step) [0..<30] wake_run2, False, b \<or> signal, []) (wake_run3, True, False, [])" by blast
  then have run: "br_wake\<^sup>*\<^sup>* (br_example, False, False, []) (wake_run3, True, False, [])"
    using b w t r take_steps [of wake_run2 "b \<or> signal" "[]" "[0..<30]"] by (meson rtranclp_trans)
  moreover have "br_start (br_example, False, False, [])" using br_example_init by (auto simp: br_start_def)
  ultimately show ?thesis using br_no_lost_wakeup by blast
qed

section \<open>A pointer kept across the wait\<close>

text \<open>
  \<open>ConnBrEnqueueNonBlock\<close> keeps \<open>lockFreeQueue\<close> while \<open>WaitQueueLength\<close> releases the mutex.  If the sender
  empties the client's ring and walks over it once more before the caller runs again, the ring is freed and
  the caller uses it.
\<close>

definition br_full :: "SendBrQueueNode send_queues" where
  "br_full = fold (\<lambda>n s. snd (br_enq (\<lambda>_. True, 0) s (br_message (int n)))) [0..<30] br_example"

definition br_drained :: "SendBrQueueNode send_queues" where
  "br_drained = fold (\<lambda>n s. snd (br_deq (\<lambda>_. True, 0) s)) [0..<31] br_full"

lemma br_enqueue_dangling:
  "ConnBrEnqueueNonBlock (\<lambda>_. True) True [(SOFTBUS_OK, br_drained)] (Some (br_message 30)) br_full = Some (Inl InvalidPointer)"
  by code_simp

end
