(* ===== verification/Ble_Send_Queue.thy ===== *)
theory Ble_Send_Queue
  imports Br_Send_Queue
begin

text \<open>
  The send queue of the BLE connection, \<^verbatim>\<open>core/connection/ble/src/softbus_conn_ble_send_queue.c\<close>.  It has
  the structure of the BR one; process 0 is always the inner queue and an enqueue returns the code of the ring.
  The walk of the dequeue is shown to be that of the BR queue, whose lemmas then apply.
\<close>

section \<open>Definitions\<close>

abbreviation SOFTBUS_CONN_BLE_INTERNAL_ERR :: int where "SOFTBUS_CONN_BLE_INTERNAL_ERR \<equiv> - 425918437"

record SendQueueNode =
  sn_connectionId :: nat
  sn_pid :: int
  sn_flag :: int
  sn_module :: int
  sn_seq :: int
  sn_data :: bytes

fun ble_create_rings :: "(nat \<Rightarrow> bool) \<Rightarrow> nat list \<Rightarrow> 'a LockFreeQueue option list option" where
  "ble_create_rings al [] = Some []"
| "ble_create_rings al (i # rest) =
     (case CreateQueue (al (Suc i)) (GetQueueLimit (int i)) of
        None \<Rightarrow> None
      | Some lfq \<Rightarrow> map_option (Cons (Some lfq)) (ble_create_rings al rest))"

definition CreateBleQueue :: "(nat \<Rightarrow> bool) \<Rightarrow> nat \<Rightarrow> int \<Rightarrow> 'a ConnectionQueue option" where
  "CreateBleQueue al addr pid =
     (if \<not> al 0 then None
      else case ble_create_rings al [0..<QUEUE_NUM_PER_PID] of
             None \<Rightarrow> None
           | Some queues \<Rightarrow> Some \<lparr>cq_addr = addr, cq_pid = pid, cq_queue = queues\<rparr>)"

definition BleGetPriority :: "int \<Rightarrow> nat" where
  "BleGetPriority flag =
     (if flag = CONN_HIGH then HIGH_PRIORITY else if flag = CONN_MIDDLE then MIDDLE_PRIORITY else LOW_PRIORITY)"

definition ConnBleEnqueueNonBlock ::
  "(nat \<Rightarrow> bool) \<Rightarrow> bool \<Rightarrow> (int \<times> SendQueueNode send_queues) list \<Rightarrow> SendQueueNode option \<Rightarrow>
   SendQueueNode send_queues \<Rightarrow> (fault + int \<times> bool \<times> SendQueueNode send_queues) option" where
  "ConnBleEnqueueNonBlock al lockOk waits msg s =
     (case msg of None \<Rightarrow> Some (Inr (SOFTBUS_INVALID_PARAM, False, s))
      | Some queueNode \<Rightarrow>
        let priority = BleGetPriority (sn_flag queueNode); limit = GetQueueLimit (int priority)
        in if \<not> lockOk then Some (Inr (SOFTBUS_LOCK_ERR, False, s))
           else if sn_pid queueNode = 0 then
             (case WaitQueueLength (deref_inner priority) waits s limit WAIT_QUEUE_BUFFER_PERIOD_LEN of
                None \<Rightarrow> None
              | Some (Inl f) \<Rightarrow> Some (Inl f)
              | Some (Inr (ret, s)) \<Rightarrow>
                  if ret = SOFTBUS_OK then
                    map_option (map_sum id (\<lambda>(ret, s). (ret, True, s)))
                      (enqueue_ring (deref_inner priority) (put_inner priority) queueNode s)
                  else Some (Inr (ret, True, s)))
           else
             let isListEmpty = (sq_list s = []);
                 lockFreeQueue = (case find (\<lambda>item. cq_pid item = sn_pid queueNode) (sq_list s) of
                                    None \<Rightarrow> None
                                  | Some item \<Rightarrow> map_option (\<lambda>_. cq_addr item) (cq_queue item ! priority))
             in case lockFreeQueue of
                  None \<Rightarrow>
                    (case CreateBleQueue al (sq_next s) (sn_pid queueNode) of
                       None \<Rightarrow> Some (Inr (SOFTBUS_CONN_BLE_INTERNAL_ERR, isListEmpty, s))
                     | Some newQueue \<Rightarrow>
                         let s = s\<lparr>sq_list := sq_list s @ [newQueue], sq_next := Suc (sq_next s)\<rparr>
                         in map_option (map_sum id (\<lambda>(ret, s). (ret, isListEmpty, s)))
                              (enqueue_ring (deref_node (cq_addr newQueue) priority) (put_node (cq_addr newQueue) priority) queueNode s))
                | Some addr \<Rightarrow>
                    (case WaitQueueLength (deref_node addr priority) waits s limit WAIT_QUEUE_BUFFER_PERIOD_LEN of
                       None \<Rightarrow> None
                     | Some (Inl f) \<Rightarrow> Some (Inl f)
                     | Some (Inr (ret, s)) \<Rightarrow>
                         if ret \<noteq> SOFTBUS_OK then Some (Inr (ret, isListEmpty, s))
                         else map_option (map_sum id (\<lambda>(ret, s). (ret, isListEmpty, s)))
                                (enqueue_ring (deref_node addr priority) (put_node addr priority) queueNode s)))"

fun BleDequeue_scan :: "'a ConnectionQueue list \<Rightarrow> bool \<Rightarrow> bool \<times> 'a option option \<times> bool \<times> 'a ConnectionQueue list" where
  "BleDequeue_scan [] isFull = (False, None, isFull, [])"
| "BleDequeue_scan (item # next) isFull =
     (case GetMsg item isFull LOW_PRIORITY of (ret, msg, isFull, item) \<Rightarrow>
        if ret = SOFTBUS_OK then (True, msg, isFull, next @ [item]) else BleDequeue_scan next isFull)"

definition BleDequeue_pass :: "bool \<Rightarrow> 'a send_queues \<Rightarrow> fault + bool \<times> 'a option option \<times> bool \<times> 'a send_queues" where
  "BleDequeue_pass isFull s =
     (case sq_inner s of
        None \<Rightarrow> Inl InvalidPointer
      | Some inner \<Rightarrow>
        (case GetMsg inner isFull MIDDLE_PRIORITY of (ret, msg, isFull, inner) \<Rightarrow>
         if ret = SOFTBUS_OK then Inr (True, msg, isFull, s\<lparr>sq_inner := Some inner\<rparr>)
         else case BleDequeue_scan (sq_list s) isFull of (found, msg, isFull, queues) \<Rightarrow>
         if found then Inr (True, msg, isFull, s\<lparr>sq_inner := Some inner, sq_list := queues\<rparr>)
         else case GetMsg inner isFull LOW_PRIORITY of (ret, msg, isFull, inner) \<Rightarrow>
           Inr (ret = SOFTBUS_OK, msg, isFull, s\<lparr>sq_inner := Some inner, sq_list := queues\<rparr>)))"

fun ConnBleDequeue_loop ::
  "(int \<times> 'a send_queues) list \<Rightarrow> bool \<Rightarrow> 'a send_queues \<Rightarrow> (fault + int \<times> 'a option option \<times> bool \<times> 'a send_queues) option" where
  "ConnBleDequeue_loop waits isFull s =
     (case BleDequeue_pass isFull s of
        Inl f \<Rightarrow> Some (Inl f)
      | Inr (found, msg, isFull, s) \<Rightarrow>
          if found then Some (Inr (SOFTBUS_OK, msg, isFull, s))
          else case waits of
                 [] \<Rightarrow> None
               | (ret, s') # waits' \<Rightarrow>
                   if ret \<noteq> SOFTBUS_OK then
                     (if ret = SOFTBUS_TIMOUT then Some (Inr (SOFTBUS_TIMOUT, None, isFull, s'))
                      else Some (Inr (SOFTBUS_CONN_COND_WAIT_FAIL, None, isFull, s')))
                   else ConnBleDequeue_loop waits' isFull s')"

definition ConnBleDequeueBlock ::
  "int \<Rightarrow> bool \<Rightarrow> bool \<Rightarrow> (int \<times> 'a send_queues) list \<Rightarrow> 'a send_queues \<Rightarrow>
   (fault + int \<times> 'a option option \<times> bool \<times> 'a send_queues) option" where
  "ConnBleDequeueBlock getTime msgNonNull lockOk waits s =
     (if getTime \<noteq> SOFTBUS_OK then Some (Inr (SOFTBUS_INVALID_PARAM, None, False, s))
      else if \<not> msgNonNull then Some (Inr (SOFTBUS_INVALID_PARAM, None, False, s))
      else if \<not> lockOk then Some (Inr (SOFTBUS_LOCK_ERR, None, False, s))
      else ConnBleDequeue_loop waits False s)"

definition ConnBleInitSendQueue ::
  "(nat \<Rightarrow> bool) \<Rightarrow> int \<Rightarrow> int \<Rightarrow> int \<Rightarrow> 'a send_queues \<Rightarrow> int \<times> 'a send_queues" where
  "ConnBleInitSendQueue al mutexInit waitCondInit condInit s =
     (if mutexInit \<noteq> 0 then (SOFTBUS_NO_INIT, s)
      else if waitCondInit \<noteq> SOFTBUS_OK then (SOFTBUS_NO_INIT, s)
      else if condInit \<noteq> SOFTBUS_OK then (SOFTBUS_NO_INIT, s)
      else case CreateBleQueue al (sq_next s) 0 of
             None \<Rightarrow> (SOFTBUS_NO_INIT, s\<lparr>sq_inner := None\<rparr>)
           | Some inner \<Rightarrow> (SOFTBUS_OK, s\<lparr>sq_inner := Some inner, sq_next := Suc (sq_next s)\<rparr>))"

definition ConnBleDeinitSendQueue :: "'a send_queues \<Rightarrow> 'a send_queues" where
  "ConnBleDeinitSendQueue s = s\<lparr>sq_inner := None\<rparr>"

section \<open>The parts shared with the BR queue\<close>

lemma ble_create_rings_eq: "ble_create_rings al is = create_rings al is"
  by (induction "is") (simp_all split: option.split)

lemma CreateBleQueue_eq: "CreateBleQueue = CreateBrQueue"
  by (intro ext) (simp only: CreateBleQueue_def CreateBrQueue_def ble_create_rings_eq)

lemma BleGetPriority_eq: "BleGetPriority = GetPriority"
  by (intro ext) (simp add: BleGetPriority_def GetPriority_def)

lemma BleDequeue_scan_eq: "BleDequeue_scan cqs f = BrDequeue_scan cqs f"
  by (induction cqs arbitrary: f) (simp_all split: prod.split)

lemma BleDequeue_pass_eq: "BleDequeue_pass f s = BrDequeue_pass f s"
  unfolding BleDequeue_pass_def BrDequeue_pass_def BleDequeue_scan_eq ..

declare ConnBleDequeue_loop.simps [simp del]

lemma ConnBleDequeue_loop_eq: "ConnBleDequeue_loop waits f s = ConnBrDequeue_loop waits f s"
proof (induction waits arbitrary: f s)
  case Nil
  show ?case
    unfolding ConnBleDequeue_loop.simps [of "[]"] ConnBrDequeue_loop.simps [of "[]"] BleDequeue_pass_eq list.case ..
next
  case (Cons w ws)
  show ?case
    unfolding ConnBleDequeue_loop.simps [of "w # ws"] ConnBrDequeue_loop.simps [of "w # ws"] BleDequeue_pass_eq list.case Cons.IH ..
qed

lemma ConnBleDequeueBlock_eq: "ConnBleDequeueBlock = ConnBrDequeueBlock"
  by (intro ext) (simp add: ConnBleDequeueBlock_def ConnBrDequeueBlock_def ConnBleDequeue_loop_eq)

section \<open>The keyed FIFO contract\<close>

definition ble_key :: "SendQueueNode \<Rightarrow> send_key" where
  "ble_key x = (if sn_pid x = 0 then None else Some (sn_pid x), BleGetPriority (sn_flag x))"

lemma ConnBleEnqueue_eq:
  "ConnBleEnqueueNonBlock al True waits (Some x) s =
     send_enqueue al waits (sn_pid x = 0) (sn_pid x) (GetPriority (sn_flag x)) SOFTBUS_CONN_BLE_INTERNAL_ERR id id x s"
  unfolding ConnBleEnqueueNonBlock_def send_enqueue_def BleGetPriority_eq CreateBleQueue_eq
    GetQueueLimit_priority [OF GetPriority_less] Let_def
  by (simp split: option.split sum.split)

lemma ConnBleEnqueue_cases:
  assumes inv: "sq_inv ble_key s"
  obtains (stored) s' where "ConnBleEnqueueNonBlock al True waits (Some x) s =
        Some (Inr (SOFTBUS_OK, sn_pid x = 0 \<or> sq_list s = [], s'))" "sq_inv ble_key s'"
      "sq_content s' = (sq_content s)(ble_key x := sq_content s (ble_key x) @ [x])"
  | (failed) "ConnBleEnqueueNonBlock al True waits (Some x) s =
        Some (Inr (SOFTBUS_CONN_BLE_INTERNAL_ERR, sq_list s = [], s))" "sn_pid x \<noteq> 0"
  | (waits) deref put post where "30 \<le> length (sq_content s (ble_key x))" "ring_at deref put (ble_key x) s"
      "ConnBleEnqueueNonBlock al True waits (Some x) s =
         enqueue_waiting deref put waits post (sn_pid x = 0 \<or> sq_list s = []) x s"
  by (rule send_enqueue_cases [of ble_key s x "sn_pid x = 0" "sn_pid x" "GetPriority (sn_flag x)" id id al waits SOFTBUS_CONN_BLE_INTERNAL_ERR,
      folded ConnBleEnqueue_eq])
    (use inv that GetPriority_less in \<open>auto simp: ble_key_def BleGetPriority_eq\<close>)

definition ble_enq ::
  "(nat \<Rightarrow> bool) \<times> int \<Rightarrow> SendQueueNode send_queues \<Rightarrow> SendQueueNode \<Rightarrow> bool \<times> SendQueueNode send_queues" where
  "ble_enq e s x =
     (case ConnBleEnqueueNonBlock (fst e) True [(snd e, s)] (Some x) s of
        Some (Inr (ret, signal, s')) \<Rightarrow> (ret = SOFTBUS_OK, s')
      | _ \<Rightarrow> (False, s))"

definition ble_deq ::
  "(nat \<Rightarrow> bool) \<times> int \<Rightarrow> SendQueueNode send_queues \<Rightarrow> SendQueueNode option \<times> SendQueueNode send_queues" where
  "ble_deq e s =
     (case BleDequeue_pass False s of
        Inr (found, msg, isFull, s') \<Rightarrow> (if found then Option.bind msg id else None, s')
      | Inl _ \<Rightarrow> (None, s))"

lemma ble_enq_law:
  assumes inv: "sq_inv ble_key s" and enq: "ble_enq e s x = (ok, s')"
  shows "sq_inv ble_key s' \<and> sq_content s' = (if ok then (sq_content s)(ble_key x := sq_content s (ble_key x) @ [x]) else sq_content s)"
  using inv
proof (cases rule: ConnBleEnqueue_cases [where al = "fst e" and waits = "[(snd e, s)]" and x = x])
  case (waits deref put post)
  with enq inv show ?thesis
    by (auto simp: ble_enq_def enqueue_waiting_def WaitQueueLength_ring [OF waits(2)] split: if_splits)
qed (use enq inv in \<open>auto simp: ble_enq_def\<close>)

interpretation ble: keyed_fifo "sq_inv ble_key" sq_content ble_key ble_enq ble_deq
proof
  fix s s' :: "SendQueueNode send_queues" and e x
  assume inv: "sq_inv ble_key s"
  show "sq_inv ble_key s' \<and> sq_content s' =
      (if ok then (sq_content s)(ble_key x := sq_content s (ble_key x) @ [x]) else sq_content s)"
    if "ble_enq e s x = (ok, s')" for ok
    by (rule ble_enq_law [OF inv that])
  show "sq_inv ble_key s' \<and> sq_content s (ble_key x) \<noteq> [] \<and> x = hd (sq_content s (ble_key x)) \<and>
      sq_content s' = (sq_content s)(ble_key x := tl (sq_content s (ble_key x)))"
    if "ble_deq e s = (Some x, s')"
    using inv that by (cases rule: BrDequeue_pass_cases [where f = False]) (auto simp: ble_deq_def BleDequeue_pass_eq)
  show "sq_inv ble_key s' \<and> sq_content s' = sq_content s \<and> (\<forall>k. sq_content s k = [])"
    if "ble_deq e s = (None, s')"
    using inv that sq_inv_clear [OF inv] by (cases rule: BrDequeue_pass_cases [where f = False]) (auto simp: ble_deq_def BleDequeue_pass_eq)
qed

lemma ble_init_eq:
  "ConnBleInitSendQueue al a b c s = (SOFTBUS_OK, s') \<Longrightarrow> ConnBrInnerQueueInit al a b c s = (SOFTBUS_OK, s')"
  by (auto simp: ConnBleInitSendQueue_def ConnBrInnerQueueInit_def CreateBleQueue_eq split: if_splits option.splits)

text \<open>A freshly initialised queue, and a message for it.\<close>

definition ble_example :: "SendQueueNode send_queues" where
  "ble_example = snd (ConnBleInitSendQueue (\<lambda>_. True) 0 0 0 \<lparr>sq_list = [], sq_inner = None, sq_next = 0\<rparr>)"

definition ble_message :: "int \<Rightarrow> SendQueueNode" where
  "ble_message n = \<lparr>sn_connectionId = 1, sn_pid = 9, sn_flag = CONN_MIDDLE, sn_module = 3, sn_seq = n, sn_data = [5]\<rparr>"

lemma ble_example_init:
  "ConnBleInitSendQueue (\<lambda>_. True) 0 0 0 \<lparr>sq_list = [], sq_inner = None, sq_next = 0\<rparr> = (SOFTBUS_OK, ble_example)"
proof -
  obtain cq :: "SendQueueNode ConnectionQueue" where "CreateBleQueue (\<lambda>_. True) 0 0 = Some cq"
    unfolding CreateBleQueue_eq using CreateBrQueue_True by blast
  then show ?thesis by (simp add: ble_example_def ConnBleInitSendQueue_def)
qed

section \<open>Properties\<close>

text \<open>
  C25: FIFO per client and priority for the BLE send queue, from \<open>ConnBleInitSendQueue\<close> through any sequence of
  enqueue and dequeue calls: stored is taken followed by what still waits, in order.
\<close>

theorem ble_send_fifo:
  assumes "ConnBleInitSendQueue al a b c \<lparr>sq_list = [], sq_inner = None, sq_next = 0\<rparr> = (SOFTBUS_OK, s)"
    and "keyed_run ble_enq ble_deq s ops = (es, s')"
  shows "filter (\<lambda>x. ble_key x = k) (stored es) = filter (\<lambda>x. ble_key x = k) (taken es) @ sq_content s' k"
  using ble.run_fifo [OF init_inv(1) [OF ble_init_eq [OF assms(1)]] assms(2), of k] init_inv(2) [OF ble_init_eq [OF assms(1)]] by simp

theorem ble_send_fifo_witness:
  "\<exists>es s'. keyed_run ble_enq ble_deq ble_example [KEnq (\<lambda>_. True, 0) (ble_message 1), KDeq (\<lambda>_. True, 0)] = (es, s') \<and>
     filter (\<lambda>x. ble_key x = (Some 9, 1)) (stored es) = filter (\<lambda>x. ble_key x = (Some 9, 1)) (taken es) @ sq_content s' (Some 9, 1)"
  using ble_send_fifo [OF ble_example_init] by (metis surj_pair)

text \<open>
  C26: A BLE enqueue succeeds exactly when the message is stored.  Without a wait, the call returns
  \<open>SOFTBUS_OK\<close> with the message at the end of its list, or an error with the queues as they were.
\<close>

theorem ble_enqueue_exact:
  assumes "sq_inv ble_key s" "length (sq_content s (ble_key x)) < 30"
  shows "\<exists>ret s'. ConnBleEnqueueNonBlock al True waits (Some x) s = Some (Inr (ret, sn_pid x = 0 \<or> sq_list s = [], s')) \<and>
    (if ret = SOFTBUS_OK then sq_content s' = (sq_content s)(ble_key x := sq_content s (ble_key x) @ [x])
     else s' = s \<and> ret = SOFTBUS_CONN_BLE_INTERNAL_ERR \<and> sn_pid x \<noteq> 0)"
  using assms(1)
proof (cases rule: ConnBleEnqueue_cases [where al = al and waits = waits and x = x])
  case (waits deref put post)
  then show ?thesis using assms(2) by simp
qed auto

theorem ble_enqueue_exact_witness:
  "\<exists>ret s'. ConnBleEnqueueNonBlock (\<lambda>i. i \<noteq> 2) True [] (Some (ble_message 1)) ble_example = Some (Inr (ret, True, s')) \<and>
    (if ret = SOFTBUS_OK then sq_content s' (Some 9, 1) = [ble_message 1] else s' = ble_example)"
proof -
  note init = init_inv [OF ble_init_eq [OF ble_example_init]]
  have "length (sq_content ble_example (ble_key (ble_message 1))) < 30" by (simp add: init)
  moreover have "sq_list ble_example = []" "ble_key (ble_message 1) = (Some 9, 1)" by code_simp+
  ultimately show ?thesis
    using ble_enqueue_exact [OF init(1), of "ble_message 1" "\<lambda>i. i \<noteq> 2" "[]"] by (auto simp: init split: if_splits)
qed

end
