(* ===== verification/Pending_Table.thy ===== *)
theory Pending_Table
  imports Prelude
begin

text \<open>
  The contract of a table of pending packets: a partial map from keys to the state of the request, with an
  operation that registers a key once, one that completes a registered key and one that removes it.  The
  transmission layer and the BR connection each keep such a table as a linked list.
\<close>

section \<open>Linked lists of nodes\<close>

text \<open>Changing the first node that satisfies a condition; None when there is none.\<close>

fun update_first :: "('n \<Rightarrow> bool) \<Rightarrow> ('n \<Rightarrow> 'n) \<Rightarrow> 'n list \<Rightarrow> 'n list option" where
  "update_first P f [] = None"
| "update_first P f (n # ns) = (if P n then Some (f n # ns) else map_option (Cons n) (update_first P f ns))"

lemma update_first_None: "update_first P f ns = None \<longleftrightarrow> find P ns = None"
  by (induction ns) auto

lemma update_first_map: "update_first P f ns = Some ns' \<Longrightarrow> (\<And>n. g (f n) = g n) \<Longrightarrow> map g ns' = map g ns"
  by (induction ns arbitrary: ns') (auto split: if_splits)

lemma update_first_find:
  "update_first (\<lambda>n. key n = k) f ns = Some ns' \<Longrightarrow> (\<And>n. key (f n) = key n) \<Longrightarrow>
   find (\<lambda>n. key n = k') ns' = (if k' = k then map_option f (find (\<lambda>n. key n = k) ns) else find (\<lambda>n. key n = k') ns)"
  by (induction ns arbitrary: ns') (auto split: if_splits)

text \<open>Nodes are identified by address; removing one removes its key and nothing else.\<close>

lemma find_key_in: "distinct (map f xs) \<Longrightarrow> x \<in> set xs \<Longrightarrow> find (\<lambda>y. f y = f x) xs = Some x"
  by (induction xs) auto

lemma remove_node_find:
  assumes "distinct (map addr ns)" "distinct (map key ns)" "n \<in> set ns"
  shows "find (\<lambda>m. key m = k) (filter (\<lambda>m. addr m \<noteq> addr n) ns) = (if k = key n then None else find (\<lambda>m. key m = k) ns)"
proof -
  have same: "addr m = addr n \<longleftrightarrow> key m = key n" if "m \<in> set ns" for m
    using that assms by (auto simp: distinct_map inj_on_def)
  have "find (\<lambda>m. key m = k) (filter (\<lambda>m. addr m \<noteq> addr n) ms) = (if k = key n then None else find (\<lambda>m. key m = k) ms)"
    if "set ms \<subseteq> set ns" for ms
    using that by (induction ms) (auto simp: same)
  then show ?thesis by simp
qed

lemma remove_node_length:
  assumes "distinct (map addr ns)" "n \<in> set ns"
  shows "length (filter (\<lambda>m. addr m \<noteq> addr n) ns) = length ns - 1"
  using assms
proof (induction ns)
  case (Cons m ns)
  have "filter (\<lambda>i. addr i \<noteq> addr m) ns = ns" if "addr m \<notin> addr ` set ns"
    using that by (auto simp: filter_id_conv image_iff)
  with Cons show ?case by (cases ns) auto
qed simp

section \<open>The contract\<close>

datatype ('k, 'v) pop = PAdd 'k | PFin 'k 'v | PDel 'k

fun pop_key :: "('k, 'v) pop \<Rightarrow> 'k" where
  "pop_key (PAdd k) = k"
| "pop_key (PFin k v) = k"
| "pop_key (PDel k) = k"

fun pending_step :: "('k \<Rightarrow> 's \<Rightarrow> bool \<times> 's) \<Rightarrow> ('k \<Rightarrow> 'v \<Rightarrow> 's \<Rightarrow> bool \<times> 's) \<Rightarrow> ('k \<Rightarrow> 's \<Rightarrow> 's) \<Rightarrow> ('k, 'v) pop \<Rightarrow> 's \<Rightarrow> 's" where
  "pending_step add fin del (PAdd k) s = snd (add k s)"
| "pending_step add fin del (PFin k v) s = snd (fin k v s)"
| "pending_step add fin del (PDel k) s = del k s"

locale pending_table =
  fixes invar :: "'s \<Rightarrow> bool"
    and abs :: "'s \<Rightarrow> 'k \<Rightarrow> 'v option"
    and init :: 'v
    and add :: "'k \<Rightarrow> 's \<Rightarrow> bool \<times> 's"
    and fin :: "'k \<Rightarrow> 'v \<Rightarrow> 's \<Rightarrow> bool \<times> 's"
    and del :: "'k \<Rightarrow> 's \<Rightarrow> 's"
  assumes add_law: "invar s \<Longrightarrow> add k s = (ok, s') \<Longrightarrow>
      invar s' \<and> (ok \<longrightarrow> abs s k = None) \<and> abs s' = (if ok then (abs s)(k := Some init) else abs s)"
    and fin_law: "invar s \<Longrightarrow> fin k v s = (ok, s') \<Longrightarrow>
      invar s' \<and> (ok \<longrightarrow> abs s k \<noteq> None) \<and> abs s' = (if ok then (abs s)(k := Some v) else abs s)"
    and del_law: "invar s \<Longrightarrow> invar (del k s) \<and> abs (del k s) = (abs s)(k := None)"
begin

lemma add_pair: "invar s \<Longrightarrow> invar (snd (add k s)) \<and> abs (snd (add k s)) = (if fst (add k s) then (abs s)(k := Some init) else abs s)"
  using add_law [of s k "fst (add k s)" "snd (add k s)"] by simp

lemma fin_pair: "invar s \<Longrightarrow> invar (snd (fin k v s)) \<and> abs (snd (fin k v s)) = (if fst (fin k v s) then (abs s)(k := Some v) else abs s)"
  using fin_law [of s k v "fst (fin k v s)" "snd (fin k v s)"] by simp

lemma step_invar: "invar s \<Longrightarrow> invar (pending_step add fin del op s)"
  by (cases op) (simp_all add: add_pair fin_pair del_law)

lemma run_invar: "invar s \<Longrightarrow> invar (fold (pending_step add fin del) ops s)"
  by (induction ops arbitrary: s) (auto intro: step_invar)

text \<open>Operations on other keys do not touch an entry.\<close>

lemma step_other: "invar s \<Longrightarrow> pop_key op \<noteq> k \<Longrightarrow> abs (pending_step add fin del op s) k = abs s k"
  by (cases op) (simp_all add: add_pair fin_pair del_law)

lemma run_other:
  assumes "invar s" "\<forall>op \<in> set ops. pop_key op \<noteq> k"
  shows "abs (fold (pending_step add fin del) ops s) k = abs s k"
  using assms by (induction ops arbitrary: s) (auto simp: step_other step_invar)

text \<open>The life of a request: registered, completed, then whatever the others do the completion is there.\<close>

lemma completed:
  assumes "invar s" "add k s = (True, s1)" "\<forall>op \<in> set ops1. pop_key op \<noteq> k"
    and "fin k v (fold (pending_step add fin del) ops1 s1) = (ok, s2)" "\<forall>op \<in> set ops2. pop_key op \<noteq> k"
  shows "abs (fold (pending_step add fin del) ops1 s1) k = Some init \<and>
    (ok \<longrightarrow> abs (fold (pending_step add fin del) ops2 s2) k = Some v)"
proof -
  have s1: "invar s1" "abs s1 k = Some init" using add_law [OF assms(1,2)] by auto
  have mid: "invar (fold (pending_step add fin del) ops1 s1)" "abs (fold (pending_step add fin del) ops1 s1) k = Some init"
    using s1 run_invar run_other [OF s1(1) assms(3)] by auto
  with fin_law [OF mid(1) assms(4)] run_other [of s2 ops2 k] assms(5) show ?thesis by auto
qed

end

end
