(* ===== verification/Trans_Pending.thy ===== *)
theory Trans_Pending
  imports Pending_Table Conn_Common
begin

text \<open>
  The pending packets of the transmission layer, \<^verbatim>\<open>core/transmission/common/src/trans_pending_pkt.c\<close>: one list
  per channel type, in which a sender registers a channel and sequence number, and on which it then waits until
  the reply is in or the deadline has passed.  List nodes carry an address, because \<open>ProcPendingPacket\<close> keeps
  a pointer to its node while no lock protects the list.
\<close>

section \<open>Definitions\<close>

abbreviation SOFTBUS_TRANS_TDC_PENDINGLIST_NOT_FOUND :: int where "SOFTBUS_TRANS_TDC_PENDINGLIST_NOT_FOUND \<equiv> - 426115012"
abbreviation SOFTBUS_TRANS_TDC_CHANNEL_ALREADY_PENDING :: int where "SOFTBUS_TRANS_TDC_CHANNEL_ALREADY_PENDING \<equiv> - 426115013"
abbreviation SOFTBUS_TRANS_NODE_NOT_FOUND :: int where "SOFTBUS_TRANS_NODE_NOT_FOUND \<equiv> - 426114898"

abbreviation PENDING_TYPE_PROXY :: int where "PENDING_TYPE_PROXY \<equiv> 0"
abbreviation PENDING_TYPE_DIRECT :: int where "PENDING_TYPE_DIRECT \<equiv> 1"
abbreviation PENDING_TYPE_UDP :: int where "PENDING_TYPE_UDP \<equiv> 2"
abbreviation PENDING_TYPE_BUTT :: int where "PENDING_TYPE_BUTT \<equiv> 3"

abbreviation MSG_TIMEOUT_S :: int where "MSG_TIMEOUT_S \<equiv> 20"
abbreviation UDP_TIMEOUT_US :: int where "UDP_TIMEOUT_US \<equiv> 150 * 1000"
abbreviation MAX_US :: int where "MAX_US \<equiv> 1 * 1000 * 1000"

datatype PackageStatus = PACKAGE_STATUS_PENDING | PACKAGE_STATUS_FINISHED | PACKAGE_STATUS_CANCELED

record PendingPktInfo =
  pi_addr :: nat
  pi_channelId :: int
  pi_seq :: int
  pi_status :: PackageStatus

record SoftBusList =
  sl_items :: "PendingPktInfo list"
  sl_cnt :: nat
  sl_next :: nat

type_synonym pending_lists = "SoftBusList option list"

definition IsPendingListTypeLegal :: "int \<Rightarrow> int" where
  "IsPendingListTypeLegal type =
     (if type < PENDING_TYPE_PROXY \<or> type \<ge> PENDING_TYPE_BUTT then SOFTBUS_INVALID_PARAM else SOFTBUS_OK)"

definition PendingInit :: "bool \<Rightarrow> int \<Rightarrow> pending_lists \<Rightarrow> int \<times> pending_lists" where
  "PendingInit createOk type g =
     (let ret = IsPendingListTypeLegal type
      in if ret \<noteq> SOFTBUS_OK then (ret, g)
         else if \<not> createOk then (SOFTBUS_MALLOC_ERR, g[nat type := None])
         else (SOFTBUS_OK, g[nat type := Some \<lparr>sl_items = [], sl_cnt = 0, sl_next = 0\<rparr>]))"

definition PendingDeinit :: "int \<Rightarrow> pending_lists \<Rightarrow> pending_lists" where
  "PendingDeinit type g = (if IsPendingListTypeLegal type \<noteq> SOFTBUS_OK then g else g[nat type := None])"

definition TimeBefore :: "int \<times> int \<Rightarrow> int \<times> int \<Rightarrow> bool" where
  "TimeBefore now inputTime = (fst now < fst inputTime \<or> (fst now = fst inputTime \<and> snd now < snd inputTime))"

definition CreatePendingItem :: "bool \<Rightarrow> nat \<Rightarrow> int \<Rightarrow> int \<Rightarrow> PendingPktInfo option" where
  "CreatePendingItem callocOk addr channelId seqNum =
     (if \<not> callocOk then None
      else Some \<lparr>pi_addr = addr, pi_channelId = channelId, pi_seq = seqNum, pi_status = PACKAGE_STATUS_PENDING\<rparr>)"

text \<open>The loop that carries microseconds into seconds.\<close>

function formalize_loop :: "int \<times> int \<Rightarrow> int \<times> int" where
  "formalize_loop (sec, usec) = (if usec \<ge> MAX_US then formalize_loop (sec + 1, usec - MAX_US) else (sec, usec))"
  by pat_completeness auto
termination
  by (relation "measure (\<lambda>(sec, usec). nat usec)") auto

definition FormalizeTimeFormat :: "int \<times> int \<Rightarrow> int \<Rightarrow> int \<times> int" where
  "FormalizeTimeFormat now type =
     formalize_loop
       (if type = PENDING_TYPE_UDP then fst now else fst now + MSG_TIMEOUT_S,
        if type = PENDING_TYPE_UDP then snd now + UDP_TIMEOUT_US else snd now)"

definition pkt_match :: "int \<Rightarrow> int \<Rightarrow> PendingPktInfo \<Rightarrow> bool" where
  "pkt_match channelId seqNum item = (pi_seq item = seqNum \<and> pi_channelId item = channelId)"

definition AddPendingPacket :: "bool \<Rightarrow> bool \<Rightarrow> int \<Rightarrow> int \<Rightarrow> int \<Rightarrow> pending_lists \<Rightarrow> int \<times> pending_lists" where
  "AddPendingPacket lockOk callocOk channelId seqNum type g =
     (let ret = IsPendingListTypeLegal type
      in if ret \<noteq> SOFTBUS_OK then (ret, g)
         else case g ! nat type of
                None \<Rightarrow> (SOFTBUS_TRANS_TDC_PENDINGLIST_NOT_FOUND, g)
              | Some pendingList \<Rightarrow>
                  if \<not> lockOk then (SOFTBUS_LOCK_ERR, g)
                  else if list_ex (pkt_match channelId seqNum) (sl_items pendingList)
                  then (SOFTBUS_TRANS_TDC_CHANNEL_ALREADY_PENDING, g)
                  else case CreatePendingItem callocOk (sl_next pendingList) channelId seqNum of
                         None \<Rightarrow> (SOFTBUS_MALLOC_ERR, g)
                       | Some item \<Rightarrow>
                           (SOFTBUS_OK, g[nat type := Some \<lparr>sl_items = item # sl_items pendingList,
                              sl_cnt = u32 (sl_cnt pendingList + 1), sl_next = Suc (sl_next pendingList)\<rparr>]))"

definition GetPendingPacket :: "bool \<Rightarrow> int \<Rightarrow> int \<Rightarrow> int \<Rightarrow> pending_lists \<Rightarrow> PendingPktInfo option" where
  "GetPendingPacket lockOk channelId seqNum type g =
     (if IsPendingListTypeLegal type \<noteq> SOFTBUS_OK then None
      else case g ! nat type of
             None \<Rightarrow> None
           | Some pendingList \<Rightarrow>
               if \<not> lockOk then None else find (pkt_match channelId seqNum) (sl_items pendingList))"

text \<open>\<open>ListDelete\<close> of a node: the first occurrence of its address leaves the list.\<close>

definition list_delete :: "nat \<Rightarrow> PendingPktInfo list \<Rightarrow> PendingPktInfo list" where
  "list_delete addr items = filter (\<lambda>i. pi_addr i \<noteq> addr) items"

definition DelPendingPacketbyChannelId :: "bool \<Rightarrow> int \<Rightarrow> int \<Rightarrow> int \<Rightarrow> pending_lists \<Rightarrow> pending_lists" where
  "DelPendingPacketbyChannelId lockOk channelId seqNum type g =
     (if IsPendingListTypeLegal type \<noteq> SOFTBUS_OK then g
      else case g ! nat type of
             None \<Rightarrow> g
           | Some pendingList \<Rightarrow>
               if \<not> lockOk then g
               else case find (pkt_match channelId seqNum) (sl_items pendingList) of
                      None \<Rightarrow> g
                    | Some item \<Rightarrow>
                        g[nat type := Some (pendingList\<lparr>sl_items := list_delete (pi_addr item) (sl_items pendingList),
                          sl_cnt := u32_sub (sl_cnt pendingList) 1\<rparr>)])"

definition deref_item :: "nat \<Rightarrow> int \<Rightarrow> pending_lists \<Rightarrow> PendingPktInfo option" where
  "deref_item addr type g =
     (case g ! nat type of None \<Rightarrow> None | Some l \<Rightarrow> find (\<lambda>i. pi_addr i = addr) (sl_items l))"

text \<open>
  The wait of \<open>ProcPendingPacket\<close>: each entry is the clock read by \<open>TimeBefore\<close> and the lists after the
  condition wait that follows it.
\<close>

fun proc_wait :: "((int \<times> int) \<times> pending_lists) list \<Rightarrow> nat \<Rightarrow> int \<Rightarrow> int \<times> int \<Rightarrow> pending_lists \<Rightarrow>
    (fault + PackageStatus \<times> pending_lists) option" where
  "proc_wait ticks addr type outTime g =
     (case deref_item addr type g of
        None \<Rightarrow> Some (Inl InvalidPointer)
      | Some item \<Rightarrow>
          if pi_status item \<noteq> PACKAGE_STATUS_PENDING then Some (Inr (pi_status item, g))
          else case ticks of
                 [] \<Rightarrow> None
               | (now, g') # ticks' \<Rightarrow>
                   if TimeBefore now outTime then proc_wait ticks' addr type outTime g'
                   else Some (Inr (pi_status item, g)))"

definition ProcPendingPacket :: "(nat \<Rightarrow> bool) \<Rightarrow> int \<times> int \<Rightarrow> ((int \<times> int) \<times> pending_lists) list \<Rightarrow>
    int \<Rightarrow> int \<Rightarrow> int \<Rightarrow> pending_lists \<Rightarrow> (fault + int \<times> pending_lists) option" where
  "ProcPendingPacket locks now ticks channelId seqNum type g =
     (let ret = IsPendingListTypeLegal type
      in if ret \<noteq> SOFTBUS_OK then Some (Inr (ret, g))
         else if g ! nat type = None then Some (Inr (SOFTBUS_TRANS_TDC_PENDINGLIST_NOT_FOUND, g))
         else
           let outTime = FormalizeTimeFormat now type
           in case GetPendingPacket (locks 0) channelId seqNum type g of
                None \<Rightarrow> Some (Inr (SOFTBUS_NOT_FIND, g))
              | Some item \<Rightarrow>
                  if \<not> locks 1 then Some (Inr (SOFTBUS_LOCK_ERR, g))
                  else case proc_wait ticks (pi_addr item) type outTime g of
                         None \<Rightarrow> None
                       | Some (Inl f) \<Rightarrow> Some (Inl f)
                       | Some (Inr (status, g)) \<Rightarrow>
                           let errCode = (if status = PACKAGE_STATUS_FINISHED then SOFTBUS_OK else SOFTBUS_TIMOUT)
                           in if \<not> locks 2 then Some (Inr (SOFTBUS_LOCK_ERR, g))
                              else case g ! nat type of
                                     None \<Rightarrow> Some (Inl InvalidPointer)
                                   | Some pendingList \<Rightarrow>
                                       Some (Inr (errCode, g[nat type := Some (pendingList\<lparr>
                                         sl_items := list_delete (pi_addr item) (sl_items pendingList),
                                         sl_cnt := u32_sub (sl_cnt pendingList) 1\<rparr>)])))"

text \<open>Marking the first node that satisfies a condition.\<close>

definition mark_first :: "(PendingPktInfo \<Rightarrow> bool) \<Rightarrow> PackageStatus \<Rightarrow> PendingPktInfo list \<Rightarrow> PendingPktInfo list option" where
  "mark_first P st items = update_first P (\<lambda>i. i\<lparr>pi_status := st\<rparr>) items"

definition SetPendingPacket :: "bool \<Rightarrow> int \<Rightarrow> int \<Rightarrow> int \<Rightarrow> pending_lists \<Rightarrow> int \<times> pending_lists" where
  "SetPendingPacket lockOk channelId seqNum type g =
     (let ret = IsPendingListTypeLegal type
      in if ret \<noteq> SOFTBUS_OK then (ret, g)
         else case g ! nat type of
                None \<Rightarrow> (SOFTBUS_TRANS_TDC_PENDINGLIST_NOT_FOUND, g)
              | Some pendingList \<Rightarrow>
                  if \<not> lockOk then (SOFTBUS_LOCK_ERR, g)
                  else case mark_first (pkt_match channelId seqNum) PACKAGE_STATUS_FINISHED (sl_items pendingList) of
                         None \<Rightarrow> (SOFTBUS_TRANS_NODE_NOT_FOUND, g)
                       | Some items \<Rightarrow> (SOFTBUS_OK, g[nat type := Some (pendingList\<lparr>sl_items := items\<rparr>)]))"

definition DelPendingPacket :: "bool \<Rightarrow> int \<Rightarrow> int \<Rightarrow> pending_lists \<Rightarrow> int \<times> pending_lists" where
  "DelPendingPacket lockOk channelId type g =
     (let ret = IsPendingListTypeLegal type
      in if ret \<noteq> SOFTBUS_OK then (ret, g)
         else case g ! nat type of
                None \<Rightarrow> (SOFTBUS_TRANS_TDC_PENDINGLIST_NOT_FOUND, g)
              | Some pendingList \<Rightarrow>
                  if \<not> lockOk then (SOFTBUS_LOCK_ERR, g)
                  else case mark_first (\<lambda>i. pi_channelId i = channelId) PACKAGE_STATUS_CANCELED (sl_items pendingList) of
                         None \<Rightarrow> (SOFTBUS_OK, g)
                       | Some items \<Rightarrow> (SOFTBUS_OK, g[nat type := Some (pendingList\<lparr>sl_items := items\<rparr>)]))"

section \<open>Invariant and abstraction\<close>

definition pkt_key :: "PendingPktInfo \<Rightarrow> int \<times> int" where
  "pkt_key i = (pi_channelId i, pi_seq i)"

definition plist_wf :: "SoftBusList \<Rightarrow> bool" where
  "plist_wf l \<longleftrightarrow> distinct (map pkt_key (sl_items l)) \<and> distinct (map pi_addr (sl_items l)) \<and>
     (\<forall>i \<in> set (sl_items l). pi_addr i < sl_next l) \<and> sl_cnt l = length (sl_items l) mod 2 ^ 32"

definition pend_inv :: "int \<Rightarrow> pending_lists \<Rightarrow> bool" where
  "pend_inv type g \<longleftrightarrow> length g = 3 \<and> 0 \<le> type \<and> type < PENDING_TYPE_BUTT \<and> (\<exists>l. g ! nat type = Some l \<and> plist_wf l)"

definition plist_abs :: "SoftBusList \<Rightarrow> int \<times> int \<Rightarrow> PackageStatus option" where
  "plist_abs l k = map_option pi_status (find (\<lambda>i. pkt_key i = k) (sl_items l))"

definition pend_abs :: "int \<Rightarrow> pending_lists \<Rightarrow> int \<times> int \<Rightarrow> PackageStatus option" where
  "pend_abs type g k = (case g ! nat type of None \<Rightarrow> None | Some l \<Rightarrow> plist_abs l k)"

lemma pkt_match_key: "pkt_match ch seq = (\<lambda>i. pkt_key i = (ch, seq))"
  by (auto simp: pkt_match_def pkt_key_def fun_eq_iff)

lemma u32_inc: "u32 (n mod 2 ^ 32 + 1) = Suc n mod 2 ^ 32"
  by (simp add: u32_def mod_Suc_eq)

lemma u32_dec: "0 < n \<Longrightarrow> u32_sub (n mod 2 ^ 32) 1 = (n - 1) mod 2 ^ 32"
proof -
  assume "0 < n"
  then have "(int (n mod 2 ^ 32) - 1) mod 4294967296 = int (n - 1) mod 4294967296"
    by (simp add: zmod_int of_nat_diff mod_diff_left_eq)
  then show ?thesis by (simp add: u32_sub_def nat_mod_as_int)
qed

lemma plist_add:
  assumes wf: "plist_wf l" and new: "plist_abs l k = None"
  defines "l' \<equiv> \<lparr>sl_items = \<lparr>pi_addr = sl_next l, pi_channelId = fst k, pi_seq = snd k, pi_status = PACKAGE_STATUS_PENDING\<rparr> # sl_items l,
      sl_cnt = u32 (sl_cnt l + 1), sl_next = Suc (sl_next l)\<rparr>"
  shows "plist_wf l'" "plist_abs l' = (plist_abs l)(k := Some PACKAGE_STATUS_PENDING)"
proof -
  have "k \<notin> pkt_key ` set (sl_items l)" using new by (auto simp: plist_abs_def find_None_iff)
  then show "plist_wf l'"
    using wf u32_inc [of "length (sl_items l)"] by (auto simp: plist_wf_def l'_def pkt_key_def less_SucI)
  show "plist_abs l' = (plist_abs l)(k := Some PACKAGE_STATUS_PENDING)"
    by (auto simp: plist_abs_def l'_def pkt_key_def fun_eq_iff)
qed

lemma plist_delete:
  assumes wf: "plist_wf l" and i: "i \<in> set (sl_items l)"
  defines "l' \<equiv> l\<lparr>sl_items := list_delete (pi_addr i) (sl_items l), sl_cnt := u32_sub (sl_cnt l) 1\<rparr>"
  shows "plist_wf l'" "plist_abs l' = (plist_abs l)(pkt_key i := None)"
proof -
  have dist: "distinct (map pi_addr (sl_items l))" "distinct (map pkt_key (sl_items l))" using wf by (auto simp: plist_wf_def)
  have "0 < length (sl_items l)" using i by (cases "sl_items l") auto
  then show "plist_wf l'"
    using wf u32_dec remove_node_length [OF dist(1) i] by (auto simp: plist_wf_def l'_def list_delete_def distinct_map_filter)
  show "plist_abs l' = (plist_abs l)(pkt_key i := None)"
    by (auto simp: plist_abs_def l'_def list_delete_def fun_eq_iff remove_node_find [OF dist i])
qed

lemma mark_first_key:
  "mark_first (\<lambda>i. pkt_key i = k) st items = None \<longleftrightarrow> find (\<lambda>i. pkt_key i = k) items = None"
  "mark_first P st items = Some items' \<Longrightarrow> map pkt_key items' = map pkt_key items \<and> map pi_addr items' = map pi_addr items"
  by (auto simp: mark_first_def update_first_None pkt_key_def intro!: update_first_map)

lemma mark_first_find:
  assumes "mark_first (\<lambda>i. pkt_key i = k) st items = Some items'"
  shows "map_option pi_status (find (\<lambda>i. pkt_key i = k') items') =
    (if k' = k then Some st else map_option pi_status (find (\<lambda>i. pkt_key i = k') items))"
proof -
  have "find (\<lambda>i. pkt_key i = k) items \<noteq> None" using assms mark_first_key(1) by (metis option.distinct(1))
  moreover have "find (\<lambda>i. pkt_key i = k') items' =
      (if k' = k then map_option (\<lambda>i. i\<lparr>pi_status := st\<rparr>) (find (\<lambda>i. pkt_key i = k) items) else find (\<lambda>i. pkt_key i = k') items)"
    by (rule update_first_find [OF assms [unfolded mark_first_def]]) (simp add: pkt_key_def)
  ultimately show ?thesis by auto
qed

lemma plist_mark:
  assumes wf: "plist_wf l" and mark: "mark_first P st (sl_items l) = Some items"
  shows "plist_wf (l\<lparr>sl_items := items\<rparr>)"
proof -
  note maps = mark_first_key(2) [OF mark]
  have "\<forall>a \<in> pi_addr ` set (sl_items l). a < sl_next l" using wf by (auto simp: plist_wf_def)
  moreover have "pi_addr ` set items = pi_addr ` set (sl_items l)" by (metis maps set_map)
  moreover have "length items = length (sl_items l)" by (metis maps length_map)
  moreover have "\<forall>i \<in> set items. pi_addr i < sl_next l" using calculation(1,2) by blast
  ultimately show ?thesis using wf maps by (simp add: plist_wf_def)
qed

section \<open>The pending table contract\<close>

lemma legal: "pend_inv type g \<Longrightarrow> IsPendingListTypeLegal type = SOFTBUS_OK"
  by (simp add: pend_inv_def IsPendingListTypeLegal_def)

lemma pend_inv_list:
  assumes "pend_inv type g"
  obtains l where "g ! nat type = Some l" "plist_wf l" "nat type < length g"
    "\<And>l'. plist_wf l' \<Longrightarrow> pend_inv type (g[nat type := Some l']) \<and> pend_abs type (g[nat type := Some l']) = plist_abs l'"
    "pend_abs type g = plist_abs l"
proof -
  have t: "nat type < length g" using assms by (auto simp: pend_inv_def)
  with assms that show thesis by (auto simp: pend_inv_def pend_abs_def fun_eq_iff)
qed

definition pend_add :: "bool \<Rightarrow> int \<Rightarrow> int \<times> int \<Rightarrow> pending_lists \<Rightarrow> bool \<times> pending_lists" where
  "pend_add callocOk type k g = (case AddPendingPacket True callocOk (fst k) (snd k) type g of (ret, g') \<Rightarrow> (ret = SOFTBUS_OK, g'))"

definition pend_fin :: "int \<Rightarrow> int \<times> int \<Rightarrow> PackageStatus \<Rightarrow> pending_lists \<Rightarrow> bool \<times> pending_lists" where
  "pend_fin type k st g =
     (if st = PACKAGE_STATUS_FINISHED
      then case SetPendingPacket True (fst k) (snd k) type g of (ret, g') \<Rightarrow> (ret = SOFTBUS_OK, g')
      else (False, g))"

definition pend_del :: "int \<Rightarrow> int \<times> int \<Rightarrow> pending_lists \<Rightarrow> pending_lists" where
  "pend_del type k g = DelPendingPacketbyChannelId True (fst k) (snd k) type g"

lemma AddPendingPacket_cases:
  assumes inv: "pend_inv type g"
  obtains (added) g' where "AddPendingPacket True ok ch seq type g = (SOFTBUS_OK, g')" "pend_inv type g'" "ok"
      "pend_abs type g (ch, seq) = None" "pend_abs type g' = (pend_abs type g)((ch, seq) := Some PACKAGE_STATUS_PENDING)"
  | (exists) "AddPendingPacket True ok ch seq type g = (SOFTBUS_TRANS_TDC_CHANNEL_ALREADY_PENDING, g)" "pend_abs type g (ch, seq) \<noteq> None"
  | (memory) "AddPendingPacket True ok ch seq type g = (SOFTBUS_MALLOC_ERR, g)" "\<not> ok"
proof -
  obtain l where l: "g ! nat type = Some l" "plist_wf l" "nat type < length g"
    and put: "\<And>l'. plist_wf l' \<Longrightarrow> pend_inv type (g[nat type := Some l']) \<and> pend_abs type (g[nat type := Some l']) = plist_abs l'"
    and abs: "pend_abs type g = plist_abs l" by (rule pend_inv_list [OF inv]) blast
  have ex: "list_ex (pkt_match ch seq) (sl_items l) \<longleftrightarrow> plist_abs l (ch, seq) \<noteq> None"
    by (auto simp: plist_abs_def pkt_match_key find_None_iff list_ex_iff)
  note unfold = AddPendingPacket_def legal [OF inv] l(1) CreatePendingItem_def ex
  show thesis
  proof (cases "plist_abs l (ch, seq) = None")
    case True
    from put [OF plist_add(1) [OF l(2) True]] plist_add(2) [OF l(2) True] True show thesis
      by (cases ok) (auto simp: unfold abs intro: added memory)
  next
    case False
    then show thesis by (intro exists) (auto simp: unfold abs)
  qed
qed

lemma SetPendingPacket_cases:
  assumes inv: "pend_inv type g"
  obtains (set) g' where "SetPendingPacket True ch seq type g = (SOFTBUS_OK, g')" "pend_inv type g'"
      "pend_abs type g (ch, seq) \<noteq> None" "pend_abs type g' = (pend_abs type g)((ch, seq) := Some PACKAGE_STATUS_FINISHED)"
  | (missing) "SetPendingPacket True ch seq type g = (SOFTBUS_TRANS_NODE_NOT_FOUND, g)" "pend_abs type g (ch, seq) = None"
proof -
  obtain l where l: "g ! nat type = Some l" "plist_wf l" "nat type < length g"
    and put: "\<And>l'. plist_wf l' \<Longrightarrow> pend_inv type (g[nat type := Some l']) \<and> pend_abs type (g[nat type := Some l']) = plist_abs l'"
    and abs: "pend_abs type g = plist_abs l" by (rule pend_inv_list [OF inv]) blast
  note unfold = SetPendingPacket_def legal [OF inv] l(1) pkt_match_key
  show thesis
  proof (cases "mark_first (\<lambda>i. pkt_key i = (ch, seq)) PACKAGE_STATUS_FINISHED (sl_items l)")
    case None
    then have "find (\<lambda>i. pkt_key i = (ch, seq)) (sl_items l) = None" by (simp only: mark_first_key(1))
    with None show thesis by (intro missing) (simp_all add: unfold abs plist_abs_def)
  next
    case (Some items)
    have "find (\<lambda>i. pkt_key i = (ch, seq)) (sl_items l) \<noteq> None" using Some mark_first_key(1) by (metis option.distinct(1))
    moreover have "plist_abs (l\<lparr>sl_items := items\<rparr>) = (plist_abs l)((ch, seq) := Some PACKAGE_STATUS_FINISHED)"
      using mark_first_find [OF Some] by (auto simp: plist_abs_def fun_eq_iff)
    ultimately show thesis
      using put [OF plist_mark [OF l(2) Some]] Some by (intro set) (auto simp: unfold abs plist_abs_def)
  qed
qed

lemma DelPendingPacketbyChannelId_eq:
  assumes inv: "pend_inv type g"
  shows "pend_inv type (DelPendingPacketbyChannelId True ch seq type g)"
    "pend_abs type (DelPendingPacketbyChannelId True ch seq type g) = (pend_abs type g)((ch, seq) := None)"
proof -
  obtain l where l: "g ! nat type = Some l" "plist_wf l" "nat type < length g"
    and put: "\<And>l'. plist_wf l' \<Longrightarrow> pend_inv type (g[nat type := Some l']) \<and> pend_abs type (g[nat type := Some l']) = plist_abs l'"
    and abs: "pend_abs type g = plist_abs l" by (rule pend_inv_list [OF inv]) blast
  note unfold = DelPendingPacketbyChannelId_def legal [OF inv] l(1) pkt_match_key
  have "pend_inv type (DelPendingPacketbyChannelId True ch seq type g) \<and>
    pend_abs type (DelPendingPacketbyChannelId True ch seq type g) = (pend_abs type g)((ch, seq) := None)"
  proof (cases "find (\<lambda>i. pkt_key i = (ch, seq)) (sl_items l)")
    case None
    then have "plist_abs l (ch, seq) = None" by (simp add: plist_abs_def)
    with None inv show ?thesis by (auto simp: unfold abs fun_eq_iff)
  next
    case (Some i)
    then have i: "i \<in> set (sl_items l)" "pkt_key i = (ch, seq)" by (auto dest: find_SomeD)
    from Some put [OF plist_delete(1) [OF l(2) i(1)]] plist_delete(2) [OF l(2) i(1)] i(2) show ?thesis
      by (simp add: unfold abs)
  qed
  then show "pend_inv type (DelPendingPacketbyChannelId True ch seq type g)"
    "pend_abs type (DelPendingPacketbyChannelId True ch seq type g) = (pend_abs type g)((ch, seq) := None)" by auto
qed

interpretation tpend: pending_table "pend_inv type" "pend_abs type" PACKAGE_STATUS_PENDING
  "pend_add ok type" "pend_fin type" "pend_del type" for ok type
proof
  fix g g' :: pending_lists and k :: "int \<times> int" and st b
  assume inv: "pend_inv type g"
  obtain ch seq where k: "k = (ch, seq)" by (cases k)
  show "pend_inv type g' \<and> (b \<longrightarrow> pend_abs type g k = None) \<and>
      pend_abs type g' = (if b then (pend_abs type g)(k := Some PACKAGE_STATUS_PENDING) else pend_abs type g)"
    if "pend_add ok type k g = (b, g')"
    using inv that inv by (cases rule: AddPendingPacket_cases [where ok = ok and ch = ch and seq = seq]) (auto simp: pend_add_def k)
  show "pend_inv type g' \<and> (b \<longrightarrow> pend_abs type g k \<noteq> None) \<and>
      pend_abs type g' = (if b then (pend_abs type g)(k := Some st) else pend_abs type g)"
    if "pend_fin type k st g = (b, g')"
    using inv that inv by (cases rule: SetPendingPacket_cases [where ch = ch and seq = seq]) (auto simp: pend_fin_def k split: if_splits)
  show "pend_inv type (pend_del type k g) \<and> pend_abs type (pend_del type k g) = (pend_abs type g)(k := None)"
    using DelPendingPacketbyChannelId_eq [OF inv] by (simp add: pend_del_def k)
qed

lemma PendingInit_inv:
  assumes "PendingInit createOk type g0 = (SOFTBUS_OK, g)" "length g0 = 3"
  shows "pend_inv type g" "pend_abs type g k = None"
proof -
  have type: "0 \<le> type" "type < PENDING_TYPE_BUTT"
    and g: "g = g0[nat type := Some \<lparr>sl_items = [], sl_cnt = 0, sl_next = 0\<rparr>]"
    using assms(1) by (auto simp: PendingInit_def IsPendingListTypeLegal_def Let_def split: if_splits)
  have "nat type < length g0" using type assms(2) by simp
  then show "pend_inv type g" "pend_abs type g k = None"
    using type assms(2) by (simp_all add: g pend_inv_def plist_wf_def pend_abs_def plist_abs_def)
qed

section \<open>Waiting for the reply\<close>

lemma formalize_loop_time:
  "0 \<le> usec \<Longrightarrow> formalize_loop (sec, usec) = (sec + usec div MAX_US, usec mod MAX_US)"
proof (induction "(sec, usec)" arbitrary: sec usec rule: formalize_loop.induct)
  case (1 sec usec)
  show ?case
  proof (cases "usec \<ge> MAX_US")
    case True
    have "(usec - MAX_US) div MAX_US = usec div MAX_US - 1" "(usec - MAX_US) mod MAX_US = usec mod MAX_US"
      by (simp_all add: div_diff minus_mod_self2)
    with 1 True show ?thesis by simp
  next
    case False
    with 1 show ?thesis by simp
  qed
qed

lemma deref_item_find:
  assumes "pend_inv type g" "GetPendingPacket True ch seq type g = Some item"
  shows "deref_item (pi_addr item) type g = Some item" "pend_abs type g (ch, seq) = Some (pi_status item)"
proof -
  obtain l where l: "g ! nat type = Some l" "plist_wf l" and abs: "pend_abs type g = plist_abs l"
    by (rule pend_inv_list [OF assms(1)]) blast
  have find: "find (\<lambda>i. pkt_key i = (ch, seq)) (sl_items l) = Some item"
    using assms(2) by (simp add: GetPendingPacket_def legal [OF assms(1)] l(1) pkt_match_key)
  then have "item \<in> set (sl_items l)" by (auto dest: find_SomeD)
  then show "deref_item (pi_addr item) type g = Some item"
    using l(2) by (simp add: deref_item_def l(1) plist_wf_def find_key_in)
  show "pend_abs type g (ch, seq) = Some (pi_status item)" by (simp add: abs plist_abs_def find)
qed

lemma GetPendingPacket_Some:
  assumes "pend_inv type g" "pend_abs type g (ch, seq) = Some st"
  obtains item where "GetPendingPacket True ch seq type g = Some item" "pi_status item = st"
proof -
  obtain l where l: "g ! nat type = Some l" and abs: "pend_abs type g = plist_abs l"
    by (rule pend_inv_list [OF assms(1)]) blast
  with assms(2) that show thesis
    by (auto simp: GetPendingPacket_def legal [OF assms(1)] pkt_match_key plist_abs_def)
qed

text \<open>The node leaves the list when the wait is over.\<close>

lemma ProcPendingPacket_ends:
  assumes inv: "pend_inv type g" and item: "GetPendingPacket True ch seq type g = Some item"
    and ends: "proc_wait ticks (pi_addr item) type (FormalizeTimeFormat now type) g = Some (Inr (st, g))"
  shows "\<exists>g'. ProcPendingPacket (\<lambda>_. True) now ticks ch seq type g =
      Some (Inr (if st = PACKAGE_STATUS_FINISHED then SOFTBUS_OK else SOFTBUS_TIMOUT, g')) \<and>
    pend_inv type g' \<and> pend_abs type g' = (pend_abs type g)((ch, seq) := None)"
proof -
  obtain l where l: "g ! nat type = Some l" "plist_wf l"
    and put: "\<And>l'. plist_wf l' \<Longrightarrow> pend_inv type (g[nat type := Some l']) \<and> pend_abs type (g[nat type := Some l']) = plist_abs l'"
    and abs: "pend_abs type g = plist_abs l" by (rule pend_inv_list [OF inv]) blast
  have "find (\<lambda>i. pkt_key i = (ch, seq)) (sl_items l) = Some item"
    using item by (simp add: GetPendingPacket_def legal [OF inv] l(1) pkt_match_key)
  then have i: "item \<in> set (sl_items l)" "pkt_key item = (ch, seq)" by (auto dest: find_SomeD)
  show ?thesis
    using put [OF plist_delete(1) [OF l(2) i(1)]] plist_delete(2) [OF l(2) i(1)] i(2) item ends
    by (simp add: ProcPendingPacket_def legal [OF inv] l(1) abs Let_def)
qed

lemma proc_wait_timeout:
  assumes "deref_item addr type g = Some item" "pi_status item = PACKAGE_STATUS_PENDING"
    and "\<forall>(t, g') \<in> set ticks. g' = g" "\<exists>(t, g') \<in> set ticks. \<not> TimeBefore t out"
  shows "proc_wait ticks addr type out g = Some (Inr (PACKAGE_STATUS_PENDING, g))"
  using assms(3,4)
proof (induction ticks)
  case (Cons tick ticks)
  obtain t g' where tick: "tick = (t, g')" by (cases tick)
  with Cons assms(1,2) show ?case by (subst proc_wait.simps) auto
qed simp

lemmas pending_eval = PendingInit_def AddPendingPacket_def SetPendingPacket_def DelPendingPacketbyChannelId_def ProcPendingPacket_def
  IsPendingListTypeLegal_def CreatePendingItem_def pkt_match_def pend_add_def pend_fin_def pend_del_def GetPendingPacket_def
  pend_abs_def plist_abs_def pkt_key_def list_delete_def mark_first_def deref_item_def TimeBefore_def FormalizeTimeFormat_def u32_def

section \<open>Properties\<close>

text \<open>
  C27: The pending list is a set with an exact count.  From \<open>PendingInit\<close> on, through any sequence of add, set
  and delete calls, no channel and sequence number is listed twice and \<open>cnt\<close> is the length of the list.
\<close>

theorem pending_unique:
  assumes "PendingInit createOk type g0 = (SOFTBUS_OK, g)" "length g0 = 3"
    and "fold (pending_step (pend_add ok type) (pend_fin type) (pend_del type)) ops g ! nat type = Some l"
  shows "distinct (map pkt_key (sl_items l)) \<and> sl_cnt l = length (sl_items l) mod 2 ^ 32"
  using tpend.run_invar [OF PendingInit_inv(1) [OF assms(1,2)], of ok ops] assms(3)
  by (auto simp: pend_inv_def plist_wf_def)

theorem pending_unique_witness:
  "\<exists>l. fold (pending_step (pend_add True 1) (pend_fin 1) (pend_del 1)) [PAdd (4, 7), PAdd (4, 7), PFin (4, 7) PACKAGE_STATUS_FINISHED, PAdd (5, 1)]
      (snd (PendingInit True 1 [None, None, None])) ! nat 1 = Some l \<and>
    distinct (map pkt_key (sl_items l)) \<and> sl_cnt l = length (sl_items l) mod 2 ^ 32"
proof -
  have init: "PendingInit True 1 [None, None, None] = (SOFTBUS_OK, snd (PendingInit True 1 [None, None, None]))" by (simp add: pending_eval)
  let ?g = "fold (pending_step (pend_add True 1) (pend_fin 1) (pend_del 1)) [PAdd (4, 7), PAdd (4, 7), PFin (4, 7) PACKAGE_STATUS_FINISHED, PAdd (5, 1)]
      (snd (PendingInit True 1 [None, None, None]))"
  have "pend_inv 1 ?g" by (intro tpend.run_invar PendingInit_inv(1) [OF init]) simp
  then obtain l where "?g ! nat 1 = Some l" by (auto simp: pend_inv_def)
  with pending_unique [OF init _ this] show ?thesis by auto
qed

text \<open>
  C22: A reply reaches its waiter.  Once a packet is registered and its reply recorded, whatever happens to
  other packets before and after, the waiter returns \<open>SOFTBUS_OK\<close> without waiting and takes exactly its own
  entry off the list.
\<close>

theorem pending_reply_delivered:
  assumes "pend_inv type g" "pend_add ok type (ch, seq) g = (True, g1)" "\<forall>op \<in> set ops1. pop_key op \<noteq> (ch, seq)"
    and "pend_fin type (ch, seq) PACKAGE_STATUS_FINISHED
        (fold (pending_step (pend_add ok type) (pend_fin type) (pend_del type)) ops1 g1) = (True, g2)"
      "\<forall>op \<in> set ops2. pop_key op \<noteq> (ch, seq)"
    and "g3 = fold (pending_step (pend_add ok type) (pend_fin type) (pend_del type)) ops2 g2"
  shows "\<exists>g'. ProcPendingPacket (\<lambda>_. True) now ticks ch seq type g3 = Some (Inr (SOFTBUS_OK, g')) \<and>
    pend_abs type g' = (pend_abs type g3)((ch, seq) := None)"
proof -
  have fin: "pend_abs type g3 (ch, seq) = Some PACKAGE_STATUS_FINISHED"
    using tpend.completed [OF assms(1-5)] assms(6) by simp
  have inv: "pend_inv type g3"
    using tpend.add_pair [OF assms(1), of ok "(ch, seq)"] tpend.run_invar tpend.fin_pair assms(2,4,6) by (metis snd_conv)
  obtain item where item: "GetPendingPacket True ch seq type g3 = Some item" "pi_status item = PACKAGE_STATUS_FINISHED"
    by (rule GetPendingPacket_Some [OF inv fin])
  have "proc_wait ticks (pi_addr item) type (FormalizeTimeFormat now type) g3 = Some (Inr (PACKAGE_STATUS_FINISHED, g3))"
    using deref_item_find(1) [OF inv item(1)] item(2) by (subst proc_wait.simps) simp
  from ProcPendingPacket_ends [OF inv item(1) this] show ?thesis by auto
qed

theorem pending_reply_delivered_witness:
  "\<exists>g'. ProcPendingPacket (\<lambda>_. True) (5, 0) [] 4 7 1
      (snd (pend_fin 1 (4, 7) PACKAGE_STATUS_FINISHED (snd (pend_add True 1 (4, 7) (snd (PendingInit True 1 [None, None, None])))))) =
    Some (Inr (SOFTBUS_OK, g'))"
proof -
  let ?g = "snd (PendingInit True 1 [None, None, None])"
  let ?g1 = "snd (pend_add True 1 (4, 7) ?g)"
  have init: "PendingInit True 1 [None, None, None] = (SOFTBUS_OK, ?g)"
    and add: "pend_add True 1 (4, 7) ?g = (True, ?g1)"
    and fin: "pend_fin 1 (4, 7) PACKAGE_STATUS_FINISHED ?g1 = (True, snd (pend_fin 1 (4, 7) PACKAGE_STATUS_FINISHED ?g1))"
    by (simp_all add: pending_eval)
  have inv: "pend_inv 1 ?g" by (rule PendingInit_inv(1) [OF init]) simp
  from pending_reply_delivered [OF inv add, of "[]" "snd (pend_fin 1 (4, 7) PACKAGE_STATUS_FINISHED ?g1)" "[]" _ "(5, 0)" "[]"] fin
  show ?thesis by auto
qed

text \<open>
  C23: A waiter gives up.  If no reply comes and the clock passes the deadline, \<open>ProcPendingPacket\<close> returns
  \<open>SOFTBUS_TIMOUT\<close> with its entry removed and every other entry untouched.
\<close>

theorem pending_timeout:
  assumes "pend_inv type g" "pend_abs type g (ch, seq) = Some PACKAGE_STATUS_PENDING"
    and "\<forall>(t, g') \<in> set ticks. g' = g" "\<exists>(t, g') \<in> set ticks. \<not> TimeBefore t (FormalizeTimeFormat now type)"
  shows "\<exists>g'. ProcPendingPacket (\<lambda>_. True) now ticks ch seq type g = Some (Inr (SOFTBUS_TIMOUT, g')) \<and>
    pend_abs type g' = (pend_abs type g)((ch, seq) := None)"
proof -
  obtain item where item: "GetPendingPacket True ch seq type g = Some item" "pi_status item = PACKAGE_STATUS_PENDING"
    by (rule GetPendingPacket_Some [OF assms(1,2)])
  from proc_wait_timeout [OF deref_item_find(1) [OF assms(1) item(1)] item(2) assms(3,4)]
  show ?thesis using ProcPendingPacket_ends [OF assms(1) item(1)] by fastforce
qed

theorem pending_timeout_witness:
  "\<exists>g'. ProcPendingPacket (\<lambda>_. True) (5, 999999)
      [((5, 999999), snd (pend_add True 2 (4, 7) (snd (PendingInit True 2 [None, None, None])))),
       ((6, 149999), snd (pend_add True 2 (4, 7) (snd (PendingInit True 2 [None, None, None]))))] 4 7 2
      (snd (pend_add True 2 (4, 7) (snd (PendingInit True 2 [None, None, None])))) = Some (Inr (SOFTBUS_TIMOUT, g'))"
proof -
  let ?g = "snd (PendingInit True 2 [None, None, None])"
  have init: "PendingInit True 2 [None, None, None] = (SOFTBUS_OK, ?g)" by (simp add: pending_eval)
  have inv: "pend_inv 2 (snd (pend_add True 2 (4, 7) ?g))"
    using tpend.add_pair PendingInit_inv(1) [OF init] by simp
  have "pend_abs 2 (snd (pend_add True 2 (4, 7) ?g)) (4, 7) = Some PACKAGE_STATUS_PENDING" by (simp add: pending_eval)
  moreover have "\<not> TimeBefore (6, 149999) (FormalizeTimeFormat (5, 999999) 2)" by (simp add: pending_eval)
  ultimately show ?thesis
    using pending_timeout [OF inv, of 4 7 "[((5, 999999), snd (pend_add True 2 (4, 7) ?g)), ((6, 149999), snd (pend_add True 2 (4, 7) ?g))]" "(5, 999999)"]
    by auto
qed

section \<open>A node freed while its waiter sleeps\<close>

text \<open>
  \<open>DelPendingPacketbyChannelId\<close> frees the node of a waiter that is inside its condition wait; the waiter then
  reads the freed node.
\<close>

lemma pending_delete_dangling:
  "ProcPendingPacket (\<lambda>_. True) (5, 0)
      [((5, 1), pend_del 1 (4, 7) (snd (pend_add True 1 (4, 7) (snd (PendingInit True 1 [None, None, None])))))] 4 7 1
      (snd (pend_add True 1 (4, 7) (snd (PendingInit True 1 [None, None, None])))) = Some (Inl InvalidPointer)"
  by (simp add: pending_eval)

end
