(* ===== verification/Br_Pending.thy ===== *)
theory Br_Pending
  imports Pending_Table Conn_Common
begin

text \<open>
  The pending packets of the BR connection, \<^verbatim>\<open>core/connection/br/src/softbus_conn_br_pending_packet.c\<close>: a
  request registers its connection and sequence number, the handler of the response sets it, and the requester
  waits and takes the entry off the list.
\<close>

section \<open>Definitions\<close>

abbreviation SOFTBUS_ALREADY_EXISTED :: int where "SOFTBUS_ALREADY_EXISTED \<equiv> - 426442726"
abbreviation SOFTBUS_ALREADY_TRIGGERED :: int where "SOFTBUS_ALREADY_TRIGGERED \<equiv> - 426442722"
abbreviation SOFTBUS_CONN_BR_SET_PENDING_PACKET_ERR :: int where "SOFTBUS_CONN_BR_SET_PENDING_PACKET_ERR \<equiv> - 425918351"

record 'd PendingPacket =
  pp_addr :: nat
  pp_id :: nat
  pp_seq :: int
  pp_data :: "'d option"
  pp_finded :: bool

record 'd br_pending =
  bp_list :: "'d PendingPacket list"
  bp_next :: nat

definition packet_match :: "nat \<Rightarrow> int \<Rightarrow> 'd PendingPacket \<Rightarrow> bool" where
  "packet_match ident seq p = (pp_id p = ident \<and> pp_seq p = seq)"

definition ConnBrCreateBrPendingPacket ::
  "bool \<Rightarrow> bool \<Rightarrow> int \<Rightarrow> int \<Rightarrow> nat \<Rightarrow> int \<Rightarrow> 'd br_pending \<Rightarrow> int \<times> 'd br_pending" where
  "ConnBrCreateBrPendingPacket lockOk callocOk mutexInit condInit ident seq s =
     (if \<not> lockOk then (SOFTBUS_LOCK_ERR, s)
      else if list_ex (packet_match ident seq) (bp_list s) then (SOFTBUS_ALREADY_EXISTED, s)
      else if \<not> callocOk then (SOFTBUS_MALLOC_ERR, s)
      else if mutexInit \<noteq> SOFTBUS_OK then (SOFTBUS_LOCK_ERR, s)
      else if condInit \<noteq> SOFTBUS_OK then (SOFTBUS_NO_INIT, s)
      else (SOFTBUS_OK, \<lparr>bp_list = bp_list s @ [\<lparr>pp_addr = bp_next s, pp_id = ident, pp_seq = seq, pp_data = None, pp_finded = False\<rparr>],
                         bp_next = Suc (bp_next s)\<rparr>))"

definition remove_addr :: "nat \<Rightarrow> 'd br_pending \<Rightarrow> 'd br_pending" where
  "remove_addr addr s = s\<lparr>bp_list := filter (\<lambda>p. pp_addr p \<noteq> addr) (bp_list s)\<rparr>"

definition ConnBrDelBrPendingPacket :: "bool \<Rightarrow> nat \<Rightarrow> int \<Rightarrow> 'd br_pending \<Rightarrow> 'd br_pending" where
  "ConnBrDelBrPendingPacket lockOk ident seq s =
     (if \<not> lockOk then s
      else case find (packet_match ident seq) (bp_list s) of None \<Rightarrow> s | Some p \<Rightarrow> remove_addr (pp_addr p) s)"

definition deref_packet :: "nat \<Rightarrow> 'd br_pending \<Rightarrow> 'd PendingPacket option" where
  "deref_packet addr s = find (\<lambda>p. pp_addr p = addr) (bp_list s)"

text \<open>The deadline of the wait.\<close>

definition br_outtime :: "int \<times> int \<Rightarrow> nat \<Rightarrow> int \<times> int" where
  "br_outtime now waitMillis =
     (let time = fst now * 1000 * 1000 + snd now + int waitMillis * 1000
      in (time sdiv 1000 sdiv 1000, time smod (1000 * 1000)))"

text \<open>
  The list is walked to its end, so the last match counts.  \<open>condWait\<close> is the table after the wait with the
  given deadline; its return code is ignored.  The node is looked up again after the wait and before it is
  freed.
\<close>

definition ConnBrGetBrPendingPacket ::
  "(int \<times> int \<Rightarrow> 'd br_pending \<Rightarrow> 'd br_pending) \<Rightarrow> int \<times> int \<Rightarrow> (nat \<Rightarrow> bool) \<Rightarrow> nat \<Rightarrow> int \<Rightarrow> nat \<Rightarrow> bool \<Rightarrow> 'd br_pending \<Rightarrow>
   fault + int \<times> 'd option option \<times> 'd br_pending" where
  "ConnBrGetBrPendingPacket condWait now locks ident seq waitMillis dataNonNull s =
     (if \<not> dataNonNull then Inr (SOFTBUS_INVALID_PARAM, None, s)
      else if \<not> locks 0 then Inr (SOFTBUS_LOCK_ERR, None, s)
      else case find (packet_match ident seq) (rev (bp_list s)) of
             None \<Rightarrow> Inr (SOFTBUS_NOT_FIND, None, s)
           | Some pending \<Rightarrow>
               let addr = pp_addr pending
               in if \<not> locks 1 then Inr (SOFTBUS_LOCK_ERR, None, remove_addr addr s)
                  else if pp_finded pending then Inr (SOFTBUS_ALREADY_TRIGGERED, Some (pp_data pending), remove_addr addr s)
                  else
                    let s' = condWait (br_outtime now waitMillis) s
                    in case deref_packet addr s' of
                         None \<Rightarrow> Inl InvalidPointer
                       | Some p \<Rightarrow>
                           if pp_finded p then Inr (SOFTBUS_OK, Some (pp_data p), remove_addr addr s')
                           else Inr (SOFTBUS_TIMOUT, None, remove_addr addr s'))"

definition ConnBrSetBrPendingPacket ::
  "bool \<Rightarrow> bool \<Rightarrow> nat \<Rightarrow> int \<Rightarrow> 'd option \<Rightarrow> 'd br_pending \<Rightarrow> int \<times> 'd br_pending" where
  "ConnBrSetBrPendingPacket lockOk itemLockOk ident seq data s =
     (if \<not> lockOk then (SOFTBUS_LOCK_ERR, s)
      else case update_first (packet_match ident seq) (\<lambda>p. p\<lparr>pp_finded := True, pp_data := data\<rparr>) (bp_list s) of
             None \<Rightarrow> (SOFTBUS_CONN_BR_SET_PENDING_PACKET_ERR, s)
           | Some items \<Rightarrow>
               if \<not> itemLockOk then (SOFTBUS_LOCK_ERR, s) else (SOFTBUS_OK, s\<lparr>bp_list := items\<rparr>))"

section \<open>Invariant and abstraction\<close>

definition packet_key :: "'d PendingPacket \<Rightarrow> nat \<times> int" where
  "packet_key p = (pp_id p, pp_seq p)"

definition bp_inv :: "'d br_pending \<Rightarrow> bool" where
  "bp_inv s \<longleftrightarrow> distinct (map packet_key (bp_list s)) \<and> distinct (map pp_addr (bp_list s)) \<and> (\<forall>p \<in> set (bp_list s). pp_addr p < bp_next s)"

definition bp_abs :: "'d br_pending \<Rightarrow> nat \<times> int \<Rightarrow> (bool \<times> 'd option) option" where
  "bp_abs s k = map_option (\<lambda>p. (pp_finded p, pp_data p)) (find (\<lambda>p. packet_key p = k) (bp_list s))"

lemma packet_match_key: "packet_match ident seq = (\<lambda>p. packet_key p = (ident, seq))"
  by (auto simp: packet_match_def packet_key_def fun_eq_iff)

lemma find_append_node:
  "find P (xs @ [x]) = (case find P xs of Some y \<Rightarrow> Some y | None \<Rightarrow> if P x then Some x else None)"
  by (induction xs) auto

lemma find_rev_key: "distinct (map key xs) \<Longrightarrow> find (\<lambda>x. key x = k) (rev xs) = find (\<lambda>x. key x = k) xs"
proof (induction xs)
  case (Cons a xs)
  have "find (\<lambda>x. key x = k) xs = None" if "key a = k"
    using Cons.prems that by (fastforce simp: find_None_iff image_iff)
  with Cons show ?case by (auto simp: find_append_node split: option.split)
qed simp

lemma bp_create:
  assumes inv: "bp_inv s" and res: "ConnBrCreateBrPendingPacket True ok m c ident seq s = (ret, s')"
  shows "bp_inv s' \<and> (if ret = SOFTBUS_OK then bp_abs s (ident, seq) = None \<and> bp_abs s' = (bp_abs s)((ident, seq) := Some (False, None)) else s' = s)"
proof (cases "bp_abs s (ident, seq) = None")
  case True
  then have none: "find (\<lambda>p. packet_key p = (ident, seq)) (bp_list s) = None" by (simp add: bp_abs_def)
  then have new: "(ident, seq) \<notin> packet_key ` set (bp_list s)" by (auto simp: find_None_iff)
  let ?p = "\<lparr>pp_addr = bp_next s, pp_id = ident, pp_seq = seq, pp_data = None, pp_finded = False\<rparr>"
  have "bp_inv \<lparr>bp_list = bp_list s @ [?p], bp_next = Suc (bp_next s)\<rparr>"
    using inv new by (auto simp: bp_inv_def packet_key_def less_SucI)
  moreover have "bp_abs \<lparr>bp_list = bp_list s @ [?p], bp_next = Suc (bp_next s)\<rparr> = (bp_abs s)((ident, seq) := Some (False, None))"
    using none by (auto simp: bp_abs_def find_append_node packet_key_def fun_eq_iff split: option.split)
  ultimately show ?thesis
    using res inv True by (auto simp: ConnBrCreateBrPendingPacket_def split: if_splits)
next
  case False
  then have "list_ex (packet_match ident seq) (bp_list s)"
    by (auto simp: bp_abs_def packet_match_key list_ex_iff dest: find_SomeD)
  with res inv show ?thesis by (auto simp: ConnBrCreateBrPendingPacket_def)
qed

lemma bp_remove:
  assumes inv: "bp_inv s" and p: "p \<in> set (bp_list s)"
  shows "bp_inv (remove_addr (pp_addr p) s) \<and> bp_abs (remove_addr (pp_addr p) s) = (bp_abs s)(packet_key p := None)"
proof -
  have dist: "distinct (map pp_addr (bp_list s))" "distinct (map packet_key (bp_list s))" using inv by (auto simp: bp_inv_def)
  show ?thesis
    using inv by (auto simp: bp_inv_def remove_addr_def distinct_map_filter bp_abs_def fun_eq_iff remove_node_find [OF dist p])
qed

lemma bp_delete:
  assumes inv: "bp_inv s"
  shows "bp_inv (ConnBrDelBrPendingPacket True ident seq s) \<and>
    bp_abs (ConnBrDelBrPendingPacket True ident seq s) = (bp_abs s)((ident, seq) := None)"
proof (cases "find (\<lambda>p. packet_key p = (ident, seq)) (bp_list s)")
  case None
  then have "bp_abs s (ident, seq) = None" by (simp add: bp_abs_def)
  with None inv show ?thesis by (auto simp: ConnBrDelBrPendingPacket_def packet_match_key fun_eq_iff)
next
  case (Some p)
  then have "p \<in> set (bp_list s)" "packet_key p = (ident, seq)" by (auto dest: find_SomeD)
  with Some bp_remove [OF inv] show ?thesis by (auto simp: ConnBrDelBrPendingPacket_def packet_match_key)
qed

lemma bp_set:
  assumes inv: "bp_inv s" and res: "ConnBrSetBrPendingPacket True True ident seq d s = (ret, s')"
  shows "bp_inv s' \<and> (ret = SOFTBUS_OK \<longleftrightarrow> bp_abs s (ident, seq) \<noteq> None) \<and>
    (if ret = SOFTBUS_OK then bp_abs s' = (bp_abs s)((ident, seq) := Some (True, d)) else s' = s)"
proof (cases "update_first (\<lambda>p. packet_key p = (ident, seq)) (\<lambda>p. p\<lparr>pp_finded := True, pp_data := d\<rparr>) (bp_list s)")
  case None
  then have "bp_abs s (ident, seq) = None" by (simp add: update_first_None bp_abs_def)
  with None res inv show ?thesis by (auto simp: ConnBrSetBrPendingPacket_def packet_match_key)
next
  case (Some items)
  have maps: "map packet_key items = map packet_key (bp_list s)" "map pp_addr items = map pp_addr (bp_list s)"
    by (rule update_first_map [OF Some]; simp add: packet_key_def)+
  have "\<forall>a \<in> pp_addr ` set (bp_list s). a < bp_next s" using inv by (auto simp: bp_inv_def)
  moreover have "pp_addr ` set items = pp_addr ` set (bp_list s)" by (metis maps(2) set_map)
  ultimately have "\<forall>p \<in> set items. pp_addr p < bp_next s" by blast
  then have "bp_inv (s\<lparr>bp_list := items\<rparr>)" using inv maps by (simp add: bp_inv_def)
  moreover have some: "find (\<lambda>p. packet_key p = (ident, seq)) (bp_list s) \<noteq> None"
    using Some update_first_None by (metis option.distinct(1))
  moreover have "bp_abs (s\<lparr>bp_list := items\<rparr>) = (bp_abs s)((ident, seq) := Some (True, d))"
  proof
    fix k
    have "find (\<lambda>p. packet_key p = k) items = (if k = (ident, seq)
        then map_option (\<lambda>p. p\<lparr>pp_finded := True, pp_data := d\<rparr>) (find (\<lambda>p. packet_key p = (ident, seq)) (bp_list s))
        else find (\<lambda>p. packet_key p = k) (bp_list s))"
      by (rule update_first_find [OF Some]) (simp add: packet_key_def)
    then show "bp_abs (s\<lparr>bp_list := items\<rparr>) k = ((bp_abs s)((ident, seq) := Some (True, d))) k"
      using some by (auto simp: bp_abs_def)
  qed
  ultimately show ?thesis
    using Some res by (auto simp: ConnBrSetBrPendingPacket_def packet_match_key bp_abs_def)
qed

text \<open>The operations with every allocation and lock granted, and the contract they meet.\<close>

definition bp_add :: "nat \<times> int \<Rightarrow> 'd br_pending \<Rightarrow> bool \<times> 'd br_pending" where
  "bp_add k s = (case ConnBrCreateBrPendingPacket True True SOFTBUS_OK SOFTBUS_OK (fst k) (snd k) s of (ret, s') \<Rightarrow> (ret = SOFTBUS_OK, s'))"

definition bp_fin :: "nat \<times> int \<Rightarrow> bool \<times> 'd option \<Rightarrow> 'd br_pending \<Rightarrow> bool \<times> 'd br_pending" where
  "bp_fin k v s =
     (if fst v then case ConnBrSetBrPendingPacket True True (fst k) (snd k) (snd v) s of (ret, s') \<Rightarrow> (ret = SOFTBUS_OK, s')
      else (False, s))"

definition bp_del :: "nat \<times> int \<Rightarrow> 'd br_pending \<Rightarrow> 'd br_pending" where
  "bp_del k s = ConnBrDelBrPendingPacket True (fst k) (snd k) s"

interpretation bpend: pending_table bp_inv bp_abs "(False, None)" bp_add bp_fin bp_del
proof
  fix s k ok and s' :: "'d br_pending"
  assume inv: "bp_inv s" and add: "bp_add k s = (ok, s')"
  obtain ret where "ConnBrCreateBrPendingPacket True True SOFTBUS_OK SOFTBUS_OK (fst k) (snd k) s = (ret, s')" "ok = (ret = SOFTBUS_OK)"
    using add by (auto simp: bp_add_def split: prod.splits)
  with bp_create [OF inv this(1)] show "bp_inv s' \<and> (ok \<longrightarrow> bp_abs s k = None) \<and> bp_abs s' = (if ok then (bp_abs s)(k \<mapsto> (False, None)) else bp_abs s)"
    by (auto split: if_splits)
next
  fix s k v ok and s' :: "'d br_pending"
  assume inv: "bp_inv s" and fin: "bp_fin k v s = (ok, s')"
  show "bp_inv s' \<and> (ok \<longrightarrow> bp_abs s k \<noteq> None) \<and> bp_abs s' = (if ok then (bp_abs s)(k \<mapsto> v) else bp_abs s)"
  proof (cases "fst v")
    case True
    obtain ret where "ConnBrSetBrPendingPacket True True (fst k) (snd k) (snd v) s = (ret, s')" "ok = (ret = SOFTBUS_OK)"
      using fin True by (auto simp: bp_fin_def split: prod.splits)
    with bp_set [OF inv this(1)] True show ?thesis by (cases v) (auto split: if_splits)
  next
    case False
    with fin inv show ?thesis by (auto simp: bp_fin_def)
  qed
next
  fix s :: "'d br_pending" and k
  assume "bp_inv s"
  then show "bp_inv (bp_del k s) \<and> bp_abs (bp_del k s) = (bp_abs s)(k := None)"
    using bp_delete [of s "fst k" "snd k"] by (simp add: bp_del_def)
qed

text \<open>Operations on other keys leave the node of a key where it is.\<close>

definition bp_node :: "'d br_pending \<Rightarrow> nat \<times> int \<Rightarrow> 'd PendingPacket option" where
  "bp_node s k = find (\<lambda>p. packet_key p = k) (bp_list s)"

abbreviation bp_step :: "(nat \<times> int, bool \<times> 'd option) pop \<Rightarrow> 'd br_pending \<Rightarrow> 'd br_pending" where
  "bp_step \<equiv> pending_step bp_add bp_fin bp_del"

lemma bp_abs_node: "bp_abs s k = map_option (\<lambda>p. (pp_finded p, pp_data p)) (bp_node s k)"
  by (simp add: bp_abs_def bp_node_def)

lemma bp_node_fin:
  assumes "bp_inv s"
  shows "bp_node (snd (bp_fin k (True, d) s)) k' =
    (if k' = k then map_option (\<lambda>p. p\<lparr>pp_finded := True, pp_data := d\<rparr>) (bp_node s k) else bp_node s k')"
proof (cases "update_first (\<lambda>p. packet_key p = k) (\<lambda>p. p\<lparr>pp_finded := True, pp_data := d\<rparr>) (bp_list s)")
  case None
  then have "bp_node s k = None" by (simp add: update_first_None bp_node_def)
  with None show ?thesis by (simp add: bp_fin_def ConnBrSetBrPendingPacket_def packet_match_key)
next
  case (Some items)
  have "find (\<lambda>p. packet_key p = k') items = (if k' = k
      then map_option (\<lambda>p. p\<lparr>pp_finded := True, pp_data := d\<rparr>) (find (\<lambda>p. packet_key p = k) (bp_list s))
      else find (\<lambda>p. packet_key p = k') (bp_list s))"
    by (rule update_first_find [OF Some]) (simp add: packet_key_def)
  with Some show ?thesis by (simp add: bp_fin_def ConnBrSetBrPendingPacket_def packet_match_key bp_node_def)
qed

lemma bp_node_step:
  assumes inv: "bp_inv s" and other: "pop_key op \<noteq> k"
  shows "bp_node (bp_step op s) k = bp_node s k"
proof (cases op)
  case (PAdd k')
  with other show ?thesis
    by (auto simp: bp_add_def ConnBrCreateBrPendingPacket_def bp_node_def find_append_node packet_key_def split: option.split)
next
  case (PFin k' v)
  with other bp_node_fin [OF inv] show ?thesis by (cases "fst v"; cases v) (auto simp: bp_fin_def)
next
  case (PDel k')
  have dist: "distinct (map pp_addr (bp_list s))" "distinct (map packet_key (bp_list s))" using inv by (auto simp: bp_inv_def)
  show ?thesis
  proof (cases "find (\<lambda>p. packet_key p = k') (bp_list s)")
    case (Some p)
    then have "p \<in> set (bp_list s)" "packet_key p = k'" by (auto dest: find_SomeD)
    with PDel other Some show ?thesis
      by (simp add: bp_del_def ConnBrDelBrPendingPacket_def packet_match_key bp_node_def remove_addr_def remove_node_find [OF dist])
  qed (simp add: PDel bp_del_def ConnBrDelBrPendingPacket_def packet_match_key)
qed

lemma bp_node_run:
  "bp_inv s \<Longrightarrow> \<forall>op \<in> set ops. pop_key op \<noteq> k \<Longrightarrow> bp_node (fold bp_step ops s) k = bp_node s k"
  by (induction ops arbitrary: s) (simp_all add: bp_node_step bpend.step_invar)

section \<open>The waiter\<close>

lemma bp_node_deref:
  assumes "bp_inv s" "bp_node s k = Some p"
  shows "deref_packet (pp_addr p) s = Some p" "p \<in> set (bp_list s)" "packet_key p = k"
proof -
  show p: "p \<in> set (bp_list s)" "packet_key p = k" using assms(2) by (auto simp: bp_node_def dest: find_SomeD)
  show "deref_packet (pp_addr p) s = Some p"
    using assms(1) p by (simp add: deref_packet_def bp_inv_def find_key_in)
qed

lemma ConnBrGet_triggered:
  assumes inv: "bp_inv s" and node: "bp_node s (ident, seq) = Some p" "pp_finded p"
  shows "ConnBrGetBrPendingPacket condWait now (\<lambda>_. True) ident seq ms True s =
      Inr (SOFTBUS_ALREADY_TRIGGERED, Some (pp_data p), remove_addr (pp_addr p) s)"
proof -
  have "find (packet_match ident seq) (rev (bp_list s)) = Some p"
    using node inv by (simp add: packet_match_key bp_node_def find_rev_key bp_inv_def)
  with node(2) show ?thesis by (simp add: ConnBrGetBrPendingPacket_def)
qed

lemma ConnBrGet_waited:
  assumes inv: "bp_inv s" and node: "bp_node s (ident, seq) = Some p" "\<not> pp_finded p"
    and wait: "condWait (br_outtime now ms) s = s'" "bp_inv s'" "bp_node s' (ident, seq) = Some p'" "pp_addr p' = pp_addr p"
  shows "ConnBrGetBrPendingPacket condWait now (\<lambda>_. True) ident seq ms True s =
      Inr (if pp_finded p' then (SOFTBUS_OK, Some (pp_data p'), remove_addr (pp_addr p) s')
           else (SOFTBUS_TIMOUT, None, remove_addr (pp_addr p) s'))"
proof -
  have "find (packet_match ident seq) (rev (bp_list s)) = Some p"
    using node inv by (simp add: packet_match_key bp_node_def find_rev_key bp_inv_def)
  with node(2) wait(1,4) bp_node_deref(1) [OF wait(2,3)] show ?thesis
    by (simp add: ConnBrGetBrPendingPacket_def Let_def)
qed

lemma bp_add_node:
  assumes "bp_add k s = (True, s')" "bp_inv s"
  shows "bp_inv s'" "\<exists>p. bp_node s' k = Some p \<and> \<not> pp_finded p"
proof -
  have "bp_inv s' \<and> bp_abs s' k = Some (False, None)" using bpend.add_law [OF assms(2,1)] by simp
  then show "bp_inv s'" "\<exists>p. bp_node s' k = Some p \<and> \<not> pp_finded p" by (auto simp: bp_abs_node)
qed

section \<open>Properties\<close>

text \<open>
  C24: The response of the peer reaches the request it answers.  A request registers \<open>(ident, seq)\<close>; other
  requests come and go (\<open>ops1\<close>, \<open>ops2\<close>).  If the response is set before the waiter looks, the waiter returns at
  once with it; if it is set while the waiter sleeps, the waiter returns \<open>SOFTBUS_OK\<close> with it; if it is not
  set, the waiter returns \<open>SOFTBUS_TIMOUT\<close>.  In each case the entry is gone and every other one is as the
  others left it.
\<close>

theorem br_pending_answered:
  assumes inv: "bp_inv s" and add: "bp_add (ident, seq) s = (True, s1)"
    and others: "\<forall>op \<in> set ops1. pop_key op \<noteq> (ident, seq)" "\<forall>op \<in> set ops2. pop_key op \<noteq> (ident, seq)"
    and mid: "s2 = fold bp_step ops1 s1" "s3 = fold bp_step ops2 s2" "s4 = snd (bp_fin (ident, seq) (True, d) s3)"
  shows "(\<exists>t. ConnBrGetBrPendingPacket condWait now (\<lambda>_. True) ident seq ms True s4 = Inr (SOFTBUS_ALREADY_TRIGGERED, Some d, t) \<and>
      bp_abs t = (bp_abs s3)((ident, seq) := None)) \<and>
    (\<exists>t. ConnBrGetBrPendingPacket (\<lambda>_ _. s4) now (\<lambda>_. True) ident seq ms True s2 = Inr (SOFTBUS_OK, Some d, t) \<and>
      bp_abs t = (bp_abs s3)((ident, seq) := None)) \<and>
    (\<exists>t. ConnBrGetBrPendingPacket (\<lambda>_ _. s3) now (\<lambda>_. True) ident seq ms True s2 = Inr (SOFTBUS_TIMOUT, None, t) \<and>
      bp_abs t = (bp_abs s3)((ident, seq) := None))"
proof -
  obtain p where p: "bp_node s1 (ident, seq) = Some p" "\<not> pp_finded p" using bp_add_node [OF add inv] by auto
  have invs: "bp_inv s1" "bp_inv s2" "bp_inv s3" "bp_inv s4"
    using bp_add_node(1) [OF add inv] bpend.run_invar bpend.fin_pair mid by blast+
  have n2: "bp_node s2 (ident, seq) = Some p" and n3: "bp_node s3 (ident, seq) = Some p"
    using bp_node_run [OF invs(1) others(1)] bp_node_run [OF invs(2) others(2)] p(1) mid by auto
  let ?p = "p\<lparr>pp_finded := True, pp_data := d\<rparr>"
  have n4: "bp_node s4 (ident, seq) = Some ?p" using bp_node_fin [OF invs(3), of "(ident, seq)" d "(ident, seq)"] n3 mid(3) by simp
  have key: "packet_key p = (ident, seq)" "packet_key ?p = (ident, seq)" using bp_node_deref(3) invs n3 n4 by blast+
  have "bp_abs s4 = (bp_abs s3)((ident, seq) := Some (True, d))"
    using bp_node_fin [OF invs(3), of "(ident, seq)" d] n3 mid(3) by (auto simp: fun_eq_iff bp_abs_node)
  then have gone: "bp_abs (remove_addr (pp_addr p) s3) = (bp_abs s3)((ident, seq) := None)"
    "bp_abs (remove_addr (pp_addr p) s4) = (bp_abs s3)((ident, seq) := None)"
    using bp_remove [OF invs(3) bp_node_deref(2) [OF invs(3) n3]] bp_remove [OF invs(4) bp_node_deref(2) [OF invs(4) n4]] key by auto
  show ?thesis
    using ConnBrGet_triggered [OF invs(4) n4] gone
      ConnBrGet_waited [OF invs(2) n2 p(2), where condWait = "\<lambda>_ _. s4" and s' = s4 and p' = ?p] n4 invs(4)
      ConnBrGet_waited [OF invs(2) n2 p(2), where condWait = "\<lambda>_ _. s3" and s' = s3 and p' = p] n3 invs(3) p(2)
    by simp
qed

lemmas bp_eval = bp_add_def bp_fin_def bp_del_def ConnBrCreateBrPendingPacket_def ConnBrSetBrPendingPacket_def
  ConnBrDelBrPendingPacket_def packet_match_def ConnBrGetBrPendingPacket_def deref_packet_def remove_addr_def

theorem br_pending_answered_witness:
  "\<exists>t. ConnBrGetBrPendingPacket (\<lambda>_ _. snd (bp_fin (3, 9) (True, Some ''ack'') (snd (bp_add (3, 9) \<lparr>bp_list = [], bp_next = 0\<rparr>)))) (1, 2)
      (\<lambda>_. True) 3 9 500 True (snd (bp_add (3, 9) \<lparr>bp_list = [], bp_next = 0\<rparr>)) = Inr (SOFTBUS_OK, Some (Some ''ack''), t)"
proof -
  let ?s = "\<lparr>bp_list = [], bp_next = 0\<rparr> :: string br_pending"
  have inv: "bp_inv ?s" by (simp add: bp_inv_def)
  have add: "bp_add (3, 9) ?s = (True, snd (bp_add (3, 9) ?s))" by (simp add: bp_eval)
  show ?thesis
    using br_pending_answered [OF inv add, of "[]" "[]" "snd (bp_add (3, 9) ?s)" "snd (bp_add (3, 9) ?s)"
        "snd (bp_fin (3, 9) (True, Some ''ack'') (snd (bp_add (3, 9) ?s)))" "Some ''ack''" "\<lambda>_ t. t" "(1, 2)" 500]
    by auto
qed

section \<open>A node freed while its waiter sleeps\<close>

text \<open>
  \<open>ConnBrDelBrPendingPacket\<close> frees the node of a waiter that is inside its condition wait; the waiter then
  reads, and frees, the freed node.
\<close>

lemma br_pending_dangling:
  "ConnBrGetBrPendingPacket (\<lambda>_ t. bp_del (3, 9) t) (1, 2) (\<lambda>_. True) 3 9 500 True
      (snd (bp_add (3, 9) (\<lparr>bp_list = [], bp_next = 0\<rparr> :: string br_pending))) = Inl InvalidPointer"
  by (simp add: bp_eval)

end
