(* ===== verification/Json_Utils.thy ===== *)
theory Json_Utils
  imports Complex_Main Conn_Common
begin

text \<open>
  The number items of \<^verbatim>\<open>core/common/json_utils/softbus_json_utils.c\<close>.  A cJSON object is the list of its
  items, looked up by the first one with the key.  A number is held as a double, so an integer is rounded to 53
  significant bits when it is added, and cast back when it is read: a cast of a value outside the integer type
  is the outcome \<open>OutOfRangeCast\<close>.  Printing and parsing belong to the cJSON library and are parameters of the
  functions that use them.
\<close>

section \<open>Definitions\<close>

datatype cjson = JNumber rat | JString string | JOther

type_synonym json_object = "(string \<times> cjson) list"

text \<open>An integer as a double: the nearest value with 53 significant bits, ties to even.\<close>

fun bit_length :: "nat \<Rightarrow> nat" where
  "bit_length n = (if n = 0 then 0 else Suc (bit_length (n div 2)))"

declare bit_length.simps [simp del]

definition round_nat :: "nat \<Rightarrow> nat" where
  "round_nat n =
     (let k = bit_length n - 53; q = n div 2 ^ k; r = n mod 2 ^ k
      in if k = 0 then n
         else (if 2 * r > 2 ^ k \<or> (2 * r = 2 ^ k \<and> odd q) then q + 1 else q) * 2 ^ k)"

definition to_double :: "int \<Rightarrow> rat" where
  "to_double i = (if i < 0 then - of_nat (round_nat (nat (- i))) else of_nat (round_nat (nat i)))"

text \<open>A cast from double truncates towards zero.\<close>

definition truncate :: "rat \<Rightarrow> int" where
  "truncate x = (if x < 0 then \<lceil>x\<rceil> else \<lfloor>x\<rfloor>)"

definition double_cast :: "int \<Rightarrow> int \<Rightarrow> rat \<Rightarrow> fault + int" where
  "double_cast lo hi x = (if lo \<le> truncate x \<and> truncate x \<le> hi then Inr (truncate x) else Inl OutOfRangeCast)"

text \<open>Adding: the outcomes of the node allocation and of the insertion are \<open>al 0\<close> and \<open>al 1\<close>.\<close>

definition AddNumber16ToJsonObject :: "(nat \<Rightarrow> bool) \<Rightarrow> json_object \<Rightarrow> string \<Rightarrow> nat \<Rightarrow> bool \<times> json_object" where
  "AddNumber16ToJsonObject al json key num =
     (if \<not> al 0 then (False, json) else if \<not> al 1 then (False, json) else (True, json @ [(key, JNumber (to_double (int num)))]))"

definition AddNumberToJsonObject :: "(nat \<Rightarrow> bool) \<Rightarrow> json_object \<Rightarrow> string \<Rightarrow> int \<Rightarrow> bool \<times> json_object" where
  "AddNumberToJsonObject al json key num =
     (if \<not> al 0 then (False, json) else if \<not> al 1 then (False, json) else (True, json @ [(key, JNumber (to_double num))]))"

definition AddNumber64ToJsonObject :: "(nat \<Rightarrow> bool) \<Rightarrow> json_object \<Rightarrow> string \<Rightarrow> int \<Rightarrow> bool \<times> json_object" where
  "AddNumber64ToJsonObject al json key num =
     (if \<not> al 0 then (False, json) else if \<not> al 1 then (False, json) else (True, json @ [(key, JNumber (to_double num))]))"

text \<open>Reading: None when there is no such number, in which case the target is not written.\<close>

definition GetJsonObjectNumberItem :: "json_object \<Rightarrow> string \<Rightarrow> fault + int option" where
  "GetJsonObjectNumberItem json key =
     (case map_of json key of
        Some (JNumber x) \<Rightarrow> if x < 0 then Inr None else map_sum id Some (double_cast (- 2147483648) 2147483647 x)
      | _ \<Rightarrow> Inr None)"

definition GetJsonObjectSignedNumberItem :: "json_object \<Rightarrow> string \<Rightarrow> fault + int option" where
  "GetJsonObjectSignedNumberItem json key =
     (case map_of json key of
        Some (JNumber x) \<Rightarrow> map_sum id Some (double_cast (- 2147483648) 2147483647 x)
      | _ \<Rightarrow> Inr None)"

definition GetJsonObjectNumber16Item :: "json_object \<Rightarrow> string \<Rightarrow> fault + int option" where
  "GetJsonObjectNumber16Item json key =
     (case map_of json key of
        Some (JNumber x) \<Rightarrow> if x < 0 then Inr None else map_sum id Some (double_cast 0 65535 x)
      | _ \<Rightarrow> Inr None)"

definition GetJsonObjectNumber64Item :: "json_object \<Rightarrow> string \<Rightarrow> fault + int option" where
  "GetJsonObjectNumber64Item json key =
     (case map_of json key of
        Some (JNumber x) \<Rightarrow>
          if x < 0 then Inr None else map_sum id Some (double_cast (- 9223372036854775808) 9223372036854775807 x)
      | _ \<Rightarrow> Inr None)"

definition GetJsonObjectSignedNumber64Item :: "json_object \<Rightarrow> string \<Rightarrow> fault + int option" where
  "GetJsonObjectSignedNumber64Item json key =
     (case map_of json key of
        Some (JNumber x) \<Rightarrow> map_sum id Some (double_cast (- 9223372036854775808) 9223372036854775807 x)
      | _ \<Rightarrow> Inr None)"

section \<open>Lemmas\<close>

lemma bit_length_less: "n < 2 ^ bit_length n"
proof (induction n rule: bit_length.induct)
  case (1 n)
  show ?case
  proof (cases "n = 0")
    case False
    with 1 have "n div 2 < 2 ^ bit_length (n div 2)" by simp
    with False show ?thesis by (subst bit_length.simps) simp
  qed (simp add: bit_length.simps)
qed

lemma bit_length_le: "n < 2 ^ k \<Longrightarrow> bit_length n \<le> k"
proof (induction n arbitrary: k rule: bit_length.induct)
  case (1 n)
  show ?case
  proof (cases "n = 0")
    case False
    then obtain k' where k: "k = Suc k'" using 1(2) by (cases k) auto
    have "bit_length (n div 2) \<le> k'" using 1 False k by (intro 1(1)) auto
    with False k show ?thesis by (subst bit_length.simps) simp
  qed (simp add: bit_length.simps)
qed

text \<open>Integers of up to 53 bits are exact.\<close>

lemma round_nat_exact: "n \<le> 2 ^ 53 \<Longrightarrow> round_nat n = n"
proof (cases "n = 2 ^ 53")
  case True
  have "bit_length (2 ^ 53) = 54" by (simp add: bit_length.simps)
  then show ?thesis by (simp add: True round_nat_def)
next
  case False
  assume "n \<le> 2 ^ 53"
  with False have "bit_length n \<le> 53" by (intro bit_length_le) simp
  then show ?thesis by (simp add: round_nat_def)
qed

lemma to_double_exact: "\<bar>i\<bar> \<le> 2 ^ 53 \<Longrightarrow> to_double i = of_int i"
  by (simp add: to_double_def round_nat_exact nat_le_iff)

lemma truncate_of_int [simp]: "truncate (of_int i) = i"
  by (simp add: truncate_def)

lemma map_of_added: "key \<notin> fst ` set json \<Longrightarrow> map_of (json @ [(key, v)]) key = Some v"
  by (simp add: map_of_eq_None_iff [symmetric] map_add_def)

lemma get_number:
  assumes "map_of json key = Some (JNumber (to_double i))" "\<bar>i\<bar> \<le> 2 ^ 53"
  shows "- 2147483648 \<le> i \<Longrightarrow> i \<le> 2147483647 \<Longrightarrow> GetJsonObjectSignedNumberItem json key = Inr (Some i)"
    and "0 \<le> i \<Longrightarrow> GetJsonObjectNumber64Item json key = Inr (Some i)"
    and "GetJsonObjectSignedNumber64Item json key = Inr (Some i)"
  using assms
  by (auto simp: GetJsonObjectSignedNumberItem_def GetJsonObjectNumber64Item_def GetJsonObjectSignedNumber64Item_def to_double_exact double_cast_def)

section \<open>Properties\<close>

text \<open>
  A 64-bit number survives the JSON object it is sent in, as long as it fits the 53 bits of a double: added under
  a fresh key it is read back unchanged, and a negative one is refused by the unsigned reader.
\<close>

theorem json_number64_roundtrip:
  assumes "key \<notin> fst ` set json" "\<bar>i\<bar> \<le> 2 ^ 53" "AddNumber64ToJsonObject al json key i = (True, json')"
  shows "GetJsonObjectSignedNumber64Item json' key = Inr (Some i) \<and>
    GetJsonObjectNumber64Item json' key = Inr (if i < 0 then None else Some i)"
proof -
  have json': "map_of json' key = Some (JNumber (to_double i))"
    using assms map_of_added by (auto simp: AddNumber64ToJsonObject_def split: if_splits)
  then have "GetJsonObjectNumber64Item json' key = Inr None" if "i < 0"
    using that assms(2) by (simp add: GetJsonObjectNumber64Item_def to_double_exact)
  with get_number [OF json' assms(2)] show ?thesis by (simp add: not_less)
qed

theorem json_number64_roundtrip_witness:
  "GetJsonObjectSignedNumber64Item (snd (AddNumber64ToJsonObject (\<lambda>_. True) [(''A'', JOther)] ''SEQ'' 9007199254740992)) ''SEQ'' =
    Inr (Some 9007199254740992)"
  using json_number64_roundtrip [of "''SEQ''" "[(''A'', JOther)]" 9007199254740992 "\<lambda>_. True"
      "snd (AddNumber64ToJsonObject (\<lambda>_. True) [(''A'', JOther)] ''SEQ'' 9007199254740992)"]
  by (simp add: AddNumber64ToJsonObject_def)

text \<open>The next integer is not representable: it comes back as its neighbour.\<close>

lemma json_number64_rounds:
  "GetJsonObjectNumber64Item (snd (AddNumber64ToJsonObject (\<lambda>_. True) [] ''SEQ'' 9007199254740993)) ''SEQ'' =
    Inr (Some 9007199254740992)"
proof -
  have "bit_length 9007199254740993 = 54" by (simp add: bit_length.simps)
  then have "round_nat 9007199254740993 = 9007199254740992" by (simp add: round_nat_def)
  then have "to_double 9007199254740993 = of_int 9007199254740992" by (simp add: to_double_def)
  then show ?thesis by (simp add: AddNumber64ToJsonObject_def GetJsonObjectNumber64Item_def double_cast_def del: of_int_numeral)
qed

end
