(* ===== verification/Softbus_Utils.thy ===== *)
theory Softbus_Utils
  imports Byte_Order Adapter_Mem
begin

text \<open>
  The string and buffer utilities of \<^verbatim>\<open>core/common/utils/softbus_utils.c\<close>: hexadecimal text, Bluetooth
  addresses, case-insensitive comparison, masking of addresses in logs, the serialisation buffer, capability
  bits, truncation of multi-byte text and the table of timer callbacks.

  A C buffer is the list of its bytes and a null pointer is \<open>None\<close>; the length a caller passes is an argument
  of its own, because the code trusts it.  A C string argument is the list of the bytes before its terminator
  unless the code looks behind it, which is said at the definition.  What C leaves undefined is a \<open>fault\<close>.
\<close>

section \<open>Hexadecimal text\<close>

definition hex_digit :: "byte \<Rightarrow> byte \<Rightarrow> byte" where
  "hex_digit alpha h = (if h < 10 then 48 + h else alpha + h - 10)"

fun hexify_loop :: "byte \<Rightarrow> bytes \<Rightarrow> nat \<Rightarrow> bytes \<Rightarrow> nat \<Rightarrow> fault + bytes" where
  "hexify_loop alpha inBuf 0 outBuf out = Inr outBuf"
| "hexify_loop alpha [] (Suc inLen) outBuf out = Inl OutOfRangeRead"
| "hexify_loop alpha (b # inBuf) (Suc inLen) outBuf out =
     (if Suc out \<ge> length outBuf then Inl OutOfRangeWrite
      else hexify_loop alpha inBuf inLen (outBuf[out := hex_digit alpha (b div 16), Suc out := hex_digit alpha (b mod 16)]) (out + 2))"

definition ConvertBytesToUpperCaseHexString :: "bytes option \<Rightarrow> nat \<Rightarrow> bytes option \<Rightarrow> nat \<Rightarrow> fault + int \<times> bytes option" where
  "ConvertBytesToUpperCaseHexString outBuf outBufLen inBuf inLen =
     (if outBuf = None \<or> inBuf = None \<or> outBufLen < u32 (inLen * 2 + 1) then Inr (SOFTBUS_ERR, outBuf)
      else map_sum id (\<lambda>out. (SOFTBUS_OK, Some out)) (hexify_loop 65 (the inBuf) inLen (the outBuf) 0))"

definition ConvertBytesToHexString :: "bytes option \<Rightarrow> nat \<Rightarrow> bytes option \<Rightarrow> nat \<Rightarrow> fault + int \<times> bytes option" where
  "ConvertBytesToHexString outBuf outBufLen inBuf inLen =
     (if outBuf = None \<or> inBuf = None \<or> outBufLen < u32 (inLen * 2 + 1) then Inr (SOFTBUS_ERR, outBuf)
      else map_sum id (\<lambda>out. (SOFTBUS_OK, Some out)) (hexify_loop 97 (the inBuf) inLen (the outBuf) 0))"

definition hex_value :: "byte \<Rightarrow> byte option" where
  "hex_value c =
     (if 48 \<le> c \<and> c \<le> 57 then Some (c - 48)
      else if 97 \<le> c \<and> c \<le> 102 then Some (c - (97 - 10))
      else if 65 \<le> c \<and> c \<le> 70 then Some (c - (65 - 10))
      else None)"

text \<open>The bytes converted before a character that is no digit stay written.\<close>

fun unhex_loop :: "bytes \<Rightarrow> nat \<Rightarrow> bytes \<Rightarrow> nat \<Rightarrow> fault + int \<times> bytes option" where
  "unhex_loop inBuf 0 outBuf i = Inr (SOFTBUS_OK, Some outBuf)"
| "unhex_loop inBuf (Suc n) outBuf i =
     (case inBuf of
        [] \<Rightarrow> Inl OutOfRangeRead
      | c # inBuf \<Rightarrow>
          (case hex_value c of
             None \<Rightarrow> Inr (SOFTBUS_ERR, Some outBuf)
           | Some h \<Rightarrow>
               (case inBuf of
                  [] \<Rightarrow> Inl OutOfRangeRead
                | c2 # inBuf \<Rightarrow>
                    (case hex_value c2 of
                       None \<Rightarrow> Inr (SOFTBUS_ERR, Some outBuf)
                     | Some l \<Rightarrow>
                         if i \<ge> length outBuf then Inl OutOfRangeWrite
                         else unhex_loop inBuf n (outBuf[i := push_bit 4 h OR l]) (Suc i)))))"

definition ConvertHexStringToBytes :: "bytes option \<Rightarrow> nat \<Rightarrow> bytes option \<Rightarrow> nat \<Rightarrow> fault + int \<times> bytes option" where
  "ConvertHexStringToBytes outBuf outBufLen inBuf inLen =
     (if outBuf = None \<or> inBuf = None \<or> inLen mod 2 \<noteq> 0 then Inr (SOFTBUS_INVALID_PARAM, outBuf)
      else if inLen div 2 > outBufLen then Inr (SOFTBUS_ERR, outBuf)
      else unhex_loop (the inBuf) (inLen div 2) (the outBuf) 0)"

text \<open>\<open>random n\<close> is the result of the adapter's generator for \<open>n\<close> bytes, \<open>None\<close> when it fails.\<close>

definition GenerateRandomStr :: "bool \<Rightarrow> (nat \<Rightarrow> bytes option) \<Rightarrow> bytes option \<Rightarrow> nat \<Rightarrow> fault + int \<times> bytes option" where
  "GenerateRandomStr okMalloc random str len =
     (if str = None \<or> len < 2 then Inr (SOFTBUS_INVALID_PARAM, str)
      else
        let hexLen = len div 2
        in if \<not> SoftBusMalloc okMalloc hexLen then Inr (SOFTBUS_MEM_ERR, str)
           else case random hexLen of
                  None \<Rightarrow> Inr (SOFTBUS_ERR, str)
                | Some hexAuthId \<Rightarrow>
                    (case ConvertBytesToHexString str len (Some hexAuthId) hexLen of
                       Inl f \<Rightarrow> Inl f
                     | Inr (ret, str) \<Rightarrow> if ret \<noteq> SOFTBUS_OK then Inr (SOFTBUS_ERR, str) else Inr (SOFTBUS_OK, str)))"

abbreviation SHA_256_HASH_LEN :: nat where "SHA_256_HASH_LEN \<equiv> 32"

text \<open>\<open>hash s\<close> is the result of the adapter's hash: a status and, on success, \<open>SHA_256_HASH_LEN\<close> bytes.\<close>

definition GenerateStrHashAndConvertToHexString ::
  "(bytes \<Rightarrow> int \<times> bytes) \<Rightarrow> bytes option \<Rightarrow> nat \<Rightarrow> bytes option \<Rightarrow> nat \<Rightarrow> fault + int \<times> bytes option" where
  "GenerateStrHashAndConvertToHexString hash str len hashStr hashStrLen =
     (if hashStrLen < u32 (len div 2 * 2 + 1) then Inr (SOFTBUS_INVALID_PARAM, hashStr)
      else case str of
             None \<Rightarrow> Inr (SOFTBUS_INVALID_PARAM, hashStr)
           | Some s \<Rightarrow>
               (case hash s of
                  (ret, hashResult) \<Rightarrow>
                    if ret \<noteq> SOFTBUS_OK then Inr (ret, hashStr)
                    else ConvertBytesToHexString hashStr hashStrLen (Some hashResult) (len div 2)))"

section \<open>Bluetooth addresses\<close>

abbreviation BT_ADDR_LEN :: nat where "BT_ADDR_LEN \<equiv> 6"
abbreviation BT_MAC_NO_COLON_LEN :: nat where "BT_MAC_NO_COLON_LEN \<equiv> 13"

text \<open>
  \<open>strtok_r\<close> with the delimiter \<open>:\<close> from the place the previous call left: the next token, if there is one,
  and the new place.  It reads up to a delimiter or the terminator.
\<close>

definition strtok :: "bytes \<Rightarrow> fault + bytes option \<times> bytes" where
  "strtok s =
     (let s = dropWhile (\<lambda>c. c = 58) s
      in case s of
           [] \<Rightarrow> Inl OutOfRangeRead
         | c # _ \<Rightarrow>
             if c = 0 then Inr (None, s)
             else
               let token = takeWhile (\<lambda>c. c \<noteq> 58 \<and> c \<noteq> 0) s
               in case drop (length token) s of
                    [] \<Rightarrow> Inl OutOfRangeRead
                  | d # rest \<Rightarrow> Inr (Some token, if d = 0 then d # rest else rest))"

text \<open>
  \<open>strtoul\<close> in base 16 on a token, with 64-bit \<open>unsigned long\<close>: white space, a sign, the prefix \<open>0x\<close>, then the
  longest run of digits; a value out of range is \<open>ULONG_MAX\<close>.
\<close>

fun hex_accum :: "bytes \<Rightarrow> nat \<Rightarrow> nat" where
  "hex_accum [] v = v"
| "hex_accum (c # cs) v = (case hex_value c of None \<Rightarrow> v | Some d \<Rightarrow> hex_accum cs (v * 16 + unat d))"

definition is_space :: "byte \<Rightarrow> bool" where
  "is_space c = (c = 32 \<or> 9 \<le> c \<and> c \<le> 13)"

definition strtoul16 :: "bytes \<Rightarrow> 64 word" where
  "strtoul16 token =
     (let s = dropWhile is_space token;
          neg = (s \<noteq> [] \<and> hd s = 45);
          s = (if s \<noteq> [] \<and> (hd s = 45 \<or> hd s = 43) then tl s else s);
          s = (if 2 \<le> length s \<and> s ! 0 = 48 \<and> (s ! 1 = 120 \<or> s ! 1 = 88) then drop 2 s else s);
          v = hex_accum s 0
      in if v \<ge> 2 ^ 64 then - 1 else if neg then - word_of_nat v else word_of_nat v)"

fun mac_loop :: "nat \<Rightarrow> bytes option \<Rightarrow> bytes \<Rightarrow> bytes \<Rightarrow> nat \<Rightarrow> fault + int \<times> bytes option" where
  "mac_loop 0 token next_token binMac i = Inr (SOFTBUS_OK, Some binMac)"
| "mac_loop (Suc n) token next_token binMac i =
     (case token of
        None \<Rightarrow> Inr (SOFTBUS_ERR, Some binMac)
      | Some t \<Rightarrow>
          if i \<ge> length binMac then Inl OutOfRangeWrite
          else case strtok next_token of
                 Inl f \<Rightarrow> Inl f
               | Inr (token, next_token) \<Rightarrow> mac_loop n token next_token (binMac[i := ucast (strtoul16 t)]) (Suc i))"

text \<open>The text is copied with its terminator, so \<open>strMac\<close> is the whole buffer here.\<close>

definition invalidAddr :: bytes where
  "invalidAddr = [48, 48, 58, 48, 48, 58, 48, 48, 58, 48, 48, 58, 48, 48, 58, 48, 48, 0]"

definition ConvertBtMacToBinary :: "bool \<Rightarrow> bytes option \<Rightarrow> nat \<Rightarrow> bytes option \<Rightarrow> nat \<Rightarrow> fault + int \<times> bytes option" where
  "ConvertBtMacToBinary okMalloc strMac strMacLen binMac binMacLen =
     (if strMac = None \<or> strMacLen < BT_MAC_LEN \<or> binMac = None \<or> binMacLen < BT_ADDR_LEN \<or>
         take BT_MAC_LEN (the strMac) = invalidAddr
      then Inr (SOFTBUS_INVALID_PARAM, binMac)
      else if \<not> SoftBusMalloc okMalloc strMacLen then Inr (SOFTBUS_MALLOC_ERR, binMac)
      else if \<not> memcpy_s_ok strMacLen strMacLen then Inr (SOFTBUS_MEM_ERR, binMac)
      else if length (the strMac) < strMacLen then Inl OutOfRangeRead
      else case strtok (take strMacLen (the strMac)) of
             Inl f \<Rightarrow> Inl f
           | Inr (token, next_token) \<Rightarrow> mac_loop BT_ADDR_LEN token next_token (the binMac) 0)"

definition hex2 :: "byte \<Rightarrow> bytes" where
  "hex2 b = [hex_digit 97 (b div 16), hex_digit 97 (b mod 16)]"

text \<open>
  \<open>snprintf_s\<close> of a text that is shorter than the given length: its result, or the fault when the buffer is
  shorter than its given length and the text does not fit.
\<close>

definition put_text :: "bytes \<Rightarrow> nat \<Rightarrow> bytes \<Rightarrow> fault + int \<times> bytes option" where
  "put_text out len text =
     (if len > SECUREC_MEM_MAX_LEN then Inr (- 1, Some out)
      else if length out < length text + 1 then Inl OutOfRangeWrite
      else Inr (int (length text), Some (mem_write out 0 (text @ [0]))))"

definition print_mac :: "nat \<Rightarrow> (bytes \<Rightarrow> bytes) \<Rightarrow> bytes option \<Rightarrow> nat \<Rightarrow> bytes option \<Rightarrow> nat \<Rightarrow> fault + int \<times> bytes option" where
  "print_mac minLen text strMac strMacLen binMac binMacLen =
     (if strMac = None \<or> strMacLen < minLen \<or> binMac = None \<or> binMacLen < BT_ADDR_LEN then Inr (SOFTBUS_INVALID_PARAM, strMac)
      else if length (the binMac) < BT_ADDR_LEN then Inl OutOfRangeRead
      else case put_text (the strMac) strMacLen (text (the binMac)) of
             Inl f \<Rightarrow> Inl f
           | Inr (ret, strMac) \<Rightarrow> if ret < 0 then Inr (SOFTBUS_ERR, strMac) else Inr (SOFTBUS_OK, strMac))"

definition ConvertBtMacToStrNoColon :: "bytes option \<Rightarrow> nat \<Rightarrow> bytes option \<Rightarrow> nat \<Rightarrow> fault + int \<times> bytes option" where
  "ConvertBtMacToStrNoColon = print_mac BT_MAC_NO_COLON_LEN
     (\<lambda>b. hex2 (b ! 0) @ hex2 (b ! 1) @ hex2 (b ! 2) @ hex2 (b ! 3) @ hex2 (b ! 4) @ hex2 (b ! 5))"

definition ConvertBtMacToStr :: "bytes option \<Rightarrow> nat \<Rightarrow> bytes option \<Rightarrow> nat \<Rightarrow> fault + int \<times> bytes option" where
  "ConvertBtMacToStr = print_mac BT_MAC_LEN
     (\<lambda>b. hex2 (b ! 0) @ 58 # hex2 (b ! 1) @ 58 # hex2 (b ! 2) @ 58 # hex2 (b ! 3) @ 58 # hex2 (b ! 4) @ 58 # hex2 (b ! 5))"

definition ConvertReverseBtMacToStr :: "bytes option \<Rightarrow> nat \<Rightarrow> bytes option \<Rightarrow> nat \<Rightarrow> fault + int \<times> bytes option" where
  "ConvertReverseBtMacToStr = print_mac BT_MAC_LEN
     (\<lambda>b. hex2 (b ! 5) @ 58 # hex2 (b ! 4) @ 58 # hex2 (b ! 3) @ 58 # hex2 (b ! 2) @ 58 # hex2 (b ! 1) @ 58 # hex2 (b ! 0))"

fun u64_of :: "bytes \<Rightarrow> 64 word \<Rightarrow> 64 word" where
  "u64_of [] u = u"
| "u64_of (b # bs) u = u64_of bs (push_bit 8 u OR ucast b)"

text \<open>\<open>u64Mac\<close> says whether the result pointer is given; the result is the value written.\<close>

definition ConvertBtMacToU64 :: "bool \<Rightarrow> bytes option \<Rightarrow> nat \<Rightarrow> bool \<Rightarrow> fault + int \<times> 64 word option" where
  "ConvertBtMacToU64 okMalloc strMac strMacLen u64Mac =
     (if strMac = None \<or> strMacLen < BT_MAC_LEN \<or> \<not> u64Mac then Inr (SOFTBUS_INVALID_PARAM, None)
      else case ConvertBtMacToBinary okMalloc strMac BT_MAC_LEN (Some (replicate BT_ADDR_LEN 0)) BT_ADDR_LEN of
             Inl f \<Rightarrow> Inl f
           | Inr (status, binaryAddr) \<Rightarrow>
               if status \<noteq> SOFTBUS_OK then Inr (SOFTBUS_ERR, None) else Inr (SOFTBUS_OK, Some (u64_of (the binaryAddr) 0)))"

fun u64_bytes :: "nat \<Rightarrow> 64 word \<Rightarrow> bytes \<Rightarrow> bytes" where
  "u64_bytes 0 u bs = bs"
| "u64_bytes (Suc n) u bs = u64_bytes n (drop_bit 8 u) (ucast (u AND 0xFF) # bs)"

definition ConvertU64MacToStr :: "64 word \<Rightarrow> bytes option \<Rightarrow> nat \<Rightarrow> fault + int \<times> bytes option" where
  "ConvertU64MacToStr u64Mac strMac strMacLen =
     (if strMac = None \<or> strMacLen < BT_MAC_LEN \<or> u64Mac = 0 then Inr (SOFTBUS_INVALID_PARAM, strMac)
      else ConvertBtMacToStr strMac strMacLen (Some (u64_bytes BT_ADDR_LEN u64Mac [])) BT_ADDR_LEN)"

section \<open>Letter case\<close>

definition ToUpperCase :: "byte \<Rightarrow> byte" where
  "ToUpperCase ch = (if 97 \<le> ch \<and> ch \<le> 122 then ch - 97 + 65 else ch)"

definition ToLowerCase :: "byte \<Rightarrow> byte" where
  "ToLowerCase ch = (if 65 \<le> ch \<and> ch \<le> 90 then ch - 65 + 97 else ch)"

fun case_loop :: "(byte \<Rightarrow> byte) \<Rightarrow> bytes \<Rightarrow> bytes \<Rightarrow> nat \<Rightarrow> fault + int \<times> bytes option" where
  "case_loop f [] buf i = Inr (SOFTBUS_OK, Some buf)"
| "case_loop f (c # str) buf i = (if i \<ge> length buf then Inl OutOfRangeWrite else case_loop f str (buf[i := f c]) (Suc i))"

text \<open>\<open>memset_s\<close> refuses the sizes that are 0 or, as an unsigned number, above its limit.\<close>

definition clear_buf :: "bytes \<Rightarrow> int \<Rightarrow> fault + bytes" where
  "clear_buf buf sz =
     (if sz \<le> 0 then Inr buf
      else if length buf < nat sz then Inl OutOfRangeWrite
      else Inr (replicate (nat sz) 0 @ drop (nat sz) buf))"

definition StringToUpperCase :: "bytes option \<Rightarrow> bytes option \<Rightarrow> int \<Rightarrow> fault + int \<times> bytes option" where
  "StringToUpperCase str buf sz =
     (if str = None \<or> buf = None then Inr (SOFTBUS_ERR, buf)
      else case clear_buf (the buf) sz of Inl f \<Rightarrow> Inl f | Inr b \<Rightarrow> case_loop ToUpperCase (the str) b 0)"

definition StringToLowerCase :: "bytes option \<Rightarrow> bytes option \<Rightarrow> int \<Rightarrow> fault + int \<times> bytes option" where
  "StringToLowerCase str buf sz =
     (if str = None \<or> buf = None then Inr (SOFTBUS_ERR, buf)
      else case clear_buf (the buf) sz of Inl f \<Rightarrow> Inl f | Inr b \<Rightarrow> case_loop ToLowerCase (the str) b 0)"

fun StrCmp_loop :: "bytes \<Rightarrow> bytes \<Rightarrow> int" where
  "StrCmp_loop (a # str1) (b # str2) = (if ToUpperCase a \<noteq> ToUpperCase b then SOFTBUS_ERR else StrCmp_loop str1 str2)"
| "StrCmp_loop [] [] = SOFTBUS_OK"
| "StrCmp_loop str1 str2 = SOFTBUS_ERR"

definition StrCmpIgnoreCase :: "bytes option \<Rightarrow> bytes option \<Rightarrow> int" where
  "StrCmpIgnoreCase str1 str2 = (if str1 = None \<or> str2 = None then SOFTBUS_ERR else StrCmp_loop (the str1) (the str2))"

definition IsValidString :: "bytes option \<Rightarrow> nat \<Rightarrow> bool" where
  "IsValidString input maxLen =
     (case input of None \<Rightarrow> False | Some s \<Rightarrow> let len = u32 (length s) in if len = 0 \<or> len > maxLen then False else True)"

section \<open>Masking\<close>

text \<open>
  The common loop: characters other than the delimiter are replaced from the \<open>lo\<close>-th delimiter until the
  \<open>hi\<close>-th one was seen.  \<open>length\<close> characters are visited; fewer in the buffer are a fault.
\<close>

fun mask_loop :: "nat \<Rightarrow> nat \<Rightarrow> byte \<Rightarrow> nat \<Rightarrow> nat \<Rightarrow> bytes \<Rightarrow> fault + bytes" where
  "mask_loop lo hi delimiter 0 cnt data = Inr data"
| "mask_loop lo hi delimiter (Suc n) cnt data =
     (if cnt = hi then Inr data
      else case data of
             [] \<Rightarrow> Inl OutOfRangeRead
           | c # data \<Rightarrow>
               let cnt = (if c = delimiter then Suc cnt else cnt); c = (if lo \<le> cnt \<and> c \<noteq> delimiter then 42 else c)
               in map_sum id (Cons c) (mask_loop lo hi delimiter n cnt data))"

definition MacInstead :: "bytes \<Rightarrow> nat \<Rightarrow> byte \<Rightarrow> fault + bytes" where
  "MacInstead data len delimiter = (if len > 46 then Inr data else mask_loop 2 4 delimiter len 0 data)"

definition IpInstead :: "bytes \<Rightarrow> nat \<Rightarrow> byte \<Rightarrow> fault + bytes" where
  "IpInstead data len delimiter = (if len > 48 then Inr data else mask_loop 1 3 delimiter len 0 data)"

definition IdInstead :: "bytes \<Rightarrow> nat \<Rightarrow> fault + bytes" where
  "IdInstead data len =
     (if len < 1 \<or> len > 65 then Inr data
      else if len - 1 > Suc (len div 2) \<and> length data < len - 1 then Inl OutOfRangeWrite
      else Inr (map (\<lambda>(i, c). if len div 2 < i \<and> i < len - 1 then 42 else c) (zip [0..<length data] data)))"

definition DataMasking :: "bytes option \<Rightarrow> nat \<Rightarrow> byte \<Rightarrow> bytes \<Rightarrow> fault + bytes" where
  "DataMasking data len delimiter container =
     (case data of
        None \<Rightarrow> Inr container
      | Some d \<Rightarrow>
          if \<not> memcpy_s_ok len len then Inr container
          else if length d < len then Inl OutOfRangeRead
          else if length container < len then Inl OutOfRangeWrite
          else
            let container = mem_write container 0 (take len d)
            in if delimiter = 58 then MacInstead container len delimiter
               else if delimiter = 46 then IpInstead container len delimiter
               else if delimiter = 32 then IdInstead container len
               else Inr container)"

section \<open>The serialisation buffer\<close>

abbreviation SOFTBUS_TRANS_INVALID_DATA_LENGTH :: int where "SOFTBUS_TRANS_INVALID_DATA_LENGTH \<equiv> - 426115060"

text \<open>
  Writing and reading at an offset.  The checks add in 64-bit unsigned arithmetic, where an offset just below
  0 wraps around, so the access itself says whether it lies in the buffer.
\<close>

definition store_at :: "bytes \<Rightarrow> int \<Rightarrow> bytes \<Rightarrow> fault + bytes" where
  "store_at buf off src =
     (if off < 0 \<or> int (length buf) < off + int (length src) then Inl OutOfRangeWrite else Inr (mem_write buf (nat off) src))"

definition fetch_at :: "bytes \<Rightarrow> int \<Rightarrow> nat \<Rightarrow> fault + bytes" where
  "fetch_at buf off n =
     (if off < 0 \<or> int (length buf) < off + int n then Inl OutOfRangeRead else Inr (segment (nat off) n buf))"

definition checkParamIsNull :: "bytes option \<Rightarrow> int option \<Rightarrow> int" where
  "checkParamIsNull buf offSet = (if buf = None then SOFTBUS_INVALID_PARAM else if offSet = None then SOFTBUS_INVALID_PARAM else SOFTBUS_OK)"

definition WriteInt32ToBuf :: "endian \<Rightarrow> bytes option \<Rightarrow> nat \<Rightarrow> int option \<Rightarrow> int \<Rightarrow> fault + int \<times> bytes option \<times> int option" where
  "WriteInt32ToBuf e buf dataLen offSet data =
     (if checkParamIsNull buf offSet \<noteq> SOFTBUS_OK then Inr (checkParamIsNull buf offSet, buf, offSet)
      else
        let off = the offSet
        in if int dataLen < (off + 4) mod 2 ^ 64 then Inr (SOFTBUS_TRANS_INVALID_DATA_LENGTH, buf, offSet)
           else map_sum id (\<lambda>b. (SOFTBUS_OK, Some b, Some (s32 (off + 4)))) (store_at (the buf) off (host_bytes e 4 (nat (data mod 2 ^ 32)))))"

definition WriteUint8ToBuf :: "bytes option \<Rightarrow> nat \<Rightarrow> int option \<Rightarrow> byte \<Rightarrow> fault + int \<times> bytes option \<times> int option" where
  "WriteUint8ToBuf buf dataLen offSet data =
     (if checkParamIsNull buf offSet \<noteq> SOFTBUS_OK then Inr (checkParamIsNull buf offSet, buf, offSet)
      else
        let off = the offSet
        in if int dataLen < (off + 1) mod 2 ^ 64 then Inr (SOFTBUS_TRANS_INVALID_DATA_LENGTH, buf, offSet)
           else map_sum id (\<lambda>b. (SOFTBUS_OK, Some b, Some (s32 (off + 1)))) (store_at (the buf) off [data]))"

definition WriteStringToBuf ::
  "endian \<Rightarrow> bytes option \<Rightarrow> nat \<Rightarrow> int option \<Rightarrow> bytes option \<Rightarrow> nat \<Rightarrow> fault + int \<times> bytes option \<times> int option" where
  "WriteStringToBuf e buf bufLen offSet data dataLen =
     (if data = None \<or> dataLen = 0 then Inr (SOFTBUS_INVALID_PARAM, buf, offSet)
      else if checkParamIsNull buf offSet \<noteq> SOFTBUS_OK then Inr (checkParamIsNull buf offSet, buf, offSet)
      else
        let off = the offSet
        in if int bufLen < ((off + int dataLen) mod 2 ^ 32 + 4) mod 2 ^ 64 then Inr (SOFTBUS_TRANS_INVALID_DATA_LENGTH, buf, offSet)
           else case store_at (the buf) off (host_bytes e 4 dataLen) of
                  Inl f \<Rightarrow> Inl f
                | Inr b \<Rightarrow>
                    let off = s32 (off + 4)
                    in if \<not> memcpy_s_ok (nat ((int bufLen - off) mod 2 ^ 32)) dataLen then Inr (SOFTBUS_MEM_ERR, Some b, Some off)
                       else if length (the data) < dataLen then Inl OutOfRangeRead
                       else map_sum id (\<lambda>b. (SOFTBUS_OK, Some b, Some (s32 (off + int dataLen)))) (store_at b off (take dataLen (the data))))"

text \<open>\<open>data\<close> says whether the result pointer is given; the result is the value written there.\<close>

definition ReadInt32FromBuf :: "endian \<Rightarrow> bytes option \<Rightarrow> nat \<Rightarrow> int option \<Rightarrow> bool \<Rightarrow> fault + int \<times> int option \<times> int option" where
  "ReadInt32FromBuf e buf dataLen offSet data =
     (if checkParamIsNull buf offSet \<noteq> SOFTBUS_OK then Inr (checkParamIsNull buf offSet, None, offSet)
      else if \<not> data then Inr (SOFTBUS_INVALID_PARAM, None, offSet)
      else
        let off = the offSet
        in if int dataLen < (off + 4) mod 2 ^ 64 then Inr (SOFTBUS_TRANS_INVALID_DATA_LENGTH, None, offSet)
           else map_sum id (\<lambda>b. (SOFTBUS_OK, Some (s32 (int (host_nat e b))), Some (s32 (off + 4)))) (fetch_at (the buf) off 4))"

definition ReadUint8FromBuf :: "bytes option \<Rightarrow> nat \<Rightarrow> int option \<Rightarrow> bool \<Rightarrow> fault + int \<times> byte option \<times> int option" where
  "ReadUint8FromBuf buf dataLen offSet data =
     (if checkParamIsNull buf offSet \<noteq> SOFTBUS_OK then Inr (checkParamIsNull buf offSet, None, offSet)
      else if \<not> data then Inr (SOFTBUS_INVALID_PARAM, None, offSet)
      else
        let off = the offSet
        in if int dataLen < (off + 1) mod 2 ^ 64 then Inr (SOFTBUS_TRANS_INVALID_DATA_LENGTH, None, offSet)
           else map_sum id (\<lambda>b. (SOFTBUS_OK, Some (hd b), Some (s32 (off + 1)))) (fetch_at (the buf) off 1))"

text \<open>The length passed for \<open>data\<close> is overwritten by the length found in the buffer and never used.\<close>

definition ReadStringFromBuf ::
  "endian \<Rightarrow> bytes option \<Rightarrow> nat \<Rightarrow> int option \<Rightarrow> bytes option \<Rightarrow> nat \<Rightarrow> fault + int \<times> bytes option \<times> int option" where
  "ReadStringFromBuf e buf bufLen offSet data dataLen =
     (if checkParamIsNull buf offSet \<noteq> SOFTBUS_OK then Inr (checkParamIsNull buf offSet, data, offSet)
      else if data = None then Inr (SOFTBUS_INVALID_PARAM, data, offSet)
      else
        let off = the offSet
        in if int bufLen < (off + 4) mod 2 ^ 64 then Inr (SOFTBUS_TRANS_INVALID_DATA_LENGTH, data, offSet)
           else case fetch_at (the buf) off 4 of
                  Inl f \<Rightarrow> Inl f
                | Inr b \<Rightarrow>
                    let dataLen = host_nat e b; off = s32 (off + 4)
                    in if int bufLen < (off + int dataLen) mod 2 ^ 32 then Inr (SOFTBUS_TRANS_INVALID_DATA_LENGTH, data, Some off)
                       else if \<not> memcpy_s_ok dataLen dataLen then Inr (SOFTBUS_MEM_ERR, data, Some off)
                       else case fetch_at (the buf) off dataLen of
                              Inl f \<Rightarrow> Inl f
                            | Inr src \<Rightarrow>
                                map_sum id (\<lambda>d. (SOFTBUS_OK, Some d, Some (s32 (off + int dataLen)))) (store_at (the data) 0 src))"

section \<open>Capability bits\<close>

text \<open>The shift is by less than 32 at every call.\<close>

definition EnableCapabilityBit :: "32 word option \<Rightarrow> nat \<Rightarrow> 32 word option" where
  "EnableCapabilityBit value offSet = map_option (\<lambda>v. v OR push_bit offSet 1) value"

definition GetCapabilityBit :: "32 word option \<Rightarrow> nat \<Rightarrow> bool" where
  "GetCapabilityBit value offSet = (case value of None \<Rightarrow> False | Some v \<Rightarrow> drop_bit offSet v AND 1 \<noteq> 0)"

section \<open>Truncation of multi-byte text\<close>

abbreviation SOFTBUS_DISCOVER_SET_LOCALE_FAILED :: int where "SOFTBUS_DISCOVER_SET_LOCALE_FAILED \<equiv> - 425795579"
abbreviation SOFTBUS_DISCOVER_CHAR_CONVERT_FAILED :: int where "SOFTBUS_DISCOVER_CHAR_CONVERT_FAILED \<equiv> - 425795578"

text \<open>
  \<open>okLocale\<close>: the locale \<open>C.UTF-8\<close> could be set.  \<open>mbstowcs\<close> gives the wide characters of a text, \<open>None\<close> when
  a byte sequence is invalid, and \<open>wctomb\<close> the number of bytes of one; both are the C library's.
\<close>

definition SetLocale :: "bool \<Rightarrow> int" where
  "SetLocale okLocale = (if okLocale then SOFTBUS_OK else SOFTBUS_DISCOVER_SET_LOCALE_FAILED)"

fun truncate_loop :: "('w \<Rightarrow> int) \<Rightarrow> nat \<Rightarrow> nat \<Rightarrow> 'w list \<Rightarrow> nat \<Rightarrow> int \<times> nat" where
  "truncate_loop wctomb capacity len rev_wide truncateTotal =
     (if capacity < len - truncateTotal \<or> len < truncateTotal then
        case rev_wide of
          [] \<Rightarrow> (SOFTBUS_OK, truncateTotal)
        | w # rest \<Rightarrow>
            if wctomb w \<le> 0 then (SOFTBUS_DISCOVER_CHAR_CONVERT_FAILED, truncateTotal)
            else truncate_loop wctomb capacity len rest (u32 (truncateTotal + nat (wctomb w)))
      else (SOFTBUS_OK, truncateTotal))"

definition CalculateMbsTruncateSize ::
  "bool \<Rightarrow> (bytes \<Rightarrow> 'w list option) \<Rightarrow> ('w \<Rightarrow> int) \<Rightarrow> bytes \<Rightarrow> nat \<Rightarrow> int \<times> nat option" where
  "CalculateMbsTruncateSize okLocale mbstowcs wctomb multiByteStr capacity =
     (let multiByteStrLen = length multiByteStr
      in if multiByteStrLen = 0 then (SOFTBUS_OK, Some 0)
         else if multiByteStrLen > 128 then (SOFTBUS_INVALID_PARAM, None)
         else if SetLocale okLocale \<noteq> SOFTBUS_OK then (SetLocale okLocale, None)
         else case mbstowcs multiByteStr of
                None \<Rightarrow> (SOFTBUS_DISCOVER_CHAR_CONVERT_FAILED, None)
              | Some wideStr \<Rightarrow>
                  if length wideStr = 0 \<or> length wideStr > multiByteStrLen then (SOFTBUS_DISCOVER_CHAR_CONVERT_FAILED, None)
                  else case truncate_loop wctomb capacity multiByteStrLen (rev wideStr) 0 of
                         (ret, truncateTotal) \<Rightarrow>
                           if ret \<noteq> SOFTBUS_OK then (ret, None)
                           else (SOFTBUS_OK, Some (if multiByteStrLen \<ge> truncateTotal then multiByteStrLen - truncateTotal else 0)))"

section \<open>Timer callbacks\<close>

abbreviation SOFTBUS_MAX_TIMER_FUN_NUM :: nat where "SOFTBUS_MAX_TIMER_FUN_NUM \<equiv> 14"

definition RegisterTimeoutCallback :: "int \<Rightarrow> 'f option \<Rightarrow> 'f option list \<Rightarrow> int \<times> 'f option list" where
  "RegisterTimeoutCallback timerFunId callback timerFunList =
     (if callback = None \<or> timerFunId \<ge> int SOFTBUS_MAX_TIMER_FUN_NUM \<or> timerFunId < 0 then (SOFTBUS_INVALID_PARAM, timerFunList)
      else if timerFunList ! nat timerFunId \<noteq> None then (SOFTBUS_OK, timerFunList)
      else (SOFTBUS_OK, timerFunList[nat timerFunId := callback]))"

definition UnRegisterTimeoutCallback :: "int \<Rightarrow> 'f option list \<Rightarrow> int \<times> 'f option list" where
  "UnRegisterTimeoutCallback timerFunId timerFunList =
     (if timerFunId \<ge> int SOFTBUS_MAX_TIMER_FUN_NUM \<or> timerFunId < 0 then (SOFTBUS_INVALID_PARAM, timerFunList)
      else (SOFTBUS_OK, timerFunList[nat timerFunId := None]))"

text \<open>The callbacks a timeout runs, in order.\<close>

definition HandleTimeoutFun :: "'f option list \<Rightarrow> 'f list" where
  "HandleTimeoutFun timerFunList = List.map_filter id timerFunList"

section \<open>Lemmas on hexadecimal text\<close>

definition hex_text :: "byte \<Rightarrow> bytes \<Rightarrow> bytes" where
  "hex_text alpha bs = concat (map (\<lambda>b. [hex_digit alpha (b div 16), hex_digit alpha (b mod 16)]) bs)"

lemma hex_text_simps [simp]:
  "hex_text alpha [] = []"
  "hex_text alpha (b # bs) = hex_digit alpha (b div 16) # hex_digit alpha (b mod 16) # hex_text alpha bs"
  "length (hex_text alpha bs) = 2 * length bs"
  by (simp_all add: hex_text_def length_concat comp_def sum_list_triv)

lemma mem_write_one: "i < length dst \<Longrightarrow> mem_write (dst[i := x]) (Suc i) zs = mem_write dst i (x # zs)"
  by (simp add: mem_write_def take_Suc_conv_app_nth)

lemma hexify_loop_text:
  "out + 2 * length bs \<le> length outBuf \<Longrightarrow> hexify_loop alpha bs (length bs) outBuf out = Inr (mem_write outBuf out (hex_text alpha bs))"
  by (induction bs arbitrary: outBuf out) (simp_all add: mem_write_one)

lemma nibble_cases:
  fixes h :: byte
  assumes "h < 16" and "\<forall>k \<in> set [0..<16]. P (word_of_nat k :: byte)"
  shows "P h"
proof -
  have "unat h < 16" using assms(1) by (simp add: word_less_nat_alt)
  then have "unat h \<in> set [0..<16]" by simp
  with assms(2) have "P (word_of_nat (unat h))" by blast
  then show ?thesis by simp
qed

lemma hex_value_digit: "h < 16 \<Longrightarrow> hex_value (hex_digit 97 h) = Some h \<and> hex_value (hex_digit 65 h) = Some h"
  by (erule nibble_cases) code_simp

lemma nibble_less [simp]: "(b :: byte) div 16 < 16" "(b :: byte) mod 16 < 16"
  by (simp_all add: word_less_nat_alt unat_div unat_mod less_mult_imp_div_less)

lemma join_nibbles: "push_bit 4 (b div 16) OR (b mod 16) = (b :: byte)"
proof -
  have "b div 16 = drop_bit 4 b" "b mod 16 = take_bit 4 b" by (simp_all add: drop_bit_eq_div take_bit_eq_mod)
  then show ?thesis by (auto simp: bit_eq_iff bit_simps)
qed

lemma unhex_loop_text:
  assumes "alpha = 97 \<or> alpha = 65" "i + length bs \<le> length outBuf"
  shows "unhex_loop (hex_text alpha bs @ rest) (length bs) outBuf i = Inr (SOFTBUS_OK, Some (mem_write outBuf i bs))"
  using assms(2)
proof (induction bs arbitrary: outBuf i)
  case (Cons b bs)
  have "hex_value (hex_digit alpha (b div 16)) = Some (b div 16)" "hex_value (hex_digit alpha (b mod 16)) = Some (b mod 16)"
    using assms(1) hex_value_digit [of "b div 16"] hex_value_digit [of "b mod 16"] by auto
  with Cons show ?case by (simp add: join_nibbles mem_write_one)
qed simp

lemma hex_out:
  assumes "2 * length bs < length out" "length out < 4294967296"
  shows "ConvertBytesToHexString (Some out) (length out) (Some bs) (length bs) = Inr (SOFTBUS_OK, Some (mem_write out 0 (hex_text 97 bs)))"
    "ConvertBytesToUpperCaseHexString (Some out) (length out) (Some bs) (length bs) = Inr (SOFTBUS_OK, Some (mem_write out 0 (hex_text 65 bs)))"
  using assms
  by (simp_all add: ConvertBytesToHexString_def ConvertBytesToUpperCaseHexString_def hexify_loop_text)

lemma hex_in:
  assumes "alpha = 97 \<or> alpha = 65" "length bs \<le> length dst"
  shows "ConvertHexStringToBytes (Some dst) (length dst) (Some (hex_text alpha bs @ rest)) (2 * length bs) = Inr (SOFTBUS_OK, Some (mem_write dst 0 bs))"
  using assms by (simp add: ConvertHexStringToBytes_def unhex_loop_text)

section \<open>Lemmas on addresses\<close>

abbreviation mac_text :: "bytes \<Rightarrow> bytes" where
  "mac_text b \<equiv> hex2 (b ! 0) @ 58 # hex2 (b ! 1) @ 58 # hex2 (b ! 2) @ 58 # hex2 (b ! 3) @ 58 # hex2 (b ! 4) @ 58 # hex2 (b ! 5)"

lemma length_hex2 [simp]: "length (hex2 b) = 2"
  by (simp add: hex2_def)

lemma hex_digit_plain: "h < 16 \<Longrightarrow> hex_digit 97 h \<noteq> 58 \<and> hex_digit 97 h \<noteq> 0 \<and> \<not> is_space (hex_digit 97 h) \<and>
   hex_digit 97 h \<noteq> 45 \<and> hex_digit 97 h \<noteq> 43 \<and> hex_digit 97 h \<noteq> 120 \<and> hex_digit 97 h \<noteq> 88"
  by (erule nibble_cases) code_simp

lemma strtok_hex2:
  "strtok (hex2 b @ 58 # rest) = Inr (Some (hex2 b), rest)"
  "strtok (hex2 b @ 0 # rest) = Inr (Some (hex2 b), 0 # rest)"
  using hex_digit_plain [of "b div 16"] hex_digit_plain [of "b mod 16"]
  by (simp_all add: strtok_def hex2_def)

lemma strtoul16_hex2: "ucast (strtoul16 (hex2 b)) = b"
proof -
  have join: "unat (b div 16) * 16 + unat (b mod 16) = unat b"
    by (simp add: unat_div unat_mod)
  have "hex_accum (hex2 b) 0 = unat b"
    using hex_value_digit [of "b div 16"] hex_value_digit [of "b mod 16"] join by (simp add: hex2_def)
  moreover have "\<not> 18446744073709551616 \<le> unat b" using unat_byte_less [of b] by linarith
  ultimately have "strtoul16 (hex2 b) = word_of_nat (unat b)"
    using hex_digit_plain [of "b div 16"] hex_digit_plain [of "b mod 16"]
    by (simp add: strtoul16_def hex2_def Let_def)
  then show ?thesis by (auto simp: bit_eq_iff bit_simps)
qed

lemma mac_loop_text:
  assumes "length b = 6" "length binMac = 6"
  shows "case strtok (mac_text b @ 0 # rest) of Inl f \<Rightarrow> False | Inr (token, next_token) \<Rightarrow> mac_loop 6 token next_token binMac 0 = Inr (SOFTBUS_OK, Some b)"
proof -
  obtain b0 b1 b2 b3 b4 b5 where b: "b = [b0, b1, b2, b3, b4, b5]"
    using assms(1) by (auto simp: length_Suc_conv eval_nat_numeral)
  obtain c0 c1 c2 c3 c4 c5 where c: "binMac = [c0, c1, c2, c3, c4, c5]"
    using assms(2) by (auto simp: length_Suc_conv eval_nat_numeral)
  have six: "(6 :: nat) = Suc (Suc (Suc (Suc (Suc (Suc 0)))))" by simp
  have stop: "strtok (0 # rest) = Inr (None, 0 # rest)" by (simp add: strtok_def)
  show ?thesis
    unfolding six by (simp add: b c strtok_hex2 stop strtoul16_hex2 strtoul16_hex2)
qed

lemma u64_step:
  fixes acc u :: "64 word"
  shows "push_bit 8 (push_bit n acc OR take_bit n (drop_bit 8 u)) OR ucast (ucast (u AND 0xFF) :: byte) = push_bit (8 + n) acc OR take_bit (8 + n) u"
proof -
  have low: "ucast (ucast (u AND 0xFF) :: byte) = take_bit 8 u"
  proof -
    have "u AND 0xFF = take_bit 8 u" by (simp add: take_bit_eq_mask mask_eq_exp_minus_1)
    then show ?thesis by (auto simp: bit_eq_iff bit_simps)
  qed
  show ?thesis unfolding low by (rule bit_eqI) (auto simp: bit_simps)
qed

lemma u64_of_bytes: "u64_of (u64_bytes n u bs) acc = u64_of bs (push_bit (8 * n) acc OR take_bit (8 * n) u)"
proof (induction n arbitrary: u bs)
  case (Suc n)
  show ?case unfolding u64_bytes.simps Suc.IH u64_of.simps u64_step by simp
qed simp

lemma u64_of_zero [simp]: "u64_of (replicate n 0) 0 = 0"
  by (induction n) simp_all

lemma length_u64_bytes [simp]: "length (u64_bytes n u bs) = n + length bs"
  by (induction n arbitrary: u bs) simp_all

lemma mac_printed:
  assumes "length b = BT_ADDR_LEN" "BT_MAC_LEN \<le> length out" "length out \<le> SECUREC_MEM_MAX_LEN"
  shows "ConvertBtMacToStr (Some out) (length out) (Some b) BT_ADDR_LEN = Inr (SOFTBUS_OK, Some (mac_text b @ 0 # drop BT_MAC_LEN out))"
  using assms by (simp add: ConvertBtMacToStr_def print_mac_def put_text_def mem_write_def)

lemma hex2_inject [simp]: "hex2 a = hex2 b \<longleftrightarrow> a = b"
  by (metis strtoul16_hex2)

lemma mac_text_zero:
  assumes "length b = BT_ADDR_LEN" "take BT_MAC_LEN (mac_text b @ 0 # rest) = invalidAddr"
  shows "b = replicate BT_ADDR_LEN 0"
proof -
  obtain b0 b1 b2 b3 b4 b5 where b: "b = [b0, b1, b2, b3, b4, b5]"
    using assms(1) by (auto simp: length_Suc_conv eval_nat_numeral)
  have "invalidAddr = mac_text (replicate 6 0) @ [0]" by code_simp
  with assms(2) have "mac_text b @ [0] = mac_text (replicate 6 0) @ [0]" by simp
  then show ?thesis by (simp add: b eval_nat_numeral)
qed

lemma mac_read:
  assumes "length b = BT_ADDR_LEN" "b \<noteq> replicate BT_ADDR_LEN 0" "length binMac = BT_ADDR_LEN"
  shows "ConvertBtMacToBinary True (Some (mac_text b @ 0 # rest)) BT_MAC_LEN (Some binMac) BT_ADDR_LEN = Inr (SOFTBUS_OK, Some b)"
proof -
  have "take BT_MAC_LEN (mac_text b @ 0 # rest) = mac_text b @ [0]" by simp
  with assms mac_text_zero [of b rest] mac_loop_text [of b binMac "[]"] show ?thesis
    by (auto simp: ConvertBtMacToBinary_def SoftBusMalloc_def MAX_MALLOC_SIZE_def memcpy_s_ok_def SECUREC_MEM_MAX_LEN_def split: sum.splits)
qed

section \<open>Lemmas on the serialisation buffer\<close>

text \<open>A record of fields is written and read field by field, with the early returns of the callers.\<close>

datatype field = Int32 int | Uint8 byte | Text bytes

fun write_field :: "endian \<Rightarrow> field \<Rightarrow> nat \<Rightarrow> bytes option \<Rightarrow> int option \<Rightarrow> fault + int \<times> bytes option \<times> int option" where
  "write_field e (Int32 i) len buf off = WriteInt32ToBuf e buf len off i"
| "write_field e (Uint8 b) len buf off = WriteUint8ToBuf buf len off b"
| "write_field e (Text s) len buf off = WriteStringToBuf e buf len off (Some s) (length s)"

fun write_fields :: "endian \<Rightarrow> field list \<Rightarrow> nat \<Rightarrow> bytes option \<Rightarrow> int option \<Rightarrow> fault + int \<times> bytes option \<times> int option" where
  "write_fields e [] len buf off = Inr (SOFTBUS_OK, buf, off)"
| "write_fields e (f # fs) len buf off =
     (case write_field e f len buf off of
        Inl flt \<Rightarrow> Inl flt
      | Inr (ret, buf, off) \<Rightarrow> if ret \<noteq> SOFTBUS_OK then Inr (ret, buf, off) else write_fields e fs len buf off)"

text \<open>For a text the reader brings a buffer; the shape of what is read is the one of the list given.\<close>

fun read_field :: "endian \<Rightarrow> field \<Rightarrow> nat \<Rightarrow> bytes option \<Rightarrow> int option \<Rightarrow> fault + int \<times> field option \<times> int option" where
  "read_field e (Int32 _) len buf off = map_sum id (apsnd (apfst (map_option Int32))) (ReadInt32FromBuf e buf len off True)"
| "read_field e (Uint8 _) len buf off = map_sum id (apsnd (apfst (map_option Uint8))) (ReadUint8FromBuf buf len off True)"
| "read_field e (Text room) len buf off = map_sum id (apsnd (apfst (map_option Text))) (ReadStringFromBuf e buf len off (Some room) (length room))"

fun read_fields :: "endian \<Rightarrow> field list \<Rightarrow> nat \<Rightarrow> bytes option \<Rightarrow> int option \<Rightarrow> fault + int \<times> field list" where
  "read_fields e [] len buf off = Inr (SOFTBUS_OK, [])"
| "read_fields e (f # fs) len buf off =
     (case read_field e f len buf off of
        Inl flt \<Rightarrow> Inl flt
      | Inr (ret, v, off) \<Rightarrow>
          if ret \<noteq> SOFTBUS_OK then Inr (ret, []) else map_sum id (apsnd (Cons (the v))) (read_fields e fs len buf off))"

fun field_bytes_of_host :: "endian \<Rightarrow> field \<Rightarrow> bytes" where
  "field_bytes_of_host e (Int32 i) = host_bytes e 4 (nat (i mod 2 ^ 32))"
| "field_bytes_of_host e (Uint8 b) = [b]"
| "field_bytes_of_host e (Text s) = host_bytes e 4 (length s) @ s"

fun field_ok :: "field \<Rightarrow> bool" where
  "field_ok (Int32 i) \<longleftrightarrow> - 2147483648 \<le> i \<and> i < 2147483648"
| "field_ok (Uint8 b) \<longleftrightarrow> True"
| "field_ok (Text s) \<longleftrightarrow> s \<noteq> []"

text \<open>What a reader needs for a field: the same kind and, for a text, room.\<close>

fun fits_field :: "field \<Rightarrow> field \<Rightarrow> bool" where
  "fits_field (Int32 _) (Int32 _) \<longleftrightarrow> True"
| "fits_field (Uint8 _) (Uint8 _) \<longleftrightarrow> True"
| "fits_field (Text s) (Text room) \<longleftrightarrow> length s \<le> length room"
| "fits_field _ _ \<longleftrightarrow> False"

fun field_read :: "field \<Rightarrow> field \<Rightarrow> field" where
  "field_read (Text s) (Text room) = Text (s @ drop (length s) room)"
| "field_read f g = f"

lemma mem_write_append:
  "off + length xs + length ys \<le> length buf \<Longrightarrow> mem_write (mem_write buf off xs) (off + length xs) ys = mem_write buf off (xs @ ys)"
  by (simp add: mem_write_def ac_simps)

lemma write_field_bytes:
  assumes "field_ok f" "off + length (field_bytes_of_host e f) \<le> length buf" "length buf < 2147483648"
  shows "write_field e f (length buf) (Some buf) (Some (int off)) =
    Inr (SOFTBUS_OK, Some (mem_write buf off (field_bytes_of_host e f)), Some (int (off + length (field_bytes_of_host e f))))"
proof (cases f)
  case (Text s)
  then have "1 \<le> length s" using assms(1) by (cases s) simp_all
  moreover have "off + (4 + length s) \<le> length buf" using Text assms(2) by simp
  ultimately have "int off + 4 < int (length buf)" by linarith
  with Text assms mem_write_append [of off "host_bytes e 4 (length s)" s buf] show ?thesis
    by (auto simp: WriteStringToBuf_def checkParamIsNull_def store_at_def Let_def memcpy_s_ok_def SECUREC_MEM_MAX_LEN_def
        nat_add_distrib nat_le_iff le_nat_iff)
qed (use assms in \<open>simp_all add: WriteInt32ToBuf_def WriteUint8ToBuf_def checkParamIsNull_def store_at_def\<close>)

lemma s32_of_bits: "- 2147483648 \<le> i \<Longrightarrow> i < 2147483648 \<Longrightarrow> s32 (i mod 4294967296) = i"
  by (simp add: s32_def mod_add_left_eq)

lemma read_field_bytes:
  assumes "field_ok f" "fits_field f g" "off + length (field_bytes_of_host e f) \<le> length buf" "length buf < 2147483648"
    and "segment off (length (field_bytes_of_host e f)) buf = field_bytes_of_host e f"
  shows "read_field e g (length buf) (Some buf) (Some (int off)) =
    Inr (SOFTBUS_OK, Some (field_read f g), Some (int (off + length (field_bytes_of_host e f))))"
proof (cases f)
  case (Int32 i)
  with assms obtain j where "g = Int32 j" by (cases g) auto
  with Int32 assms show ?thesis
    by (auto simp: ReadInt32FromBuf_def checkParamIsNull_def fetch_at_def host_nat_bytes s32_of_bits nat_add_distrib)
next
  case (Uint8 b)
  with assms obtain j where "g = Uint8 j" by (cases g) auto
  with Uint8 assms show ?thesis
    by (auto simp: ReadUint8FromBuf_def checkParamIsNull_def fetch_at_def)
next
  case (Text s)
  with assms obtain room where g: "g = Text room" and room: "length s \<le> length room" by (cases g) auto
  have s: "0 < length s" "off + 4 + length s \<le> length buf" using Text assms(1,3) by simp_all
  have seg: "segment off (4 + length s) buf = host_bytes e 4 (length s) @ s" using Text assms(5) by simp
  have "segment off 4 buf = host_bytes e 4 (length s)" "segment (off + 4) (length s) buf = s"
    using arg_cong [OF seg, of "take 4"] arg_cong [OF seg, of "drop 4"] s by (simp_all add: segment_def drop_take add.commute)
  with Text g room s assms(4) show ?thesis
    by (auto simp: ReadStringFromBuf_def checkParamIsNull_def fetch_at_def store_at_def Let_def memcpy_s_ok_def SECUREC_MEM_MAX_LEN_def
        host_nat_bytes nat_add_distrib mem_write_def)
qed

fun field_size :: "field \<Rightarrow> nat" where
  "field_size (Int32 i) = 4"
| "field_size (Uint8 b) = 1"
| "field_size (Text s) = 4 + length s"

lemma length_field_host [simp]: "length (field_bytes_of_host e f) = field_size f"
  by (cases f) simp_all

lemma length_fields_host [simp]: "length (concat (map (field_bytes_of_host e) fs)) = sum_list (map field_size fs)"
  by (induction fs) simp_all

lemma write_fields_bytes:
  assumes "list_all field_ok fs" "off + sum_list (map field_size fs) \<le> length buf" "length buf < 2147483648"
  shows "\<exists>off'. write_fields e fs (length buf) (Some buf) (Some (int off)) =
    Inr (SOFTBUS_OK, Some (mem_write buf off (concat (map (field_bytes_of_host e) fs))), Some off')"
  using assms
proof (induction fs arbitrary: buf off)
  case (Cons f fs)
  let ?buf = "mem_write buf off (field_bytes_of_host e f)"
  have "length ?buf = length buf" using Cons.prems(2) by simp
  moreover have "write_field e f (length buf) (Some buf) (Some (int off)) = Inr (SOFTBUS_OK, Some ?buf, Some (int (off + field_size f)))"
    using write_field_bytes [of f off e buf] Cons.prems by simp
  moreover have "mem_write ?buf (off + field_size f) (concat (map (field_bytes_of_host e) fs)) = mem_write buf off (concat (map (field_bytes_of_host e) (f # fs)))"
    using mem_write_append [of off "field_bytes_of_host e f" "concat (map (field_bytes_of_host e) fs)" buf] Cons.prems(2) by simp
  ultimately show ?case using Cons.IH [of "off + field_size f" ?buf] Cons.prems by auto
qed simp

lemma segment_split:
  assumes "segment off (length xs + length ys) buf = xs @ ys"
  shows "segment off (length xs) buf = xs" "segment (off + length xs) (length ys) buf = ys"
  using arg_cong [OF assms, of "take (length xs)"] arg_cong [OF assms, of "drop (length xs)"]
  by (simp_all add: segment_def drop_take add.commute)

lemma read_fields_bytes:
  assumes "list_all field_ok fs" "list_all2 fits_field fs gs" "off + sum_list (map field_size fs) \<le> length buf" "length buf < 2147483648"
    and "segment off (sum_list (map field_size fs)) buf = concat (map (field_bytes_of_host e) fs)"
  shows "read_fields e gs (length buf) (Some buf) (Some (int off)) = Inr (SOFTBUS_OK, map2 field_read fs gs)"
  using assms
proof (induction fs arbitrary: gs off)
  case (Cons f fs)
  from Cons.prems(2) obtain g gs' where gs: "gs = g # gs'" "fits_field f g" "list_all2 fits_field fs gs'" by (auto simp: list_all2_Cons1)
  have seg: "segment off (field_size f) buf = field_bytes_of_host e f"
    "segment (off + field_size f) (sum_list (map field_size fs)) buf = concat (map (field_bytes_of_host e) fs)"
    using segment_split [of off "field_bytes_of_host e f" "concat (map (field_bytes_of_host e) fs)" buf] Cons.prems(5) by simp_all
  have "read_field e g (length buf) (Some buf) (Some (int off)) = Inr (SOFTBUS_OK, Some (field_read f g), Some (int (off + field_size f)))"
    using read_field_bytes [of f g off e buf] seg gs Cons.prems by simp
  with Cons.IH [of gs' "off + field_size f"] seg gs Cons.prems show ?case by simp
qed simp

section \<open>Lemmas on comparison, capability bits and truncation\<close>

lemma StrCmpIgnoreCase_iff: "StrCmpIgnoreCase (Some a) (Some b) = SOFTBUS_OK \<longleftrightarrow> map ToUpperCase a = map ToUpperCase b"
  unfolding StrCmpIgnoreCase_def by (induction a b rule: StrCmp_loop.induct) auto

lemma low_bit_iff: "drop_bit j w AND 1 \<noteq> 0 \<longleftrightarrow> bit w j" for w :: "32 word"
  by (simp only: and_one_eq mod_2_eq_odd of_bool_eq_0_iff not_not bit_iff_odd_drop_bit)

lemma EnableCapabilityBit_Get:
  assumes "i < 32"
  shows "GetCapabilityBit (EnableCapabilityBit (Some v) i) j \<longleftrightarrow> i = j \<or> GetCapabilityBit (Some v) j"
proof -
  have "bit (push_bit i (1 :: 32 word)) j \<longleftrightarrow> i = j" using assms by (auto simp: bit_simps)
  then show ?thesis by (simp only: GetCapabilityBit_def EnableCapabilityBit_def low_bit_iff bit_or_iff option.simps disj_commute)
qed

text \<open>
  What the code relies on of the C library in a UTF-8 locale: every wide character of a converted text has a
  positive number of bytes, and together they are the text.
\<close>

definition mb_sizes :: "('w \<Rightarrow> int) \<Rightarrow> 'w list \<Rightarrow> nat list" where
  "mb_sizes wctomb ws = map (\<lambda>w. nat (wctomb w)) ws"

definition wide_text :: "(bytes \<Rightarrow> 'w list option) \<Rightarrow> ('w \<Rightarrow> int) \<Rightarrow> bool" where
  "wide_text mbstowcs wctomb \<longleftrightarrow>
     (\<forall>s ws. mbstowcs s = Some ws \<longrightarrow> (\<forall>w \<in> set ws. 0 < wctomb w) \<and> sum_list (mb_sizes wctomb ws) = length s)"

declare truncate_loop.simps [simp del]

lemma mb_sizes_simps [simp]:
  "mb_sizes wctomb [] = []" "mb_sizes wctomb (vs @ ws) = mb_sizes wctomb vs @ mb_sizes wctomb ws" "length (mb_sizes wctomb ws) = length ws"
  "mb_sizes wctomb [w] = [nat (wctomb w)]"
  by (simp_all add: mb_sizes_def)

text \<open>The first \<open>k\<close> characters are the longest prefix of whole characters that fits.\<close>

definition best_prefix :: "nat list \<Rightarrow> nat \<Rightarrow> nat \<Rightarrow> nat \<Rightarrow> bool" where
  "best_prefix sizes cap k n \<longleftrightarrow> k \<le> length sizes \<and> n = sum_list (take k sizes) \<and> n \<le> cap \<and>
     (k < length sizes \<longrightarrow> cap < sum_list (take (Suc k) sizes))"

lemma best_prefix_all: "sum_list sizes \<le> cap \<Longrightarrow> best_prefix sizes cap (length sizes) (sum_list sizes)"
  by (simp add: best_prefix_def)

lemma best_prefix_snoc: "best_prefix sizes cap k n \<Longrightarrow> cap < sum_list (sizes @ [x]) \<Longrightarrow> best_prefix (sizes @ [x]) cap k n"
  by (cases "k < length sizes") (auto simp: best_prefix_def)

lemma truncate_loop_sizes:
  assumes "\<forall>w \<in> set ws. 0 < wctomb w" "t + sum_list (mb_sizes wctomb ws) = len" "len < 4294967296"
  shows "\<exists>t' k. truncate_loop wctomb cap len (rev ws) t = (SOFTBUS_OK, t') \<and> t' \<le> len \<and> best_prefix (mb_sizes wctomb ws) cap k (len - t')"
  using assms
proof (induction ws arbitrary: t rule: rev_induct)
  case Nil
  then have "truncate_loop wctomb cap len (rev []) t = (SOFTBUS_OK, t)" by (subst truncate_loop.simps) simp
  with Nil show ?case using best_prefix_all [of "[]" cap] by auto
next
  case (snoc w ws)
  have t: "t \<le> len" "len - t = sum_list (mb_sizes wctomb (ws @ [w]))" using snoc.prems(2) by simp_all
  show ?case
  proof (cases "cap < len - t")
    case True
    have "t + nat (wctomb w) < 4294967296" "t + nat (wctomb w) + sum_list (mb_sizes wctomb ws) = len" using snoc.prems(2,3) by simp_all
    moreover from this True have "truncate_loop wctomb cap len (rev (ws @ [w])) t = truncate_loop wctomb cap len (rev ws) (t + nat (wctomb w))"
      using snoc.prems(1) by (subst truncate_loop.simps) simp
    ultimately show ?thesis
      using snoc.IH [of "t + nat (wctomb w)"] snoc.prems(1,3) best_prefix_snoc [of "mb_sizes wctomb ws" cap] True t by fastforce
  next
    case False
    with t have "truncate_loop wctomb cap len (rev (ws @ [w])) t = (SOFTBUS_OK, t)" by (subst truncate_loop.simps) simp
    with False t best_prefix_all [of "mb_sizes wctomb (ws @ [w])" cap] show ?thesis by auto
  qed
qed

section \<open>Findings\<close>

text \<open>
  \<open>ReadStringFromBuf\<close> does not respect the length of the destination: the length that counts is the one found
  in the message.
\<close>

lemma read_string_overflow:
  "ReadStringFromBuf Little (Some [3, 0, 0, 0, 65, 66, 67]) 7 (Some 0) (Some [0, 0]) 2 = Inl OutOfRangeWrite"
  by (simp add: ReadStringFromBuf_def checkParamIsNull_def fetch_at_def store_at_def segment_def host_nat_def memcpy_s_ok_def SECUREC_MEM_MAX_LEN_def)

text \<open>An offset of \<open>-4\<close> passes the length check, and the write is in front of the buffer.\<close>

lemma write_negative_offset: "WriteInt32ToBuf e (Some buf) len (Some (- 4)) v = Inl OutOfRangeWrite"
  by (simp add: WriteInt32ToBuf_def checkParamIsNull_def store_at_def)

text \<open>A random text of even length cannot be made: there is no room for the terminator the conversion asks for.\<close>

lemma random_even_fails:
  assumes "even len" "len < 4294967295"
  shows "GenerateRandomStr okMalloc random (Some str) len = Inr (ret, str') \<Longrightarrow> ret \<noteq> SOFTBUS_OK"
  using assms by (auto simp: GenerateRandomStr_def ConvertBytesToHexString_def Let_def split: if_splits option.splits sum.splits)

section \<open>Properties\<close>

text \<open>
  C37: Hexadecimal round trip.  Bytes converted to text, in lower or upper case, and back are the same bytes,
  whatever follows the text in its buffer, and nothing else of the destination changes.
\<close>

theorem hex_roundtrip:
  assumes "2 * length bs < length out" "length out < 4294967296" "length bs \<le> length dst"
    and "convert = ConvertBytesToHexString \<or> convert = ConvertBytesToUpperCaseHexString"
  shows "\<exists>hex. convert (Some out) (length out) (Some bs) (length bs) = Inr (SOFTBUS_OK, Some hex) \<and>
    ConvertHexStringToBytes (Some dst) (length dst) (Some hex) (2 * length bs) = Inr (SOFTBUS_OK, Some (bs @ drop (length bs) dst))"
  using assms hex_out [OF assms(1,2)] hex_in [OF _ assms(3), of 97 "drop (2 * length bs) out"] hex_in [OF _ assms(3), of 65 "drop (2 * length bs) out"]
  by (auto simp: mem_write_def)

theorem hex_roundtrip_witness:
  "\<exists>hex. ConvertBytesToHexString (Some (replicate 5 0)) 5 (Some [0xAB, 0x07]) 2 = Inr (SOFTBUS_OK, Some hex) \<and>
    ConvertHexStringToBytes (Some [1, 2, 3]) 3 (Some hex) 4 = Inr (SOFTBUS_OK, Some [0xAB, 0x07, 3])"
proof -
  have four: "(4 :: nat) = Suc (Suc (Suc (Suc 0)))" by simp
  from hex_roundtrip [of "[0xAB, 0x07]" "replicate 5 0" "[1, 2, 3]" ConvertBytesToHexString] show ?thesis
    by (simp add: numeral_2_eq_2 numeral_3_eq_3 four)
qed

text \<open>
  C38: Bluetooth addresses as numbers.  An address below \<open>2 ^ 48\<close> other than 0 that is printed and read again is
  the same number.
\<close>

theorem mac_u64_roundtrip:
  assumes "u \<noteq> 0" "u < 2 ^ 48" "BT_MAC_LEN \<le> length out" "length out \<le> SECUREC_MEM_MAX_LEN"
  shows "\<exists>str. ConvertU64MacToStr u (Some out) (length out) = Inr (SOFTBUS_OK, Some str) \<and>
    ConvertBtMacToU64 True (Some str) (length str) True = Inr (SOFTBUS_OK, Some u)"
proof -
  let ?b = "u64_bytes BT_ADDR_LEN u []"
  have whole: "u64_of ?b 0 = u"
    using assms(2) by (simp add: u64_of_bytes take_bit_eq_mod mod_word_less)
  have "?b \<noteq> replicate BT_ADDR_LEN 0"
  proof
    assume "?b = replicate BT_ADDR_LEN 0"
    then have "u = u64_of (replicate BT_ADDR_LEN 0) 0" using whole by simp
    with assms(1) show False by simp
  qed
  with assms mac_printed [of ?b out] mac_read [of ?b "replicate BT_ADDR_LEN 0" "drop BT_MAC_LEN out"] whole show ?thesis
    by (simp add: ConvertU64MacToStr_def ConvertBtMacToU64_def)
qed

theorem mac_u64_roundtrip_witness:
  "\<exists>str. ConvertU64MacToStr 0x112233445566 (Some (replicate 18 0)) 18 = Inr (SOFTBUS_OK, Some str) \<and>
    ConvertBtMacToU64 True (Some str) (length str) True = Inr (SOFTBUS_OK, Some 0x112233445566)"
  using mac_u64_roundtrip [of "0x112233445566" "replicate 18 0"] by (simp add: SECUREC_MEM_MAX_LEN_def)

text \<open>
  C39: Serialisation round trip.  Any sequence of integers, bytes and non-empty texts that fits into the buffer is
  written without error, and reading fields of the same kinds, with room for the texts, returns them.
\<close>

theorem serial_roundtrip:
  assumes "list_all field_ok fs" "list_all2 fits_field fs gs" "sum_list (map field_size fs) \<le> length buf" "length buf < 2147483648"
  shows "\<exists>buf' off. write_fields e fs (length buf) (Some buf) (Some 0) = Inr (SOFTBUS_OK, Some buf', Some off) \<and>
    read_fields e gs (length buf) (Some buf') (Some 0) = Inr (SOFTBUS_OK, map2 field_read fs gs)"
proof -
  let ?buf = "mem_write buf 0 (concat (map (field_bytes_of_host e) fs))"
  obtain off where "write_fields e fs (length buf) (Some buf) (Some 0) = Inr (SOFTBUS_OK, Some ?buf, Some off)"
    using write_fields_bytes [of fs 0 buf e] assms by auto
  moreover have "length ?buf = length buf" using assms(3) by simp
  moreover have "segment 0 (sum_list (map field_size fs)) ?buf = concat (map (field_bytes_of_host e) fs)"
    by (simp add: segment_def mem_write_def)
  ultimately show ?thesis using read_fields_bytes [of fs gs 0 ?buf e] assms by auto
qed

theorem serial_roundtrip_witness:
  "\<exists>buf' off. write_fields Big [Int32 (- 5), Text [104, 105]] 12 (Some (replicate 12 0)) (Some 0) = Inr (SOFTBUS_OK, Some buf', Some off) \<and>
    read_fields Big [Int32 0, Text [0, 0, 0]] 12 (Some buf') (Some 0) = Inr (SOFTBUS_OK, [Int32 (- 5), Text [104, 105, 0]])"
  using serial_roundtrip [of "[Int32 (- 5), Text [104, 105]]" "[Int32 0, Text [0, 0, 0]]" "replicate 12 0" Big] by simp

text \<open>
  C40: Truncation at character boundaries.  With a UTF-8 locale the truncated size is defined for every valid text
  of up to 128 bytes; it is within the capacity, ends between two characters, and one more character would not fit.
\<close>

theorem truncate_bounds:
  assumes "wide_text mbstowcs wctomb" "mbstowcs s = Some ws" "length s \<le> 128" "length ws \<le> length s" "s \<noteq> []"
  shows "\<exists>n k. CalculateMbsTruncateSize True mbstowcs wctomb s cap = (SOFTBUS_OK, Some n) \<and> n \<le> cap \<and>
    n = sum_list (take k (mb_sizes wctomb ws)) \<and> (k < length ws \<longrightarrow> cap < sum_list (take (Suc k) (mb_sizes wctomb ws)))"
proof -
  have sizes: "\<forall>w \<in> set ws. 0 < wctomb w" "sum_list (mb_sizes wctomb ws) = length s"
    using assms(1,2) by (auto simp: wide_text_def)
  then have "ws \<noteq> []" using assms(5) by auto
  obtain t k where t: "truncate_loop wctomb cap (length s) (rev ws) 0 = (SOFTBUS_OK, t)" "t \<le> length s"
      and k: "best_prefix (mb_sizes wctomb ws) cap k (length s - t)"
    using truncate_loop_sizes [of ws wctomb 0 "length s" cap] sizes assms(3) by auto
  have "CalculateMbsTruncateSize True mbstowcs wctomb s cap = (SOFTBUS_OK, Some (length s - t))"
    using t \<open>ws \<noteq> []\<close> assms(2-5) by (simp add: CalculateMbsTruncateSize_def SetLocale_def)
  with k show ?thesis unfolding best_prefix_def by auto
qed

definition ascii_text :: "bytes \<Rightarrow> bytes option" where
  "ascii_text s = (if list_all (\<lambda>c. 0 < c \<and> c < 128) s then Some s else None)"

theorem truncate_bounds_witness:
  "\<exists>n k. CalculateMbsTruncateSize True ascii_text (\<lambda>_. 1) [104, 101, 108] 2 = (SOFTBUS_OK, Some n) \<and> n \<le> 2 \<and>
    n = sum_list (take k (mb_sizes (\<lambda>_. 1) [104, 101, 108 :: byte])) \<and>
    (k < length [104, 101, 108 :: byte] \<longrightarrow> 2 < sum_list (take (Suc k) (mb_sizes (\<lambda>_. 1) [104, 101, 108 :: byte])))"
proof -
  have "wide_text ascii_text (\<lambda>_. 1)" by (auto simp: wide_text_def ascii_text_def mb_sizes_def sum_list_triv split: if_splits)
  then show ?thesis by (rule truncate_bounds) (simp_all add: ascii_text_def)
qed

end
