(* ===== verification/Br_Object.thy ===== *)
theory Br_Object
  imports Conn_Common Softbus_Utils
begin

text \<open>
  The connection objects of the BR manager, \<^verbatim>\<open>core/connection/br/src/softbus_conn_br_manager.c\<close> and
  \<^verbatim>\<open>softbus_conn_br_connection.c\<close>: their allocation, the list of the manager, and the reference count
  \<open>objectRc\<close> that says when an object is freed.

  Objects live at addresses.  Every access through a pointer looks the address up, and a freed object is
  the outcome \<open>InvalidPointer\<close>.  \<open>ok i\<close> is the outcome of the \<open>i\<close>-th lock or allocation of a function.
\<close>

section \<open>Definitions\<close>

datatype ConnBrConnectionState =
    BR_CONNECTION_STATE_CONNECTING
  | BR_CONNECTION_STATE_CONNECTED
  | BR_CONNECTION_STATE_EXCEPTION
  | BR_CONNECTION_STATE_NEGOTIATION_CLOSING
  | BR_CONNECTION_STATE_CLOSING
  | BR_CONNECTION_STATE_CLOSED
  | BR_CONNECTION_STATE_INVALID

abbreviation CONNECT_BR :: nat where "CONNECT_BR \<equiv> 2"
abbreviation DEFAULT_WINDOW :: int where "DEFAULT_WINDOW \<equiv> 20"

record ConnBrConnection =
  bc_connectionId :: nat
  bc_side :: ConnSideType
  bc_addr :: string
  bc_mtu :: nat
  bc_retryCount :: nat
  bc_socketHandle :: int
  bc_state :: ConnBrConnectionState
  bc_connectionRc :: int
  bc_objectRc :: int
  bc_isOccupied :: bool
  bc_window :: int
  bc_sequence :: int
  bc_waitSequence :: int
  bc_ackTimeoutCount :: int
  bc_connectProcessStatus :: "(int \<times> int) list"

text \<open>The heap of objects, the manager's list, the next fresh address and the counter of connection ids.\<close>

record br_conns =
  bo_heap :: "nat \<Rightarrow> ConnBrConnection option"
  bo_list :: "nat list"
  bo_next :: nat
  bo_nextId :: "16 word"

definition put_conn :: "nat \<Rightarrow> ConnBrConnection \<Rightarrow> br_conns \<Rightarrow> br_conns" where
  "put_conn a c s = s\<lparr>bo_heap := (bo_heap s)(a := Some c)\<rparr>"

text \<open>\<open>memset\<close> by \<open>SoftBusCalloc\<close> leaves \<open>isOccupied\<close> false.\<close>

definition ConnBrCreateConnection ::
  "(nat \<Rightarrow> bool) \<Rightarrow> nat \<Rightarrow> string option \<Rightarrow> ConnSideType \<Rightarrow> int \<Rightarrow> br_conns \<Rightarrow> nat option \<times> br_conns" where
  "ConnBrCreateConnection ok mtu addr side socketHandle s =
     (case addr of None \<Rightarrow> (None, s)
      | Some mac \<Rightarrow>
        if \<not> ok 0 then (None, s)
        else if \<not> ok 1 then (None, s)
        else if length mac \<ge> BT_MAC_LEN then (None, s)
        else if \<not> ok 2 then (None, s)
        else
          let connection = \<lparr>bc_connectionId = 0, bc_side = side, bc_addr = mac, bc_mtu = mtu, bc_retryCount = 0,
                bc_socketHandle = socketHandle,
                bc_state = (if side = CONN_SIDE_CLIENT then BR_CONNECTION_STATE_CONNECTING else BR_CONNECTION_STATE_CONNECTED),
                bc_connectionRc = 1, bc_objectRc = 1, bc_isOccupied = False,
                bc_window = DEFAULT_WINDOW, bc_sequence = 0, bc_waitSequence = 0, bc_ackTimeoutCount = 0, bc_connectProcessStatus = []\<rparr>
          in (Some (bo_next s), (put_conn (bo_next s) connection s)\<lparr>bo_next := Suc (bo_next s)\<rparr>))"

text \<open>Walking the list to the first object that satisfies a condition.\<close>

fun walk :: "(ConnBrConnection \<Rightarrow> bool) \<Rightarrow> (nat \<Rightarrow> ConnBrConnection option) \<Rightarrow> nat list \<Rightarrow> fault + nat option" where
  "walk P heap [] = Inr None"
| "walk P heap (it # rest) =
     (case heap it of None \<Rightarrow> Inl InvalidPointer | Some c \<Rightarrow> if P c then Inr (Some it) else walk P heap rest)"

text \<open>An id that is taken is given up as 0; \<open>ConnBrSaveConnection\<close> tries until it gets another.\<close>

definition AllocateConnectionIdUnsafe :: "br_conns \<Rightarrow> fault + nat \<times> br_conns" where
  "AllocateConnectionIdUnsafe s =
     (let nextId = bo_nextId s + 1; connectionId = CONNECT_BR * 2 ^ 16 + unat nextId; s = s\<lparr>bo_nextId := nextId\<rparr>
      in case walk (\<lambda>it. connectionId = bc_connectionId it) (bo_heap s) (bo_list s) of
           Inl f \<Rightarrow> Inl f
         | Inr (Some _) \<Rightarrow> Inr (0, s)
         | Inr None \<Rightarrow> Inr (connectionId, s))"

partial_function (option) allocate_loop :: "br_conns \<Rightarrow> (fault + nat \<times> br_conns) option" where
  "allocate_loop s =
     (case AllocateConnectionIdUnsafe s of
        Inl f \<Rightarrow> Some (Inl f)
      | Inr (connectionId, s) \<Rightarrow> if connectionId = 0 then allocate_loop s else Some (Inr (connectionId, s)))"

definition ConnBrSaveConnection :: "(nat \<Rightarrow> bool) \<Rightarrow> nat option \<Rightarrow> br_conns \<Rightarrow> (fault + int \<times> br_conns) option" where
  "ConnBrSaveConnection ok connection s =
     (case connection of None \<Rightarrow> Some (Inr (SOFTBUS_INVALID_PARAM, s))
      | Some a \<Rightarrow>
        if \<not> ok 0 then Some (Inr (SOFTBUS_LOCK_ERR, s))
        else case allocate_loop s of
               None \<Rightarrow> None
             | Some (Inl f) \<Rightarrow> Some (Inl f)
             | Some (Inr (connectionId, s)) \<Rightarrow>
                 (case bo_heap s a of
                    None \<Rightarrow> Some (Inl InvalidPointer)
                  | Some c \<Rightarrow>
                      Some (Inr (SOFTBUS_OK,
                        (put_conn a (c\<lparr>bc_connectionId := connectionId, bc_objectRc := s32 (bc_objectRc c + 1)\<rparr>) s)
                          \<lparr>bo_list := a # bo_list s\<rparr>))))"

definition ConnBrReturnConnection :: "(nat \<Rightarrow> bool) \<Rightarrow> nat option \<Rightarrow> br_conns \<Rightarrow> fault + br_conns" where
  "ConnBrReturnConnection ok connection s =
     (case connection of None \<Rightarrow> Inr s
      | Some a \<Rightarrow>
        (case bo_heap s a of
           None \<Rightarrow> Inl InvalidPointer
         | Some c \<Rightarrow>
             if \<not> ok 0 then Inr s
             else
               let objectRc = s32 (bc_objectRc c - 1)
               in if objectRc \<le> 0 then Inr (s\<lparr>bo_heap := (bo_heap s)(a := None)\<rparr>)
                  else Inr (put_conn a (c\<lparr>bc_objectRc := objectRc\<rparr>) s)))"

definition ConnBrGetConnectionById :: "(nat \<Rightarrow> bool) \<Rightarrow> nat \<Rightarrow> br_conns \<Rightarrow> fault + nat option \<times> br_conns" where
  "ConnBrGetConnectionById ok connectionId s =
     (if \<not> ok 0 then Inr (None, s)
      else case walk (\<lambda>it. bc_connectionId it = connectionId) (bo_heap s) (bo_list s) of
             Inl f \<Rightarrow> Inl f
           | Inr None \<Rightarrow> Inr (None, s)
           | Inr (Some a) \<Rightarrow>
               if \<not> ok 1 then Inr (None, s)
               else case bo_heap s a of
                      None \<Rightarrow> Inl InvalidPointer
                    | Some c \<Rightarrow> Inr (Some a, put_conn a (c\<lparr>bc_objectRc := s32 (bc_objectRc c + 1)\<rparr>) s))"

text \<open>Addresses are compared without regard to case.\<close>

definition addr_bytes :: "string \<Rightarrow> bytes" where
  "addr_bytes a = map of_char a"

definition same_addr :: "string \<Rightarrow> string \<Rightarrow> bool" where
  "same_addr a b \<longleftrightarrow> StrCmpIgnoreCase (Some (addr_bytes a)) (Some (addr_bytes b)) = 0"

text \<open>The lookup by address takes the last match of the list.\<close>

fun walk_last :: "(ConnBrConnection \<Rightarrow> bool) \<Rightarrow> (nat \<Rightarrow> ConnBrConnection option) \<Rightarrow> nat list \<Rightarrow> nat option \<Rightarrow> fault + nat option" where
  "walk_last P heap [] target = Inr target"
| "walk_last P heap (it # rest) target =
     (case heap it of None \<Rightarrow> Inl InvalidPointer | Some c \<Rightarrow> walk_last P heap rest (if P c then Some it else target))"

definition ConnBrGetConnectionByAddr :: "(nat \<Rightarrow> bool) \<Rightarrow> string option \<Rightarrow> ConnSideType \<Rightarrow> br_conns \<Rightarrow> fault + nat option \<times> br_conns" where
  "ConnBrGetConnectionByAddr ok addr side s =
     (case addr of None \<Rightarrow> Inr (None, s)
      | Some addr \<Rightarrow>
        if \<not> ok 0 then Inr (None, s)
        else case walk_last (\<lambda>it. same_addr (bc_addr it) addr \<and> (if side = CONN_SIDE_ANY then True else bc_side it = side))
                    (bo_heap s) (bo_list s) None of
               Inl f \<Rightarrow> Inl f
             | Inr None \<Rightarrow> Inr (None, s)
             | Inr (Some a) \<Rightarrow>
                 if \<not> ok 1 then Inr (None, s)
                 else case bo_heap s a of
                        None \<Rightarrow> Inl InvalidPointer
                      | Some c \<Rightarrow> Inr (Some a, put_conn a (c\<lparr>bc_objectRc := s32 (bc_objectRc c + 1)\<rparr>) s))"

definition ConnBrRemoveConnection :: "(nat \<Rightarrow> bool) \<Rightarrow> nat option \<Rightarrow> br_conns \<Rightarrow> fault + br_conns" where
  "ConnBrRemoveConnection ok connection s =
     (case connection of None \<Rightarrow> Inr s
      | Some a \<Rightarrow>
        if \<not> ok 0 then Inr s
        else case bo_heap s a of
               None \<Rightarrow> Inl InvalidPointer
             | Some c \<Rightarrow>
                 (case walk (\<lambda>it. bc_connectionId it = bc_connectionId c) (bo_heap s) (bo_list s) of
                    Inl f \<Rightarrow> Inl f
                  | Inr None \<Rightarrow> Inr s
                  | Inr (Some _) \<Rightarrow> ConnBrReturnConnection (\<lambda>i. ok (Suc i)) (Some a) (s\<lparr>bo_list := remove1 a (bo_list s)\<rparr>)))"

section \<open>Allocation of ids\<close>

definition ids_of :: "br_conns \<Rightarrow> nat set" where
  "ids_of s = (\<lambda>a. bc_connectionId (the (bo_heap s a))) ` set (bo_list s)"

definition alive :: "br_conns \<Rightarrow> bool" where
  "alive s \<longleftrightarrow> (\<forall>a \<in> set (bo_list s). bo_heap s a \<noteq> None)"

lemma walk_alive:
  assumes "\<forall>a \<in> set as. heap a \<noteq> None"
  shows "walk P heap as = Inr (find (\<lambda>a. P (the (heap a))) as)"
  using assms by (induction as) auto

lemma allocate_step:
  assumes "alive s"
  defines "k \<equiv> CONNECT_BR * 2 ^ 16 + unat (bo_nextId s + 1)"
  shows "AllocateConnectionIdUnsafe s = Inr (if k \<in> ids_of s then 0 else k, s\<lparr>bo_nextId := bo_nextId s + 1\<rparr>)"
  using assms
  by (auto simp: AllocateConnectionIdUnsafe_def Let_def alive_def walk_alive ids_of_def find_None_iff image_iff dest: find_SomeD split: option.split)

lemma allocate_loop_at:
  assumes "alive s" "CONNECT_BR * 2 ^ 16 + unat (bo_nextId s + 1 + word_of_nat k) \<notin> ids_of s"
  shows "\<exists>i n. allocate_loop s = Some (Inr (i, s\<lparr>bo_nextId := n\<rparr>)) \<and> i \<noteq> 0 \<and> i \<notin> ids_of s"
  using assms
proof (induction k arbitrary: s)
  case 0
  then show ?case by (subst allocate_loop.simps) (auto simp: allocate_step)
next
  case (Suc k)
  show ?case
  proof (cases "CONNECT_BR * 2 ^ 16 + unat (bo_nextId s + 1) \<in> ids_of s")
    case True
    let ?s = "s\<lparr>bo_nextId := bo_nextId s + 1\<rparr>"
    have "allocate_loop s = allocate_loop ?s" using Suc.prems(1) True by (subst allocate_loop.simps) (simp add: allocate_step)
    moreover have "alive ?s" "ids_of ?s = ids_of s" using Suc.prems(1) by (auto simp: alive_def ids_of_def)
    ultimately show ?thesis using Suc.IH [of ?s] Suc.prems(2) by (simp add: add.assoc)
  next
    case False
    with Suc.prems(1) show ?thesis by (subst allocate_loop.simps) (auto simp: allocate_step)
  qed
qed

text \<open>The search for an id ends as long as fewer than 65536 connections are listed.\<close>

lemma allocate_loop_ends:
  assumes "alive s" "length (bo_list s) < 65536"
  shows "\<exists>i n. allocate_loop s = Some (Inr (i, s\<lparr>bo_nextId := n\<rparr>)) \<and> i \<noteq> 0 \<and> i \<notin> ids_of s"
proof -
  let ?cand = "\<lambda>w :: 16 word. CONNECT_BR * 2 ^ 16 + unat w"
  have "card (ids_of s) < 65536"
    using assms(2) card_length [of "bo_list s"] card_image_le [of "set (bo_list s)" "\<lambda>a. bc_connectionId (the (bo_heap s a))"]
    by (simp add: ids_of_def)
  moreover have "card (range ?cand) = 65536" by (subst card_image) (simp_all add: inj_on_def card_word word_unat_eq_iff)
  moreover have "finite (ids_of s)" by (simp add: ids_of_def)
  ultimately have "\<not> range ?cand \<subseteq> ids_of s" using card_mono [of "ids_of s" "range ?cand"] by linarith
  then obtain w where "?cand w \<notin> ids_of s" by blast
  moreover have "bo_nextId s + 1 + word_of_nat (unat (w - (bo_nextId s + 1))) = w" by simp
  ultimately have "?cand (bo_nextId s + 1 + word_of_nat (unat (w - (bo_nextId s + 1)))) \<notin> ids_of s" by simp
  from allocate_loop_at [OF assms(1) this] show ?thesis .
qed

text \<open>Whenever the search ends, the id is new.\<close>

lemma allocate_loop_new:
  assumes "allocate_loop s = Some r" "alive s"
  shows "\<exists>i n. r = Inr (i, s\<lparr>bo_nextId := n\<rparr>) \<and> i \<noteq> 0 \<and> i \<notin> ids_of s"
proof -
  have "alive s \<longrightarrow> (\<exists>i n. r = Inr (i, s\<lparr>bo_nextId := n\<rparr>) \<and> i \<noteq> 0 \<and> i \<notin> ids_of s)"
  proof (rule allocate_loop.raw_induct [OF _ assms(1)], rule impI)
    fix loop s r
    assume IH: "\<And>t r. loop t = Some r \<Longrightarrow> alive t \<longrightarrow> (\<exists>i n. r = Inr (i, t\<lparr>bo_nextId := n\<rparr>) \<and> i \<noteq> 0 \<and> i \<notin> ids_of t)"
      and run: "(case AllocateConnectionIdUnsafe s of Inl f \<Rightarrow> Some (Inl f)
        | Inr (i, t) \<Rightarrow> if i = 0 then loop t else Some (Inr (i, t))) = Some r" and "alive s"
    let ?s = "s\<lparr>bo_nextId := bo_nextId s + 1\<rparr>"
    have same: "alive ?s" "ids_of ?s = ids_of s" using \<open>alive s\<close> by (auto simp: alive_def ids_of_def)
    show "\<exists>i n. r = Inr (i, s\<lparr>bo_nextId := n\<rparr>) \<and> i \<noteq> 0 \<and> i \<notin> ids_of s"
      using run IH [of ?s r] same by (auto simp: allocate_step [OF \<open>alive s\<close>] split: if_splits)
  qed
  with assms(2) show ?thesis by blast
qed

section \<open>References\<close>

text \<open>
  \<open>held a\<close> counts the references threads hold to the object at \<open>a\<close>; the list holds one more.  The count in the
  object covers both, and equals them as long as no lock fails (\<open>sound\<close>).
\<close>

definition refs :: "br_conns \<Rightarrow> (nat \<Rightarrow> nat) \<Rightarrow> nat \<Rightarrow> int" where
  "refs s held a = int (held a) + (if a \<in> set (bo_list s) then 1 else 0)"

definition obj_base :: "br_conns \<Rightarrow> bool" where
  "obj_base s \<longleftrightarrow> distinct (bo_list s) \<and> inj_on (\<lambda>a. bc_connectionId (the (bo_heap s a))) (set (bo_list s)) \<and>
     (\<forall>a \<in> set (bo_list s). bc_connectionId (the (bo_heap s a)) \<noteq> 0) \<and>
     (\<forall>a \<ge> bo_next s. bo_heap s a = None)"

definition covered :: "bool \<Rightarrow> ConnBrConnection option \<Rightarrow> int \<Rightarrow> bool" where
  "covered sound obj n =
     (case obj of
        None \<Rightarrow> n = 0
      | Some c \<Rightarrow> n \<le> bc_objectRc c \<and> 0 < bc_objectRc c \<and> bc_objectRc c < 2147483648 \<and> (sound \<longrightarrow> bc_objectRc c = n))"

definition obj_inv :: "bool \<Rightarrow> br_conns \<times> (nat \<Rightarrow> nat) \<Rightarrow> bool" where
  "obj_inv sound = (\<lambda>(s, held). obj_base s \<and> (\<forall>a. covered sound (bo_heap s a) (refs s held a)))"

text \<open>
  \<open>ConnBrRemoveConnection\<close> looks for an object with the id of the one it is given and drops the one it is given.  They differ when the id of
  an object that has left the list has been given to another one.
\<close>

definition id_reused :: "br_conns \<Rightarrow> nat \<Rightarrow> bool" where
  "id_reused s a \<longleftrightarrow> (case bo_heap s a of None \<Rightarrow> False
     | Some c \<Rightarrow> a \<notin> set (bo_list s) \<and> bc_connectionId c \<noteq> 0 \<and> (\<exists>b \<in> set (bo_list s). bc_connectionId (the (bo_heap s b)) = bc_connectionId c))"

inductive obj_step :: "bool \<Rightarrow> br_conns \<times> (nat \<Rightarrow> nat) \<Rightarrow> br_conns \<times> (nat \<Rightarrow> nat) \<Rightarrow> bool" for sound where
  create: "ConnBrCreateConnection ok mtu addr side h s = (Some a, s') \<Longrightarrow> obj_step sound (s, held) (s', held(a := 1))"
| save: "0 < held a \<Longrightarrow> a \<notin> set (bo_list s) \<Longrightarrow> bc_objectRc (the (bo_heap s a)) < 2147483647 \<Longrightarrow>
    ConnBrSaveConnection ok (Some a) s = Some (Inr (ret, s')) \<Longrightarrow> obj_step sound (s, held) (s', held)"
| get: "ConnBrGetConnectionById ok i s = Inr (Some a, s') \<Longrightarrow> bc_objectRc (the (bo_heap s a)) < 2147483647 \<Longrightarrow>
    obj_step sound (s, held) (s', held(a := Suc (held a)))"
| get_addr: "ConnBrGetConnectionByAddr ok addr side s = Inr (Some a, s') \<Longrightarrow> bc_objectRc (the (bo_heap s a)) < 2147483647 \<Longrightarrow>
    obj_step sound (s, held) (s', held(a := Suc (held a)))"
| return: "0 < held a \<Longrightarrow> (sound \<Longrightarrow> ok 0) \<Longrightarrow> ConnBrReturnConnection ok (Some a) s = Inr s' \<Longrightarrow>
    obj_step sound (s, held) (s', held(a := held a - 1))"
| remove: "0 < held a \<Longrightarrow> \<not> id_reused s a \<Longrightarrow> (sound \<Longrightarrow> ok 1) \<Longrightarrow> ConnBrRemoveConnection ok (Some a) s = Inr s' \<Longrightarrow>
    obj_step sound (s, held) (s', held)"
| assign: "0 < held a \<Longrightarrow> bo_heap s a = Some c \<Longrightarrow> bc_objectRc c' = bc_objectRc c \<Longrightarrow> bc_connectionId c' = bc_connectionId c \<Longrightarrow>
    obj_step sound (s, held) (put_conn a c' s, held)"

definition obj_start :: "br_conns \<times> (nat \<Rightarrow> nat) \<Rightarrow> bool" where
  "obj_start = (\<lambda>(s, held). bo_heap s = (\<lambda>_. None) \<and> bo_list s = [] \<and> held = (\<lambda>_. 0))"

lemma obj_invI: "obj_base s \<Longrightarrow> (\<And>a. covered sound (bo_heap s a) (refs s held a)) \<Longrightarrow> obj_inv sound (s, held)"
  by (simp add: obj_inv_def)

lemma obj_invD: "obj_inv sound (s, held) \<Longrightarrow> obj_base s" "obj_inv sound (s, held) \<Longrightarrow> covered sound (bo_heap s a) (refs s held a)"
  by (simp_all add: obj_inv_def)

lemma refs_pos: "0 < held a \<or> a \<in> set (bo_list s) \<Longrightarrow> 0 < refs s held a" "0 \<le> refs s held a"
  by (auto simp: refs_def)

lemma obj_inv_alloc:
  assumes "obj_inv sound (s, held)" "0 < held a \<or> a \<in> set (bo_list s)"
  obtains c where "bo_heap s a = Some c"
  using obj_invD(2) [OF assms(1), of a] refs_pos(1) [of held a s, OF assms(2)] by (auto simp: covered_def split: option.splits)

lemma obj_inv_alive: "obj_inv sound (s, held) \<Longrightarrow> alive s"
  unfolding alive_def using obj_inv_alloc by (metis option.distinct(1))

lemma obj_base_put:
  assumes "obj_base s" "bo_heap s a = Some c" "bc_connectionId c' = bc_connectionId c"
  shows "obj_base (put_conn a c' s)"
proof -
  have "bc_connectionId (the (bo_heap (put_conn a c' s) b)) = bc_connectionId (the (bo_heap s b))" for b using assms(2,3) by (simp add: put_conn_def)
  moreover have "a < bo_next s" using assms(1,2) by (auto simp: obj_base_def not_less [symmetric])
  ultimately show ?thesis using assms(1) by (auto simp: obj_base_def put_conn_def)
qed

text \<open>Writing one object keeps the invariant when its count still covers its references.\<close>

lemma obj_inv_put:
  assumes inv: "obj_inv sound (s, held)" and old: "bo_heap s a = Some c" and same: "bc_connectionId c' = bc_connectionId c"
    and count: "covered sound (Some c') (refs s held' a)" and others: "\<And>b. b \<noteq> a \<Longrightarrow> held' b = held b"
  shows "obj_inv sound (put_conn a c' s, held')"
proof (rule obj_invI)
  show "obj_base (put_conn a c' s)" by (rule obj_base_put [OF obj_invD(1) [OF inv] old same])
  show "covered sound (bo_heap (put_conn a c' s) b) (refs (put_conn a c' s) held' b)" for b
    using obj_invD(2) [OF inv, of b] count others [of b] by (cases "b = a") (simp_all add: put_conn_def refs_def)
qed

text \<open>Dropping one reference: a held one, or the one of the list.\<close>

lemma obj_inv_drop:
  assumes base: "obj_base s" and cover: "\<And>b. covered sound (bo_heap s b) (refs s held' b + (if b = a then 1 else 0))"
    and ok: "sound \<Longrightarrow> ok 0" and res: "ConnBrReturnConnection ok (Some a) s = Inr s'"
  shows "obj_inv sound (s', held')"
proof -
  obtain c where c: "bo_heap s a = Some c" using res by (auto simp: ConnBrReturnConnection_def split: option.splits)
  have rc: "refs s held' a + 1 \<le> bc_objectRc c" "0 < bc_objectRc c" "bc_objectRc c < 2147483648" "sound \<longrightarrow> bc_objectRc c = refs s held' a + 1"
    using cover [of a] c by (auto simp: covered_def)
  have other: "covered sound (bo_heap s b) (refs s held' b)" if "b \<noteq> a" for b using cover [of b] that by simp
  consider "\<not> ok 0" "s' = s" | "ok 0" "bc_objectRc c = 1" "s' = s\<lparr>bo_heap := (bo_heap s)(a := None)\<rparr>"
    | "ok 0" "1 < bc_objectRc c" "s' = put_conn a (c\<lparr>bc_objectRc := bc_objectRc c - 1\<rparr>) s"
    using res c rc by (cases "bc_objectRc c = 1") (auto simp: ConnBrReturnConnection_def Let_def split: if_splits)
  then show ?thesis
  proof cases
    case 1
    with ok rc c have "covered sound (bo_heap s a) (refs s held' a)" by (auto simp: covered_def)
    with other have "covered sound (bo_heap s b) (refs s held' b)" for b by (cases "b = a") simp_all
    with base show ?thesis unfolding 1(2) by (rule obj_invI)
  next
    case 2
    have zero: "refs s held' a = 0" using rc(1) 2(2) refs_pos(2) [of s held' a] by simp
    then have "a \<notin> set (bo_list s)" by (auto simp: refs_def split: if_splits)
    with base have "obj_base s'" by (auto simp: obj_base_def 2(3) inj_on_def)
    then show ?thesis
    proof (rule obj_invI)
      show "covered sound (bo_heap s' b) (refs s' held' b)" for b
        using other [of b] zero by (cases "b = a") (simp_all add: 2(3) refs_def covered_def)
    qed
  next
    case 3
    show ?thesis
    proof (rule obj_invI)
      show "obj_base s'" unfolding 3(3) using base c by (rule obj_base_put) simp
      show "covered sound (bo_heap s' b) (refs s' held' b)" for b
        using other [of b] rc 3(2) by (cases "b = a") (simp_all add: 3(3) put_conn_def refs_def covered_def)
    qed
  qed
qed

lemma obj_inv_create:
  assumes inv: "obj_inv sound (s, held)" and res: "ConnBrCreateConnection ok mtu addr side h s = (Some a, s')"
  shows "obj_inv sound (s', held(a := 1))"
proof -
  obtain c where a: "a = bo_next s" and s': "s' = (put_conn a c s)\<lparr>bo_next := Suc (bo_next s)\<rparr>" and rc: "bc_objectRc c = 1"
    using res by (auto simp: ConnBrCreateConnection_def Let_def split: option.splits if_splits)
  have none: "bo_heap s a = None" using obj_invD(1) [OF inv] by (simp add: obj_base_def a)
  then have "refs s held a = 0" using obj_invD(2) [OF inv, of a] by (simp add: covered_def)
  then have fresh: "held a = 0" "a \<notin> set (bo_list s)" by (auto simp: refs_def split: if_splits)
  show ?thesis
  proof (rule obj_invI)
    show "obj_base s'" using obj_invD(1) [OF inv] fresh(2) by (auto simp: obj_base_def s' put_conn_def inj_on_def a)
    show "covered sound (bo_heap s' b) (refs s' (held(a := 1)) b)" for b
      using obj_invD(2) [OF inv, of b] fresh rc by (cases "b = a") (simp_all add: s' put_conn_def refs_def covered_def)
  qed
qed

lemma obj_inv_save:
  assumes inv: "obj_inv sound (s, held)" and a: "0 < held a" "a \<notin> set (bo_list s)"
    "bc_objectRc (the (bo_heap s a)) < 2147483647" and res: "ConnBrSaveConnection ok (Some a) s = Some (Inr (ret, s'))"
  shows "obj_inv sound (s', held)"
proof (cases "ok 0")
  case True
  obtain c where c: "bo_heap s a = Some c" using obj_inv_alloc [OF inv] a(1) by blast
  obtain i n where i: "allocate_loop s = Some (Inr (i, s\<lparr>bo_nextId := n\<rparr>))" "i \<noteq> 0" "i \<notin> ids_of s"
    using res True allocate_loop_new [OF _ obj_inv_alive [OF inv]] by (cases "allocate_loop s") (auto simp: ConnBrSaveConnection_def)
  have rc: "refs s held a \<le> bc_objectRc c" "0 < bc_objectRc c" "bc_objectRc c < 2147483647" "sound \<longrightarrow> bc_objectRc c = refs s held a"
    using obj_invD(2) [OF inv, of a] c a(3) by (auto simp: covered_def)
  have s': "s' = s\<lparr>bo_nextId := n, bo_heap := (bo_heap s)(a := Some (c\<lparr>bc_connectionId := i, bc_objectRc := bc_objectRc c + 1\<rparr>)), bo_list := a # bo_list s\<rparr>"
    using res True i(1) c rc by (simp add: ConnBrSaveConnection_def put_conn_def)
  show ?thesis
  proof (rule obj_invI)
    have "a < bo_next s" using obj_invD(1) [OF inv] c by (auto simp: obj_base_def not_less [symmetric])
    moreover have "inj_on (\<lambda>b. bc_connectionId (the (bo_heap s' b))) (set (bo_list s'))"
      using obj_invD(1) [OF inv] a(2) i(3) by (auto simp: s' obj_base_def inj_on_def ids_of_def image_iff)
    ultimately show "obj_base s'" using obj_invD(1) [OF inv] a(2) i(2) by (auto simp: obj_base_def s')
    show "covered sound (bo_heap s' b) (refs s' held b)" for b
      using obj_invD(2) [OF inv, of b] rc a(2) by (cases "b = a") (auto simp: s' refs_def covered_def)
  qed
next
  case False
  with res inv show ?thesis by (simp add: ConnBrSaveConnection_def)
qed

text \<open>A lookup adds a reference to a listed object.\<close>

lemma obj_inv_found:
  assumes inv: "obj_inv sound (s, held)" and a: "a \<in> set (bo_list s)" "bo_heap s a = Some c" "bc_objectRc c < 2147483647"
  shows "obj_inv sound (put_conn a (c\<lparr>bc_objectRc := s32 (bc_objectRc c + 1)\<rparr>) s, held(a := Suc (held a)))"
proof -
  have "covered sound (Some c) (refs s held a)" using obj_invD(2) [OF inv, of a] a by auto
  then show ?thesis by (intro obj_inv_put [OF inv a(2)]) (use a in \<open>auto simp: covered_def refs_def\<close>)
qed

lemma walk_last_member: "walk_last P heap as t = Inr (Some a) \<Longrightarrow> a \<in> set as \<or> t = Some a"
  by (induction as arbitrary: t) (auto split: option.splits if_splits)

lemma walk_last_alive: "\<forall>a \<in> set as. heap a \<noteq> None \<Longrightarrow> \<exists>r. walk_last P heap as t = Inr r"
  by (induction as arbitrary: t) auto

lemma get_found:
  assumes "ConnBrGetConnectionById ok i s = Inr (Some a, s')" "alive s"
  shows "a \<in> set (bo_list s) \<and> (\<exists>c. bo_heap s a = Some c \<and> s' = put_conn a (c\<lparr>bc_objectRc := s32 (bc_objectRc c + 1)\<rparr>) s)"
  using assms by (auto simp: ConnBrGetConnectionById_def alive_def walk_alive dest: find_SomeD split: if_splits sum.splits option.splits)

lemma get_addr_found:
  assumes "ConnBrGetConnectionByAddr ok addr side s = Inr (Some a, s')"
  shows "a \<in> set (bo_list s) \<and> (\<exists>c. bo_heap s a = Some c \<and> s' = put_conn a (c\<lparr>bc_objectRc := s32 (bc_objectRc c + 1)\<rparr>) s)"
  using assms by (auto simp: ConnBrGetConnectionByAddr_def dest: walk_last_member split: if_splits sum.splits option.splits)

lemma obj_inv_return:
  assumes inv: "obj_inv sound (s, held)" and a: "0 < held a" "sound \<Longrightarrow> ok 0" and res: "ConnBrReturnConnection ok (Some a) s = Inr s'"
  shows "obj_inv sound (s', held(a := held a - 1))"
proof (rule obj_inv_drop [OF obj_invD(1) [OF inv] _ a(2) res])
  show "covered sound (bo_heap s b) (refs s (held(a := held a - 1)) b + (if b = a then 1 else 0))" for b
    using obj_invD(2) [OF inv, of b] a(1) by (cases "b = a") (simp_all add: refs_def of_nat_diff)
qed

lemma obj_inv_remove:
  assumes inv: "obj_inv sound (s, held)" and a: "0 < held a" "\<not> id_reused s a" "sound \<Longrightarrow> ok 1"
    and res: "ConnBrRemoveConnection ok (Some a) s = Inr s'"
  shows "obj_inv sound (s', held)"
proof -
  obtain c where c: "bo_heap s a = Some c" using obj_inv_alloc [OF inv] a(1) by blast
  have walk: "walk P (bo_heap s) (bo_list s) = Inr (find (\<lambda>b. P (the (bo_heap s b))) (bo_list s))" for P
    using obj_inv_alive [OF inv] by (auto simp: alive_def walk_alive)
  let ?find = "find (\<lambda>b. bc_connectionId (the (bo_heap s b)) = bc_connectionId c) (bo_list s)" and ?s = "s\<lparr>bo_list := remove1 a (bo_list s)\<rparr>"
  show ?thesis
  proof (cases "ok 0 \<and> ?find \<noteq> None")
    case True
    then obtain b where "b \<in> set (bo_list s)" "bc_connectionId (the (bo_heap s b)) = bc_connectionId c" by (auto simp: find_None_iff)
    then have member: "a \<in> set (bo_list s)"
      using a(2) c obj_invD(1) [OF inv] by (auto simp: id_reused_def obj_base_def)
    have ret: "ConnBrReturnConnection (\<lambda>i. ok (Suc i)) (Some a) ?s = Inr s'"
      using res True c by (auto simp: ConnBrRemoveConnection_def walk)
    have dist: "distinct (bo_list s)" using obj_invD(1) [OF inv] by (simp add: obj_base_def)
    show ?thesis
    proof (rule obj_inv_drop [OF _ _ _ ret])
      show "obj_base ?s" using obj_invD(1) [OF inv] by (auto simp: obj_base_def inj_on_def)
      show "covered sound (bo_heap ?s b) (refs ?s held b + (if b = a then 1 else 0))" for b
        using obj_invD(2) [OF inv, of b] member dist by (cases "b = a") (simp_all add: refs_def)
    qed (use a(3) in simp)
  next
    case False
    with res inv c show ?thesis by (cases "ok 0") (simp_all add: ConnBrRemoveConnection_def walk)
  qed
qed

lemma obj_inv_step:
  assumes "obj_inv sound st" "obj_step sound st st'"
  shows "obj_inv sound st'"
  using assms(2)
proof cases
  case (create ok mtu addr side h s a s' held)
  then show ?thesis using obj_inv_create assms(1) by simp
next
  case (save held a s ok ret s')
  then show ?thesis using obj_inv_save assms(1) by blast
next
  case (get ok i s a s' held)
  then show ?thesis using get_found [OF get(3)] obj_inv_found [of sound s held a] obj_inv_alive assms(1) by auto
next
  case (get_addr ok addr side s a s' held)
  then show ?thesis using get_addr_found [OF get_addr(3)] obj_inv_found [of sound s held a] assms(1) by auto
next
  case (return held a ok s s')
  then show ?thesis using obj_inv_return assms(1) by blast
next
  case (remove held a s ok s')
  then show ?thesis using obj_inv_remove assms(1) by blast
next
  case (assign held a s c c')
  with assms(1) have "covered sound (Some c') (refs s held a)" using obj_invD(2) [of sound s held a] by (simp add: covered_def)
  with assign assms(1) obj_inv_put [of sound s held a c c' held] show ?thesis by simp
qed

lemma obj_start_inv: "obj_start st \<Longrightarrow> obj_inv sound st"
  by (auto simp: obj_start_def obj_inv_def obj_base_def covered_def refs_def)

interpretation brref: transition_system obj_start "obj_step sound" "obj_inv sound" for sound
  by unfold_locales (auto intro: obj_start_inv obj_inv_step)

lemma return_no_fault: "bo_heap s a = Some c \<Longrightarrow> ConnBrReturnConnection ok (Some a) s \<noteq> Inl f"
  by (simp add: ConnBrReturnConnection_def Let_def)

lemma remove_no_fault: "bo_heap s a = Some c \<Longrightarrow> alive s \<Longrightarrow> ConnBrRemoveConnection ok (Some a) s \<noteq> Inl f"
  using return_no_fault [of "s\<lparr>bo_list := remove1 a (bo_list s)\<rparr>" a c]
  by (auto simp: ConnBrRemoveConnection_def alive_def walk_alive split: option.split)

lemma get_no_fault: "alive s \<Longrightarrow> ConnBrGetConnectionById ok i s \<noteq> Inl f"
  by (auto simp: ConnBrGetConnectionById_def alive_def walk_alive split: option.split dest!: find_SomeD)

lemma get_addr_no_fault:
  assumes "alive s"
  shows "ConnBrGetConnectionByAddr ok addr side s \<noteq> Inl f"
proof (cases addr)
  case (Some mac)
  obtain r where r: "walk_last (\<lambda>it. same_addr (bc_addr it) mac \<and> (if side = CONN_SIDE_ANY then True else bc_side it = side)) (bo_heap s) (bo_list s) None = Inr r"
    using walk_last_alive assms unfolding alive_def by blast
  then have "r = None \<or> (\<exists>a c. r = Some a \<and> bo_heap s a = Some c)"
    using assms walk_last_member [of _ "bo_heap s" "bo_list s" None] by (cases r) (auto simp: alive_def)
  then show ?thesis unfolding ConnBrGetConnectionByAddr_def Some option.case r by (auto split: if_splits)
qed (simp add: ConnBrGetConnectionByAddr_def)

section \<open>Properties\<close>

text \<open>
  C32: Connection objects are not used after they are freed, and not leaked.  From an empty manager, through any
  interleaving of creating, saving, looking up by id or by address, returning, removing and writing, by threads that hold a reference to the object
  they save, return, remove or write, the object a thread holds exists, returning or removing it and looking up any id or address never follow a dangling
  pointer, and listed connections have different ids, none of them 0.  If no lock fails, the objects that exist are exactly those
  held or listed.  A thread saves an object that is not listed, writing an object keeps its count and its id, and counts stay below \<open>INT_MAX\<close>.  Any object may be removed,
  one that was never saved or is removed again included, except one that has left the list and whose id another listed connection has since been given.
\<close>

theorem br_object_safe:
  assumes "obj_start st" "(obj_step sound)\<^sup>*\<^sup>* st (s, held)"
  shows "(\<forall>a. 0 < held a \<longrightarrow> bo_heap s a \<noteq> None \<and> ConnBrReturnConnection ok (Some a) s \<noteq> Inl f \<and> ConnBrRemoveConnection ok (Some a) s \<noteq> Inl f) \<and>
    ConnBrGetConnectionById ok i s \<noteq> Inl f \<and> ConnBrGetConnectionByAddr ok addr side s \<noteq> Inl f \<and>
    inj_on (\<lambda>a. bc_connectionId (the (bo_heap s a))) (set (bo_list s)) \<and> (\<forall>a \<in> set (bo_list s). bc_connectionId (the (bo_heap s a)) \<noteq> 0) \<and>
    (sound \<longrightarrow> (\<forall>a. bo_heap s a \<noteq> None \<longleftrightarrow> 0 < held a \<or> a \<in> set (bo_list s)))"
proof -
  have inv: "obj_inv sound (s, held)" by (rule brref.inv_reachable [OF assms])
  have "bo_heap s a \<noteq> None \<longleftrightarrow> 0 < held a \<or> a \<in> set (bo_list s)" if "sound" for a
    using obj_invD(2) [OF inv, of a] that by (auto simp: covered_def refs_def split: option.splits if_splits)
  moreover have "bo_heap s a \<noteq> None \<and> ConnBrReturnConnection ok (Some a) s \<noteq> Inl f \<and> ConnBrRemoveConnection ok (Some a) s \<noteq> Inl f"
    if held: "0 < held a" for a
  proof -
    obtain c where "bo_heap s a = Some c" using obj_inv_alloc [OF inv] held by blast
    then show ?thesis using return_no_fault remove_no_fault [OF _ obj_inv_alive [OF inv]] by simp
  qed
  ultimately show ?thesis
    using get_no_fault [OF obj_inv_alive [OF inv]] get_addr_no_fault [OF obj_inv_alive [OF inv]] obj_invD(1) [OF inv]
    by (auto simp: obj_base_def)
qed

text \<open>A run: a connection is created, saved, found by another thread, removed, and returned by both.\<close>

definition no_conns :: br_conns where
  "no_conns = \<lparr>bo_heap = (\<lambda>_. None), bo_list = [], bo_next = 0, bo_nextId = 0\<rparr>"

definition ex_conn :: "int \<Rightarrow> nat \<Rightarrow> ConnBrConnection" where
  "ex_conn rc i = \<lparr>bc_connectionId = i, bc_side = CONN_SIDE_SERVER, bc_addr = ''aa'', bc_mtu = 990, bc_retryCount = 0, bc_socketHandle = 4,
     bc_state = BR_CONNECTION_STATE_CONNECTED, bc_connectionRc = 1, bc_objectRc = rc, bc_isOccupied = False,
     bc_window = DEFAULT_WINDOW, bc_sequence = 0, bc_waitSequence = 0, bc_ackTimeoutCount = 0, bc_connectProcessStatus = []\<rparr>"

definition ex_conns :: "int \<Rightarrow> nat \<Rightarrow> nat list \<Rightarrow> 16 word \<Rightarrow> br_conns" where
  "ex_conns rc i as n = \<lparr>bo_heap = (\<lambda>_. None)(0 := Some (ex_conn rc i)), bo_list = as, bo_next = 1, bo_nextId = n\<rparr>"

lemma ex_run:
  "ConnBrCreateConnection (\<lambda>_. True) 990 (Some ''aa'') CONN_SIDE_SERVER 4 no_conns = (Some 0, ex_conns 1 0 [] 0)"
  "ConnBrSaveConnection (\<lambda>_. True) (Some 0) (ex_conns 1 0 [] 0) = Some (Inr (SOFTBUS_OK, ex_conns 2 131073 [0] 1))"
  "ConnBrGetConnectionById (\<lambda>_. True) 131073 (ex_conns 2 131073 [0] 1) = Inr (Some 0, ex_conns 3 131073 [0] 1)"
  "ConnBrRemoveConnection (\<lambda>_. True) (Some 0) (ex_conns 3 131073 [0] 1) = Inr (ex_conns 2 131073 [] 1)"
  by (simp_all add: ConnBrCreateConnection_def no_conns_def ex_conns_def ex_conn_def put_conn_def ConnBrSaveConnection_def allocate_loop.simps
      AllocateConnectionIdUnsafe_def ConnBrGetConnectionById_def ConnBrRemoveConnection_def ConnBrReturnConnection_def)

theorem br_object_safe_witness:
  "(obj_step True)\<^sup>*\<^sup>* (no_conns, \<lambda>_. 0) (ex_conns 2 131073 [] 1, (\<lambda>_. 0)(0 := 2)) \<and>
    ConnBrReturnConnection (\<lambda>_. True) (Some 0) (ex_conns 2 131073 [] 1) \<noteq> Inl InvalidPointer"
proof -
  let ?s = "\<lambda>rc i as n. (ex_conns rc i as n, (\<lambda>_. 0)(0 := 1))"
  have "obj_step True (no_conns, \<lambda>_. 0) (?s 1 0 [] 0)" by (rule obj_step.create [OF ex_run(1)])
  moreover have "obj_step True (?s 1 0 [] 0) (?s 2 131073 [0] 1)"
    by (rule obj_step.save [OF _ _ _ ex_run(2)]) (simp_all add: ex_conns_def ex_conn_def)
  moreover have "obj_step True (?s 2 131073 [0] 1) (ex_conns 3 131073 [0] 1, (\<lambda>_. 0)(0 := 2))"
    using obj_step.get [OF ex_run(3), of True "(\<lambda>_. 0)(0 := 1)"] by (simp add: ex_conns_def ex_conn_def numeral_2_eq_2)
  moreover have "obj_step True (ex_conns 3 131073 [0] 1, (\<lambda>_. 0)(0 := 2)) (ex_conns 2 131073 [] 1, (\<lambda>_. 0)(0 := 2))"
    by (rule obj_step.remove [OF _ _ _ ex_run(4)]) (simp_all add: ex_conns_def id_reused_def)
  ultimately have run: "(obj_step True)\<^sup>*\<^sup>* (no_conns, \<lambda>_. 0) (ex_conns 2 131073 [] 1, (\<lambda>_. 0)(0 := 2))"
    by (meson converse_rtranclp_into_rtranclp rtranclp.rtrancl_refl)
  moreover have "obj_start (no_conns, \<lambda>_. 0)" by (simp add: obj_start_def no_conns_def)
  ultimately show ?thesis using br_object_safe [OF _ run] by simp
qed

text \<open>
  The exception is real: the object at 0, which its only holder has taken off the list, is freed by removing it again once the connection at 1 has been
  given its id, and the holder's return then follows a dangling pointer.
\<close>

lemma remove_reused_id:
  "ConnBrRemoveConnection (\<lambda>_. True) (Some 0)
     \<lparr>bo_heap = (\<lambda>_. None)(0 := Some (ex_conn 1 131073), 1 := Some (ex_conn 1 131073)), bo_list = [1], bo_next = 2, bo_nextId = 1\<rparr> =
   Inr \<lparr>bo_heap = (\<lambda>_. None)(1 := Some (ex_conn 1 131073)), bo_list = [1], bo_next = 2, bo_nextId = 1\<rparr>"
  "ConnBrReturnConnection (\<lambda>_. True) (Some 0)
     \<lparr>bo_heap = (\<lambda>_. None)(1 := Some (ex_conn 1 131073)), bo_list = [1], bo_next = 2, bo_nextId = 1\<rparr> = Inl InvalidPointer"
  by (simp_all add: ConnBrRemoveConnection_def ConnBrReturnConnection_def ex_conn_def fun_eq_iff)

text \<open>
  C33: Saving a connection ends, with an id no listed connection has.  The search for an id stops as long as fewer
  than 65536 connections are listed; the connection is put at the head of the list and its count goes up by one.
\<close>

theorem br_save_returns:
  assumes "\<forall>a \<in> set (bo_list s). bo_heap s a \<noteq> None" "length (bo_list s) < 65536" "bo_heap s a = Some c"
    and "bc_objectRc c < 2147483647" "0 \<le> bc_objectRc c" "ok 0"
  shows "\<exists>i s'. ConnBrSaveConnection ok (Some a) s = Some (Inr (SOFTBUS_OK, s')) \<and> i \<noteq> 0 \<and>
    (\<forall>b \<in> set (bo_list s). bc_connectionId (the (bo_heap s b)) \<noteq> i) \<and> bo_list s' = a # bo_list s \<and>
    bo_heap s' = (bo_heap s)(a := Some (c\<lparr>bc_connectionId := i, bc_objectRc := bc_objectRc c + 1\<rparr>))"
proof -
  obtain i n where "allocate_loop s = Some (Inr (i, s\<lparr>bo_nextId := n\<rparr>))" "i \<noteq> 0" "i \<notin> ids_of s"
    using allocate_loop_ends [OF _ assms(2)] assms(1) unfolding alive_def by blast
  with assms show ?thesis by (auto simp: ConnBrSaveConnection_def put_conn_def ids_of_def image_iff)
qed

theorem br_save_returns_witness:
  "\<exists>i s'. ConnBrSaveConnection (\<lambda>_. True) (Some 0) (ex_conns 1 0 [] 0) = Some (Inr (SOFTBUS_OK, s')) \<and> i \<noteq> 0 \<and>
    (\<forall>b \<in> set (bo_list (ex_conns 1 0 [] 0)). bc_connectionId (the (bo_heap (ex_conns 1 0 [] 0) b)) \<noteq> i) \<and> bo_list s' = 0 # bo_list (ex_conns 1 0 [] 0) \<and>
    bo_heap s' = (bo_heap (ex_conns 1 0 [] 0))(0 := Some ((ex_conn 1 0)\<lparr>bc_connectionId := i, bc_objectRc := bc_objectRc (ex_conn 1 0) + 1\<rparr>))"
  by (rule br_save_returns) (simp_all add: ex_conns_def ex_conn_def)

end
