(* ===== verification/Pkt_Head.thy ===== *)
theory Pkt_Head
  imports Byte_Order
begin

text \<open>
  Fixed-size headers on the wire.  The locale \<open>head_codec\<close> is the contract every header of the sources meets:
  the memory image of a C struct, its conversion to wire order before it is copied into a packet, and back.  The
  contract gives the facts packet code relies on: a header written on one host is read on any other, whatever
  follows it in the buffer, and the bytes on the wire do not depend on the host.

  The headers of \<^verbatim>\<open>core/connection/common/src/softbus_datahead_transform.c\<close> are modelled here; the BLE and
  transmission headers interpret the same locale in their theories.
\<close>

section \<open>The contract\<close>

locale head_codec =
  fixes sz :: nat
    and image :: "endian \<Rightarrow> 'h \<Rightarrow> bytes"
    and load :: "endian \<Rightarrow> bytes \<Rightarrow> 'h"
    and pack :: "endian \<Rightarrow> 'h \<Rightarrow> 'h"
    and unpack :: "endian \<Rightarrow> 'h \<Rightarrow> 'h"
  assumes length_image: "length (image e h) = sz"
    and image_load: "length bs = sz \<Longrightarrow> image e (load e bs) = bs"
    and pack_unpack: "pack e (unpack e h) = h"
    and unpack_wire: "unpack e' (load e' (image e (pack e h))) = h"
begin

lemma read_head: "unpack e' (load e' (take sz (image e (pack e h) @ rest))) = h"
  by (simp add: length_image unpack_wire)

lemma wire_host_independent: "image e (pack e h) = image e' (pack e' h)"
proof -
  have "pack e' h = load e' (image e (pack e h))"
    using pack_unpack [of e' "load e' (image e (pack e h))"] by (simp add: unpack_wire)
  then show ?thesis by (simp add: image_load length_image)
qed

lemma wire_inject: "image e (pack e h) = image e' (pack e' h') \<longleftrightarrow> h = h'"
  by (metis unpack_wire wire_host_independent)

lemma load_image: "load e (image e h) = h"
  using unpack_wire [of e e "unpack e h"] by (metis pack_unpack)

lemma write_head: "length bs = sz \<Longrightarrow> image e (pack e (unpack e (load e bs))) = bs"
  by (simp add: pack_unpack image_load)

end

section \<open>Integer fields\<close>

text \<open>
  A field is a word; \<open>h2l32\<close> and the others are the conversions applied with the casts the sources write, the
  \<open>bytes\<close> and \<open>of\<close> functions its memory image on the host.
\<close>

definition h2l16 :: "endian \<Rightarrow> 16 word \<Rightarrow> 16 word" where "h2l16 e w = word_of_nat (SoftBusHtoLs e (unat w))"
definition h2l32 :: "endian \<Rightarrow> 32 word \<Rightarrow> 32 word" where "h2l32 e w = word_of_nat (SoftBusHtoLl e (unat w))"
definition h2l64 :: "endian \<Rightarrow> 64 word \<Rightarrow> 64 word" where "h2l64 e w = word_of_nat (SoftBusHtoLll e (unat w))"
definition l2h16 :: "endian \<Rightarrow> 16 word \<Rightarrow> 16 word" where "l2h16 e w = word_of_nat (SoftBusLtoHs e (unat w))"
definition l2h32 :: "endian \<Rightarrow> 32 word \<Rightarrow> 32 word" where "l2h32 e w = word_of_nat (SoftBusLtoHl e (unat w))"
definition l2h64 :: "endian \<Rightarrow> 64 word \<Rightarrow> 64 word" where "l2h64 e w = word_of_nat (SoftBusLtoHll e (unat w))"

definition field_bytes :: "endian \<Rightarrow> nat \<Rightarrow> 'a::len word \<Rightarrow> bytes" where
  "field_bytes e k w = host_bytes e k (unat w)"

definition field_of :: "endian \<Rightarrow> bytes \<Rightarrow> 'a::len word" where
  "field_of e bs = word_of_nat (host_nat e bs)"

text \<open>The value of a field in wire order, independent of the host.\<close>

definition wire_bytes :: "nat \<Rightarrow> 'a::len word \<Rightarrow> bytes" where
  "wire_bytes k w = nat_le k (unat w)"

lemma length_field_bytes [simp]: "length (field_bytes e k w) = k"
  by (simp add: field_bytes_def)

lemma length_wire_bytes [simp]: "length (wire_bytes k w) = k"
  by (simp add: wire_bytes_def)

lemma pow_256: "(256 :: nat) ^ k = 2 ^ (8 * k)"
  by (simp add: power_mult)

lemma field_of_bytes:
  "length bs = k \<Longrightarrow> LENGTH('a) = 8 * k \<Longrightarrow> field_bytes e k (field_of e bs :: 'a::len word) = bs"
  using host_nat_less [of e bs]
  by (simp add: field_bytes_def field_of_def unat_of_nat host_bytes_nat pow_256)

lemma unat_less_bits: "LENGTH('a) = 8 * k \<Longrightarrow> unat (w :: 'a::len word) < 256 ^ k"
  by (metis pow_256 unsigned_less)

lemma field_bytes_of: "LENGTH('a) = 8 * k \<Longrightarrow> field_of e (field_bytes e k w) = (w :: 'a::len word)"
  using unat_less_bits [of k w] by (simp add: field_bytes_def field_of_def host_nat_bytes)

lemma wire_le_bytes: "host_bytes e k (host_nat e (ProcByteOrder e (host_bytes e k n) (int k))) = nat_le k n"
  by (simp add: wire_le host_bytes_nat)

lemma proc_less: "host_nat e (ProcByteOrder e (host_bytes e k n) (int k)) < 256 ^ k"
  using host_nat_less [of e "nat_le k n"] by (simp add: wire_le)

lemma h2l_bytes:
  "field_bytes e 2 (h2l16 e a) = wire_bytes 2 a"
  "field_bytes e 4 (h2l32 e b) = wire_bytes 4 b"
  "field_bytes e 8 (h2l64 e c) = wire_bytes 8 c"
  using wire_le_bytes [of e 2 "unat a"] proc_less [of e 2 "unat a"]
    wire_le_bytes [of e 4 "unat b"] proc_less [of e 4 "unat b"]
    wire_le_bytes [of e 8 "unat c"] proc_less [of e 8 "unat c"]
  by (simp_all add: field_bytes_def wire_bytes_def h2l16_def h2l32_def h2l64_def SoftBusHtoLs_def SoftBusHtoLl_def
      SoftBusHtoLll_def unat_of_nat)

text \<open>Both directions compute the same permutation of the bytes, and it is its own inverse.\<close>

lemma l2h_h2l: "l2h16 = h2l16" "l2h32 = h2l32" "l2h64 = h2l64"
  by (simp_all add: fun_eq_iff l2h16_def h2l16_def l2h32_def h2l32_def l2h64_def h2l64_def SoftBusHtoLs_def SoftBusHtoLl_def
      SoftBusHtoLll_def SoftBusLtoHs_def SoftBusLtoHl_def SoftBusLtoHll_def)

lemma wire_bytes_inject: "LENGTH('a) = 8 * k \<Longrightarrow> wire_bytes k (v :: 'a::len word) = wire_bytes k w \<longleftrightarrow> v = w"
  using unat_less_bits [of k v] unat_less_bits [of k w] by (simp add: wire_bytes_def nat_le_inject word_unat_eq_iff)

lemma field_bytes_inject: "LENGTH('a) = 8 * k \<Longrightarrow> field_bytes e k (v :: 'a::len word) = field_bytes e k w \<longleftrightarrow> v = w"
  by (metis field_bytes_of)

lemma le_nat_wire: "LENGTH('a) = 8 * k \<Longrightarrow> le_nat (wire_bytes k w) = unat (w :: 'a::len word)"
  using unat_less_bits [of k w] by (simp add: wire_bytes_def le_nat_nat_le)

lemma l2h_field:
  "length bs = 2 \<Longrightarrow> l2h16 e (field_of e bs) = word_of_nat (le_nat bs)"
  "length bs = 4 \<Longrightarrow> l2h32 e (field_of e bs) = word_of_nat (le_nat bs)"
  "length bs = 8 \<Longrightarrow> l2h64 e (field_of e bs) = word_of_nat (le_nat bs)"
  using host_nat_less [of e bs] SoftBusLtoHl_nat [of bs e] SoftBusLtoHll_nat [of bs e]
  by (simp_all add: l2h16_def l2h32_def l2h64_def field_of_def unat_of_nat SoftBusLtoHs_def host_bytes_nat ProcByteOrder_eq)
    (simp add: host_nat_def split: endian.splits)

lemma l2h_wire [simp]:
  "l2h16 e (field_of e (wire_bytes 2 a)) = a"
  "l2h32 e (field_of e (wire_bytes 4 b)) = b"
  "l2h64 e (field_of e (wire_bytes 8 c)) = c"
  by (simp_all add: l2h_field le_nat_wire)

lemma h2l_h2l [simp]: "h2l16 e (h2l16 e a) = a" "h2l32 e (h2l32 e b) = b" "h2l64 e (h2l64 e c) = c"
  using l2h_wire(1) [of e a] field_bytes_of [of 2 e "h2l16 e a"] l2h_wire(2) [of e b] field_bytes_of [of 4 e "h2l32 e b"]
    l2h_wire(3) [of e c] field_bytes_of [of 8 e "h2l64 e c"]
  by (simp_all add: h2l_bytes l2h_h2l del: l2h_wire)

lemmas field_simps = h2l_bytes field_of_bytes field_bytes_of l2h_h2l


section \<open>The connection packet head\<close>

record ConnPktHead =
  h_magic :: "32 word"
  h_module :: "32 word"
  h_seq :: "64 word"
  h_flag :: "32 word"
  h_len :: "32 word"

abbreviation CONN_PKT_HEAD_LEN :: nat where "CONN_PKT_HEAD_LEN \<equiv> 24"
abbreviation MAGIC_NUMBER :: "32 word" where "MAGIC_NUMBER \<equiv> 0xBABEFACE"

text \<open>The struct is packed; its image is the fields in order.\<close>

definition pkt_image :: "endian \<Rightarrow> ConnPktHead \<Rightarrow> bytes" where
  "pkt_image e h = field_bytes e 4 (h_magic h) @ field_bytes e 4 (h_module h) @ field_bytes e 8 (h_seq h) @
     field_bytes e 4 (h_flag h) @ field_bytes e 4 (h_len h)"

definition pkt_load :: "endian \<Rightarrow> bytes \<Rightarrow> ConnPktHead" where
  "pkt_load e bs = \<lparr>h_magic = field_of e (segment 0 4 bs), h_module = field_of e (segment 4 4 bs),
     h_seq = field_of e (segment 8 8 bs), h_flag = field_of e (segment 16 4 bs), h_len = field_of e (segment 20 4 bs)\<rparr>"

definition PackConnPktHead :: "endian \<Rightarrow> ConnPktHead \<Rightarrow> ConnPktHead" where
  "PackConnPktHead e data = data\<lparr>h_magic := h2l32 e (h_magic data), h_flag := h2l32 e (h_flag data),
     h_module := h2l32 e (h_module data), h_len := h2l32 e (h_len data), h_seq := h2l64 e (h_seq data)\<rparr>"

definition UnpackConnPktHead :: "endian \<Rightarrow> ConnPktHead \<Rightarrow> ConnPktHead" where
  "UnpackConnPktHead e data = data\<lparr>h_magic := l2h32 e (h_magic data), h_flag := l2h32 e (h_flag data),
     h_module := l2h32 e (h_module data), h_len := l2h32 e (h_len data), h_seq := l2h64 e (h_seq data)\<rparr>"

text \<open>Joining the adjacent segments of a header gives the header back.\<close>

lemma segment_join: "segment a n bs @ segment (a + n) m bs = segment a (n + m) bs"
  by (simp add: segment_def take_add add.commute [of n a])

interpretation pkt: head_codec CONN_PKT_HEAD_LEN pkt_image pkt_load PackConnPktHead UnpackConnPktHead
proof
  fix e e' :: endian and h and bs :: bytes
  show "length (pkt_image e h) = CONN_PKT_HEAD_LEN" by (simp add: pkt_image_def)
  show "pkt_image e (pkt_load e bs) = bs" if "length bs = CONN_PKT_HEAD_LEN"
    using that segment_join [of 0 4 bs 4] segment_join [of 0 8 bs 8] segment_join [of 0 16 bs 4] segment_join [of 0 20 bs 4]
    by (simp add: pkt_image_def pkt_load_def field_simps flip: append_assoc)
  show "PackConnPktHead e (UnpackConnPktHead e h) = h" by (simp add: PackConnPktHead_def UnpackConnPktHead_def l2h_h2l)
  show "UnpackConnPktHead e' (pkt_load e' (pkt_image e (PackConnPktHead e h))) = h"
    by (simp add: PackConnPktHead_def UnpackConnPktHead_def pkt_image_def pkt_load_def h2l_bytes)
qed

text \<open>On a little-endian host the conversions change nothing.\<close>

lemma h2l_Little [simp]: "h2l16 Little a = a" "h2l32 Little b = b" "h2l64 Little c = c"
proof -
  have "field_bytes Little 2 (h2l16 Little a) = field_bytes Little 2 a" "field_bytes Little 4 (h2l32 Little b) = field_bytes Little 4 b"
    "field_bytes Little 8 (h2l64 Little c) = field_bytes Little 8 c"
    by (simp_all add: h2l_bytes) (simp_all add: wire_bytes_def field_bytes_def host_bytes_def)
  then show "h2l16 Little a = a" "h2l32 Little b = b" "h2l64 Little c = c" by (simp_all add: field_bytes_inject)
qed

lemma UnpackConnPktHead_Little [simp]: "UnpackConnPktHead Little h = h"
  by (simp add: UnpackConnPktHead_def l2h_h2l)

lemma PackConnPktHead_Little [simp]: "PackConnPktHead Little h = h"
  by (simp add: PackConnPktHead_def)

end
