(* ===== verification/Frame_Stream.thy ===== *)
theory Frame_Stream
  imports Pkt_Head Conn_Common
begin

text \<open>
  Frames in a byte stream.  A frame is a connection packet head in wire order followed by as many bytes as its
  length field says.  The locale \<open>frame_parser\<close> is the contract of the two parsers that cut a stream into frames
  in a \<open>LimitedBuffer\<close>: the one of the BR connection and the one of the BLE CoC connection.
\<close>

section \<open>Frames and buffers\<close>

definition wire_frame :: "bytes \<Rightarrow> bool" where
  "wire_frame f \<longleftrightarrow> CONN_PKT_HEAD_LEN \<le> length f \<and>
     le_nat (segment 0 4 f) = unat MAGIC_NUMBER \<and> le_nat (segment 20 4 f) = length f - CONN_PKT_HEAD_LEN"

definition make_frame :: "endian \<Rightarrow> ConnPktHead \<Rightarrow> bytes \<Rightarrow> bytes" where
  "make_frame e h body = pkt_image e (PackConnPktHead e h) @ body"

text \<open>The received bytes a buffer holds.\<close>

definition bdata :: "LimitedBuffer \<Rightarrow> bytes" where
  "bdata b = take (length_of b) (buffer b)"

definition buf_inv :: "LimitedBuffer \<Rightarrow> bool" where
  "buf_inv b \<longleftrightarrow> length (buffer b) = capacity b \<and> length_of b \<le> capacity b \<and> CONN_PKT_HEAD_LEN \<le> capacity b \<and>
     capacity b \<le> MAX_MALLOC_SIZE"

lemma length_bdata: "buf_inv b \<Longrightarrow> length (bdata b) = length_of b"
  by (simp add: bdata_def buf_inv_def)

lemma make_frame_wire:
  assumes "h_magic h = MAGIC_NUMBER" "unat (h_len h) = length body"
  shows "wire_frame (make_frame e h body)" "length (make_frame e h body) = CONN_PKT_HEAD_LEN + length body"
proof -
  show "length (make_frame e h body) = CONN_PKT_HEAD_LEN + length body" by (simp add: make_frame_def pkt.length_image)
  have eq: "make_frame e h body = wire_bytes 4 (h_magic h) @ wire_bytes 4 (h_module h) @ wire_bytes 8 (h_seq h) @
      wire_bytes 4 (h_flag h) @ wire_bytes 4 (h_len h) @ body"
    by (simp add: make_frame_def PackConnPktHead_def pkt_image_def h2l_bytes)
  show "wire_frame (make_frame e h body)"
    using assms by (simp add: wire_frame_def eq le_nat_wire)
qed

text \<open>What a little-endian host reads from the start of a frame.\<close>

lemma segment_take: "off + n \<le> m \<Longrightarrow> segment off n (take m xs) = segment off n xs"
  by (simp add: segment_def drop_take min_def)

lemma load_frame:
  assumes "wire_frame f" "CONN_PKT_HEAD_LEN \<le> n"
  shows "h_magic (pkt_load Little (take CONN_PKT_HEAD_LEN (take n f @ rest))) = MAGIC_NUMBER"
    "unat (h_len (pkt_load Little (take CONN_PKT_HEAD_LEN (take n f @ rest)))) = length f - CONN_PKT_HEAD_LEN"
proof -
  have len: "CONN_PKT_HEAD_LEN \<le> length f" using assms(1) by (simp add: wire_frame_def)
  then have head: "take CONN_PKT_HEAD_LEN (take n f @ rest) = take CONN_PKT_HEAD_LEN f" using assms(2) by simp
  have "le_nat (segment 20 4 f) < 256 ^ 4" using le_nat_less [of "segment 20 4 f"] len by simp
  then have "unat (word_of_nat (le_nat (segment 20 4 f)) :: 32 word) = le_nat (segment 20 4 f)" by (simp add: unat_of_nat)
  with assms(1) show "h_magic (pkt_load Little (take CONN_PKT_HEAD_LEN (take n f @ rest))) = MAGIC_NUMBER"
    "unat (h_len (pkt_load Little (take CONN_PKT_HEAD_LEN (take n f @ rest)))) = length f - CONN_PKT_HEAD_LEN"
    unfolding head by (simp_all add: pkt_load_def segment_take field_of_def host_nat_def wire_frame_def)
qed

section \<open>The contract\<close>

locale frame_parser =
  fixes parse :: "bool \<Rightarrow> LimitedBuffer \<Rightarrow> bytes option \<times> LimitedBuffer"
  assumes parse_whole: "buf_inv b \<Longrightarrow> wire_frame f \<Longrightarrow> length f \<le> capacity b \<Longrightarrow> bdata b = f @ rest \<Longrightarrow>
      \<exists>b'. parse True b = (Some f, b') \<and> buf_inv b' \<and> bdata b' = rest \<and> capacity b' = capacity b"
    and parse_part: "buf_inv b \<Longrightarrow> wire_frame f \<Longrightarrow> length f \<le> capacity b \<Longrightarrow> bdata b = take n f \<Longrightarrow> n < length f \<Longrightarrow>
      parse ok b = (None, b)"

text \<open>Taking frames out of a buffer until there is no whole one left.\<close>

fun drain :: "(bool \<Rightarrow> LimitedBuffer \<Rightarrow> bytes option \<times> LimitedBuffer) \<Rightarrow> nat \<Rightarrow> LimitedBuffer \<Rightarrow> bytes list \<times> LimitedBuffer" where
  "drain parse 0 b = ([], b)"
| "drain parse (Suc n) b =
     (case parse True b of (None, b') \<Rightarrow> ([], b')
      | (Some f, b') \<Rightarrow> (case drain parse n b' of (fs, b'') \<Rightarrow> (f # fs, b'')))"

context frame_parser
begin

lemma drain_frames:
  assumes "buf_inv b" "\<forall>f \<in> set fs. wire_frame f \<and> length f \<le> capacity b" "wire_frame g" "length g \<le> capacity b" "n < length g"
    and "bdata b = concat fs @ take n g" "length fs < k"
  shows "\<exists>b'. drain parse k b = (fs, b') \<and> buf_inv b' \<and> bdata b' = take n g \<and> capacity b' = capacity b"
  using assms
proof (induction fs arbitrary: b k)
  case Nil
  then obtain k' where "k = Suc k'" by (cases k) auto
  with Nil parse_part [of b g n True] show ?case by simp
next
  case (Cons f fs)
  then obtain k' where k: "k = Suc k'" by (cases k) auto
  from Cons.prems obtain b1 where b1: "parse True b = (Some f, b1)" "buf_inv b1" "bdata b1 = concat fs @ take n g" "capacity b1 = capacity b"
    using parse_whole [of b f "concat fs @ take n g"] by auto
  from Cons.IH [OF b1(2), of k'] Cons.prems b1 k show ?case by auto
qed

end

end
