(* ===== verification/Br_Trans.thy ===== *)
theory Br_Trans
  imports Frame_Stream Json_Utils Flow_Control "HOL-Library.Sublist"
begin

text \<open>
  Data transfer of the BR connection, \<^verbatim>\<open>core/connection/br/src/softbus_conn_br_trans.c\<close>: cutting the received
  stream into frames, writing a message in pieces the flow controller grants, and packing control messages.
  \<open>LoopRead\<close> of \<^verbatim>\<open>softbus_conn_br_connection.c\<close>, which delivers the frames, is included.

  The SPP socket driver is a parameter.  Its state \<open>d\<close> is threaded through the calls; \<open>rd d room\<close> and
  \<open>wr d data len\<close> are one call of \<open>Read\<close> and \<open>Write\<close>, with None for a call that does not return.  What the code
  relies on is stated by \<open>stream_reader\<close> and \<open>stream_writer\<close>.
\<close>

section \<open>Receiving\<close>

abbreviation SOFTBUS_CONN_BR_UNDERLAY_SOCKET_CLOSED :: int where "SOFTBUS_CONN_BR_UNDERLAY_SOCKET_CLOSED \<equiv> - 425918439"
abbreviation SOFTBUS_CONN_BR_UNDERLAY_READ_FAIL :: int where "SOFTBUS_CONN_BR_UNDERLAY_READ_FAIL \<equiv> - 425918438"
abbreviation SOFTBUS_CONN_BR_UNDERLAY_WRITE_FAIL :: int where "SOFTBUS_CONN_BR_UNDERLAY_WRITE_FAIL \<equiv> - 425918440"
abbreviation BR_READ_SOCKET_CLOSED :: int where "BR_READ_SOCKET_CLOSED \<equiv> 0"
abbreviation INVALID_SOCKET_HANDLE :: int where "INVALID_SOCKET_HANDLE \<equiv> - 1"

text \<open>The head is converted in place, in the buffer.\<close>

definition BrRecvDataParse :: "endian \<Rightarrow> bool \<Rightarrow> LimitedBuffer \<Rightarrow> bytes option \<times> LimitedBuffer" where
  "BrRecvDataParse e okCalloc b =
     (if length_of b < CONN_PKT_HEAD_LEN then (None, b)
      else
        let head = UnpackConnPktHead e (pkt_load e (take CONN_PKT_HEAD_LEN (buffer b)));
            b = b\<lparr>buffer := mem_write (buffer b) 0 (pkt_image e head)\<rparr>
        in if h_magic head \<noteq> MAGIC_NUMBER then (None, b\<lparr>length_of := 0\<rparr>)
           else if u32_sub (capacity b) CONN_PKT_HEAD_LEN < unat (h_len head) then (None, b\<lparr>length_of := 0\<rparr>)
           else
             let packLen = u32 (unat (h_len head) + CONN_PKT_HEAD_LEN)
             in if length_of b < packLen then (None, b)
                else case SoftBusCalloc okCalloc packLen of
                       None \<Rightarrow> (None, b)
                     | Some dataCopy \<Rightarrow>
                         if \<not> memcpy_s_ok packLen packLen then (None, b)
                         else if length_of b > packLen \<and> \<not> memcpy_s_ok (length_of b) (length_of b - packLen) then (None, b)
                         else
                           let data = mem_write dataCopy 0 (take packLen (buffer b));
                               moved = (if length_of b > packLen
                                        then mem_write (buffer b) 0 (segment packLen (length_of b - packLen) (buffer b))
                                        else buffer b)
                           in (Some data, b\<lparr>buffer := moved, length_of := length_of b - packLen\<rparr>))"

text \<open>
  The loop of \<open>ConnBrTransReadOneFrame\<close>; \<open>al d\<close> is whether the copy of the frame can be allocated at that
  point.  A read writes its bytes behind the ones already in the buffer.
\<close>

partial_function (option) ConnBrTransReadOneFrame ::
  "endian \<Rightarrow> ('d \<Rightarrow> nat \<Rightarrow> (int \<times> bytes \<times> 'd) option) \<Rightarrow> ('d \<Rightarrow> bool) \<Rightarrow> 'd \<Rightarrow> LimitedBuffer \<Rightarrow>
   (int \<times> bytes option \<times> 'd \<times> LimitedBuffer) option" where
  "ConnBrTransReadOneFrame e rd al d b =
     (case BrRecvDataParse e (al d) b of
        (Some data, b) \<Rightarrow> Some (int (length data), Some data, d, b)
      | (None, b) \<Rightarrow>
          (case rd d (u32_sub (capacity b) (length_of b)) of
             None \<Rightarrow> None
           | Some (recvLen, bs, d) \<Rightarrow>
               if recvLen = BR_READ_SOCKET_CLOSED then Some (SOFTBUS_CONN_BR_UNDERLAY_SOCKET_CLOSED, None, d, b)
               else if recvLen < 0 then Some (SOFTBUS_CONN_BR_UNDERLAY_READ_FAIL, None, d, b)
               else ConnBrTransReadOneFrame e rd al d
                      (b\<lparr>buffer := mem_write (buffer b) (length_of b) bs, length_of := u32 (length_of b + nat recvLen)\<rparr>)))"

text \<open>
  The loop of \<open>LoopRead\<close>: \<open>hdl d\<close> is the socket handle read under the lock, or the code of the failed lock;
  \<open>got\<close> are the frames passed to \<open>onDataReceived\<close> so far.
\<close>

partial_function (option) LoopRead_loop ::
  "endian \<Rightarrow> ('d \<Rightarrow> nat \<Rightarrow> (int \<times> bytes \<times> 'd) option) \<Rightarrow> ('d \<Rightarrow> bool) \<Rightarrow> ('d \<Rightarrow> int + int) \<Rightarrow> bytes list \<Rightarrow> 'd \<Rightarrow> LimitedBuffer \<Rightarrow>
   (int \<times> bytes list \<times> 'd) option" where
  "LoopRead_loop e rd al hdl got d b =
     (case hdl d of
        Inl status \<Rightarrow> Some (status, got, d)
      | Inr socketHandle \<Rightarrow>
          if socketHandle = INVALID_SOCKET_HANDLE then Some (INVALID_SOCKET_HANDLE, got, d)
          else case ConnBrTransReadOneFrame e rd al d b of
                 None \<Rightarrow> None
               | Some (dataLen, data, d, b) \<Rightarrow>
                   if dataLen < 0 then Some (dataLen, got, d)
                   else LoopRead_loop e rd al hdl (got @ [the data]) d b)"

definition LoopRead ::
  "endian \<Rightarrow> ('d \<Rightarrow> nat \<Rightarrow> (int \<times> bytes \<times> 'd) option) \<Rightarrow> ('d \<Rightarrow> bool) \<Rightarrow> ('d \<Rightarrow> int + int) \<Rightarrow> (nat \<Rightarrow> bool) \<Rightarrow> nat \<Rightarrow> 'd \<Rightarrow>
   (int \<times> bytes list \<times> 'd) option" where
  "LoopRead e rd al hdl bufAl cap d =
     (case ConnNewLimitedBuffer bufAl cap of
        (status, buf) \<Rightarrow>
          if status \<noteq> SOFTBUS_OK then Some (status, [], d) else LoopRead_loop e rd al hdl [] d (the buf))"

section \<open>Sending\<close>

text \<open>
  The environment of a send: what the passes of the next \<open>apply\<close> call see, the flow controller, and the
  driver.  \<open>att d\<close> gives the attempts and the environment after them.
\<close>

partial_function (option) BrTransSend_loop ::
  "('d \<Rightarrow> attempt list \<times> 'd) \<Rightarrow> ('d \<Rightarrow> bytes \<Rightarrow> int \<Rightarrow> (int \<times> 'd) option) \<Rightarrow> nat \<Rightarrow> bytes \<Rightarrow> nat \<Rightarrow>
   ConnSlideWindowController option \<Rightarrow> 'd \<Rightarrow> (int \<times> ConnSlideWindowController option \<times> 'd) option" where
  "BrTransSend_loop att wr mtu data waitWriteLen ctl d =
     (if waitWriteLen > 0 then
        let expect = (if waitWriteLen > mtu then mtu else waitWriteLen)
        in case att d of (envs, d) \<Rightarrow>
             (case Apply envs ctl (s32 (int expect)) of
                None \<Rightarrow> None
              | Some (amnt, ctl) \<Rightarrow>
                  (case wr d data amnt of
                     None \<Rightarrow> None
                   | Some (writeLen, d) \<Rightarrow>
                       if writeLen < 0 then Some (SOFTBUS_CONN_BR_UNDERLAY_WRITE_FAIL, ctl, d)
                       else BrTransSend_loop att wr mtu (drop (nat writeLen) data) (u32_sub waitWriteLen (nat writeLen)) ctl d))
      else Some (SOFTBUS_OK, ctl, d))"

definition BrTransSend ::
  "('d \<Rightarrow> attempt list \<times> 'd) \<Rightarrow> ('d \<Rightarrow> bytes \<Rightarrow> int \<Rightarrow> (int \<times> 'd) option) \<Rightarrow> nat \<Rightarrow> bytes \<Rightarrow>
   ConnSlideWindowController option \<Rightarrow> 'd \<Rightarrow> (int \<times> ConnSlideWindowController option \<times> 'd) option" where
  "BrTransSend att wr mtu data ctl d = BrTransSend_loop att wr mtu data (length data) ctl d"

section \<open>Control messages\<close>

abbreviation SOFTBUS_CREATE_JSON_ERR :: int where "SOFTBUS_CREATE_JSON_ERR \<equiv> - 426442745"
abbreviation SOFTBUS_PARSE_JSON_ERR :: int where "SOFTBUS_PARSE_JSON_ERR \<equiv> - 426442744"

abbreviation KEY_METHOD :: string where "KEY_METHOD \<equiv> ''KEY_METHOD''"
abbreviation KEY_DELTA :: string where "KEY_DELTA \<equiv> ''KEY_DELTA''"
abbreviation KEY_REFERENCE_NUM :: string where "KEY_REFERENCE_NUM \<equiv> ''KEY_REFERENCE_NUM''"
abbreviation KEY_WINDOWS :: string where "KEY_WINDOWS \<equiv> ''KEY_WINDOWS''"
abbreviation KEY_ACK_SEQ_NUM :: string where "KEY_ACK_SEQ_NUM \<equiv> ''KEY_ACK_SEQ_NUM''"

abbreviation BR_METHOD_NOTIFY_REQUEST :: int where "BR_METHOD_NOTIFY_REQUEST \<equiv> 1"
abbreviation BR_METHOD_NOTIFY_RESPONSE :: int where "BR_METHOD_NOTIFY_RESPONSE \<equiv> 2"
abbreviation BR_METHOD_NOTIFY_ACK :: int where "BR_METHOD_NOTIFY_ACK \<equiv> 4"
abbreviation BR_METHOD_ACK_RESPONSE :: int where "BR_METHOD_ACK_RESPONSE \<equiv> 5"

text \<open>The union of the message context, by method.\<close>

datatype BrCtlMessage =
    NotifyRequest (delta: int) (referenceNumber: int)
  | NotifyResponse (referenceNumber: int)
  | NotifyAck (ackWindow: int) (ackSeq: int)
  | AckResponse (ackWindow: int) (ackSeq: int)
  | OtherMethod int

record BrCtlMessageSerializationContext =
  cm_connectionId :: nat
  cm_flag :: int
  cm_message :: BrCtlMessage

text \<open>A chain of additions to a JSON object, stopped by the first that fails; \<open>al i\<close> are the outcomes of the \<open>i\<close>-th.\<close>

fun add_items :: "(nat \<Rightarrow> nat \<Rightarrow> bool) \<Rightarrow> nat \<Rightarrow> (string \<times> bool \<times> int) list \<Rightarrow> json_object \<Rightarrow> json_object option" where
  "add_items al i [] json = Some json"
| "add_items al i ((key, is64, num) # items) json =
     (case (if is64 then AddNumber64ToJsonObject (al i) json key num else AddNumberToJsonObject (al i) json key num) of
        (ok, json) \<Rightarrow> if \<not> ok then None else add_items al (Suc i) items json)"

definition message_items :: "BrCtlMessage \<Rightarrow> (string \<times> bool \<times> int) list option" where
  "message_items m =
     (case m of
        NotifyRequest dlt r \<Rightarrow> Some [(KEY_METHOD, False, BR_METHOD_NOTIFY_REQUEST), (KEY_DELTA, False, dlt), (KEY_REFERENCE_NUM, False, r)]
      | NotifyResponse r \<Rightarrow> Some [(KEY_METHOD, False, BR_METHOD_NOTIFY_RESPONSE), (KEY_REFERENCE_NUM, False, r)]
      | NotifyAck w s \<Rightarrow> Some [(KEY_METHOD, False, BR_METHOD_NOTIFY_ACK), (KEY_WINDOWS, False, w), (KEY_ACK_SEQ_NUM, True, s)]
      | AckResponse w s \<Rightarrow> Some [(KEY_METHOD, False, BR_METHOD_ACK_RESPONSE), (KEY_WINDOWS, False, w), (KEY_ACK_SEQ_NUM, True, s)]
      | OtherMethod _ \<Rightarrow> None)"

text \<open>\<open>print\<close> is \<open>cJSON_PrintUnformatted\<close>, without the terminating null byte.\<close>

definition SerializeByJson ::
  "(json_object \<Rightarrow> bytes option) \<Rightarrow> bool \<Rightarrow> (nat \<Rightarrow> nat \<Rightarrow> bool) \<Rightarrow> BrCtlMessageSerializationContext \<Rightarrow> int \<times> bytes option" where
  "SerializeByJson print createOk al ctx =
     (if \<not> createOk then (SOFTBUS_CREATE_JSON_ERR, None)
      else case message_items (cm_message ctx) of
             None \<Rightarrow> (SOFTBUS_CONN_BR_INTERNAL_ERR, None)
           | Some items \<Rightarrow>
               (case add_items al 0 items [] of
                  None \<Rightarrow> (SOFTBUS_CREATE_JSON_ERR, None)
                | Some json \<Rightarrow>
                    (case print json of
                       None \<Rightarrow> (SOFTBUS_CREATE_JSON_ERR, None)
                     | Some body \<Rightarrow> (SOFTBUS_OK, Some (body @ [0])))))"

abbreviation MODULE_CONNECTION :: int where "MODULE_CONNECTION \<equiv> 11"

text \<open>
  The result is the sequence number or a negative error code, the packet, and the generator after the call.
  \<open>env\<close> holds the outcomes of the JSON allocations and of the packet buffer.
\<close>

definition ConnBrPackCtlMessage ::
  "endian \<Rightarrow> (json_object \<Rightarrow> bytes option) \<Rightarrow> bool \<times> (nat \<Rightarrow> nat \<Rightarrow> bool) \<times> bool \<Rightarrow> int \<Rightarrow> BrCtlMessageSerializationContext \<Rightarrow>
   int \<times> bytes option \<times> int" where
  "ConnBrPackCtlMessage e print env ctlMsgSeqGenerator ctx =
     (let seq = ctlMsgSeqGenerator; gen = ctlMsgSeqGenerator + 1
      in case SerializeByJson print (fst env) (fst (snd env)) ctx of
           (ret, data) \<Rightarrow>
             if ret \<noteq> SOFTBUS_OK then (ret, None, gen)
             else
               let dataLen = u32 (length (the data)); bufLen = u32 (dataLen + CONN_PKT_HEAD_LEN)
               in case SoftBusCalloc (snd (snd env)) bufLen of
                    None \<Rightarrow> (SOFTBUS_MALLOC_ERR, None, gen)
                  | Some buf \<Rightarrow>
                      let head = PackConnPktHead e \<lparr>h_magic = MAGIC_NUMBER, h_module = word_of_int MODULE_CONNECTION, h_seq = word_of_int seq,
                                   h_flag = word_of_int (cm_flag ctx), h_len = word_of_nat dataLen\<rparr>
                      in if \<not> memcpy_s_ok bufLen CONN_PKT_HEAD_LEN then (SOFTBUS_MEM_ERR, None, gen)
                         else if \<not> memcpy_s_ok (u32_sub bufLen CONN_PKT_HEAD_LEN) dataLen then (SOFTBUS_MEM_ERR, None, gen)
                         else (seq, Some (mem_write (mem_write buf 0 (pkt_image e head)) CONN_PKT_HEAD_LEN (the data)), gen))"

section \<open>Parsing one frame\<close>

lemma mem_write_same: "mem_write xs 0 (take n xs) = xs"
  by (cases "n \<le> length xs") (simp_all add: mem_write_def)

lemma head_in_place:
  "CONN_PKT_HEAD_LEN \<le> length xs \<Longrightarrow> mem_write xs 0 (pkt_image Little (pkt_load Little (take CONN_PKT_HEAD_LEN xs))) = xs"
  by (simp add: pkt.image_load mem_write_same)

lemma take_bdata: "n \<le> length_of b \<Longrightarrow> take n (buffer b) = take n (bdata b)"
  by (simp add: bdata_def)

lemma BrRecvDataParse_part:
  assumes inv: "buf_inv b" and f: "wire_frame f" "length f \<le> capacity b" "bdata b = take n f" "n < length f"
  shows "BrRecvDataParse Little ok b = (None, b)"
proof (cases "length_of b < CONN_PKT_HEAD_LEN")
  case False
  have len: "length_of b = n" using length_bdata [OF inv] f(3,4) by simp
  let ?h = "pkt_load Little (take CONN_PKT_HEAD_LEN (buffer b))"
  have head: "take CONN_PKT_HEAD_LEN (buffer b) = take CONN_PKT_HEAD_LEN (take n f @ [])"
    using take_bdata [of CONN_PKT_HEAD_LEN b] f(3) False len by simp
  have h: "h_magic ?h = MAGIC_NUMBER" "unat (h_len ?h) = length f - CONN_PKT_HEAD_LEN"
    using load_frame [OF f(1), of n "[]"] False len unfolding head by simp_all
  have frame: "CONN_PKT_HEAD_LEN \<le> length f" using f(1) by (simp add: wire_frame_def)
  have cap: "capacity b < 4294967296" using inv by (simp add: buf_inv_def MAX_MALLOC_SIZE_def)
  show ?thesis
    using False h frame f(2,4) inv cap len
    by (simp add: BrRecvDataParse_def Let_def head_in_place buf_inv_def)
qed (simp add: BrRecvDataParse_def)

lemma BrRecvDataParse_whole:
  assumes inv: "buf_inv b" and f: "wire_frame f" "length f \<le> capacity b" "bdata b = f @ rest"
  shows "\<exists>b'. BrRecvDataParse Little True b = (Some f, b') \<and> buf_inv b' \<and> bdata b' = rest \<and> capacity b' = capacity b"
proof -
  have len: "length_of b = length f + length rest" using length_bdata [OF inv] f(3) by simp
  have frame: "CONN_PKT_HEAD_LEN \<le> length f" using f(1) by (simp add: wire_frame_def)
  let ?h = "pkt_load Little (take CONN_PKT_HEAD_LEN (buffer b))"
  have head: "take CONN_PKT_HEAD_LEN (buffer b) = take CONN_PKT_HEAD_LEN (take (length f) f @ rest)"
    using take_bdata [of CONN_PKT_HEAD_LEN b] f(3) frame len by simp
  have h: "h_magic ?h = MAGIC_NUMBER" "unat (h_len ?h) = length f - CONN_PKT_HEAD_LEN"
    using load_frame [OF f(1) frame, of rest] unfolding head by simp_all
  have cap: "capacity b \<le> MAX_MALLOC_SIZE" "length_of b \<le> capacity b" "length (buffer b) = capacity b" using inv by (auto simp: buf_inv_def)
  have calloc: "SoftBusCalloc True (length f) = Some (replicate (length f) 0)"
    using frame f(2) cap by (intro SoftBusCalloc_True) auto
  have data: "take (length f) (buffer b) = f" "segment (length f) (length rest) (buffer b) = rest"
    using take_bdata [of "length f" b] take_bdata [of "length f + length rest" b] f(3) len
    by (simp_all add: segment_def take_drop add.commute)
  have moved: "take (length rest) (mem_write (buffer b) 0 rest) = rest" "length (mem_write (buffer b) 0 rest) = capacity b"
    using cap len by (simp_all add: mem_write_def)
  define b' where "b' = b\<lparr>buffer := if length_of b > length f then mem_write (buffer b) 0 rest else buffer b, length_of := length rest\<rparr>"
  have parse: "BrRecvDataParse Little True b = (Some f, b')"
    using frame f(2) cap h calloc data len
    by (auto simp: BrRecvDataParse_def Let_def head_in_place memcpy_s_ok_def SECUREC_MEM_MAX_LEN_def MAX_MALLOC_SIZE_def b'_def)
  have "buf_inv b'" "bdata b' = rest" "capacity b' = capacity b"
    using inv moved len cap by (auto simp: buf_inv_def bdata_def b'_def)
  with parse show ?thesis by blast
qed

interpretation brp: frame_parser "BrRecvDataParse Little"
  by unfold_locales (rule BrRecvDataParse_whole BrRecvDataParse_part; assumption)+

section \<open>The stream of frames\<close>

text \<open>
  What the code relies on in \<open>Read\<close>: the bytes \<open>pend d\<close> the peer has sent are handed out in order, at least one
  and at most as many as there is room for.  \<open>peer_closes\<close>: when they are exhausted the socket reads as closed.
\<close>

definition stream_reader :: "('d \<Rightarrow> nat \<Rightarrow> (int \<times> bytes \<times> 'd) option) \<Rightarrow> ('d \<Rightarrow> bytes) \<Rightarrow> bool" where
  "stream_reader rd pend \<longleftrightarrow> (\<forall>d room. 0 < room \<longrightarrow> pend d \<noteq> [] \<longrightarrow>
     (\<exists>bs d'. rd d room = Some (int (length bs), bs, d') \<and> bs \<noteq> [] \<and> length bs \<le> room \<and> pend d = bs @ pend d'))"

definition peer_closes :: "('d \<Rightarrow> nat \<Rightarrow> (int \<times> bytes \<times> 'd) option) \<Rightarrow> ('d \<Rightarrow> bytes) \<Rightarrow> bool" where
  "peer_closes rd pend \<longleftrightarrow> (\<forall>d room. pend d = [] \<longrightarrow> (\<exists>d'. rd d room = Some (BR_READ_SOCKET_CLOSED, [], d')))"

lemma append_received:
  assumes "buf_inv b" "length_of b + length bs \<le> capacity b"
  defines "b' \<equiv> b\<lparr>buffer := mem_write (buffer b) (length_of b) bs, length_of := u32 (length_of b + length bs)\<rparr>"
  shows "buf_inv b'" "bdata b' = bdata b @ bs" "capacity b' = capacity b"
proof -
  have len: "u32 (length_of b + length bs) = length_of b + length bs"
    using assms(1,2) by (intro u32_small) (simp add: buf_inv_def MAX_MALLOC_SIZE_def)
  show "buf_inv b'" "capacity b' = capacity b" using assms(1,2) len by (simp_all add: b'_def buf_inv_def)
  show "bdata b' = bdata b @ bs"
    using assms(1,2) len take_mem_write [of "length_of b" bs "buffer b"] by (simp add: b'_def bdata_def buf_inv_def)
qed

lemma ReadOneFrame_next:
  assumes rd: "stream_reader rd pend" and al: "\<forall>d. al d"
    and f: "wire_frame f" "length f \<le> capacity b" "bdata b @ pend d = f @ rest" and inv: "buf_inv b"
  shows "\<exists>d' b'. ConnBrTransReadOneFrame Little rd al d b = Some (int (length f), Some f, d', b') \<and> buf_inv b' \<and>
    bdata b' @ pend d' = rest \<and> capacity b' = capacity b"
  using f inv
proof (induction "length (pend d)" arbitrary: d b rule: less_induct)
  case less
  show ?case
  proof (cases "length f \<le> length (bdata b)")
    case True
    then obtain r where r: "bdata b = f @ r" "r @ pend d = rest"
      using less.prems(3) by (metis append_assoc append_eq_append_conv_if append_eq_conv_conj same_append_eq)
    obtain b' where "BrRecvDataParse Little True b = (Some f, b')" "buf_inv b'" "bdata b' = r" "capacity b' = capacity b"
      using brp.parse_whole [OF less.prems(4,1,2) r(1)] by blast
    with al r(2) show ?thesis by (simp add: ConnBrTransReadOneFrame.simps)
  next
    case False
    have part: "bdata b = take (length (bdata b)) f"
      using less.prems(3) False by (metis append_eq_append_conv_if nat_le_linear take_all_iff)
    have none: "BrRecvDataParse Little (al d) b = (None, b)"
      using brp.parse_part [OF less.prems(4,1,2) part] False by simp
    have len: "length_of b = length (bdata b)" using length_bdata [OF less.prems(4)] by simp
    have "pend d \<noteq> []" using less.prems(3) False by auto
    moreover have room: "0 < capacity b - length_of b" "u32_sub (capacity b) (length_of b) = capacity b - length_of b"
      using False less.prems(2,4) len by (auto simp: buf_inv_def MAX_MALLOC_SIZE_def)
    ultimately obtain bs d' where bs: "rd d (capacity b - length_of b) = Some (int (length bs), bs, d')" "bs \<noteq> []"
      "length bs \<le> capacity b - length_of b" "pend d = bs @ pend d'"
      using rd unfolding stream_reader_def by blast
    let ?b = "b\<lparr>buffer := mem_write (buffer b) (length_of b) bs, length_of := u32 (length_of b + length bs)\<rparr>"
    have app: "buf_inv ?b" "bdata ?b = bdata b @ bs" "capacity ?b = capacity b"
      using append_received [OF less.prems(4), of bs] bs(3) room(1) by auto
    have "ConnBrTransReadOneFrame Little rd al d b = ConnBrTransReadOneFrame Little rd al d' ?b"
      using none room(2) bs(1,2) by (subst ConnBrTransReadOneFrame.simps) simp
    with less.hyps [of d' ?b] less.prems app bs show ?thesis by auto
  qed
qed

lemma LoopRead_frames:
  assumes rd: "stream_reader rd pend" "peer_closes rd pend" and al: "\<forall>d. al d" and hdl: "\<forall>d. \<exists>h. hdl d = Inr h \<and> h \<noteq> INVALID_SOCKET_HANDLE"
    and fs: "\<forall>f \<in> set fs. wire_frame f \<and> length f \<le> capacity b" "bdata b @ pend d = concat fs" and inv: "buf_inv b"
  shows "\<exists>d'. LoopRead_loop Little rd al hdl got d b = Some (SOFTBUS_CONN_BR_UNDERLAY_SOCKET_CLOSED, got @ fs, d')"
  using fs inv
proof (induction fs arbitrary: got d b)
  case Nil
  then have empty: "length_of b = 0" "pend d = []" using length_bdata [of b] by auto
  then obtain d' where "rd d (u32_sub (capacity b) 0) = Some (BR_READ_SOCKET_CLOSED, [], d')"
    using rd(2) unfolding peer_closes_def by blast
  then have "ConnBrTransReadOneFrame Little rd al d b = Some (SOFTBUS_CONN_BR_UNDERLAY_SOCKET_CLOSED, None, d', b)"
    using empty(1) by (subst ConnBrTransReadOneFrame.simps) (simp add: BrRecvDataParse_def)
  with hdl show ?case by (subst LoopRead_loop.simps) (auto split: sum.split dest: spec [of _ d])
next
  case (Cons f fs)
  then obtain d' b' where step: "ConnBrTransReadOneFrame Little rd al d b = Some (int (length f), Some f, d', b')" "buf_inv b'"
    "bdata b' @ pend d' = concat fs" "capacity b' = capacity b"
    using ReadOneFrame_next [OF rd(1) al, of f b d "concat fs"] by auto
  obtain h where "hdl d = Inr h" "h \<noteq> INVALID_SOCKET_HANDLE" using hdl by blast
  with step(1) have "LoopRead_loop Little rd al hdl got d b = LoopRead_loop Little rd al hdl (got @ [f]) d' b'"
    by (subst LoopRead_loop.simps) simp
  with Cons.IH [of b' d' "got @ [f]"] Cons.prems(1) step show ?case by simp
qed

lemma new_buffer:
  assumes "ConnNewLimitedBuffer al cap = (SOFTBUS_OK, Some b)" "CONN_PKT_HEAD_LEN \<le> cap"
  shows "buf_inv b" "bdata b = []" "capacity b = cap"
  using assms by (auto simp: ConnNewLimitedBuffer_def SoftBusCalloc_Some buf_inv_def bdata_def split: option.splits if_splits)

text \<open>A driver that meets these conditions: the bytes arrive in the given chunks.\<close>

definition chunk_read :: "bytes list \<Rightarrow> nat \<Rightarrow> (int \<times> bytes \<times> bytes list) option" where
  "chunk_read d room =
     (case dropWhile (\<lambda>c. c = []) d of
        [] \<Rightarrow> Some (BR_READ_SOCKET_CLOSED, [], [])
      | c # cs \<Rightarrow> Some (int (length (take room c)), take room c, if length c \<le> room then cs else drop room c # cs))"

lemma chunk_read_ok: "stream_reader chunk_read concat" "peer_closes chunk_read concat"
proof -
  have drop: "concat (dropWhile (\<lambda>c. c = []) d) = concat d" for d :: "bytes list" by (induction d) auto
  show "stream_reader chunk_read concat"
    unfolding stream_reader_def
  proof (intro allI impI)
    fix d :: "bytes list" and room :: nat
    assume room: "0 < room" and d: "concat d \<noteq> []"
    then have "dropWhile (\<lambda>c. c = []) d \<noteq> []" using drop [of d] by (metis concat.simps(1))
    then obtain c cs where c: "dropWhile (\<lambda>c. c = []) d = c # cs" by (cases "dropWhile (\<lambda>c. c = []) d") simp_all
    have "c \<noteq> []" using hd_dropWhile [of "\<lambda>c. c = []" d] c by simp
    moreover have "concat d = c @ concat cs" using drop [of d] c by simp
    ultimately show "\<exists>bs d'. chunk_read d room = Some (int (length bs), bs, d') \<and> bs \<noteq> [] \<and> length bs \<le> room \<and> concat d = bs @ concat d'"
      using room by (intro exI [of _ "take room c"] exI [of _ "if length c \<le> room then cs else drop room c # cs"]) (simp add: chunk_read_def c)
  qed
  show "peer_closes chunk_read concat"
    unfolding peer_closes_def
  proof (intro allI impI)
    fix d :: "bytes list" and room :: nat
    assume "concat d = []"
    then have none: "dropWhile (\<lambda>c. c = []) d = []" by (induction d) auto
    show "\<exists>d'. chunk_read d room = Some (BR_READ_SOCKET_CLOSED, [], d')" unfolding chunk_read_def none by simp
  qed
qed

section \<open>Writing a message\<close>

text \<open>
  What the code relies on in \<open>Write\<close>: of the bytes it is given it appends a prefix to the stream \<open>out d\<close> that the
  peer will read, and reports its length; on failure it has appended nothing.
\<close>

definition stream_writer :: "('d \<Rightarrow> bytes \<Rightarrow> int \<Rightarrow> (int \<times> 'd) option) \<Rightarrow> ('d \<Rightarrow> bytes) \<Rightarrow> bool" where
  "stream_writer wr out \<longleftrightarrow> (\<forall>d data len n d'. wr d data len = Some (n, d') \<longrightarrow>
     (if n < 0 then out d' = out d else n \<le> max 0 len \<and> nat n \<le> length data \<and> out d' = out d @ take (nat n) data))"

definition writer_progress :: "('d \<Rightarrow> bytes \<Rightarrow> int \<Rightarrow> (int \<times> 'd) option) \<Rightarrow> bool" where
  "writer_progress wr \<longleftrightarrow> (\<forall>d data len. 0 < len \<and> len \<le> int (length data) \<longrightarrow> (\<exists>n d'. wr d data len = Some (n, d') \<and> 0 < n))"

definition wrote :: "('d \<Rightarrow> bytes) \<Rightarrow> bytes \<Rightarrow> 'd \<Rightarrow> int \<Rightarrow> 'd \<Rightarrow> bool" where
  "wrote out data d status d' \<longleftrightarrow> (\<exists>sent. prefix sent data \<and> out d' = out d @ sent \<and>
     (if status = SOFTBUS_OK then sent = data else status = SOFTBUS_CONN_BR_UNDERLAY_WRITE_FAIL))"

lemma wrote_step:
  assumes "nat k \<le> length data" "out d1 = out d @ take (nat k) data" "wrote out (drop (nat k) data) d1 status d'"
  shows "wrote out data d status d'"
proof -
  from assms(3) obtain sent where "prefix sent (drop (nat k) data)" "out d' = out d1 @ sent"
    "if status = SOFTBUS_OK then sent = drop (nat k) data else status = SOFTBUS_CONN_BR_UNDERLAY_WRITE_FAIL"
    by (auto simp: wrote_def)
  then show ?thesis
    using assms(2) append_take_drop_id [of "nat k" data] same_prefix_prefix [of "take (nat k) data" sent "drop (nat k) data"]
    unfolding wrote_def by (intro exI [of _ "take (nat k) data @ sent"]) auto
qed

lemma BrTransSend_loop_written:
  assumes res: "BrTransSend_loop att wr mtu data n ctl d = Some y"
    and wr: "stream_writer wr out" and att: "\<forall>d. out (snd (att d)) = out d" and n: "n = length data" "n < 4294967296"
  shows "wrote out data d (fst y) (snd (snd y))"
proof -
  let ?ok = "\<lambda>att wr data n. stream_writer wr out \<and> (\<forall>d. out (snd (att d)) = out d) \<and> n = length data \<and> n < 4294967296"
  have "?ok att wr data n \<longrightarrow> wrote out data d (fst y) (snd (snd y))"
  proof (rule BrTransSend_loop.raw_induct [OF _ res,
        where P = "\<lambda>att wr mtu data n ctl d y. ?ok att wr data n \<longrightarrow> wrote out data d (fst y) (snd (snd y))"], rule impI)
    fix loop and att :: "'a \<Rightarrow> attempt list \<times> 'a" and wr mtu and data :: bytes and n :: nat and ctl d y
    assume 1: "\<And>att wr mtu data n ctl d y. loop att wr mtu data n ctl d = Some y \<Longrightarrow> ?ok att wr data n \<longrightarrow> wrote out data d (fst y) (snd (snd y))"
      and body: "(if 0 < n then let expect = if mtu < n then mtu else n in case att d of (envs, d) \<Rightarrow>
          case Apply envs ctl (s32 (int expect)) of None \<Rightarrow> None
          | Some (amnt, ctl) \<Rightarrow> case wr d data amnt of None \<Rightarrow> None
            | Some (writeLen, d) \<Rightarrow> if writeLen < 0 then Some (SOFTBUS_CONN_BR_UNDERLAY_WRITE_FAIL, ctl, d)
                else loop att wr mtu (drop (nat writeLen) data) (u32_sub n (nat writeLen)) ctl d
        else Some (SOFTBUS_OK, ctl, d)) = Some y" and ok: "?ok att wr data n"
    show "wrote out data d (fst y) (snd (snd y))"
    proof (cases "n = 0")
      case True
      with body ok show ?thesis by (auto simp: wrote_def)
    next
      case False
      obtain envs d1 where att: "att d = (envs, d1)" by fastforce
      with body False obtain amnt ctl1 where granted: "Apply envs ctl (s32 (int (if mtu < n then mtu else n))) = Some (amnt, ctl1)"
        by (auto simp: Let_def split: option.splits)
      with body False att obtain k d2 where k: "wr d1 data amnt = Some (k, d2)"
        and rest: "(if k < 0 then Some (SOFTBUS_CONN_BR_UNDERLAY_WRITE_FAIL, ctl1, d2)
          else loop att wr mtu (drop (nat k) data) (u32_sub n (nat k)) ctl1 d2) = Some y"
        by (auto simp: Let_def split: option.splits)
      have out1: "out d1 = out d" using ok att by (metis snd_conv)
      have k': "if k < 0 then out d2 = out d1 else k \<le> max 0 amnt \<and> nat k \<le> length data \<and> out d2 = out d1 @ take (nat k) data"
        using ok k unfolding stream_writer_def by blast
      show ?thesis
      proof (cases "k < 0")
        case True
        with rest k' out1 show ?thesis by (auto simp: wrote_def)
      next
        case False
        with k' ok have left: "?ok att wr (drop (nat k) data) (u32_sub n (nat k))" by (auto simp: less_imp_diff_less)
        have "loop att wr mtu (drop (nat k) data) (u32_sub n (nat k)) ctl1 d2 = Some y" using rest False by simp
        from mp [OF 1 [OF this] left] have "wrote out (drop (nat k) data) d2 (fst y) (snd (snd y))" .
        then show ?thesis using k' False out1 by - (rule wrote_step [of k _ _ d2], simp_all)
      qed
    qed
  qed
  with wr att n show ?thesis by blast
qed

text \<open>A controller that is not enabled grants what it is asked for.\<close>

lemma Apply_inactive: "\<not> active c \<Longrightarrow> lockOk env \<Longrightarrow> Apply (env # envs) (Some c) expect = Some (expect, Some c)"
  by (simp add: ApplyOnce_def)

lemma BrTransSend_loop_completes:
  assumes wr: "stream_writer wr out" "writer_progress wr" and mtu: "0 < mtu" "mtu < 2147483648"
    and att: "\<forall>d. \<exists>env envs d'. att d = (env # envs, d') \<and> lockOk env" and ctl: "\<not> active c"
  shows "length data < 4294967296 \<Longrightarrow> \<exists>d'. BrTransSend_loop att wr mtu data (length data) (Some c) d = Some (SOFTBUS_OK, Some c, d')"
proof (induction "length data" arbitrary: data d rule: less_induct)
  case less
  show ?case
  proof (cases "data = []")
    case False
    obtain env envs d1 where e: "att d = (env # envs, d1)" "lockOk env" using att by blast
    define x where "x = (if mtu < length data then mtu else length data)"
    have x: "s32 (int x) = int x" "0 < x" "x \<le> length data" using mtu False by (auto simp: x_def)
    then obtain k d2 where k: "wr d1 data (int x) = Some (k, d2)" "0 < k"
      using wr(2) unfolding writer_progress_def by (metis of_nat_0_less_iff of_nat_le_iff)
    then have fits: "nat k \<le> length data" using wr(1) unfolding stream_writer_def by (metis less_asym)
    moreover have short: "length (drop (nat k) data) < length data" using k(2) False by simp
    obtain d' where
      "BrTransSend_loop att wr mtu (drop (nat k) data) (length (drop (nat k) data)) (Some c) d2 = Some (SOFTBUS_OK, Some c, d')"
      using less.hyps [OF short order_less_trans [OF short less.prems], of d2] by blast
    moreover have "BrTransSend_loop att wr mtu data (length data) (Some c) d =
        BrTransSend_loop att wr mtu (drop (nat k) data) (length (drop (nat k) data)) (Some c) d2"
      using False e k x Apply_inactive [OF ctl e(2)] less.prems fits
      by (subst BrTransSend_loop.simps) (simp add: Let_def flip: x_def del: Apply.simps)
    ultimately show ?thesis by simp
  qed (subst BrTransSend_loop.simps, simp)
qed

section \<open>Packed control messages\<close>

lemma PackCtl_cases:
  assumes "ConnBrPackCtlMessage e print env gen ctx = (ret, Some pkt, gen')"
  obtains body where "SerializeByJson print (fst env) (fst (snd env)) ctx = (SOFTBUS_OK, Some (body @ [0]))" "ret = gen" "gen' = gen + 1"
    "length body < 2147483648 \<Longrightarrow> pkt = make_frame e \<lparr>h_magic = MAGIC_NUMBER, h_module = 11, h_seq = word_of_int gen, h_flag = word_of_int (cm_flag ctx),
       h_len = word_of_nat (Suc (length body))\<rparr> (body @ [0]) \<and> length body < MAX_MALLOC_SIZE"
proof -
  obtain body where ser: "SerializeByJson print (fst env) (fst (snd env)) ctx = (SOFTBUS_OK, Some (body @ [0]))"
    using assms by (auto simp: ConnBrPackCtlMessage_def SerializeByJson_def Let_def split: option.splits if_splits prod.splits)
  define head where "head = \<lparr>h_magic = MAGIC_NUMBER, h_module = 11, h_seq = word_of_int gen, h_flag = word_of_int (cm_flag ctx),
       h_len = word_of_nat (Suc (length body))\<rparr>"
  have calloc: "SoftBusCalloc (snd (snd env)) (u32 (u32 (Suc (length body)) + CONN_PKT_HEAD_LEN)) \<noteq> None"
    using assms ser by (auto simp: ConnBrPackCtlMessage_def Let_def split: option.splits)
  have pkt: "pkt = make_frame e head (body @ [0]) \<and> length body < MAX_MALLOC_SIZE" if len: "length body < 2147483648"
  proof -
    let ?n = "u32 (Suc (length body) + CONN_PKT_HEAD_LEN)"
    have n: "u32 (Suc (length body)) = Suc (length body)" using len by (intro u32_small) simp
    have "?n \<le> MAX_MALLOC_SIZE" and buf: "SoftBusCalloc (snd (snd env)) ?n = Some (replicate ?n 0)"
      using calloc n by (auto simp: SoftBusCalloc_Some)
    have small: "Suc (length body) + CONN_PKT_HEAD_LEN < 4294967296" using len by simp
    then have "?n = Suc (length body) + CONN_PKT_HEAD_LEN" by simp
    with assms ser n buf small show ?thesis
      using \<open>?n \<le> MAX_MALLOC_SIZE\<close>
      by (auto simp: ConnBrPackCtlMessage_def Let_def make_frame_def head_def mem_write_def pkt.length_image split: if_splits)
  qed
  have "ret = gen" "gen' = gen + 1"
    using assms by (auto simp: ConnBrPackCtlMessage_def Let_def split: option.splits if_splits prod.splits)
  with ser pkt that show thesis by (simp add: head_def)
qed



section \<open>Properties\<close>

text \<open>
  C29: Framing.  On a little-endian host, whatever pieces the frames a peer has sent arrive in, \<open>LoopRead\<close> hands each of them to the listener
  exactly as it was sent, in order and none more, and ends with \<open>SOFTBUS_CONN_BR_UNDERLAY_SOCKET_CLOSED\<close> when the peer has closed the socket after them.  The frames are well formed
  and fit the buffer, whose capacity holds a head and can be allocated; allocations succeed, the connection's socket handle stays valid, and the driver gives the
  bytes of the stream in order, at least one per read until it is closed.  (On a big-endian host the head is misread, \<open>br_parse_big_endian\<close>.)
\<close>

theorem br_frames_delivered:
  assumes "stream_reader rd pend" "peer_closes rd pend" "\<forall>d. al d" "\<forall>d. \<exists>h. hdl d = Inr h \<and> h \<noteq> INVALID_SOCKET_HANDLE"
    and "\<forall>f \<in> set fs. wire_frame f \<and> length f \<le> cap" "pend d = concat fs" "CONN_PKT_HEAD_LEN \<le> cap" "cap \<le> MAX_MALLOC_SIZE"
  shows "\<exists>d'. LoopRead Little rd al hdl (\<lambda>_. True) cap d = Some (SOFTBUS_CONN_BR_UNDERLAY_SOCKET_CLOSED, fs, d')"
proof -
  obtain b where b: "ConnNewLimitedBuffer (\<lambda>_. True) cap = (SOFTBUS_OK, Some b)"
    using assms(7,8) by (simp add: ConnNewLimitedBuffer_def SoftBusCalloc_True)
  note buf = new_buffer [OF b assms(7)]
  from LoopRead_frames [OF assms(1-4), of fs b d "[]"] assms(5,6) buf b show ?thesis by (simp add: LoopRead_def)
qed

definition frame_a :: bytes where
  "frame_a = make_frame Big \<lparr>h_magic = MAGIC_NUMBER, h_module = 11, h_seq = 5, h_flag = 3, h_len = 2\<rparr> [7, 9]"

definition frame_b :: bytes where
  "frame_b = make_frame Little \<lparr>h_magic = MAGIC_NUMBER, h_module = 11, h_seq = 6, h_flag = 3, h_len = 0\<rparr> []"

lemma example_frames: "wire_frame frame_a" "length frame_a = 26" "wire_frame frame_b" "length frame_b = 24"
  using make_frame_wire [of "\<lparr>h_magic = MAGIC_NUMBER, h_module = 11, h_seq = 5, h_flag = 3, h_len = 2\<rparr>" "[7, 9]" Big]
    make_frame_wire [of "\<lparr>h_magic = MAGIC_NUMBER, h_module = 11, h_seq = 6, h_flag = 3, h_len = 0\<rparr>" "[]" Little]
  by (simp_all add: frame_a_def frame_b_def)

theorem br_frames_delivered_witness:
  "\<exists>d'. LoopRead Little chunk_read (\<lambda>_. True) (\<lambda>_. Inr 4) (\<lambda>_. True) 40000 [take 3 frame_a, drop 3 frame_a @ take 1 frame_b, drop 1 frame_b] =
    Some (SOFTBUS_CONN_BR_UNDERLAY_SOCKET_CLOSED, [frame_a, frame_b], d')"
  by (rule br_frames_delivered [OF chunk_read_ok]) (simp_all add: example_frames MAX_MALLOC_SIZE_def)

text \<open>
  C30: Sending.  Whatever the flow controller grants and however the driver splits the writes, what \<open>BrTransSend\<close>
  puts on the stream is a prefix of the message, and the whole message when it returns \<open>SOFTBUS_OK\<close>; the only
  other result is \<open>SOFTBUS_CONN_BR_UNDERLAY_WRITE_FAIL\<close>.
\<close>

theorem br_send_in_order:
  assumes "stream_writer wr out" "\<forall>d. out (snd (att d)) = out d" "length data < 4294967296"
    and "BrTransSend att wr mtu data ctl d = Some (status, ctl', d')"
  shows "\<exists>sent. prefix sent data \<and> out d' = out d @ sent \<and>
    (if status = SOFTBUS_OK then sent = data else status = SOFTBUS_CONN_BR_UNDERLAY_WRITE_FAIL)"
  using BrTransSend_loop_written [OF _ assms(1,2) refl assms(3)] assms(4) unfolding BrTransSend_def wrote_def by fastforce

text \<open>A driver that takes at most three bytes at a time.\<close>

definition slow_write :: "bytes \<Rightarrow> bytes \<Rightarrow> int \<Rightarrow> (int \<times> bytes) option" where
  "slow_write d data len = (let k = min 3 (min (nat len) (length data)) in Some (int k, d @ take k data))"

lemma slow_write_ok: "stream_writer slow_write id" "writer_progress slow_write"
proof -
  show "stream_writer slow_write id" by (auto simp: stream_writer_def slow_write_def Let_def)
  show "writer_progress slow_write"
    unfolding writer_progress_def
  proof (intro allI impI)
    fix d data :: bytes and len :: int
    assume "0 < len \<and> len \<le> int (length data)"
    then show "\<exists>n d'. slow_write d data len = Some (n, d') \<and> 0 < n" by (auto simp: slow_write_def Let_def)
  qed
qed

theorem br_send_in_order_witness:
  "BrTransSend (Pair [\<lparr>lockOk = True, clock = 0, callocOk = True\<rparr>]) slow_write 4 [1, 2, 3, 4, 5]
      (Some \<lparr>active = False, windowInMillis = - 1, quotaInBytes = - 1, histories = []\<rparr>) [] =
    Some (SOFTBUS_OK, Some \<lparr>active = False, windowInMillis = - 1, quotaInBytes = - 1, histories = []\<rparr>, [1, 2, 3, 4, 5]) \<and>
    (\<exists>sent. prefix sent [1, 2, 3, 4, 5 :: byte] \<and> [1, 2, 3, 4, 5] = [] @ sent \<and> sent = [1, 2, 3, 4, 5])"
proof -
  let ?c = "\<lparr>active = False, windowInMillis = - 1, quotaInBytes = - 1, histories = []\<rparr>"
  have "BrTransSend (Pair [\<lparr>lockOk = True, clock = 0, callocOk = True\<rparr>]) slow_write 4 [1, 2, 3, 4, 5] (Some ?c) [] = Some (SOFTBUS_OK, Some ?c, [1, 2, 3, 4, 5])"
    unfolding BrTransSend_def
    by (subst BrTransSend_loop.simps, simp add: ApplyOnce_def slow_write_def, subst BrTransSend_loop.simps, simp add: ApplyOnce_def slow_write_def,
        subst BrTransSend_loop.simps, simp)
  with br_send_in_order [OF slow_write_ok(1) _ _ this] show ?thesis by simp
qed

text \<open>
  C31: A send completes.  While flow control is not enabled and the driver makes progress, \<open>BrTransSend\<close> returns
  \<open>SOFTBUS_OK\<close> with the whole message written.
\<close>

theorem br_send_completes:
  assumes "stream_writer wr out" "writer_progress wr" "0 < mtu" "mtu < 2147483648"
    and "\<forall>d. \<exists>env envs d'. att d = (env # envs, d') \<and> lockOk env" "\<forall>d. out (snd (att d)) = out d" "\<not> active c" "length data < 4294967296"
  shows "\<exists>d'. BrTransSend att wr mtu data (Some c) d = Some (SOFTBUS_OK, Some c, d') \<and> out d' = out d @ data"
proof -
  obtain d' where d': "BrTransSend_loop att wr mtu data (length data) (Some c) d = Some (SOFTBUS_OK, Some c, d')"
    using BrTransSend_loop_completes [OF assms(1-5,7,8)] by blast
  with BrTransSend_loop_written [OF d' assms(1,6) refl assms(8)] show ?thesis by (auto simp: BrTransSend_def wrote_def)
qed

theorem br_send_completes_witness:
  "\<exists>d'. BrTransSend (Pair [\<lparr>lockOk = True, clock = 0, callocOk = True\<rparr>]) slow_write 4 [1, 2, 3, 4, 5]
      (Some \<lparr>active = False, windowInMillis = - 1, quotaInBytes = - 1, histories = []\<rparr>) [] =
    Some (SOFTBUS_OK, Some \<lparr>active = False, windowInMillis = - 1, quotaInBytes = - 1, histories = []\<rparr>, d') \<and> id d' = id [] @ [1, 2, 3, 4, 5]"
  by (rule br_send_completes [OF slow_write_ok]) simp_all

section \<open>The in-place conversion on a big-endian host\<close>

text \<open>
  The head is converted in the buffer before it is known whether the frame is complete.  On a big-endian host
  the next call converts it back: the magic number no longer matches and the frame is dropped.
\<close>

lemma swapped_magic: "h2l32 Big MAGIC_NUMBER \<noteq> MAGIC_NUMBER"
proof
  assume "h2l32 Big MAGIC_NUMBER = MAGIC_NUMBER"
  then have "field_bytes Big 4 MAGIC_NUMBER = wire_bytes 4 MAGIC_NUMBER" using h2l_bytes(2) [of Big MAGIC_NUMBER] by simp
  then show False by (simp add: field_bytes_def wire_bytes_def host_bytes_def nat_le_4)
qed

lemma br_parse_big_endian:
  assumes h: "h_magic h = MAGIC_NUMBER" "unat (h_len h) + CONN_PKT_HEAD_LEN \<le> capacity b" and inv: "buf_inv b"
    and part: "take CONN_PKT_HEAD_LEN (bdata b) = pkt_image Big (PackConnPktHead Big h)" "CONN_PKT_HEAD_LEN \<le> length_of b"
      "length_of b < CONN_PKT_HEAD_LEN + unat (h_len h)"
    and later: "take CONN_PKT_HEAD_LEN (bdata b2) = take CONN_PKT_HEAD_LEN (bdata (snd (BrRecvDataParse Big ok b)))" "CONN_PKT_HEAD_LEN \<le> length_of b2"
  shows "fst (BrRecvDataParse Big ok b) = None" "length_of (snd (BrRecvDataParse Big ok b)) = length_of b"
    "fst (BrRecvDataParse Big ok2 b2) = None" "length_of (snd (BrRecvDataParse Big ok2 b2)) = 0"
proof -
  have start: "take CONN_PKT_HEAD_LEN (buffer b) = pkt_image Big (PackConnPktHead Big h)" using part take_bdata [of CONN_PKT_HEAD_LEN b] by simp
  have cap: "capacity b < 4294967296" "length (buffer b) = capacity b" "CONN_PKT_HEAD_LEN \<le> capacity b"
    using inv by (auto simp: buf_inv_def MAX_MALLOC_SIZE_def)
  have first: "BrRecvDataParse Big ok b = (None, b\<lparr>buffer := mem_write (buffer b) 0 (pkt_image Big h)\<rparr>)"
    using h part(2,3) cap by (simp add: BrRecvDataParse_def Let_def start pkt.unpack_wire)
  then show "fst (BrRecvDataParse Big ok b) = None" "length_of (snd (BrRecvDataParse Big ok b)) = length_of b" by simp_all
  have "take CONN_PKT_HEAD_LEN (bdata (snd (BrRecvDataParse Big ok b))) = pkt_image Big h"
    using first part(2) by (simp add: bdata_def mem_write_def pkt.length_image min_def)
  then have "take CONN_PKT_HEAD_LEN (buffer b2) = pkt_image Big h" using later take_bdata [of CONN_PKT_HEAD_LEN b2] by simp
  then show "fst (BrRecvDataParse Big ok2 b2) = None" "length_of (snd (BrRecvDataParse Big ok2 b2)) = 0"
    using later(2) h(1) swapped_magic
    by (simp_all add: BrRecvDataParse_def Let_def pkt.load_image UnpackConnPktHead_def l2h_h2l)
qed

end
