(* ===== verification/Send_Task.thy ===== *)
theory Send_Task
  imports Keyed_Fifo
begin

text \<open>
  The protocol that starts and stops the send tasks of the BR and BLE connections.  A caller stores its
  message, then takes the lock of the task's status, notes that something was posted and starts the task if
  none runs.  The task takes messages out; when it has waited in vain it takes the same lock and quits,
  unless something was posted meanwhile.

  The callers and the task interleave freely between these steps.  The locale states what the status
  functions promise and shows that no stored message is left without a task; it extends the contract of the
  queue the messages go through.
\<close>

datatype 'a task_place = Stopped | Scans | Waits | TimedOut | Dequeued 'a | Sends 'a

record ('q, 'l, 'a) task_state =
  ts_queue :: 'q
  ts_info :: 'l
  ts_posting :: nat
  ts_place :: "'a task_place"
  ts_startFailed :: bool

text \<open>
  \<open>ts_posting\<close> counts the callers between storing and notifying; \<open>ts_startFailed\<close> says that the last
  attempt to start a task failed.  \<open>notify started\<close> is the caller's part under the lock, with the
  result of starting a thread; \<open>quit\<close> and \<open>got\<close> are the task's parts.
\<close>

inductive task_step ::
  "('e \<Rightarrow> 'q \<Rightarrow> 'a \<Rightarrow> bool \<times> 'q) \<Rightarrow> ('e \<Rightarrow> 'q \<Rightarrow> 'a option \<times> 'q) \<Rightarrow> (int \<Rightarrow> 'l \<Rightarrow> int \<times> 'l) \<Rightarrow> ('l \<Rightarrow> bool \<times> 'l) \<Rightarrow> ('l \<Rightarrow> 'l) \<Rightarrow>
   ('l \<Rightarrow> bool) \<Rightarrow> ('q, 'l, 'a) task_state \<Rightarrow> ('q, 'l, 'a) task_state \<Rightarrow> bool"
  for enq deq notify quit got running where
  store: "enq e (ts_queue s) x = (True, q) \<Longrightarrow>
    task_step enq deq notify quit got running s (s\<lparr>ts_queue := q, ts_posting := Suc (ts_posting s)\<rparr>)"
| refuse: "enq e (ts_queue s) x = (False, q) \<Longrightarrow> task_step enq deq notify quit got running s (s\<lparr>ts_queue := q\<rparr>)"
| notify: "ts_posting s = Suc n \<Longrightarrow> notify started (ts_info s) = (status, l) \<Longrightarrow>
    task_step enq deq notify quit got running s
      (s\<lparr>ts_info := l, ts_posting := n,
         ts_place := (if running (ts_info s) then ts_place s else if started = SOFTBUS_OK then Scans else Stopped),
         ts_startFailed := (if running (ts_info s) then ts_startFailed s else started \<noteq> SOFTBUS_OK)\<rparr>)"
| dequeue: "ts_place s = Scans \<Longrightarrow> deq e (ts_queue s) = (Some x, q) \<Longrightarrow>
    task_step enq deq notify quit got running s (s\<lparr>ts_queue := q, ts_place := Dequeued x\<rparr>)"
| block: "ts_place s = Scans \<Longrightarrow> deq e (ts_queue s) = (None, q) \<Longrightarrow>
    task_step enq deq notify quit got running s (s\<lparr>ts_queue := q, ts_place := Waits\<rparr>)"
| wake: "ts_place s = Waits \<Longrightarrow> task_step enq deq notify quit got running s (s\<lparr>ts_place := Scans\<rparr>)"
| timeout: "ts_place s = Waits \<Longrightarrow> task_step enq deq notify quit got running s (s\<lparr>ts_place := TimedOut\<rparr>)"
| quit: "ts_place s = TimedOut \<Longrightarrow> quit (ts_info s) = (goes_on, l) \<Longrightarrow>
    task_step enq deq notify quit got running s (s\<lparr>ts_info := l, ts_place := (if goes_on then Scans else Stopped)\<rparr>)"
| got: "ts_place s = Dequeued x \<Longrightarrow>
    task_step enq deq notify quit got running s (s\<lparr>ts_info := got (ts_info s), ts_place := Sends x\<rparr>)"
| sent: "ts_place s = Sends x \<Longrightarrow> task_step enq deq notify quit got running s (s\<lparr>ts_place := Scans\<rparr>)"

definition task_start :: "('q \<Rightarrow> bool) \<Rightarrow> ('q \<Rightarrow> 'k \<Rightarrow> 'a list) \<Rightarrow> ('l \<Rightarrow> bool) \<Rightarrow> ('q, 'l, 'a) task_state \<Rightarrow> bool" where
  "task_start invar content running s \<longleftrightarrow> invar (ts_queue s) \<and> (\<forall>k. content (ts_queue s) k = []) \<and> \<not> running (ts_info s) \<and>
     ts_posting s = 0 \<and> ts_place s = Stopped \<and> \<not> ts_startFailed s"

text \<open>A task that is on its way to look into the queue.\<close>

definition will_scan :: "'a task_place \<Rightarrow> bool" where
  "will_scan p \<longleftrightarrow> (case p of Scans \<Rightarrow> True | Dequeued _ \<Rightarrow> True | Sends _ \<Rightarrow> True | _ \<Rightarrow> False)"

definition task_inv ::
  "('q \<Rightarrow> bool) \<Rightarrow> ('q \<Rightarrow> 'k \<Rightarrow> 'a list) \<Rightarrow> ('l \<Rightarrow> bool) \<Rightarrow> ('l \<Rightarrow> bool) \<Rightarrow> ('q, 'l, 'a) task_state \<Rightarrow> bool" where
  "task_inv invar content posted running s \<longleftrightarrow> invar (ts_queue s) \<and> (running (ts_info s) \<longleftrightarrow> ts_place s \<noteq> Stopped) \<and>
     (ts_posting s = 0 \<longrightarrow> (\<exists>k. content (ts_queue s) k \<noteq> []) \<longrightarrow>
        will_scan (ts_place s) \<or> posted (ts_info s) \<and> (running (ts_info s) \<or> ts_startFailed s))"

locale send_task = keyed_fifo invar content key enq deq
  for invar :: "'q \<Rightarrow> bool" and content :: "'q \<Rightarrow> 'k \<Rightarrow> 'a list" and key enq and deq :: "'e \<Rightarrow> 'q \<Rightarrow> 'a option \<times> 'q" +
  fixes notify :: "int \<Rightarrow> 'l \<Rightarrow> int \<times> 'l"
    and quit :: "'l \<Rightarrow> bool \<times> 'l"
    and got :: "'l \<Rightarrow> 'l"
    and posted :: "'l \<Rightarrow> bool"
    and running :: "'l \<Rightarrow> bool"
  assumes notify_law: "notify started l = (status, l') \<Longrightarrow>
      posted l' \<and> (running l' \<longleftrightarrow> running l \<or> started = SOFTBUS_OK) \<and> status = (if running l then SOFTBUS_OK else started)"
    and quit_law: "quit l = (goes_on, l') \<Longrightarrow> goes_on = posted l \<and> \<not> posted l' \<and> running l' = (running l \<and> posted l)"
    and got_law: "\<not> posted (got l) \<and> running (got l) = running l"
begin

lemma task_inv_start: "task_start invar content running s \<Longrightarrow> task_inv invar content posted running s"
  by (auto simp: task_start_def task_inv_def)

lemma task_inv_step:
  assumes inv: "task_inv invar content posted running s" and step: "task_step enq deq notify quit got running s t"
  shows "task_inv invar content posted running t"
  using step inv
proof cases
  case (store e x q)
  then show ?thesis using inv enq_law by (fastforce simp: task_inv_def)
next
  case (refuse e x q)
  then show ?thesis using inv enq_law [of "ts_queue s" e x False q] by (auto simp: task_inv_def)
next
  case (notify n started status l)
  then show ?thesis using inv notify_law [OF notify(3)] by (auto simp: task_inv_def will_scan_def)
next
  case (dequeue e x q)
  then show ?thesis using inv deq_some [of "ts_queue s" e x q] by (auto simp: task_inv_def will_scan_def)
next
  case (block e q)
  then show ?thesis using inv deq_none [of "ts_queue s" e q] by (auto simp: task_inv_def)
next
  case (quit goes_on l)
  then show ?thesis using inv quit_law [OF quit(3)] by (auto simp: task_inv_def will_scan_def)
next
  case (got x)
  then show ?thesis using inv got_law [of "ts_info s"] by (auto simp: task_inv_def will_scan_def)
qed (auto simp: task_inv_def will_scan_def)

sublocale transition_system "task_start invar content running" "task_step enq deq notify quit got running" "task_inv invar content posted running"
  by unfold_locales (fact task_inv_start, fact task_inv_step)

lemma never_stranded:
  assumes "task_start invar content running s" "(task_step enq deq notify quit got running)\<^sup>*\<^sup>* s t"
    and "content (ts_queue t) k \<noteq> []" "ts_posting t = 0" "\<not> ts_startFailed t"
  shows "running (ts_info t)" "will_scan (ts_place t) \<or> posted (ts_info t)"
  using inv_reachable [OF assms(1,2)] assms(3-5) by (auto simp: task_inv_def will_scan_def)

end

end
