(* ===== verification/Br_Task.thy ===== *)
theory Br_Task
  imports Br_Object Br_Trans Br_Send_Queue Br_Pending Send_Task
begin

text \<open>
  Posting and sending of the BR connection, the second half of
  \<^verbatim>\<open>core/connection/br/src/softbus_conn_br_trans.c\<close> and the acknowledgement handlers of
  \<^verbatim>\<open>softbus_conn_br_pending_packet.c\<close>: \<open>ConnBrPostBytes\<close> puts a message into the send queue and makes sure
  the send task runs; the send task takes messages out, keeps the acknowledgement window and writes them.

  The state is everything these functions share.  What the environment decides during one call is a record of
  the outcomes of its locks, allocations and waits; a call that does not return is None.
\<close>

section \<open>Definitions\<close>

abbreviation SOFTBUS_CONN_BR_CONNECTION_NOT_EXIST_ERR :: int where "SOFTBUS_CONN_BR_CONNECTION_NOT_EXIST_ERR \<equiv> - 425918444"
abbreviation SOFTBUS_CONN_BR_CONNECTION_NOT_READY_ERR :: int where "SOFTBUS_CONN_BR_CONNECTION_NOT_READY_ERR \<equiv> - 425918443"
abbreviation SOFTBUS_CONN_BR_CONNECTION_INVALID_SOCKET :: int where "SOFTBUS_CONN_BR_CONNECTION_INVALID_SOCKET \<equiv> - 425918442"
abbreviation MIN_WINDOW :: int where "MIN_WINDOW \<equiv> 10"
abbreviation MAX_WINDOW :: int where "MAX_WINDOW \<equiv> 80"
abbreviation ACK_FAILED_TIMES :: int where "ACK_FAILED_TIMES \<equiv> 3"
abbreviation WAIT_ACK_TIMEOUT_MILLS :: nat where "WAIT_ACK_TIMEOUT_MILLS \<equiv> 100"
abbreviation TIMEOUT_TIMES :: int where "TIMEOUT_TIMES \<equiv> 2"

record StartBrSendLPInfo =
  lp_messagePosted :: bool
  lp_sendTaskRunning :: bool

record 'd br_world =
  bw_conns :: br_conns
  bw_queues :: "SendBrQueueNode send_queues"
  bw_pending :: "unit br_pending"
  bw_lp :: StartBrSendLPInfo
  bw_flow :: "ConnSlideWindowController option"
  bw_gen :: int
  bw_finished :: "(SendBrQueueNode \<times> int) list"
  bw_drv :: 'd

text \<open>What is fixed: the host, the JSON printer, the passes of the flow controller and the driver's \<open>Write\<close>.\<close>

record 'd br_platform =
  bp_host :: endian
  bp_print :: "json_object \<Rightarrow> bytes option"
  bp_att :: "'d \<Rightarrow> attempt list \<times> 'd"
  bp_write :: "'d \<Rightarrow> bytes \<Rightarrow> int \<Rightarrow> (int \<times> 'd) option"

subsection \<open>Posting\<close>

text \<open>The end of \<open>ConnBrPostBytes\<close>: the send task is told, and started if it is not running.\<close>

definition post_notify :: "bool \<Rightarrow> int \<Rightarrow> StartBrSendLPInfo \<Rightarrow> int \<times> StartBrSendLPInfo" where
  "post_notify okLock started lp =
     (if \<not> okLock then (SOFTBUS_LOCK_ERR, lp)
      else
        let lp = lp\<lparr>lp_messagePosted := True\<rparr>
        in if \<not> lp_sendTaskRunning lp then
             (if started \<noteq> SOFTBUS_OK then (started, lp) else (SOFTBUS_OK, lp\<lparr>lp_sendTaskRunning := True\<rparr>))
           else (SOFTBUS_OK, lp))"

record post_env =
  pe_get :: "nat \<Rightarrow> bool"
  pe_lock :: bool
  pe_return :: "nat \<Rightarrow> bool"
  pe_calloc :: bool
  pe_queue :: "nat \<Rightarrow> bool"
  pe_queueLock :: bool
  pe_waits :: "(int \<times> SendBrQueueNode send_queues) list"
  pe_lpLock :: bool
  pe_started :: int

definition ConnBrPostBytes ::
  "post_env \<Rightarrow> nat \<Rightarrow> bytes option \<Rightarrow> int \<Rightarrow> int \<Rightarrow> int \<Rightarrow> int \<Rightarrow> 'd br_world \<Rightarrow> (fault + int \<times> 'd br_world) option" where
  "ConnBrPostBytes env connectionId data pid flag modul seq w =
     (case data of None \<Rightarrow> Some (Inr (SOFTBUS_INVALID_PARAM, w))
      | Some bytes \<Rightarrow>
        if length bytes = 0 \<or> length bytes > MAX_DATA_LEN then Some (Inr (SOFTBUS_INVALID_PARAM, w))
        else case ConnBrGetConnectionById (pe_get env) connectionId (bw_conns w) of
          Inl f \<Rightarrow> Some (Inl f)
        | Inr (None, conns) \<Rightarrow> Some (Inr (SOFTBUS_CONN_BR_CONNECTION_NOT_EXIST_ERR, w\<lparr>bw_conns := conns\<rparr>))
        | Inr (Some a, conns) \<Rightarrow>
            (case bo_heap conns a of
               None \<Rightarrow> Some (Inl InvalidPointer)
             | Some connection \<Rightarrow>
                 (case ConnBrReturnConnection (pe_return env) (Some a) conns of
                    Inl f \<Rightarrow> Some (Inl f)
                  | Inr conns \<Rightarrow>
                      let w = w\<lparr>bw_conns := conns\<rparr>
                      in if \<not> pe_lock env then Some (Inr (SOFTBUS_LOCK_ERR, w))
                         else if bc_state connection \<noteq> BR_CONNECTION_STATE_CONNECTED \<and> modul \<noteq> MODULE_CONNECTION
                         then Some (Inr (SOFTBUS_CONN_BR_CONNECTION_NOT_READY_ERR, w))
                         else if \<not> pe_calloc env then Some (Inr (SOFTBUS_MEM_ERR, w))
                         else
                           let node = \<lparr>bn_connectionId = connectionId, bn_pid = pid, bn_flag = flag, bn_isInner = (pid = 0),
                                 bn_module = modul, bn_seq = seq, bn_data = bytes\<rparr>
                           in case ConnBrEnqueueNonBlock (pe_queue env) (pe_queueLock env) (pe_waits env) (Some node) (bw_queues w) of
                                None \<Rightarrow> None
                              | Some (Inl f) \<Rightarrow> Some (Inl f)
                              | Some (Inr (status, signalled, queues)) \<Rightarrow>
                                  let w = w\<lparr>bw_queues := queues\<rparr>
                                  in if status \<noteq> SOFTBUS_OK then Some (Inr (status, w))
                                     else case post_notify (pe_lpLock env) (pe_started env) (bw_lp w) of
                                            (status, lp) \<Rightarrow> Some (Inr (status, w\<lparr>bw_lp := lp\<rparr>)))))"

subsection \<open>The acknowledgement window\<close>

record ack_env =
  ae_pack :: "bool \<times> (nat \<Rightarrow> nat \<Rightarrow> bool) \<times> bool"
  ae_pendLock :: bool
  ae_pendCalloc :: bool
  ae_pendMutex :: int
  ae_pendCond :: int
  ae_delLock :: bool
  ae_lock1 :: bool
  ae_getLocks :: "nat \<Rightarrow> bool"
  ae_now :: "int \<times> int"
  ae_condWait :: "int \<times> int \<Rightarrow> unit br_pending \<Rightarrow> unit br_pending"
  ae_lock2 :: bool

definition SendAck :: "'d br_platform \<Rightarrow> ack_env \<Rightarrow> ConnBrConnection \<Rightarrow> 'd br_world \<Rightarrow> (int \<times> 'd br_world) option" where
  "SendAck plat env connection w =
     (let ctx = \<lparr>cm_connectionId = bc_connectionId connection, cm_flag = CONN_HIGH,
            cm_message = NotifyAck (bc_window connection) (bc_sequence connection)\<rparr>
      in case ConnBrPackCtlMessage (bp_host plat) (bp_print plat) (ae_pack env) (bw_gen w) ctx of
           (ctrlMsgSeq, data, gen) \<Rightarrow>
             let w = w\<lparr>bw_gen := gen\<rparr>
             in if ctrlMsgSeq < 0 then Some (ctrlMsgSeq, w)
                else case ConnBrCreateBrPendingPacket (ae_pendLock env) (ae_pendCalloc env) (ae_pendMutex env) (ae_pendCond env)
                            (bc_connectionId connection) (bc_sequence connection) (bw_pending w) of
                       (status, pending) \<Rightarrow>
                         let w = w\<lparr>bw_pending := pending\<rparr>
                         in if status \<noteq> SOFTBUS_OK then Some (status, w)
                            else case BrTransSend (bp_att plat) (bp_write plat) (bc_mtu connection) (the data) (bw_flow w) (bw_drv w) of
                                   None \<Rightarrow> None
                                 | Some (status, flow, d) \<Rightarrow>
                                     let w = w\<lparr>bw_flow := flow, bw_drv := d\<rparr>
                                     in if status \<noteq> SOFTBUS_OK
                                        then Some (status, w\<lparr>bw_pending := ConnBrDelBrPendingPacket (ae_delLock env)
                                               (bc_connectionId connection) (bc_sequence connection) (bw_pending w)\<rparr>)
                                        else Some (status, w))"

text \<open>The \<open>switch\<close> of \<open>WaitAck\<close>.\<close>

definition ack_update :: "int \<Rightarrow> ConnBrConnection \<Rightarrow> ConnBrConnection" where
  "ack_update ret c =
     (if ret = SOFTBUS_ALREADY_TRIGGERED then
        c\<lparr>bc_ackTimeoutCount := 0, bc_window := if bc_window c < MAX_WINDOW then bc_window c + 1 else MAX_WINDOW\<rparr>
      else if ret = SOFTBUS_OK then c\<lparr>bc_ackTimeoutCount := 0\<rparr>
      else if ret = SOFTBUS_TIMOUT then
        let c = c\<lparr>bc_ackTimeoutCount := s32 (bc_ackTimeoutCount c + 1)\<rparr>;
            c = (if bc_window c > MIN_WINDOW \<and> bc_ackTimeoutCount c smod TIMEOUT_TIMES = 0
                 then c\<lparr>bc_window := bc_window c - 1\<rparr> else c)
        in if bc_window c < DEFAULT_WINDOW \<and> bc_ackTimeoutCount c > ACK_FAILED_TIMES
           then c\<lparr>bc_window := DEFAULT_WINDOW\<rparr> else c
      else c\<lparr>bc_ackTimeoutCount := 0\<rparr>)"

definition WaitAck :: "ack_env \<Rightarrow> nat \<Rightarrow> 'd br_world \<Rightarrow> fault + 'd br_world" where
  "WaitAck env a w =
     (case bo_heap (bw_conns w) a of
        None \<Rightarrow> Inl InvalidPointer
      | Some connection \<Rightarrow>
          if \<not> ae_lock1 env then Inr w
          else case ConnBrGetBrPendingPacket (ae_condWait env) (ae_now env) (ae_getLocks env) (bc_connectionId connection)
                      (bc_waitSequence connection) WAIT_ACK_TIMEOUT_MILLS True (bw_pending w) of
                 Inl f \<Rightarrow> Inl f
               | Inr (ret, ignored, pending) \<Rightarrow>
                   let w = w\<lparr>bw_pending := pending\<rparr>
                   in if \<not> ae_lock2 env then Inr w
                      else Inr (w\<lparr>bw_conns := put_conn a ((ack_update ret connection)\<lparr>bc_waitSequence := 0\<rparr>) (bw_conns w)\<rparr>))"

subsection \<open>The send task\<close>

text \<open>
  The two uses of \<open>g_startBrSendLPInfo\<close> in the loop: after a wait for messages timed out (the boolean says
  whether the task goes on), and after a dequeue returned otherwise.
\<close>

definition task_timeout :: "StartBrSendLPInfo \<Rightarrow> bool \<times> StartBrSendLPInfo" where
  "task_timeout lp =
     (if lp_messagePosted lp then (True, lp\<lparr>lp_messagePosted := False\<rparr>)
      else (False, lp\<lparr>lp_sendTaskRunning := False\<rparr>))"

definition task_dequeued :: "StartBrSendLPInfo \<Rightarrow> StartBrSendLPInfo" where
  "task_dequeued lp = lp\<lparr>lp_messagePosted := False\<rparr>"

definition onPostByteFinshed :: "SendBrQueueNode \<Rightarrow> int \<Rightarrow> 'd br_world \<Rightarrow> 'd br_world" where
  "onPostByteFinshed node status w = w\<lparr>bw_finished := bw_finished w @ [(node, status)]\<rparr>"

definition return_conn :: "(nat \<Rightarrow> bool) \<Rightarrow> nat \<Rightarrow> 'd br_world \<Rightarrow> fault + 'd br_world" where
  "return_conn ok a w = map_sum id (\<lambda>conns. w\<lparr>bw_conns := conns\<rparr>) (ConnBrReturnConnection ok (Some a) (bw_conns w))"

text \<open>The next sequence number, with a request for an acknowledgement when a window is full.\<close>

definition next_sequence :: "'d br_platform \<Rightarrow> ack_env \<Rightarrow> nat \<Rightarrow> 'd br_world \<Rightarrow> (fault + 'd br_world) option" where
  "next_sequence plat env a w =
     (case bo_heap (bw_conns w) a of
        None \<Rightarrow> Some (Inl InvalidPointer)
      | Some connection \<Rightarrow>
          let connection = connection\<lparr>bc_sequence := bc_sequence connection + 1\<rparr>;
              w = w\<lparr>bw_conns := put_conn a connection (bw_conns w)\<rparr>
          in if bc_sequence connection smod bc_window connection = 0 then
               (case SendAck plat env connection w of
                  None \<Rightarrow> None
                | Some (status, w) \<Rightarrow>
                    if status = SOFTBUS_OK
                    then Some (Inr (w\<lparr>bw_conns := put_conn a (connection\<lparr>bc_waitSequence := bc_sequence connection\<rparr>) (bw_conns w)\<rparr>))
                    else Some (Inr w))
             else Some (Inr w))"

definition wait_window :: "ack_env \<Rightarrow> nat \<Rightarrow> 'd br_world \<Rightarrow> fault + 'd br_world" where
  "wait_window env a w =
     (case bo_heap (bw_conns w) a of
        None \<Rightarrow> Inl InvalidPointer
      | Some connection \<Rightarrow>
          let window = bc_window connection; sequence = bc_sequence connection; waitSequence = bc_waitSequence connection
          in if window > 1 \<and> sequence smod window = window - 1 \<and> waitSequence \<noteq> 0 then WaitAck env a w else Inr w)"

definition send_message :: "'d br_platform \<Rightarrow> (nat \<Rightarrow> bool) \<Rightarrow> nat \<Rightarrow> SendBrQueueNode \<Rightarrow> 'd br_world \<Rightarrow> (fault + 'd br_world) option" where
  "send_message plat ok a node w =
     (case bo_heap (bw_conns w) a of
        None \<Rightarrow> Some (Inl InvalidPointer)
      | Some connection \<Rightarrow>
          (case BrTransSend (bp_att plat) (bp_write plat) (bc_mtu connection) (bn_data node) (bw_flow w) (bw_drv w) of
             None \<Rightarrow> None
           | Some (status, flow, d) \<Rightarrow>
               Some (return_conn ok a (onPostByteFinshed node status (w\<lparr>bw_flow := flow, bw_drv := d\<rparr>)))))"

record send_env =
  se_getTime :: int
  se_queueLock :: bool
  se_waits :: "(int \<times> SendBrQueueNode send_queues) list"
  se_lpLock :: bool
  se_get :: "nat \<Rightarrow> bool"
  se_lock :: bool
  se_return :: "nat \<Rightarrow> bool"
  se_ack :: ack_env

text \<open>What the loop does with a message it has dequeued.\<close>

definition SendHandler_node :: "'d br_platform \<Rightarrow> send_env \<Rightarrow> SendBrQueueNode \<Rightarrow> 'd br_world \<Rightarrow> (fault + 'd br_world) option" where
  "SendHandler_node plat env sendNode w =
     (case ConnBrGetConnectionById (se_get env) (bn_connectionId sendNode) (bw_conns w) of
        Inl f \<Rightarrow> Some (Inl f)
      | Inr (None, conns) \<Rightarrow>
          Some (Inr (onPostByteFinshed sendNode SOFTBUS_CONN_BR_CONNECTION_NOT_EXIST_ERR (w\<lparr>bw_conns := conns\<rparr>)))
      | Inr (Some a, conns) \<Rightarrow>
          let w = w\<lparr>bw_conns := conns\<rparr>
          in if \<not> se_lock env then Some (return_conn (se_return env) a (onPostByteFinshed sendNode SOFTBUS_LOCK_ERR w))
             else case bo_heap conns a of
                    None \<Rightarrow> Some (Inl InvalidPointer)
                  | Some connection \<Rightarrow>
                      if bc_socketHandle connection = INVALID_SOCKET_HANDLE
                      then Some (map_sum id (onPostByteFinshed sendNode SOFTBUS_CONN_BR_CONNECTION_INVALID_SOCKET)
                                   (return_conn (se_return env) a w))
                      else case next_sequence plat (se_ack env) a w of
                             None \<Rightarrow> None
                           | Some (Inl f) \<Rightarrow> Some (Inl f)
                           | Some (Inr w) \<Rightarrow>
                               (case wait_window (se_ack env) a w of
                                  Inl f \<Rightarrow> Some (Inl f)
                                | Inr w \<Rightarrow> send_message plat (se_return env) a sendNode w))"

text \<open>
  One pass of the loop.  The boolean says whether the loop goes on.  Where the lock fails with no message in
  hand, \<open>FreeSendNode\<close> reads through a null pointer.
\<close>

definition SendHandler_pass :: "'d br_platform \<Rightarrow> send_env \<Rightarrow> 'd br_world \<Rightarrow> (fault + bool \<times> 'd br_world) option" where
  "SendHandler_pass plat env w =
     (case ConnBrDequeueBlock (se_getTime env) True (se_queueLock env) (se_waits env) (bw_queues w) of
        None \<Rightarrow> None
      | Some (Inl f) \<Rightarrow> Some (Inl f)
      | Some (Inr (status, msg, isFull, queues)) \<Rightarrow>
          let w = w\<lparr>bw_queues := queues\<rparr>; sendNode = (case msg of None \<Rightarrow> None | Some m \<Rightarrow> m)
          in if status = SOFTBUS_TIMOUT \<and> sendNode = None then
               (if \<not> se_lpLock env then Some (Inr (False, w))
                else case task_timeout (bw_lp w) of (goes_on, lp) \<Rightarrow> Some (Inr (goes_on, w\<lparr>bw_lp := lp\<rparr>)))
             else if \<not> se_lpLock env then (if sendNode = None then Some (Inl InvalidPointer) else Some (Inr (False, w)))
             else
               let w = w\<lparr>bw_lp := task_dequeued (bw_lp w)\<rparr>
               in if status \<noteq> SOFTBUS_OK \<or> sendNode = None then Some (Inr (True, w))
                  else map_option (map_sum id (Pair True)) (SendHandler_node plat env (the sendNode) w))"

text \<open>
  The loop over the outcomes of its passes.  The boolean says whether it has ended; it is False when the
  given passes are done and the task goes on.
\<close>

fun SendHandlerLoop :: "'d br_platform \<Rightarrow> send_env list \<Rightarrow> 'd br_world \<Rightarrow> (fault + bool \<times> 'd br_world) option" where
  "SendHandlerLoop plat [] w = Some (Inr (False, w))"
| "SendHandlerLoop plat (env # envs) w =
     (case SendHandler_pass plat env w of
        None \<Rightarrow> None
      | Some (Inl f) \<Rightarrow> Some (Inl f)
      | Some (Inr (goes_on, w)) \<Rightarrow> if goes_on then SendHandlerLoop plat envs w else Some (Inr (True, w)))"

subsection \<open>Acknowledgement messages\<close>

record reply_env =
  re_lock :: bool
  re_pack :: "bool \<times> (nat \<Rightarrow> nat \<Rightarrow> bool) \<times> bool"
  re_post :: post_env

definition ConnBrOnAckRequest ::
  "'d br_platform \<Rightarrow> reply_env \<Rightarrow> nat option \<Rightarrow> json_object \<Rightarrow> 'd br_world \<Rightarrow> (fault + int \<times> 'd br_world) option" where
  "ConnBrOnAckRequest plat env conn json w =
     (case conn of None \<Rightarrow> Some (Inr (SOFTBUS_INVALID_PARAM, w))
      | Some a \<Rightarrow>
        (case GetJsonObjectSignedNumberItem json KEY_WINDOWS of
           Inl f \<Rightarrow> Some (Inl f)
         | Inr None \<Rightarrow> Some (Inr (SOFTBUS_PARSE_JSON_ERR, w))
         | Inr (Some peerWindows) \<Rightarrow>
           (case GetJsonObjectNumber64Item json KEY_ACK_SEQ_NUM of
              Inl f \<Rightarrow> Some (Inl f)
            | Inr None \<Rightarrow> Some (Inr (SOFTBUS_PARSE_JSON_ERR, w))
            | Inr (Some peerSeq) \<Rightarrow>
              (case bo_heap (bw_conns w) a of
                 None \<Rightarrow> Some (Inl InvalidPointer)
               | Some connection \<Rightarrow>
                   if \<not> re_lock env then Some (Inr (SOFTBUS_LOCK_ERR, w))
                   else
                     let ctx = \<lparr>cm_connectionId = bc_connectionId connection, cm_flag = CONN_HIGH,
                           cm_message = AckResponse (bc_window connection) peerSeq\<rparr>
                     in case ConnBrPackCtlMessage (bp_host plat) (bp_print plat) (re_pack env) (bw_gen w) ctx of
                          (seq, data, gen) \<Rightarrow>
                            let w = w\<lparr>bw_gen := gen\<rparr>
                            in if seq < 0 then Some (Inr (seq, w))
                               else ConnBrPostBytes (re_post env) (bc_connectionId connection) data 0 CONN_HIGH MODULE_CONNECTION seq w))))"

definition ConnBrOnAckResponse ::
  "bool \<Rightarrow> bool \<Rightarrow> nat \<Rightarrow> json_object \<Rightarrow> 'd br_world \<Rightarrow> fault + int \<times> 'd br_world" where
  "ConnBrOnAckResponse lock itemLock a json w =
     (case GetJsonObjectSignedNumberItem json KEY_WINDOWS of
        Inl f \<Rightarrow> Inl f
      | Inr None \<Rightarrow> Inr (SOFTBUS_PARSE_JSON_ERR, w)
      | Inr (Some peerWindows) \<Rightarrow>
        (case GetJsonObjectNumber64Item json KEY_ACK_SEQ_NUM of
           Inl f \<Rightarrow> Inl f
         | Inr None \<Rightarrow> Inr (SOFTBUS_PARSE_JSON_ERR, w)
         | Inr (Some seq) \<Rightarrow>
           (case bo_heap (bw_conns w) a of
              None \<Rightarrow> Inl InvalidPointer
            | Some connection \<Rightarrow>
                (case ConnBrSetBrPendingPacket lock itemLock (bc_connectionId connection) seq None (bw_pending w) of
                   (status, pending) \<Rightarrow> Inr (status, w\<lparr>bw_pending := pending\<rparr>)))))"

subsection \<open>Configuration\<close>

definition ConnBrTransConfigPostLimit ::
  "bool \<Rightarrow> LimitConfiguration option \<Rightarrow> ConnSlideWindowController option \<Rightarrow> int \<times> ConnSlideWindowController option" where
  "ConnBrTransConfigPostLimit lock configuration flow =
     (case configuration of None \<Rightarrow> (SOFTBUS_INVALID_PARAM, flow)
      | Some c \<Rightarrow>
        if lc_type c \<noteq> CONNECT_BR then (SOFTBUS_INVALID_PARAM, flow)
        else if \<not> lc_active c then Disable lock flow
        else Enable lock flow (lc_windowInMillis c) (lc_quotaInBytes c))"

text \<open>
  \<open>given i\<close> says that the driver, its \<open>Read\<close>, its \<open>Write\<close>, the listener and its callback are not null.  When the
  last step fails the controller has been freed: \<open>g_flowController\<close> points to nothing, which is None.
\<close>

definition ConnBrTransMuduleInit ::
  "(nat \<Rightarrow> bool) \<Rightarrow> (nat \<Rightarrow> bool) \<Rightarrow> int \<times> int \<times> int \<Rightarrow> bool \<times> bool \<Rightarrow> int \<Rightarrow> 'd br_world \<Rightarrow> int \<times> 'd br_world" where
  "ConnBrTransMuduleInit given al inits flowInit mutexInit w =
     (if \<not> given 0 then (SOFTBUS_INVALID_PARAM, w)
      else if \<not> given 1 then (SOFTBUS_INVALID_PARAM, w)
      else if \<not> given 2 then (SOFTBUS_INVALID_PARAM, w)
      else if \<not> given 3 then (SOFTBUS_INVALID_PARAM, w)
      else if \<not> given 4 then (SOFTBUS_INVALID_PARAM, w)
      else case ConnBrInnerQueueInit al (fst inits) (fst (snd inits)) (snd (snd inits)) (bw_queues w) of
             (status, queues) \<Rightarrow>
               let w = w\<lparr>bw_queues := queues\<rparr>
               in if status \<noteq> SOFTBUS_OK then (status, w)
                  else case ConnSlideWindowControllerNew (fst flowInit) (snd flowInit) of
                         None \<Rightarrow> (SOFTBUS_CONN_BR_INTERNAL_ERR, w\<lparr>bw_queues := ConnBrInnerQueueDeinit (bw_queues w)\<rparr>)
                       | Some controller \<Rightarrow>
                           if mutexInit \<noteq> SOFTBUS_OK
                           then (mutexInit, w\<lparr>bw_flow := None, bw_queues := ConnBrInnerQueueDeinit (bw_queues w)\<rparr>)
                           else (SOFTBUS_OK, w\<lparr>bw_flow := Some controller\<rparr>))"

section \<open>The task protocol\<close>

interpretation brtask: send_task "sq_inv br_key" sq_content br_key br_enq br_deq "post_notify True" task_timeout task_dequeued
  lp_messagePosted lp_sendTaskRunning
  by unfold_locales (auto simp: post_notify_def task_timeout_def task_dequeued_def Let_def split: if_splits)

section \<open>One message\<close>

lemma map_sum_Inr: "map_sum id f r = Inr y \<longleftrightarrow> (\<exists>x. r = Inr x \<and> y = f x)"
  by (cases r) auto

lemma ConnBrReturn_window:
  assumes "ConnBrReturnConnection ok (Some a) s = Inr s'" "bo_heap s' b = Some c'"
  shows "\<exists>c. bo_heap s b = Some c \<and> bc_window c' = bc_window c"
  using assms by (auto simp: ConnBrReturnConnection_def put_conn_def Let_def split: option.splits if_splits)

lemma ConnBrGet_window:
  assumes "ConnBrGetConnectionById ok i s = Inr (r, s')" "bo_heap s' b = Some c'"
  shows "\<exists>c. bo_heap s b = Some c \<and> bc_window c' = bc_window c"
  using assms by (auto simp: ConnBrGetConnectionById_def put_conn_def split: option.splits if_splits sum.splits)

definition windows_ok :: "'d br_world \<Rightarrow> bool" where
  "windows_ok w \<longleftrightarrow> (\<forall>a c. bo_heap (bw_conns w) a = Some c \<longrightarrow> MIN_WINDOW \<le> bc_window c \<and> bc_window c \<le> MAX_WINDOW)"

lemma windows_ok_update [simp]:
  "windows_ok (w\<lparr>bw_queues := q\<rparr>) = windows_ok w" "windows_ok (w\<lparr>bw_lp := l\<rparr>) = windows_ok w"
  "windows_ok (w\<lparr>bw_flow := fl\<rparr>) = windows_ok w" "windows_ok (w\<lparr>bw_drv := d\<rparr>) = windows_ok w"
  "windows_ok (w\<lparr>bw_finished := fin\<rparr>) = windows_ok w"
  by (simp_all add: windows_ok_def)

lemma ack_update_window:
  assumes "MIN_WINDOW \<le> bc_window c" "bc_window c \<le> MAX_WINDOW"
  shows "MIN_WINDOW \<le> bc_window (ack_update ret c) \<and> bc_window (ack_update ret c) \<le> MAX_WINDOW"
  using assms by (auto simp: ack_update_def Let_def)

lemma SendAck_frame:
  assumes "SendAck plat env c w = Some (status, w')"
  shows "bw_conns w' = bw_conns w \<and> bw_queues w' = bw_queues w \<and> bw_finished w' = bw_finished w"
  using assms by (auto simp: SendAck_def Let_def split: prod.splits if_splits option.splits)

lemma next_sequence_frame:
  assumes "next_sequence plat env a w = Some (Inr w')"
  shows "bw_queues w' = bw_queues w \<and> bw_finished w' = bw_finished w \<and> (windows_ok w \<longrightarrow> windows_ok w')"
  using assms
  by (auto simp: next_sequence_def Let_def windows_ok_def put_conn_def dest!: SendAck_frame split: option.splits if_splits prod.splits)

lemma WaitAck_frame:
  assumes "WaitAck env a w = Inr w'"
  shows "bw_queues w' = bw_queues w \<and> bw_finished w' = bw_finished w \<and> (windows_ok w \<longrightarrow> windows_ok w')"
proof -
  have "windows_ok w'" if ok: "windows_ok w"
    unfolding windows_ok_def
  proof (intro allI impI)
    fix b c'
    assume heap: "bo_heap (bw_conns w') b = Some c'"
    obtain c where c: "bo_heap (bw_conns w) a = Some c"
      using assms by (auto simp: WaitAck_def split: option.splits)
    have "bo_heap (bw_conns w) b = Some c' \<or> (\<exists>ret. bc_window c' = bc_window (ack_update ret c))"
      using assms heap c by (auto simp: WaitAck_def Let_def put_conn_def split: if_splits sum.splits) blast
    then show "MIN_WINDOW \<le> bc_window c' \<and> bc_window c' \<le> MAX_WINDOW"
      using ok c ack_update_window [of c] unfolding windows_ok_def by metis
  qed
  moreover have "bw_queues w' = bw_queues w \<and> bw_finished w' = bw_finished w"
    using assms by (auto simp: WaitAck_def Let_def split: option.splits if_splits sum.splits)
  ultimately show ?thesis by blast
qed

lemma wait_window_frame:
  assumes "wait_window env a w = Inr w'"
  shows "bw_queues w' = bw_queues w \<and> bw_finished w' = bw_finished w \<and> (windows_ok w \<longrightarrow> windows_ok w')"
  using assms by (auto simp: wait_window_def Let_def dest: WaitAck_frame split: option.splits if_splits)

lemma return_conn_frame:
  assumes "return_conn ok a w = Inr w'"
  shows "bw_queues w' = bw_queues w \<and> bw_finished w' = bw_finished w \<and> bw_drv w' = bw_drv w \<and> (windows_ok w \<longrightarrow> windows_ok w')"
proof -
  obtain conns where "ConnBrReturnConnection ok (Some a) (bw_conns w) = Inr conns" and w': "w' = w\<lparr>bw_conns := conns\<rparr>"
    using assms by (auto simp: return_conn_def map_sum_Inr)
  then show ?thesis using ConnBrReturn_window by (fastforce simp: windows_ok_def)
qed

lemma finished_frame:
  "bw_queues (onPostByteFinshed n st w) = bw_queues w" "bw_finished (onPostByteFinshed n st w) = bw_finished w @ [(n, st)]"
  "bw_drv (onPostByteFinshed n st w) = bw_drv w" "windows_ok (onPostByteFinshed n st w) = windows_ok w"
  by (simp_all add: onPostByteFinshed_def windows_ok_def)

lemma send_message_frame:
  assumes "send_message plat ok a node w = Some (Inr w')"
  shows "bw_queues w' = bw_queues w \<and> (windows_ok w \<longrightarrow> windows_ok w') \<and> (\<exists>status. bw_finished w' = bw_finished w @ [(node, status)])"
proof -
  obtain status flow d where "return_conn ok a (onPostByteFinshed node status (w\<lparr>bw_flow := flow, bw_drv := d\<rparr>)) = Inr w'"
    using assms by (auto simp: send_message_def split: option.splits prod.splits)
  from return_conn_frame [OF this] show ?thesis by (simp add: finished_frame)
qed

lemma SendHandler_node_frame:
  assumes "SendHandler_node plat env node w = Some (Inr w')"
  shows "bw_queues w' = bw_queues w \<and> (windows_ok w \<longrightarrow> windows_ok w') \<and> (\<exists>status. bw_finished w' = bw_finished w @ [(node, status)])"
proof -
  obtain r conns where get: "ConnBrGetConnectionById (se_get env) (bn_connectionId node) (bw_conns w) = Inr (r, conns)"
    using assms by (auto simp: SendHandler_node_def split: sum.splits)
  let ?w = "w\<lparr>bw_conns := conns\<rparr>"
  have ok: "windows_ok w \<longrightarrow> windows_ok ?w" using ConnBrGet_window [OF get] by (fastforce simp: windows_ok_def)
  show ?thesis
  proof (cases r)
    case None
    with assms get ok show ?thesis by (auto simp: SendHandler_node_def finished_frame)
  next
    case (Some a)
    consider (lock) "return_conn (se_return env) a (onPostByteFinshed node SOFTBUS_LOCK_ERR ?w) = Inr w'"
      | (socket) w1 where "return_conn (se_return env) a ?w = Inr w1" "w' = onPostByteFinshed node SOFTBUS_CONN_BR_CONNECTION_INVALID_SOCKET w1"
      | (send) w1 w2 where "next_sequence plat (se_ack env) a ?w = Some (Inr w1)" "wait_window (se_ack env) a w1 = Inr w2"
          "send_message plat (se_return env) a node w2 = Some (Inr w')"
      using assms get Some
      by (auto simp: SendHandler_node_def Let_def map_sum_Inr split: if_splits option.splits sum.splits)
    then show ?thesis
    proof cases
      case lock
      from return_conn_frame [OF this] ok show ?thesis by (auto simp: finished_frame)
    next
      case socket
      from return_conn_frame [OF socket(1)] socket(2) ok show ?thesis by (auto simp: finished_frame)
    next
      case send
      from next_sequence_frame [OF send(1)] wait_window_frame [OF send(2)] send_message_frame [OF send(3)] ok
      show ?thesis by auto
    qed
  qed
qed

lemma SendHandler_pass_windows:
  assumes "windows_ok w" "SendHandler_pass plat env w = Some (Inr (goes_on, w'))"
  shows "windows_ok w'"
proof -
  obtain status msg isFull q where deq: "ConnBrDequeueBlock (se_getTime env) True (se_queueLock env) (se_waits env) (bw_queues w) = Some (Inr (status, msg, isFull, q))"
    using assms(2) by (auto simp: SendHandler_pass_def split: option.splits sum.splits)
  consider (kept) l where "w' = w\<lparr>bw_queues := q\<rparr> \<or> w' = w\<lparr>bw_queues := q, bw_lp := l\<rparr>"
    | (sent) x where "SendHandler_node plat env x (w\<lparr>bw_queues := q, bw_lp := task_dequeued (bw_lp w)\<rparr>) = Some (Inr w')"
    using assms(2) deq by (auto simp: SendHandler_pass_def Let_def map_sum_Inr split: if_splits prod.splits)
  then show ?thesis
  proof cases
    case sent
    from SendHandler_node_frame [OF sent] assms(1) show ?thesis by simp
  qed (use assms(1) in auto)
qed

text \<open>
  The wait of a dequeue during which nobody changes the queues: each wake-up finds them as the pass before the wait left them.
\<close>

definition dequeue_left :: "'a send_queues \<Rightarrow> 'a send_queues" where
  "dequeue_left s = (case BrDequeue_pass False s of Inr (_, _, _, s') \<Rightarrow> s' | Inl _ \<Rightarrow> s)"

lemma dequeue_left_empty:
  assumes inv: "sq_inv keyof s" and none: "\<forall>k. sq_content s k = []"
  shows "sq_inv keyof (dequeue_left s) \<and> sq_content (dequeue_left s) = sq_content s"
  using inv
proof (cases rule: BrDequeue_pass_cases [where f = False])
  case (item x rest s')
  then show ?thesis using none by simp
next
  case (empty msg)
  then show ?thesis using sq_inv_clear [OF inv none] by (simp add: dequeue_left_def)
qed

lemma dequeue_left_left:
  assumes inv: "sq_inv keyof s" and none: "\<forall>k. sq_content s k = []"
  shows "dequeue_left (dequeue_left s) = dequeue_left s"
proof -
  have left: "dequeue_left t = t\<lparr>sq_list := []\<rparr>" if "sq_inv keyof t" "\<forall>k. sq_content t k = []" for t
    using that(1) by (cases rule: BrDequeue_pass_cases [where f = False]) (use that(2) in \<open>auto simp: dequeue_left_def\<close>)
  show ?thesis using left [OF inv none] left [of "dequeue_left s"] dequeue_left_empty [OF inv none] none by simp
qed

lemma dequeue_waits:
  assumes inv: "sq_inv keyof s" and none: "\<forall>k. sq_content s k = []"
    and res: "ConnBrDequeue_loop (map (\<lambda>r. (r, dequeue_left s)) rs) f s = Some (Inr (status, msg, isFull, s'))"
  shows "status \<noteq> SOFTBUS_OK \<and> msg = None \<and> s' = dequeue_left s"
  using inv none res
proof (induction rs arbitrary: f s)
  case Nil
  from Nil.prems(1) show ?case by (cases rule: ConnBrDequeue_loop_cases [where waits = "[]" and f = f]) (use Nil.prems in auto)
next
  case (Cons r rs)
  let ?waits = "map (\<lambda>r. (r, dequeue_left s)) (r # rs)"
  from Cons.prems(1) show ?case
  proof (cases rule: ConnBrDequeue_loop_cases [where waits = ?waits and f = f])
    case (item x rest s1)
    then show ?thesis using Cons.prems(2) by simp
  next
    case empty
    then show ?thesis
      using Cons.prems(3) Cons.IH [of "dequeue_left s" False] dequeue_left_empty [OF Cons.prems(1,2)] dequeue_left_left [OF Cons.prems(1,2)] Cons.prems(2)
      by (auto split: if_splits)
  qed
qed

text \<open>A pass of the task takes a message and reports it, or finds none and leaves all messages where they are.\<close>

lemma SendHandler_pass_frame:
  assumes inv: "sq_inv br_key (bw_queues w)" and env: "se_lpLock env" "se_waits env = map (\<lambda>r. (r, dequeue_left (bw_queues w))) rs"
    and res: "SendHandler_pass plat env w = Some (Inr (goes_on, w'))"
  obtains (sent) x rest status where "sq_inv br_key (bw_queues w')" "sq_content (bw_queues w) (br_key x) = x # rest"
    "sq_content (bw_queues w') = (sq_content (bw_queues w))(br_key x := rest)" "bw_finished w' = bw_finished w @ [(x, status)]"
  | (idle) "sq_inv br_key (bw_queues w')" "sq_content (bw_queues w') = sq_content (bw_queues w)" "bw_finished w' = bw_finished w"
proof (cases "se_getTime env = SOFTBUS_OK \<and> se_queueLock env")
  case False
  then have "bw_queues w' = bw_queues w" "bw_finished w' = bw_finished w"
    using res env(1) by (auto simp: SendHandler_pass_def ConnBrDequeueBlock_def Let_def split: if_splits)
  then show thesis using inv by (intro idle) simp_all
next
  case True
  note idle' = idle
  from inv show thesis
  proof (cases rule: ConnBrDequeue_loop_cases [where waits = "se_waits env" and f = False])
    case (item x rest q)
    let ?w = "w\<lparr>bw_queues := q, bw_lp := task_dequeued (bw_lp w)\<rparr>"
    have node: "SendHandler_node plat env x ?w = Some (Inr w')"
      using res item(1) env True by (auto simp: SendHandler_pass_def ConnBrDequeueBlock_def Let_def map_sum_Inr)
    from SendHandler_node_frame [OF node] obtain status where
      "bw_queues w' = q" "bw_finished w' = bw_finished w @ [(x, status)]" by auto
    with item show thesis by (intro sent [of x rest status]) auto
  next
    case empty
    obtain status msg isFull q where deq: "ConnBrDequeue_loop (se_waits env) False (bw_queues w) = Some (Inr (status, msg, isFull, q))"
      using res True by (auto simp: SendHandler_pass_def ConnBrDequeueBlock_def split: option.splits sum.splits)
    note q = dequeue_waits [OF inv empty(1) deq [unfolded env(2)]]
    then have "bw_queues w' = dequeue_left (bw_queues w)" "bw_finished w' = bw_finished w"
      using res deq True env(1) by (auto simp: SendHandler_pass_def ConnBrDequeueBlock_def Let_def split: if_splits prod.splits)
    then show thesis using dequeue_left_empty [OF inv empty(1)] by (intro idle') simp_all
  qed
qed

text \<open>
  What is written for a message.  The printer's results are shorter than 2 GiB, the largest text cJSON prints.
\<close>

definition short_print :: "(json_object \<Rightarrow> bytes option) \<Rightarrow> bool" where
  "short_print print \<longleftrightarrow> (\<forall>json body. print json = Some body \<longrightarrow> length body < 2147483647)"

lemma packed_length:
  assumes "short_print print" "ConnBrPackCtlMessage e print env gen ctx = (ret, Some pkt, gen')"
  shows "length pkt < 4294967296"
proof (rule PackCtl_cases [OF assms(2)])
  fix body
  assume ser: "SerializeByJson print (fst env) (fst (snd env)) ctx = (SOFTBUS_OK, Some (body @ [0]))"
    and pkt: "length body < 2147483648 \<Longrightarrow> pkt = make_frame e \<lparr>h_magic = MAGIC_NUMBER, h_module = 11, h_seq = word_of_int gen,
      h_flag = word_of_int (cm_flag ctx), h_len = word_of_nat (Suc (length body))\<rparr> (body @ [0]) \<and> length body < MAX_MALLOC_SIZE"
  have "length body < 2147483647"
    using ser assms(1) by (auto simp: SerializeByJson_def short_print_def split: if_splits option.splits)
  with pkt show ?thesis by (auto simp: make_frame_def pkt.length_image)
qed

lemma packed_some:
  assumes "ConnBrPackCtlMessage e print env gen ctx = (ret, data, gen')" "\<not> ret < 0"
  obtains pkt where "data = Some pkt"
  using assms by (auto simp: ConnBrPackCtlMessage_def SerializeByJson_def Let_def split: if_splits option.splits)

text \<open>The bytes of the request for an acknowledgement, if it can be packed.\<close>

definition ack_request :: "'d br_platform \<Rightarrow> ack_env \<Rightarrow> int \<Rightarrow> ConnBrConnection \<Rightarrow> bytes" where
  "ack_request plat env gen c =
     (case ConnBrPackCtlMessage (bp_host plat) (bp_print plat) (ae_pack env) gen
             \<lparr>cm_connectionId = bc_connectionId c, cm_flag = CONN_HIGH, cm_message = NotifyAck (bc_window c) (bc_sequence c)\<rparr> of
        (ctrlMsgSeq, data, _) \<Rightarrow> if ctrlMsgSeq < 0 then [] else the data)"

lemma SendAck_written:
  assumes "stream_writer (bp_write plat) out" "\<forall>d. out (snd (bp_att plat d)) = out d" "short_print (bp_print plat)"
    and "SendAck plat env c w = Some (status, w')"
  shows "\<exists>ack. out (bw_drv w') = out (bw_drv w) @ ack \<and> prefix ack (ack_request plat env (bw_gen w) c)"
proof -
  obtain ret data gen where pack: "ConnBrPackCtlMessage (bp_host plat) (bp_print plat) (ae_pack env) (bw_gen w)
      \<lparr>cm_connectionId = bc_connectionId c, cm_flag = CONN_HIGH, cm_message = NotifyAck (bc_window c) (bc_sequence c)\<rparr> = (ret, data, gen)"
    by (metis prod_cases3)
  consider "bw_drv w' = bw_drv w"
    | status flow where "\<not> ret < 0"
      "BrTransSend (bp_att plat) (bp_write plat) (bc_mtu c) (the data) (bw_flow w) (bw_drv w) = Some (status, flow, bw_drv w')"
    using assms(4) pack by (auto simp: SendAck_def Let_def split: prod.splits if_splits option.splits)
  then show ?thesis
  proof cases
    case 2
    obtain pkt where pkt: "data = Some pkt" by (rule packed_some [OF pack 2(1)])
    from BrTransSend_loop_written [OF 2(2) [unfolded BrTransSend_def pkt option.sel] assms(1,2) refl packed_length [OF assms(3) pack [unfolded pkt]]]
    show ?thesis using pack 2(1) pkt by (auto simp: wrote_def ack_request_def)
  qed simp
qed

text \<open>What one message may put on the stream before its own bytes: the request, when the sequence number completes a window.\<close>

definition ack_due :: "'d br_platform \<Rightarrow> ack_env \<Rightarrow> int \<Rightarrow> ConnBrConnection \<Rightarrow> bytes" where
  "ack_due plat env gen c =
     (if (bc_sequence c + 1) smod bc_window c = 0 then ack_request plat env gen (c\<lparr>bc_sequence := bc_sequence c + 1\<rparr>) else [])"

lemma ack_due_rc [simp]: "ack_due plat env gen (c\<lparr>bc_objectRc := r\<rparr>) = ack_due plat env gen c"
  by (simp add: ack_due_def ack_request_def cong: if_cong)

lemma next_sequence_written:
  assumes "stream_writer (bp_write plat) out" "\<forall>d. out (snd (bp_att plat d)) = out d" "short_print (bp_print plat)"
    and "next_sequence plat env a w = Some (Inr w')"
  shows "\<exists>c ack. bo_heap (bw_conns w) a = Some c \<and> out (bw_drv w') = out (bw_drv w) @ ack \<and> prefix ack (ack_due plat env (bw_gen w) c)"
proof -
  obtain c where c: "bo_heap (bw_conns w) a = Some c" using assms(4) by (auto simp: next_sequence_def split: option.splits)
  let ?c = "c\<lparr>bc_sequence := bc_sequence c + 1\<rparr>" and ?w = "w\<lparr>bw_conns := put_conn a (c\<lparr>bc_sequence := bc_sequence c + 1\<rparr>) (bw_conns w)\<rparr>"
  show ?thesis
  proof (cases "(bc_sequence c + 1) smod bc_window c = 0")
    case True
    then obtain status w1 where ack: "SendAck plat env ?c ?w = Some (status, w1)" and "bw_drv w' = bw_drv w1"
      using assms(4) c by (auto simp: next_sequence_def Let_def split: option.splits if_splits)
    with SendAck_written [OF assms(1-3) ack] show ?thesis using c True by (auto simp: ack_due_def)
  next
    case False
    then show ?thesis using assms(4) c by (auto simp: next_sequence_def Let_def ack_due_def)
  qed
qed

lemma walk_Some: "walk P h l = Inr (Some a) \<Longrightarrow> \<exists>c. h a = Some c \<and> P c"
  by (induction l) (auto split: option.splits if_splits)

lemma ConnBrGet_found:
  assumes "ConnBrGetConnectionById ok i s = Inr (Some a, s')"
  shows "\<exists>c. bo_heap s a = Some c \<and> bc_connectionId c = i \<and> bo_heap s' a = Some (c\<lparr>bc_objectRc := s32 (bc_objectRc c + 1)\<rparr>)"
  using assms by (auto simp: ConnBrGetConnectionById_def put_conn_def dest!: walk_Some split: option.splits if_splits sum.splits)

lemma SendHandler_node_written:
  assumes wr: "stream_writer (bp_write plat) out" "\<forall>d. out (snd (bp_att plat d)) = out d" "short_print (bp_print plat)"
    and len: "length (bn_data node) < 4294967296"
    and res: "SendHandler_node plat env node w = Some (Inr w')" "bw_finished w' = bw_finished w @ [(node, SOFTBUS_OK)]"
  shows "\<exists>a c ack. bo_heap (bw_conns w) a = Some c \<and> bc_connectionId c = bn_connectionId node \<and>
    prefix ack (ack_due plat (se_ack env) (bw_gen w) c) \<and> out (bw_drv w') = out (bw_drv w) @ ack @ bn_data node"
proof -
  obtain r conns where get: "ConnBrGetConnectionById (se_get env) (bn_connectionId node) (bw_conns w) = Inr (r, conns)"
    using res by (auto simp: SendHandler_node_def split: sum.splits)
  let ?w = "w\<lparr>bw_conns := conns\<rparr>"
  have fail: False if "bw_finished w' = bw_finished w @ [(node, st)]" "st \<noteq> SOFTBUS_OK" for st using that res(2) by simp
  obtain a w1 w2 where steps: "r = Some a" "next_sequence plat (se_ack env) a ?w = Some (Inr w1)" "wait_window (se_ack env) a w1 = Inr w2"
      "send_message plat (se_return env) a node w2 = Some (Inr w')"
    using res(1) get fail
    by (auto simp: SendHandler_node_def Let_def map_sum_Inr finished_frame dest!: return_conn_frame split: if_splits option.splits sum.splits)
  obtain c where c: "bo_heap (bw_conns w) a = Some c" "bc_connectionId c = bn_connectionId node"
      "bo_heap conns a = Some (c\<lparr>bc_objectRc := s32 (bc_objectRc c + 1)\<rparr>)"
    using ConnBrGet_found [OF get [unfolded steps(1)]] by blast
  obtain ack where ack: "out (bw_drv w1) = out (bw_drv w) @ ack" "prefix ack (ack_due plat (se_ack env) (bw_gen w) c)"
    using next_sequence_written [OF wr steps(2)] c(3) by auto
  have "bw_drv w2 = bw_drv w1"
    using steps(3) by (auto simp: wait_window_def WaitAck_def Let_def split: option.splits if_splits sum.splits)
  moreover have "out (bw_drv w') = out (bw_drv w2) @ bn_data node"
  proof -
    obtain mtu status flow d where send: "BrTransSend (bp_att plat) (bp_write plat) mtu (bn_data node) (bw_flow w2) (bw_drv w2) = Some (status, flow, d)"
      and ret: "return_conn (se_return env) a (onPostByteFinshed node status (w2\<lparr>bw_flow := flow, bw_drv := d\<rparr>)) = Inr w'"
      using steps(4) by (auto simp: send_message_def split: option.splits prod.splits)
    have "status = SOFTBUS_OK" "bw_drv w' = d"
      using return_conn_frame [OF ret] res(2) next_sequence_frame [OF steps(2)] wait_window_frame [OF steps(3)] by (auto simp: finished_frame)
    with BrTransSend_loop_written [OF send [unfolded BrTransSend_def] wr(1,2) refl len] show ?thesis by (auto simp: wrote_def)
  qed
  ultimately show ?thesis using c(1,2) ack by auto
qed

section \<open>Callers and task together\<close>

definition posted_node :: "nat \<Rightarrow> bytes \<Rightarrow> int \<Rightarrow> int \<Rightarrow> int \<Rightarrow> int \<Rightarrow> SendBrQueueNode" where
  "posted_node i bs pid flag m seq =
     \<lparr>bn_connectionId = i, bn_pid = pid, bn_flag = flag, bn_isInner = (pid = 0), bn_module = m, bn_seq = seq, bn_data = bs\<rparr>"

text \<open>A post stores the message and may then fail to notify the task, or it fails without storing.\<close>

lemma ConnBrPostBytes_frame:
  assumes inv: "sq_inv br_key (bw_queues w)" and env: "pe_waits env = []"
    and res: "ConnBrPostBytes env i (Some bs) pid flag m seq w = Some (Inr (st, w'))"
  defines "x \<equiv> posted_node i bs pid flag m seq"
  obtains (stored) "sq_inv br_key (bw_queues w')" "bw_finished w' = bw_finished w"
      "sq_content (bw_queues w') = (sq_content (bw_queues w))(br_key x := sq_content (bw_queues w) (br_key x) @ [x])"
      "pe_lpLock env \<and> pe_started env = SOFTBUS_OK \<longrightarrow> st = SOFTBUS_OK"
  | (failed) "st \<noteq> SOFTBUS_OK" "sq_inv br_key (bw_queues w')" "bw_finished w' = bw_finished w" "sq_content (bw_queues w') = sq_content (bw_queues w)"
proof -
  consider (refused) "st \<noteq> SOFTBUS_OK" "bw_queues w' = bw_queues w" "bw_finished w' = bw_finished w"
    | (queued) ret sig q where "ConnBrEnqueueNonBlock (pe_queue env) (pe_queueLock env) [] (Some x) (bw_queues w) = Some (Inr (ret, sig, q))"
        "bw_queues w' = q" "bw_finished w' = bw_finished w" "ret \<noteq> SOFTBUS_OK \<longrightarrow> st = ret"
        "ret = SOFTBUS_OK \<longrightarrow> pe_lpLock env \<and> pe_started env = SOFTBUS_OK \<longrightarrow> st = SOFTBUS_OK"
    using res env
    by (auto simp: ConnBrPostBytes_def post_notify_def Let_def x_def posted_node_def split: if_splits sum.splits prod.splits option.splits)
  then show thesis
  proof cases
    case refused
    then show thesis using inv by (intro failed) simp_all
  next
    case queued
    show thesis
    proof (cases "pe_queueLock env")
      case False
      then show thesis using queued inv by (intro failed) (auto simp: ConnBrEnqueueNonBlock_def Let_def)
    next
      case True
      note stored' = stored and failed' = failed
      from inv show thesis
      proof (cases rule: ConnBrEnqueue_cases [where al = "pe_queue env" and waits = "[]" and x = x])
        case (stored s')
        then show thesis using queued True by (intro stored') auto
      next
        case failed
        then show thesis using queued True inv by (intro failed') auto
      next
        case (waits deref put post)
        then show thesis using queued True by (simp add: enqueue_waiting_def WaitQueueLength_ring [OF waits(2)])
      qed
    qed
  qed
qed

text \<open>
  Callers and the send task: a call of \<open>ConnBrPostBytes\<close>; a pass of the task, whose dequeue waits as often as there are results of its wait; and
  a dequeue of the task that has found nothing and waits while others run.
\<close>

datatype br_action = Posts post_env nat bytes int int int int | Passes send_env "int list" | Waits

text \<open>
  A run, one call or pass after the other; with it the messages for which \<open>ConnBrPostBytes\<close> returned success.
\<close>

fun br_run :: "'d br_platform \<Rightarrow> br_action list \<Rightarrow> 'd br_world \<Rightarrow> (fault + SendBrQueueNode list \<times> 'd br_world) option" where
  "br_run plat [] w = Some (Inr ([], w))"
| "br_run plat (Posts env i bs pid flag m seq # acts) w =
     (case ConnBrPostBytes (env\<lparr>pe_waits := []\<rparr>) i (Some bs) pid flag m seq w of
        None \<Rightarrow> None
      | Some (Inl f) \<Rightarrow> Some (Inl f)
      | Some (Inr (status, w)) \<Rightarrow>
          map_option (map_sum id (apfst (append (if status = SOFTBUS_OK then [posted_node i bs pid flag m seq] else [])))) (br_run plat acts w))"
| "br_run plat (Passes env rs # acts) w =
     (case SendHandler_pass plat (env\<lparr>se_waits := map (\<lambda>r. (r, dequeue_left (bw_queues w))) rs\<rparr>) w of
        None \<Rightarrow> None
      | Some (Inl f) \<Rightarrow> Some (Inl f)
      | Some (Inr (goes_on, w)) \<Rightarrow> br_run plat acts w)"
| "br_run plat (Waits # acts) w =
     (case BrDequeue_pass False (bw_queues w) of
        Inl f \<Rightarrow> Some (Inl f)
      | Inr (found, _, _, queues) \<Rightarrow> if found then None else br_run plat acts (w\<lparr>bw_queues := queues\<rparr>))"

text \<open>The task gets the lock of its status; a post tells the task.\<close>

definition pass_locked :: "br_action \<Rightarrow> bool" where
  "pass_locked act = (case act of Passes env rs \<Rightarrow> se_lpLock env | _ \<Rightarrow> True)"

definition post_told :: "br_action \<Rightarrow> bool" where
  "post_told act = (case act of Posts env i bs pid flag m seq \<Rightarrow> pe_lpLock env \<and> pe_started env = SOFTBUS_OK | _ \<Rightarrow> True)"

fun posted :: "br_action list \<Rightarrow> SendBrQueueNode list" where
  "posted [] = []"
| "posted (Posts env i bs pid flag m seq # acts) = posted_node i bs pid flag m seq # posted acts"
| "posted (Passes env rs # acts) = posted acts"
| "posted (Waits # acts) = posted acts"

definition of_key :: "send_key \<Rightarrow> SendBrQueueNode list \<Rightarrow> SendBrQueueNode list" where
  "of_key k = filter (\<lambda>x. br_key x = k)"

lemma of_key_simps [simp]:
  "of_key k [] = []" "of_key k (x # xs) = (if br_key x = k then x # of_key k xs else of_key k xs)" "of_key k (xs @ ys) = of_key k xs @ of_key k ys"
  by (simp_all add: of_key_def)

text \<open>
  The messages that a run stores: those accepted and, among those posted, the ones whose posting failed after they were stored.
\<close>

definition run_stores :: "br_action list \<Rightarrow> SendBrQueueNode list \<Rightarrow> SendBrQueueNode list \<Rightarrow> bool" where
  "run_stores acts accepted kept \<longleftrightarrow>
     subseq accepted kept \<and> subseq kept (posted acts) \<and> (list_all post_told acts \<longrightarrow> kept = accepted)"

definition balanced :: "'d br_world \<Rightarrow> SendBrQueueNode list \<Rightarrow> 'd br_world \<Rightarrow> bool" where
  "balanced w kept w' \<longleftrightarrow> (\<forall>k. of_key k (map fst (bw_finished w)) @ sq_content (bw_queues w) k @ of_key k kept =
     of_key k (map fst (bw_finished w')) @ sq_content (bw_queues w') k)"

lemma balanced_step:
  assumes "\<And>k. of_key k (map fst (bw_finished w)) @ sq_content (bw_queues w) k @ of_key k xs =
    of_key k (map fst (bw_finished w1)) @ sq_content (bw_queues w1) k" "balanced w1 kept w'"
  shows "balanced w (xs @ kept) w'"
  unfolding balanced_def
proof
  fix k
  have "of_key k (map fst (bw_finished w)) @ sq_content (bw_queues w) k @ of_key k (xs @ kept) =
      (of_key k (map fst (bw_finished w)) @ sq_content (bw_queues w) k @ of_key k xs) @ of_key k kept" by simp
  also have "\<dots> = of_key k (map fst (bw_finished w')) @ sq_content (bw_queues w') k"
    using assms(1) [of k] assms(2) [unfolded balanced_def, rule_format, of k] by simp
  finally show "of_key k (map fst (bw_finished w)) @ sq_content (bw_queues w) k @ of_key k (xs @ kept) =
      of_key k (map fst (bw_finished w')) @ sq_content (bw_queues w') k" .
qed

lemma br_run_balance:
  assumes "sq_inv br_key (bw_queues w)" "list_all pass_locked acts" "br_run plat acts w = Some (Inr (accepted, w'))"
  shows "\<exists>kept. run_stores acts accepted kept \<and> balanced w kept w'"
  using assms
proof (induction acts arbitrary: w accepted)
  case Nil
  then show ?case by (intro exI [of _ "[]"]) (simp add: run_stores_def balanced_def)
next
  case (Cons act acts)
  have locked: "list_all pass_locked acts" using Cons.prems(2) by simp
  show ?case
  proof (cases act)
    case (Posts env i bs pid flag m seq)
    let ?x = "posted_node i bs pid flag m seq" and ?env = "env\<lparr>pe_waits := []\<rparr>"
    obtain status w1 where post: "ConnBrPostBytes ?env i (Some bs) pid flag m seq w = Some (Inr (status, w1))"
      using Cons.prems(3) Posts by (auto split: option.splits sum.splits)
    then obtain acc where run: "br_run plat acts w1 = Some (Inr (acc, w'))" and acc: "accepted = (if status = SOFTBUS_OK then [?x] else []) @ acc"
      using Cons.prems(3) Posts by (auto simp: map_sum_Inr)
    have "pe_waits ?env = []" by simp
    from Cons.prems(1) this post show ?thesis
    proof (cases rule: ConnBrPostBytes_frame)
      case stored
      obtain st where st: "run_stores acts acc st" "balanced w1 st w'" using Cons.IH [OF stored(1) locked run] by blast
      have "balanced w ([?x] @ st) w'" by (rule balanced_step [OF _ st(2)]) (simp add: stored)
      moreover have "run_stores (act # acts) accepted (?x # st)"
        using st(1) stored(4) acc Posts by (auto simp: run_stores_def post_told_def)
      ultimately show ?thesis by auto
    next
      case failed
      obtain st where st: "run_stores acts acc st" "balanced w1 st w'" using Cons.IH [OF failed(2) locked run] by blast
      have "balanced w ([] @ st) w'" by (rule balanced_step [OF _ st(2)]) (simp add: failed)
      moreover have "run_stores (act # acts) accepted st" using st(1) failed(1) acc Posts by (auto simp: run_stores_def)
      ultimately show ?thesis by auto
    qed
  next
    case (Passes env rs)
    let ?env = "env\<lparr>se_waits := map (\<lambda>r. (r, dequeue_left (bw_queues w))) rs\<rparr>"
    obtain goes_on w1 where pass: "SendHandler_pass plat ?env w = Some (Inr (goes_on, w1))" and run: "br_run plat acts w1 = Some (Inr (accepted, w'))"
      using Cons.prems(3) Passes by (auto split: option.splits sum.splits)
    have stores: "run_stores (act # acts) accepted st" if "run_stores acts accepted st" for st
      using that Passes by (simp add: run_stores_def post_told_def)
    have "se_lpLock ?env" "se_waits ?env = map (\<lambda>r. (r, dequeue_left (bw_queues w))) rs"
      using Cons.prems(2) Passes by (simp_all add: pass_locked_def)
    from Cons.prems(1) this pass show ?thesis
    proof (cases rule: SendHandler_pass_frame)
      case (sent x rest status)
      obtain st where st: "run_stores acts accepted st" "balanced w1 st w'" using Cons.IH [OF sent(1) locked run] by blast
      have "balanced w ([] @ st) w'" by (rule balanced_step [OF _ st(2)]) (auto simp: sent)
      then show ?thesis using stores st(1) by auto
    next
      case idle
      obtain st where st: "run_stores acts accepted st" "balanced w1 st w'" using Cons.IH [OF idle(1) locked run] by blast
      have "balanced w ([] @ st) w'" by (rule balanced_step [OF _ st(2)]) (simp add: idle)
      then show ?thesis using stores st(1) by auto
    qed
  next
    case Waits
    from Cons.prems(1) show ?thesis
    proof (cases rule: BrDequeue_pass_cases [where f = False])
      case (item x rest s')
      then show ?thesis using Cons.prems(3) Waits by simp
    next
      case (empty msg)
      let ?w = "w\<lparr>bw_queues := (bw_queues w)\<lparr>sq_list := []\<rparr>\<rparr>"
      note clear = sq_inv_clear [OF Cons.prems(1) empty(1)]
      have "br_run plat acts ?w = Some (Inr (accepted, w'))" using Cons.prems(3) Waits empty(2) by simp
      from Cons.IH [OF _ locked this] clear(1) obtain st where st: "run_stores acts accepted st" "balanced ?w st w'" by auto
      have "balanced w ([] @ st) w'" by (rule balanced_step [OF _ st(2)]) (simp add: clear(2))
      then show ?thesis using st(1) Waits by (auto simp: run_stores_def post_told_def)
    qed
  qed
qed

section \<open>An example\<close>

definition ex_conn :: ConnBrConnection where
  "ex_conn = \<lparr>bc_connectionId = 131073, bc_side = CONN_SIDE_CLIENT, bc_addr = ''11:22:33:44:55:66'', bc_mtu = 4, bc_retryCount = 0,
     bc_socketHandle = 7, bc_state = BR_CONNECTION_STATE_CONNECTED, bc_connectionRc = 1, bc_objectRc = 1, bc_isOccupied = False,
     bc_window = DEFAULT_WINDOW, bc_sequence = 0, bc_waitSequence = 0, bc_ackTimeoutCount = 0, bc_connectProcessStatus = []\<rparr>"

definition ex_blank :: "bytes br_world" where
  "ex_blank = \<lparr>bw_conns = \<lparr>bo_heap = (\<lambda>a. if a = 0 then Some ex_conn else None), bo_list = [0], bo_next = 1, bo_nextId = 1\<rparr>,
     bw_queues = \<lparr>sq_list = [], sq_inner = None, sq_next = 0\<rparr>, bw_pending = \<lparr>bp_list = [], bp_next = 0\<rparr>,
     bw_lp = \<lparr>lp_messagePosted = False, lp_sendTaskRunning = False\<rparr>, bw_flow = None, bw_gen = 0, bw_finished = [], bw_drv = []\<rparr>"

definition ex_world :: "bytes br_world" where
  "ex_world = ex_blank\<lparr>bw_queues := br_example, bw_flow := Some \<lparr>active = False, windowInMillis = - 1, quotaInBytes = - 1, histories = []\<rparr>\<rparr>"

definition ex_plat :: "bytes br_platform" where
  "ex_plat = \<lparr>bp_host = Little, bp_print = (\<lambda>_. None), bp_att = Pair [\<lparr>lockOk = True, clock = 0, callocOk = True\<rparr>], bp_write = slow_write\<rparr>"

definition ex_post :: post_env where
  "ex_post = \<lparr>pe_get = (\<lambda>_. True), pe_lock = True, pe_return = (\<lambda>_. True), pe_calloc = True, pe_queue = (\<lambda>_. True), pe_queueLock = True,
     pe_waits = [], pe_lpLock = True, pe_started = 0\<rparr>"

definition ex_pass :: send_env where
  "ex_pass = \<lparr>se_getTime = 0, se_queueLock = True, se_waits = [], se_lpLock = True, se_get = (\<lambda>_. True), se_lock = True, se_return = (\<lambda>_. True),
     se_ack = \<lparr>ae_pack = (True, \<lambda>_ _. True, True), ae_pendLock = True, ae_pendCalloc = True, ae_pendMutex = 0, ae_pendCond = 0, ae_delLock = True,
       ae_lock1 = True, ae_getLocks = (\<lambda>_. True), ae_now = (0, 0), ae_condWait = (\<lambda>_ s. s), ae_lock2 = True\<rparr>\<rparr>"

definition ex_node :: SendBrQueueNode where
  "ex_node = \<lparr>bn_connectionId = 131073, bn_pid = 9, bn_flag = CONN_HIGH, bn_isInner = False, bn_module = 3, bn_seq = 1, bn_data = [1, 2, 3, 4, 5]\<rparr>"

lemmas ex_defs = ex_conn_def ex_blank_def ex_world_def ex_plat_def ex_post_def ex_pass_def

lemma ex_init: "ConnBrTransMuduleInit (\<lambda>_. True) (\<lambda>_. True) (0, 0, 0) (True, True) 0 ex_blank = (SOFTBUS_OK, ex_world)"
  using br_example_init
  by (simp add: ConnBrTransMuduleInit_def ex_defs ConnSlideWindowControllerNew_def ConnSlideWindowControllerConstructor_def)

lemma ex_posted:
  "\<exists>q. ConnBrPostBytes ex_post 131073 (Some [1, 2, 3, 4, 5]) 9 CONN_HIGH 3 1 ex_world =
      Some (Inr (SOFTBUS_OK, ex_world\<lparr>bw_queues := q, bw_lp := \<lparr>lp_messagePosted = True, lp_sendTaskRunning = True\<rparr>\<rparr>)) \<and>
     sq_inv br_key q \<and> sq_content q = (\<lambda>k. if k = (Some 9, 0) then [ex_node] else [])"
proof -
  have key: "br_key ex_node = (Some 9, 0)" by (simp add: br_key_def ex_node_def GetPriority_def)
  have post: "ConnBrPostBytes ex_post 131073 (Some [1, 2, 3, 4, 5]) 9 CONN_HIGH 3 1 ex_world =
      Some (Inr (SOFTBUS_OK, ex_world\<lparr>bw_queues := q, bw_lp := \<lparr>lp_messagePosted = True, lp_sendTaskRunning = True\<rparr>\<rparr>))"
    if "ConnBrEnqueueNonBlock (\<lambda>_. True) True [] (Some ex_node) br_example = Some (Inr (SOFTBUS_OK, sig, q))" for sig q
    using that
    by (simp add: ConnBrPostBytes_def ex_defs ConnBrGetConnectionById_def ConnBrReturnConnection_def put_conn_def post_notify_def ex_node_def fun_eq_iff)
  from br_example_inv(1) show ?thesis
  proof (cases rule: ConnBrEnqueue_cases [where al = "\<lambda>_. True" and waits = "[]" and x = ex_node])
    case (stored q)
    then show ?thesis using key by (intro exI [of _ q]) (auto simp: post fun_eq_iff br_example_inv)
  next
    case (waits deref put post)
    then show ?thesis by (simp add: br_example_inv)
  qed simp
qed

lemma ex_sent: "BrTransSend (bp_att ex_plat) (bp_write ex_plat) 4 [1, 2, 3, 4, 5] (bw_flow ex_world) [] = Some (SOFTBUS_OK, bw_flow ex_world, [1, 2, 3, 4, 5])"
  unfolding BrTransSend_def ex_defs
  by (subst BrTransSend_loop.simps, simp add: ApplyOnce_def slow_write_def, subst BrTransSend_loop.simps, simp add: ApplyOnce_def slow_write_def,
      subst BrTransSend_loop.simps, simp)

lemma ex_node_sent:
  "\<exists>w'. SendHandler_node ex_plat ex_pass ex_node (ex_world\<lparr>bw_queues := q, bw_lp := l\<rparr>) = Some (Inr w') \<and>
     bw_finished w' = [(ex_node, SOFTBUS_OK)] \<and> bw_drv w' = [1, 2, 3, 4, 5] \<and> bw_queues w' = q"
  using ex_sent
  by (simp add: SendHandler_node_def ConnBrGetConnectionById_def ConnBrReturnConnection_def put_conn_def next_sequence_def wait_window_def
      send_message_def return_conn_def onPostByteFinshed_def signed_modulo_int_def ex_node_def ex_pass_def ex_world_def ex_blank_def ex_conn_def)

lemma ex_posted_sent:
  obtains w' where "br_run ex_plat [Posts ex_post 131073 [1, 2, 3, 4, 5] 9 CONN_HIGH 3 1, Passes ex_pass []] ex_world = Some (Inr ([ex_node], w'))"
    "bw_finished w' = [(ex_node, SOFTBUS_OK)]"
proof -
  let ?lp = "\<lambda>b. \<lparr>lp_messagePosted = b, lp_sendTaskRunning = True\<rparr>"
  obtain q where post: "ConnBrPostBytes ex_post 131073 (Some [1, 2, 3, 4, 5]) 9 CONN_HIGH 3 1 ex_world =
      Some (Inr (SOFTBUS_OK, ex_world\<lparr>bw_queues := q, bw_lp := ?lp True\<rparr>))"
    and q: "sq_inv br_key q" "sq_content q = (\<lambda>k. if k = (Some 9, 0) then [ex_node] else [])"
    using ex_posted by blast
  from q(1) obtain w' where "SendHandler_pass ex_plat ex_pass (ex_world\<lparr>bw_queues := q, bw_lp := ?lp True\<rparr>) = Some (Inr (True, w'))"
    "bw_finished w' = [(ex_node, SOFTBUS_OK)]"
  proof (cases rule: ConnBrDequeue_loop_cases [where waits = "[]" and f = False])
    case (item x rest q')
    then have "x = ex_node" by (simp add: q(2) split: if_splits)
    then show thesis
      using that item(1) ex_node_sent [where q = q' and l = "?lp False"]
      by (auto simp: SendHandler_pass_def ConnBrDequeueBlock_def ex_pass_def task_dequeued_def)
  next
    case empty
    then have "sq_content q (Some 9, 0) = []" by blast
    then show thesis by (simp add: q(2))
  qed
  moreover have "ex_post\<lparr>pe_waits := []\<rparr> = ex_post" "ex_pass\<lparr>se_waits := []\<rparr> = ex_pass" by (simp_all add: ex_post_def ex_pass_def)
  ultimately show thesis using post that by (auto simp: posted_node_def ex_node_def)
qed

section \<open>Properties\<close>

text \<open>
  C7: Every accepted message is reported exactly once and in order.  After the module is initialised, take a run of \<open>ConnBrPostBytes\<close> calls and
  passes of the send task that ends without a fault, in which no caller waits for room in a full queue and each pass gets the lock of the task's
  status after its dequeue; the dequeue may wait, with any results, and callers may post meanwhile.  Then the messages stored for a client and
  priority are those reported to the listener, in the same order, followed by those still queued.  The messages stored are posted messages, in order,
  and include all those whose posting succeeded; when every post gets the lock of the status and starts the task where it is needed,
  they are exactly those.  This holds whatever happens to the connections and whatever the driver and the acknowledgements do.
\<close>

theorem br_posted_reported:
  assumes "ConnBrTransMuduleInit given al inits flowInit mutexInit w0 = (SOFTBUS_OK, w)"
    and "bw_queues w0 = \<lparr>sq_list = [], sq_inner = None, sq_next = 0\<rparr>" "bw_finished w0 = []"
    and "list_all pass_locked acts" "br_run plat acts w = Some (Inr (accepted, w'))"
  shows "\<exists>kept. subseq accepted kept \<and> subseq kept (posted acts) \<and> (list_all post_told acts \<longrightarrow> kept = accepted) \<and>
    (\<forall>k. of_key k kept = of_key k (map fst (bw_finished w')) @ sq_content (bw_queues w') k)"
proof -
  have fin: "bw_finished w = []" and init: "ConnBrInnerQueueInit al (fst inits) (fst (snd inits)) (snd (snd inits)) (bw_queues w0) = (SOFTBUS_OK, bw_queues w)"
    using assms(1,3) by (auto simp: ConnBrTransMuduleInit_def Let_def split: if_splits prod.splits option.splits)
  then have "sq_inv br_key (bw_queues w)" "\<And>k. sq_content (bw_queues w) k = []"
    using init_inv [OF init [unfolded assms(2)]] by simp_all
  with br_run_balance [OF _ assms(4,5)] fin show ?thesis by (auto simp: run_stores_def balanced_def)
qed

theorem br_posted_reported_witness:
  "\<exists>w'. br_run ex_plat [Waits, Posts ex_post 131073 [1, 2, 3, 4, 5] 9 CONN_HIGH 3 1, Passes ex_pass []] ex_world = Some (Inr ([ex_node], w')) \<and>
     of_key (Some 9, 0) [ex_node] = of_key (Some 9, 0) (map fst (bw_finished w')) @ sq_content (bw_queues w') (Some 9, 0)"
proof -
  let ?acts = "[Waits, Posts ex_post 131073 [1, 2, 3, 4, 5] 9 CONN_HIGH 3 1, Passes ex_pass []]"
  have calm: "list_all pass_locked ?acts" "list_all post_told ?acts" by (simp_all add: pass_locked_def post_told_def ex_post_def ex_pass_def)
  have blank: "bw_queues ex_blank = \<lparr>sq_list = [], sq_inner = None, sq_next = 0\<rparr>" "bw_finished ex_blank = []"
    by (simp_all add: ex_blank_def)
  have waits: "br_run ex_plat ?acts ex_world = br_run ex_plat (tl ?acts) ex_world"
  proof -
    have "sq_list br_example = []" by code_simp
    then have same: "ex_world\<lparr>bw_queues := br_example\<lparr>sq_list := []\<rparr>\<rparr> = ex_world" by (simp add: ex_world_def)
    have q: "bw_queues ex_world = br_example" by (simp add: ex_world_def)
    from br_example_inv(1) show ?thesis
    proof (cases rule: BrDequeue_pass_cases [where f = False])
      case (empty msg)
      then show ?thesis by (simp add: q same del: br_run.simps(2))
    qed (simp add: br_example_inv)
  qed
  obtain w' where run: "br_run ex_plat ?acts ex_world = Some (Inr ([ex_node], w'))" by (rule ex_posted_sent) (use waits in auto)
  with br_posted_reported [OF ex_init blank calm(1) run] calm(2) show ?thesis by auto
qed

text \<open>
  C8: No message is stranded.  However callers and the send task interleave, when a message is stored, no
  caller is between storing and notifying, and the last attempt to start the task did not fail, the task runs
  and will look into the queue again before it stops.
\<close>

theorem br_task_never_stranded:
  assumes "task_start (sq_inv br_key) sq_content lp_sendTaskRunning s"
    and "(task_step br_enq br_deq (post_notify True) task_timeout task_dequeued lp_sendTaskRunning)\<^sup>*\<^sup>* s t"
    and "sq_content (ts_queue t) k \<noteq> []" "ts_posting t = 0" "\<not> ts_startFailed t"
  shows "lp_sendTaskRunning (ts_info t) \<and> (will_scan (ts_place t) \<or> lp_messagePosted (ts_info t))"
  using brtask.never_stranded [OF assms] by blast

theorem br_task_never_stranded_witness:
  "\<exists>t. (task_step br_enq br_deq (post_notify True) task_timeout task_dequeued lp_sendTaskRunning)\<^sup>*\<^sup>*
      \<lparr>ts_queue = br_example, ts_info = \<lparr>lp_messagePosted = False, lp_sendTaskRunning = False\<rparr>, ts_posting = 0, ts_place = Stopped, ts_startFailed = False\<rparr> t \<and>
    sq_content (ts_queue t) (Some 9, 0) \<noteq> [] \<and> lp_sendTaskRunning (ts_info t) \<and> (will_scan (ts_place t) \<or> lp_messagePosted (ts_info t))"
proof -
  let ?off = "\<lparr>lp_messagePosted = False, lp_sendTaskRunning = False\<rparr>"
  let ?step = "task_step br_enq br_deq (post_notify True) task_timeout task_dequeued lp_sendTaskRunning"
  define q where "q = snd (br_enq (\<lambda>_. True, 0) br_example (br_message 1))"
  define s :: "(SendBrQueueNode send_queues, StartBrSendLPInfo, SendBrQueueNode) task_state"
    where "s = \<lparr>ts_queue = br_example, ts_info = ?off, ts_posting = 0, ts_place = Stopped, ts_startFailed = False\<rparr>"
  define t where "t = s\<lparr>ts_queue := q, ts_info := \<lparr>lp_messagePosted = True, lp_sendTaskRunning = True\<rparr>, ts_place := Scans\<rparr>"
  have "fst (br_enq (\<lambda>_. True, 0) br_example (br_message 1))" by code_simp
  then have "br_enq (\<lambda>_. True, 0) (ts_queue s) (br_message 1) = (True, q)" by (simp add: q_def s_def prod_eq_iff)
  from task_step.store [of br_enq "(\<lambda>_. True, 0)" s "br_message 1" q, OF this] have "?step s (s\<lparr>ts_queue := q, ts_posting := 1\<rparr>)" by (simp add: s_def)
  moreover have "?step (s\<lparr>ts_queue := q, ts_posting := 1\<rparr>) t"
    using task_step.notify [of "s\<lparr>ts_queue := q, ts_posting := 1\<rparr>" 0 "post_notify True" SOFTBUS_OK SOFTBUS_OK
        "\<lparr>lp_messagePosted = True, lp_sendTaskRunning = True\<rparr>" br_enq br_deq task_timeout task_dequeued lp_sendTaskRunning]
    by (simp add: s_def t_def post_notify_def)
  ultimately have "?step\<^sup>*\<^sup>* s t" by simp
  moreover have "task_start (sq_inv br_key) sq_content lp_sendTaskRunning s"
    using br_example_inv by (simp add: task_start_def s_def)
  moreover have "sq_content q (Some 9, 0) \<noteq> []" unfolding q_def by code_simp
  then have "sq_content (ts_queue t) (Some 9, 0) \<noteq> []" by (simp add: t_def)
  ultimately show ?thesis
    using br_task_never_stranded [of s t "(Some 9, 0)"] by (intro exI [of _ t]) (simp add: s_def t_def)
qed

text \<open>
  C16: The acknowledgement window stays between 10 and 80.  Whatever acknowledgements arrive, fail or time out,
  passes of the send task keep the window of every connection within these bounds, so the remainder by the
  window is defined.
\<close>

theorem br_window_bounds:
  assumes "\<forall>a c. bo_heap (bw_conns w) a = Some c \<longrightarrow> 10 \<le> bc_window c \<and> bc_window c \<le> 80"
    and "SendHandlerLoop plat envs w = Some (Inr (ended, w'))" "bo_heap (bw_conns w') a = Some c"
  shows "10 \<le> bc_window c \<and> bc_window c \<le> 80"
proof -
  have "windows_ok w'" if "windows_ok w" using that assms(2)
  proof (induction envs arbitrary: w)
    case (Cons env envs)
    obtain goes_on w1 where pass: "SendHandler_pass plat env w = Some (Inr (goes_on, w1))"
      using Cons.prems(2) by (auto split: option.splits sum.splits)
    with Cons.IH [of w1] Cons.prems(2) SendHandler_pass_windows [OF Cons.prems(1) pass] show ?case by (auto split: if_splits)
  qed simp
  then show ?thesis using assms(1,3) by (simp add: windows_ok_def)
qed

theorem br_window_bounds_witness:
  "SendHandlerLoop ex_plat [ex_pass\<lparr>se_queueLock := False\<rparr>] ex_world = Some (Inr (False, ex_world)) \<and>
   10 \<le> bc_window ex_conn \<and> bc_window ex_conn \<le> 80"
proof -
  have run: "SendHandlerLoop ex_plat [ex_pass\<lparr>se_queueLock := False\<rparr>] ex_world = Some (Inr (False, ex_world))"
    by (simp add: SendHandler_pass_def ConnBrDequeueBlock_def ex_pass_def ex_world_def ex_blank_def task_dequeued_def)
  have "bo_heap (bw_conns ex_world) 0 = Some ex_conn" by (simp add: ex_world_def ex_blank_def)
  with br_window_bounds [OF _ run this] run show ?thesis by (simp add: ex_world_def ex_blank_def ex_conn_def)
qed

text \<open>
  C9: What a success report means.  When the task reports \<open>SOFTBUS_OK\<close> for a message, a connection with the message's identifier exists and
  the bytes put on the stream while the message is handled are the whole message, once, and nothing else, except that it may be preceded by
  the request for an acknowledgement, or by a first part of it, when the connection's sequence number completes a window.
  The driver appends what it says it wrote, the waits of the flow controller write nothing, the message is shorter than 4 GiB and a JSON text shorter than 2 GiB.
\<close>

theorem br_reported_written:
  assumes "stream_writer (bp_write plat) out" "\<forall>d. out (snd (bp_att plat d)) = out d" "short_print (bp_print plat)"
    and "length (bn_data node) < 4294967296"
    and "SendHandler_node plat env node w = Some (Inr w')" "bw_finished w' = bw_finished w @ [(node, SOFTBUS_OK)]"
  shows "\<exists>a c ack. bo_heap (bw_conns w) a = Some c \<and> bc_connectionId c = bn_connectionId node \<and>
    prefix ack (if (bc_sequence c + 1) smod bc_window c = 0
                then ack_request plat (se_ack env) (bw_gen w) (c\<lparr>bc_sequence := bc_sequence c + 1\<rparr>) else []) \<and>
    out (bw_drv w') = out (bw_drv w) @ ack @ bn_data node"
  using SendHandler_node_written [OF assms] unfolding ack_due_def .

theorem br_reported_written_witness:
  "\<exists>w'. SendHandler_node ex_plat ex_pass ex_node ex_world = Some (Inr w') \<and> id (bw_drv w') = id (bw_drv ex_world) @ [1, 2, 3, 4, 5]"
proof -
  obtain w' where w': "SendHandler_node ex_plat ex_pass ex_node ex_world = Some (Inr w')" "bw_finished w' = [(ex_node, SOFTBUS_OK)]"
    using ex_node_sent [where q = "bw_queues ex_world" and l = "bw_lp ex_world"] by auto
  have fin: "bw_finished w' = bw_finished ex_world @ [(ex_node, SOFTBUS_OK)]" using w'(2) by (simp add: ex_world_def ex_blank_def)
  have plat: "stream_writer (bp_write ex_plat) id" "\<forall>d. id (snd (bp_att ex_plat d)) = id d" "short_print (bp_print ex_plat)"
    using slow_write_ok(1) by (simp_all add: ex_plat_def short_print_def)
  have "length (bn_data ex_node) < 4294967296" by (simp add: ex_node_def)
  from br_reported_written [OF plat this w'(1) fin] obtain a c ack where c: "bo_heap (bw_conns ex_world) a = Some c"
      "prefix ack (if (bc_sequence c + 1) smod bc_window c = 0
         then ack_request ex_plat (se_ack ex_pass) (bw_gen ex_world) (c\<lparr>bc_sequence := bc_sequence c + 1\<rparr>) else [])"
      "id (bw_drv w') = id (bw_drv ex_world) @ ack @ bn_data ex_node" by blast
  then have "c = ex_conn" by (simp add: ex_world_def ex_blank_def split: if_splits)
  then have "ack = []" using c(2) by (simp add: ex_conn_def signed_modulo_int_def)
  then show ?thesis using w'(1) c(3) by (auto simp: ex_node_def)
qed

end
