(* ===== verification/Looper.thy ===== *)
theory Looper
  imports Adapter_Mem Conn_Common
begin

text \<open>
  The message loop of \<open>core/common/message_handler/message_handler.c\<close>: a looper holds a list of messages ordered by
  the time they are due, threads post and remove messages, and one task takes the first message when it is due and
  calls its handler.  The second half models the table of loopers, their creation and destruction, and the two
  functions of \<open>softbus_conn_common.c\<close> through which the connection modules post and remove messages.

  A message's handler is the number of the handler object, \<open>None\<close> being NULL; its object is of a type the modules
  choose.  The time is in microseconds and does not wrap, as the source computes it in signed 64-bit arithmetic.
  The outcome of locks and allocations and the clock are arguments.
\<close>

section \<open>Messages and loopers\<close>

record 'o SoftBusMessage =
  sm_what :: int
  sm_arg1 :: nat
  sm_arg2 :: nat
  sm_time :: int
  sm_obj :: "'o option"
  sm_handler :: "nat option"

record 'o SoftBusLooperContext =
  lc_stop :: bool
  lc_running :: bool
  lc_currentMsg :: "'o SoftBusMessage option"
  lc_msgSize :: nat
  lc_msgHead :: "'o SoftBusMessage list"

record 'o SoftBusLooper =
  lp_context :: "'o SoftBusLooperContext option"
  lp_dumpable :: bool

abbreviation TIME_THOUSANDS_MULTIPLIER :: int where "TIME_THOUSANDS_MULTIPLIER \<equiv> 1000"
abbreviation LOOP_NAME_LEN :: nat where "LOOP_NAME_LEN \<equiv> 16"
abbreviation MAX_LOOPER_CNT :: nat where "MAX_LOOPER_CNT \<equiv> 30"

definition UptimeMicros :: "int \<times> int \<Rightarrow> int" where
  "UptimeMicros t = (case t of (sec, usec) \<Rightarrow> sec * TIME_THOUSANDS_MULTIPLIER * TIME_THOUSANDS_MULTIPLIER + usec)"

definition MallocMessage :: "bool \<Rightarrow> 'o SoftBusMessage option" where
  "MallocMessage callocOk =
     (if callocOk then Some \<lparr>sm_what = 0, sm_arg1 = 0, sm_arg2 = 0, sm_time = 0, sm_obj = None, sm_handler = None\<rparr> else None)"

section \<open>Posting\<close>

definition PostMessageAtTimeParamVerify :: "bool \<Rightarrow> 'o SoftBusLooper option \<Rightarrow> 'o SoftBusMessage option \<Rightarrow> int" where
  "PostMessageAtTimeParamVerify lockOk looper msgPost =
     (if (case msgPost of None \<Rightarrow> True | Some m \<Rightarrow> sm_handler m = None) then SOFTBUS_INVALID_PARAM
      else if (case looper of None \<Rightarrow> True | Some l \<Rightarrow> lp_context l = None) then SOFTBUS_INVALID_PARAM
      else if \<not> lockOk then SOFTBUS_LOCK_ERR
      else SOFTBUS_OK)"

text \<open>The new node goes before the first message that is due later, else to the end.\<close>

fun insert_message :: "'o SoftBusMessage \<Rightarrow> 'o SoftBusMessage list \<Rightarrow> 'o SoftBusMessage list" where
  "insert_message msgPost [] = [msgPost]"
| "insert_message msgPost (msg # rest) =
     (if sm_time msg > sm_time msgPost then msgPost # msg # rest else msg # insert_message msgPost rest)"

text \<open>
  The outcomes \<open>ok 0\<close> and \<open>ok 2\<close> are of the two locks, \<open>ok 1\<close> of the allocation of the node.  A message that cannot
  be inserted is freed; freeing reads it, which is a fault if it is NULL.
\<close>

definition PostMessageAtTime ::
  "(nat \<Rightarrow> bool) \<Rightarrow> 'o SoftBusLooper option \<Rightarrow> 'o SoftBusMessage option \<Rightarrow> fault + 'o SoftBusLooper option" where
  "PostMessageAtTime ok looper msgPost =
     (if PostMessageAtTimeParamVerify (ok 0) looper msgPost \<noteq> SOFTBUS_OK
      then (if msgPost = None then Inl InvalidPointer else Inr looper)
      else case (looper, msgPost) of
        (Some l, Some msg) \<Rightarrow>
          (case lp_context l of
             None \<Rightarrow> Inl InvalidPointer
           | Some context \<Rightarrow>
               if \<not> ok 1 then Inr looper
               else if \<not> ok 2 then Inr looper
               else if lc_stop context then Inr looper
               else Inr (Some (l\<lparr>lp_context := Some (context\<lparr>lc_msgHead := insert_message msg (lc_msgHead context),
                                                          lc_msgSize := u32 (lc_msgSize context + 1)\<rparr>)\<rparr>)))
      | _ \<Rightarrow> Inl InvalidPointer)"

definition LooperPostMessage ::
  "(nat \<Rightarrow> bool) \<Rightarrow> int \<times> int \<Rightarrow> 'o SoftBusLooper option \<Rightarrow> 'o SoftBusMessage option \<Rightarrow> fault + 'o SoftBusLooper option" where
  "LooperPostMessage ok now looper msg =
     (case msg of None \<Rightarrow> Inr looper
      | Some m \<Rightarrow>
          if looper = None then Inr looper
          else PostMessageAtTime ok looper (Some (m\<lparr>sm_time := UptimeMicros now\<rparr>)))"

text \<open>
  The delay is read as an \<open>int64_t\<close>; the sum and the product are those of \<open>int64_t\<close>, with the wrap-around written out.
\<close>

definition s64 :: "int \<Rightarrow> int" where
  "s64 n = (n + 9223372036854775808) mod 18446744073709551616 - 9223372036854775808"

lemma s64_small [simp]: "- 9223372036854775808 \<le> n \<Longrightarrow> n < 9223372036854775808 \<Longrightarrow> s64 n = n"
  by (simp add: s64_def)

definition due_time :: "int \<times> int \<Rightarrow> nat \<Rightarrow> int" where
  "due_time now delayMillis = s64 (UptimeMicros now + s64 (s64 (int delayMillis) * TIME_THOUSANDS_MULTIPLIER))"

text \<open>Within 290000 years the time a message is due is what it says.\<close>

lemma due_time_exact:
  assumes "0 \<le> UptimeMicros now" "UptimeMicros now + int delayMillis * 1000 < 9223372036854775808"
  shows "due_time now delayMillis = UptimeMicros now + int delayMillis * 1000"
proof -
  have "s64 (int delayMillis) = int delayMillis" "s64 (int delayMillis * 1000) = int delayMillis * 1000" using assms by simp_all
  with assms show ?thesis by (simp add: due_time_def)
qed

definition LooperPostMessageDelay ::
  "(nat \<Rightarrow> bool) \<Rightarrow> int \<times> int \<Rightarrow> 'o SoftBusLooper option \<Rightarrow> 'o SoftBusMessage option \<Rightarrow> nat \<Rightarrow> fault + 'o SoftBusLooper option" where
  "LooperPostMessageDelay ok now looper msg delayMillis =
     (case msg of None \<Rightarrow> Inr looper
      | Some m \<Rightarrow>
          if looper = None then Inr looper
          else PostMessageAtTime ok looper (Some (m\<lparr>sm_time := due_time now delayMillis\<rparr>)))"

section \<open>Removing\<close>

definition WhatRemoveFunc :: "'o SoftBusMessage \<Rightarrow> int \<Rightarrow> int" where
  "WhatRemoveFunc msg args = (if sm_what msg = args then 0 else 1)"

text \<open>The loop over the messages frees those that match and counts them off the size.\<close>

fun remove_loop ::
  "('o SoftBusMessage \<Rightarrow> bool) \<Rightarrow> 'o SoftBusMessage list \<Rightarrow> nat \<Rightarrow> 'o SoftBusMessage list \<times> nat" where
  "remove_loop match [] msgSize = ([], msgSize)"
| "remove_loop match (msg # rest) msgSize =
     (if match msg then remove_loop match rest (u32_sub msgSize 1)
      else case remove_loop match rest msgSize of (kept, n) \<Rightarrow> (msg # kept, n))"

definition LoopRemoveMessageCustom ::
  "bool \<Rightarrow> 'o SoftBusLooper option \<Rightarrow> nat option \<Rightarrow> ('o SoftBusMessage \<Rightarrow> 'c \<Rightarrow> int) \<Rightarrow> 'c \<Rightarrow>
   fault + 'o SoftBusLooper option" where
  "LoopRemoveMessageCustom lockOk looper hdl customFunc args =
     (case looper of None \<Rightarrow> Inl InvalidPointer
      | Some l \<Rightarrow>
        case lp_context l of None \<Rightarrow> Inl InvalidPointer
        | Some context \<Rightarrow>
          if \<not> lockOk then Inr looper
          else if \<not> lc_running context \<or> lc_stop context then Inr looper
          else case remove_loop (\<lambda>msg. sm_handler msg = hdl \<and> customFunc msg args = 0) (lc_msgHead context) (lc_msgSize context) of
                 (kept, n) \<Rightarrow> Inr (Some (l\<lparr>lp_context := Some (context\<lparr>lc_msgHead := kept, lc_msgSize := n\<rparr>)\<rparr>)))"

definition LooperRemoveMessage :: "bool \<Rightarrow> 'o SoftBusLooper option \<Rightarrow> nat option \<Rightarrow> int \<Rightarrow> fault + 'o SoftBusLooper option" where
  "LooperRemoveMessage lockOk looper hdl whatArg = LoopRemoveMessageCustom lockOk looper hdl WhatRemoveFunc whatArg"

definition SetLooperDumpable :: "bool \<Rightarrow> 'o SoftBusLooper option \<Rightarrow> bool \<Rightarrow> 'o SoftBusLooper option" where
  "SetLooperDumpable lockOk looper dumpable =
     (case looper of None \<Rightarrow> None
      | Some l \<Rightarrow> if lp_context l = None \<or> \<not> lockOk then looper else Some (l\<lparr>lp_dumpable := dumpable\<rparr>))"

section \<open>The task\<close>

text \<open>
  One pass of the loop of \<open>LoopTask\<close>, up to the call of the handler: the task leaves the loop, waits (for a signal, or
  until the given time at the latest), or has a message to handle.
\<close>

datatype 'o loop_pass = LoopReturns | LoopBreaks | LoopWaits "(int \<times> int) option" | LoopHandles "'o SoftBusMessage"

definition LoopTask_pass ::
  "bool \<Rightarrow> bool \<Rightarrow> int \<times> int \<Rightarrow> 'o SoftBusLooperContext \<Rightarrow> 'o loop_pass \<times> 'o SoftBusLooperContext" where
  "LoopTask_pass lockOk isNeedDestroy now context =
     (if \<not> lockOk then (LoopReturns, context)
      else if lc_stop context then (LoopBreaks, context)
      else if isNeedDestroy then (LoopBreaks, context)
      else case lc_msgHead context of
             [] \<Rightarrow> (LoopWaits None, context)
           | msg # rest \<Rightarrow>
               if UptimeMicros now \<ge> sm_time msg
               then (LoopHandles msg, context\<lparr>lc_msgHead := rest, lc_msgSize := u32_sub (lc_msgSize context) 1, lc_currentMsg := Some msg\<rparr>)
               else (LoopWaits (Some (sm_time msg div TIME_THOUSANDS_MULTIPLIER div TIME_THOUSANDS_MULTIPLIER,
                                      sm_time msg mod (TIME_THOUSANDS_MULTIPLIER * TIME_THOUSANDS_MULTIPLIER))), context))"

text \<open>After the handler the message is freed and no message is current.\<close>

definition LoopTask_handled :: "'o SoftBusLooperContext \<Rightarrow> 'o SoftBusLooperContext" where
  "LoopTask_handled context = context\<lparr>lc_currentMsg := None\<rparr>"

section \<open>The table of loopers\<close>

text \<open>
  Loopers live on a heap; \<open>g_loopConfig\<close> names the looper of each type.  A looper that has been freed is not on the
  heap, and using it is a fault.
\<close>

record 'o looper_world =
  lw_heap :: "nat \<Rightarrow> 'o SoftBusLooper option"
  lw_addr :: nat
  lw_looperCnt :: nat
  lw_loopConfig :: "(int \<times> nat option) list"
  lw_isNeedDestroy :: bool
  lw_isThreadStarted :: bool

abbreviation LOOP_TYPE_DEFAULT :: int where "LOOP_TYPE_DEFAULT \<equiv> 1"
abbreviation LOOP_TYPE_CONN :: int where "LOOP_TYPE_CONN \<equiv> 2"
abbreviation LOOP_TYPE_LNN :: int where "LOOP_TYPE_LNN \<equiv> 3"
abbreviation LOOP_TYPE_DISC :: int where "LOOP_TYPE_DISC \<equiv> 4"

definition g_loopConfig :: "(int \<times> nat option) list" where
  "g_loopConfig = [(LOOP_TYPE_DEFAULT, None), (LOOP_TYPE_CONN, None), (LOOP_TYPE_LNN, None), (LOOP_TYPE_DISC, None)]"

definition looper_boot :: "'o looper_world" where
  "looper_boot = \<lparr>lw_heap = (\<lambda>_. None), lw_addr = 0, lw_looperCnt = 0, lw_loopConfig = g_loopConfig,
                  lw_isNeedDestroy = False, lw_isThreadStarted = False\<rparr>"

text \<open>A fresh context: the allocation zeroes it, so the task does not count as running until it has started.\<close>

definition new_context :: "'o SoftBusLooperContext" where
  "new_context = \<lparr>lc_stop = False, lc_running = False, lc_currentMsg = None, lc_msgSize = 0, lc_msgHead = []\<rparr>"

text \<open>The outcomes \<open>ok 0\<close> and \<open>ok 1\<close> are of the allocations, \<open>ok 2\<close> of the creation of the thread.\<close>

definition CreateNewLooper :: "(nat \<Rightarrow> bool) \<Rightarrow> string \<Rightarrow> 'o looper_world \<Rightarrow> nat option \<times> 'o looper_world" where
  "CreateNewLooper ok name w =
     (if lw_looperCnt w \<ge> MAX_LOOPER_CNT then (None, w)
      else if \<not> ok 0 then (None, w)
      else if \<not> ok 1 then (None, w)
      else if length name > LOOP_NAME_LEN then (None, w)
      else if \<not> ok 2 then (None, w)
      else (Some (lw_addr w),
            w\<lparr>lw_heap := (lw_heap w)(lw_addr w := Some \<lparr>lp_context = Some new_context, lp_dumpable = True\<rparr>),
              lw_addr := Suc (lw_addr w), lw_looperCnt := u32 (lw_looperCnt w + 1)\<rparr>))"

definition GetLooper :: "int \<Rightarrow> 'o looper_world \<Rightarrow> nat option" where
  "GetLooper type w = (case find (\<lambda>(t, _). t = type) (lw_loopConfig w) of None \<Rightarrow> None | Some (_, l) \<Rightarrow> l)"

definition SetLooper :: "int \<Rightarrow> nat option \<Rightarrow> 'o looper_world \<Rightarrow> 'o looper_world" where
  "SetLooper type looper w = w\<lparr>lw_loopConfig := map (\<lambda>(t, l). (t, if t = type then looper else l)) (lw_loopConfig w)\<rparr>"

fun release_loop :: "nat \<Rightarrow> (int \<times> nat option) list \<Rightarrow> (int \<times> nat option) list" where
  "release_loop looper [] = []"
| "release_loop looper ((t, l) # rest) = (if l = Some looper then (t, None) # rest else (t, l) # release_loop looper rest)"

definition ReleaseLooper :: "nat \<Rightarrow> 'o looper_world \<Rightarrow> 'o looper_world" where
  "ReleaseLooper looper w = w\<lparr>lw_loopConfig := release_loop looper (lw_loopConfig w)\<rparr>"

text \<open>The task announces that it runs; it reads the looper and its context.\<close>

definition LoopTask_enter :: "bool \<Rightarrow> nat \<Rightarrow> 'o looper_world \<Rightarrow> fault + 'o looper_world" where
  "LoopTask_enter lockOk looper w =
     (case lw_heap w looper of None \<Rightarrow> Inl InvalidPointer
      | Some l \<Rightarrow>
        case lp_context l of None \<Rightarrow> Inr w
        | Some context \<Rightarrow>
            if \<not> lockOk then Inr w
            else Inr (w\<lparr>lw_heap := (lw_heap w)(looper := Some (l\<lparr>lp_context := Some (context\<lparr>lc_running := True\<rparr>)\<rparr>)),
                        lw_isThreadStarted := True\<rparr>))"

text \<open>
  Waiting for the task to leave its loop: \<open>waits\<close> holds the worlds the waits on \<open>condRunning\<close> return with; a call that
  waits forever has no result.
\<close>

fun await_stopped :: "nat \<Rightarrow> 'o looper_world list \<Rightarrow> 'o looper_world \<Rightarrow> (fault + 'o looper_world) option" where
  "await_stopped looper waits w =
     (case lw_heap w looper of None \<Rightarrow> Some (Inl InvalidPointer)
      | Some l \<Rightarrow>
        case lp_context l of None \<Rightarrow> Some (Inl InvalidPointer)
        | Some context \<Rightarrow>
            if \<not> lc_running context then Some (Inr w)
            else case waits of [] \<Rightarrow> None | w' # waits' \<Rightarrow> await_stopped looper waits' w')"

declare await_stopped.simps [simp del]

definition destroy_free :: "nat \<Rightarrow> 'o looper_world \<Rightarrow> 'o looper_world" where
  "destroy_free looper w =
     (let w = ReleaseLooper looper w; w = w\<lparr>lw_heap := (lw_heap w)(looper := None)\<rparr>
      in if lw_looperCnt w \<noteq> 0 then w\<lparr>lw_looperCnt := lw_looperCnt w - 1\<rparr> else w)"

definition DestroyLooper :: "'o looper_world list \<Rightarrow> nat option \<Rightarrow> 'o looper_world \<Rightarrow> (fault + 'o looper_world) option" where
  "DestroyLooper waits looper w =
     (case looper of None \<Rightarrow> Some (Inr w)
      | Some a \<Rightarrow>
        case lw_heap w a of None \<Rightarrow> Some (Inl InvalidPointer)
        | Some l \<Rightarrow>
          case lp_context l of None \<Rightarrow> Some (Inr (destroy_free a w))
          | Some context \<Rightarrow>
              let w = w\<lparr>lw_heap := (lw_heap w)(a := Some (l\<lparr>lp_context := Some (context\<lparr>lc_stop := True\<rparr>)\<rparr>))\<rparr>
              in map_option (map_sum id (destroy_free a)) (await_stopped a waits w))"

definition LooperInit :: "(nat \<Rightarrow> nat \<Rightarrow> bool) \<Rightarrow> 'o looper_world \<Rightarrow> int \<times> 'o looper_world" where
  "LooperInit ok w =
     (case CreateNewLooper (ok 0) ''BusCenter_Lp'' w of
        (None, w) \<Rightarrow> (SOFTBUS_ERR, w)
      | (Some looper, w) \<Rightarrow>
          let w = SetLooper LOOP_TYPE_DEFAULT (Some looper) w
          in case CreateNewLooper (ok 1) ''ReactorLink_Lp'' w of
               (None, w) \<Rightarrow> (SOFTBUS_ERR, w)
             | (Some connLooper, w) \<Rightarrow> (SOFTBUS_OK, SetLooper LOOP_TYPE_CONN (Some connLooper) w))"

text \<open>The loop of \<open>LooperDeinit\<close> over the indices of the table; \<open>waits i\<close> are the waits for the looper of entry \<open>i\<close>.\<close>

fun deinit_loop :: "(nat \<Rightarrow> 'o looper_world list) \<Rightarrow> nat list \<Rightarrow> 'o looper_world \<Rightarrow> (fault + 'o looper_world) option" where
  "deinit_loop waits [] w = Some (Inr w)"
| "deinit_loop waits (i # rest) w =
     (case snd (lw_loopConfig w ! i) of
        None \<Rightarrow> deinit_loop waits rest w
      | Some looper \<Rightarrow>
          (case lw_heap w looper of None \<Rightarrow> Some (Inl InvalidPointer)
           | Some l \<Rightarrow>
             if lp_context l = None then Some (Inl InvalidPointer)
             else if \<not> lw_isThreadStarted w then Some (Inr (w\<lparr>lw_isNeedDestroy := True\<rparr>))
             else case DestroyLooper (waits i) (Some looper) w of
                    None \<Rightarrow> None
                  | Some (Inl f) \<Rightarrow> Some (Inl f)
                  | Some (Inr w) \<Rightarrow> deinit_loop waits rest w))"

definition LooperDeinit :: "(nat \<Rightarrow> 'o looper_world list) \<Rightarrow> 'o looper_world \<Rightarrow> (fault + 'o looper_world) option" where
  "LooperDeinit waits w = deinit_loop waits [0..<length (lw_loopConfig w)] w"

text \<open>
  The end of \<open>LoopTask\<close>: it no longer runs, and it tears the table down if that was asked for before any task had
  started.
\<close>

definition LoopTask_leave :: "(nat \<Rightarrow> 'o looper_world list) \<Rightarrow> nat \<Rightarrow> 'o looper_world \<Rightarrow> (fault + 'o looper_world) option" where
  "LoopTask_leave waits looper w =
     (case lw_heap w looper of None \<Rightarrow> Some (Inl InvalidPointer)
      | Some l \<Rightarrow>
        case lp_context l of None \<Rightarrow> Some (Inl InvalidPointer)
        | Some context \<Rightarrow>
            let w = w\<lparr>lw_heap := (lw_heap w)(looper := Some (l\<lparr>lp_context := Some (context\<lparr>lc_running := False\<rparr>)\<rparr>))\<rparr>
            in if lw_isNeedDestroy w then LooperDeinit waits w else Some (Inr w))"

section \<open>The wrapper of the connection modules\<close>

text \<open>
  \<open>softbus_conn_common.c\<close>: a module posts with its handler and a delay.  The function reports success although the
  looper may have dropped the message.
\<close>

definition ConnPostMsgToLooper ::
  "bool \<Rightarrow> (nat \<Rightarrow> bool) \<Rightarrow> int \<times> int \<Rightarrow> nat \<Rightarrow> int \<Rightarrow> nat \<Rightarrow> nat \<Rightarrow> 'o option \<Rightarrow> nat \<Rightarrow> 'o SoftBusLooper option \<Rightarrow>
   fault + int \<times> 'o SoftBusLooper option" where
  "ConnPostMsgToLooper callocOk ok now wrapper what arg1 arg2 ob delayMillis looper =
     (if \<not> callocOk then Inr (SOFTBUS_MEM_ERR, looper)
      else
        let msg = \<lparr>sm_what = what, sm_arg1 = arg1, sm_arg2 = arg2, sm_time = 0, sm_obj = ob, sm_handler = Some wrapper\<rparr>
        in if looper = None then Inl InvalidPointer
           else map_sum id (\<lambda>l. (SOFTBUS_OK, l)) (LooperPostMessageDelay ok now looper (Some msg) delayMillis))"

definition ConnRemoveMsgFromLooper ::
  "bool \<Rightarrow> nat \<Rightarrow> ('o SoftBusMessage \<Rightarrow> 'o SoftBusMessage \<Rightarrow> int) \<Rightarrow> int \<Rightarrow> nat \<Rightarrow> nat \<Rightarrow> 'o option \<Rightarrow> 'o SoftBusLooper option \<Rightarrow>
   fault + 'o SoftBusLooper option" where
  "ConnRemoveMsgFromLooper lockOk wrapper eventCompareFunc what arg1 arg2 ob looper =
     (let ctx = \<lparr>sm_what = what, sm_arg1 = arg1, sm_arg2 = arg2, sm_time = 0, sm_obj = ob, sm_handler = None\<rparr>
      in LoopRemoveMessageCustom lockOk looper (Some wrapper) eventCompareFunc ctx)"

section \<open>The list is a stable sort of what was posted\<close>

lemma insort_insert_message:
  "insort_key sm_time p (insert_message m xs) = insert_message m (insort_key sm_time p xs)"
  by (induction xs) auto

lemma sort_insert_message: "sort_key sm_time (ps @ [m]) = insert_message m (sort_key sm_time ps)"
  by (induction ps) (simp_all add: insort_insert_message)

lemma remove_loop_eq:
  "remove_loop match xs n = (filter (\<lambda>m. \<not> match m) xs, snd (remove_loop match xs n))"
  by (induction match xs n rule: remove_loop.induct) (auto split: prod.splits)

lemma u32_pred: "0 < n \<Longrightarrow> u32_sub (u32 n) 1 = u32 (n - 1)"
proof -
  assume "0 < n"
  then have "(int (n mod 4294967296) - 1) mod 4294967296 = int (n - 1) mod 4294967296"
    by (simp add: zmod_int mod_diff_left_eq of_nat_diff)
  then show ?thesis by (simp add: u32_sub_def u32_def nat_mod_as_int)
qed

lemma u32_succ: "u32 (Suc (u32 n)) = u32 (Suc n)"
  by (simp add: u32_def mod_Suc_eq)

lemma remove_loop_size:
  "length xs \<le> k \<Longrightarrow> snd (remove_loop match xs (u32 k)) = u32 (k - length (filter match xs))"
proof (induction xs arbitrary: k)
  case (Cons x xs)
  then have dec: "u32_sub (u32 k) 1 = u32 (k - 1)" by (intro u32_pred) simp
  show ?case
  proof (cases "match x")
    case True
    with Cons dec show ?thesis by simp
  next
    case False
    have "snd (remove_loop match xs (u32 k)) = u32 (k - length (filter match xs))" using Cons by simp
    with False show ?thesis by (auto split: prod.splits)
  qed
qed simp

text \<open>What the looper promises: the first posted of the messages due earliest.\<close>

definition earliest :: "'o SoftBusMessage list \<Rightarrow> 'o SoftBusMessage option" where
  "earliest ps = find (\<lambda>m. list_all (\<lambda>x. sm_time m \<le> sm_time x) ps) ps"

lemma find_cong_weak: "(\<And>x. x \<in> set xs \<Longrightarrow> P x = Q x) \<Longrightarrow> find P xs = find Q xs"
  by (induction xs) auto

lemma earliest_Cons:
  assumes "sort_key sm_time ps = h # t"
  shows "earliest (p # ps) = (if sm_time p \<le> sm_time h then Some p else earliest ps)"
proof -
  have sorted: "sorted (map sm_time (h # t))" using assms sorted_sort_key [of sm_time ps] by simp
  have mem: "set ps = set (h # t)" using assms set_sort [of sm_time ps] by metis
  have min: "list_all (\<lambda>x. sm_time p \<le> sm_time x) ps \<longleftrightarrow> sm_time p \<le> sm_time h"
    using sorted mem by (fastforce simp: list_all_iff)
  show ?thesis
  proof (cases "sm_time p \<le> sm_time h")
    case True
    with min show ?thesis by (simp add: earliest_def)
  next
    case False
    have "find (\<lambda>m. sm_time m \<le> sm_time p \<and> list_all (\<lambda>x. sm_time m \<le> sm_time x) ps) ps =
          find (\<lambda>m. list_all (\<lambda>x. sm_time m \<le> sm_time x) ps) ps"
      using False mem by (intro find_cong_weak) (fastforce simp: list_all_iff)
    with False min show ?thesis by (simp add: earliest_def)
  qed
qed

lemma sort_earliest:
  "sort_key sm_time ps = m # rest \<Longrightarrow> earliest ps = Some m \<and> sort_key sm_time (remove1 m ps) = rest"
proof (induction ps arbitrary: m rest)
  case (Cons p ps)
  show ?case
  proof (cases "sort_key sm_time ps")
    case Nil
    then have "ps = []" by (metis length_sort list.size(3) length_0_conv)
    with Cons.prems show ?thesis by (simp add: earliest_def)
  next
    case sorted: (Cons h t)
    show ?thesis
      using Cons.prems sorted Cons.IH [OF sorted] by (auto simp: earliest_Cons [OF sorted] split: if_splits)
  qed
qed simp

lemma earliest_Nil [simp]: "earliest [] = None"
  by (simp add: earliest_def)

section \<open>Runs of a looper\<close>

text \<open>
  What can happen to a running looper, in any order: a thread posts a message with a delay or removes messages, the
  task makes a pass, or finishes a message.
\<close>

datatype 'o looper_op =
  LPost "nat \<Rightarrow> bool" "int \<times> int" "'o SoftBusMessage" nat
| LRemove bool "nat option" "'o SoftBusMessage \<Rightarrow> bool"
| LPass bool "int \<times> int"
| LHandled

fun looper_step :: "'o looper_op \<Rightarrow> 'o SoftBusLooper \<Rightarrow> (fault + 'o SoftBusMessage option \<times> 'o SoftBusLooper)" where
  "looper_step (LPost ok now m delay) l =
     (case LooperPostMessageDelay ok now (Some l) (Some m) delay of
        Inl f \<Rightarrow> Inl f | Inr None \<Rightarrow> Inl InvalidPointer | Inr (Some l) \<Rightarrow> Inr (None, l))"
| "looper_step (LRemove lockOk hdl match) l =
     (case LoopRemoveMessageCustom lockOk (Some l) hdl (\<lambda>m (_::unit). if match m then 0 else 1) () of
        Inl f \<Rightarrow> Inl f | Inr None \<Rightarrow> Inl InvalidPointer | Inr (Some l) \<Rightarrow> Inr (None, l))"
| "looper_step (LPass lockOk now) l =
     (case lp_context l of None \<Rightarrow> Inl InvalidPointer
      | Some c \<Rightarrow>
          (case LoopTask_pass lockOk False now c of
             (LoopHandles m, c) \<Rightarrow> Inr (Some m, l\<lparr>lp_context := Some c\<rparr>)
           | (_, c) \<Rightarrow> Inr (None, l\<lparr>lp_context := Some c\<rparr>)))"
| "looper_step LHandled l =
     (case lp_context l of None \<Rightarrow> Inl InvalidPointer | Some c \<Rightarrow> Inr (None, l\<lparr>lp_context := Some (LoopTask_handled c)\<rparr>))"

fun looper_run :: "'o looper_op list \<Rightarrow> 'o SoftBusLooper \<Rightarrow> (fault + 'o SoftBusMessage list \<times> 'o SoftBusLooper)" where
  "looper_run [] l = Inr ([], l)"
| "looper_run (op # ops) l =
     (case looper_step op l of Inl f \<Rightarrow> Inl f
      | Inr (out, l) \<Rightarrow> map_sum id (\<lambda>(outs, l). (case out of None \<Rightarrow> outs | Some m \<Rightarrow> m # outs, l)) (looper_run ops l))"

text \<open>
  The specification: a bag of timers in posting order.  A pass hands over the first posted of those due earliest, when
  it is due; a removal takes out every matching timer; nothing else is lost or reordered.
\<close>

fun timer_step :: "'o looper_op \<Rightarrow> 'o SoftBusMessage list \<Rightarrow> 'o SoftBusMessage option \<times> 'o SoftBusMessage list" where
  "timer_step (LPost ok now m delay) ps =
     (None, if sm_handler m \<noteq> None \<and> ok 0 \<and> ok 1 \<and> ok 2 then ps @ [m\<lparr>sm_time := due_time now delay\<rparr>] else ps)"
| "timer_step (LRemove lockOk hdl match) ps =
     (None, if lockOk then filter (\<lambda>m. \<not> (match m \<and> sm_handler m = hdl)) ps else ps)"
| "timer_step (LPass lockOk now) ps =
     (case earliest ps of
        Some m \<Rightarrow> if lockOk \<and> sm_time m \<le> UptimeMicros now then (Some m, remove1 m ps) else (None, ps)
      | None \<Rightarrow> (None, ps))"
| "timer_step LHandled ps = (None, ps)"

fun timer_run :: "'o looper_op list \<Rightarrow> 'o SoftBusMessage list \<Rightarrow> 'o SoftBusMessage list \<times> 'o SoftBusMessage list" where
  "timer_run [] ps = ([], ps)"
| "timer_run (op # ops) ps =
     (case timer_step op ps of (out, ps) \<Rightarrow>
      case timer_run ops ps of (outs, ps) \<Rightarrow> (case out of None \<Rightarrow> outs | Some m \<Rightarrow> m # outs, ps))"

definition looper_abs :: "'o SoftBusLooper \<Rightarrow> 'o SoftBusMessage list \<Rightarrow> bool" where
  "looper_abs l ps \<longleftrightarrow>
     (case lp_context l of None \<Rightarrow> False
      | Some c \<Rightarrow> \<not> lc_stop c \<and> lc_running c \<and> lc_msgHead c = sort_key sm_time ps \<and> lc_msgSize c = u32 (length ps))"

lemma looper_absE:
  assumes "looper_abs l ps"
  obtains c where "lp_context l = Some c" "\<not> lc_stop c" "lc_running c" "lc_msgHead c = sort_key sm_time ps" "lc_msgSize c = u32 (length ps)"
  using assms by (auto simp: looper_abs_def split: option.splits)

lemma looper_post_refines:
  assumes "looper_abs l ps"
  shows "\<exists>l'. looper_step (LPost ok now m delay) l = Inr (None, l') \<and> looper_abs l' (snd (timer_step (LPost ok now m delay) ps))"
  using assms
  by (auto elim!: looper_absE simp: looper_abs_def LooperPostMessageDelay_def PostMessageAtTime_def PostMessageAtTimeParamVerify_def
      sort_insert_message u32_succ split: if_splits)

lemma length_filter_not: "length xs - length (filter P xs) = length (filter (\<lambda>x. \<not> P x) xs)"
  using sum_length_filter_compl [of P xs] by simp

lemma remove_loop_sorted:
  "remove_loop match (sort_key sm_time ps) (u32 (length ps)) =
     (sort_key sm_time (filter (\<lambda>m. \<not> match m) ps), u32 (length (filter (\<lambda>m. \<not> match m) ps)))"
  by (subst remove_loop_eq) (simp add: remove_loop_size filter_sort flip: length_filter_not)

lemma remove_refines:
  assumes "looper_abs l ps"
  shows "\<exists>l'. looper_step (LRemove lockOk hdl match) l = Inr (None, l') \<and> looper_abs l' (snd (timer_step (LRemove lockOk hdl match) ps))"
proof -
  obtain c where c: "lp_context l = Some c" "\<not> lc_stop c" "lc_running c" "lc_msgHead c = sort_key sm_time ps" "lc_msgSize c = u32 (length ps)"
    using assms by (rule looper_absE)
  show ?thesis using c
    by (simp add: LoopRemoveMessageCustom_def remove_loop_sorted looper_abs_def)
qed

lemma pass_refines:
  assumes "looper_abs l ps"
  shows "\<exists>l'. looper_step (LPass lockOk now) l = Inr (fst (timer_step (LPass lockOk now) ps), l') \<and>
    looper_abs l' (snd (timer_step (LPass lockOk now) ps))"
proof -
  obtain c where c: "lp_context l = Some c" "\<not> lc_stop c" "lc_running c" "lc_msgHead c = sort_key sm_time ps" "lc_msgSize c = u32 (length ps)"
    using assms by (rule looper_absE)
  show ?thesis
  proof (cases "sort_key sm_time ps")
    case Nil
    then have "ps = []" by (metis length_sort list.size(3) length_0_conv)
    with c Nil show ?thesis by (simp add: LoopTask_pass_def looper_abs_def)
  next
    case (Cons m rest)
    from sort_earliest [OF this] have e: "earliest ps = Some m" "sort_key sm_time (remove1 m ps) = rest" by auto
    have "m \<in> set ps" using Cons by (metis list.set_intros(1) set_sort)
    then have "0 < length ps" "length (remove1 m ps) = length ps - 1" by (auto simp: length_remove1 length_pos_if_in_set)
    with c Cons e show ?thesis
      by (simp add: LoopTask_pass_def looper_abs_def u32_pred [simplified])
  qed
qed

lemma handled_refines:
  "looper_abs l ps \<Longrightarrow> \<exists>l'. looper_step LHandled l = Inr (None, l') \<and> looper_abs l' ps"
  by (auto simp: looper_abs_def LoopTask_handled_def split: option.splits)

lemma looper_step_refines:
  assumes "looper_abs l ps"
  shows "\<exists>l'. looper_step op l = Inr (fst (timer_step op ps), l') \<and> looper_abs l' (snd (timer_step op ps))"
proof (cases op)
  case (LPost ok now m delay)
  with looper_post_refines [OF assms] show ?thesis by (metis timer_step.simps(1) fst_conv)
next
  case (LRemove lockOk hdl match)
  with remove_refines [OF assms] show ?thesis by (metis timer_step.simps(2) fst_conv)
next
  case (LPass lockOk now)
  with pass_refines [OF assms] show ?thesis by metis
next
  case LHandled
  with handled_refines [OF assms] show ?thesis by simp
qed

lemma looper_run_refines:
  "looper_abs l ps \<Longrightarrow> \<exists>l'. looper_run ops l = Inr (fst (timer_run ops ps), l') \<and> looper_abs l' (snd (timer_run ops ps))"
proof (induction ops arbitrary: l ps)
  case (Cons op ops)
  obtain l' where l': "looper_step op l = Inr (fst (timer_step op ps), l')" "looper_abs l' (snd (timer_step op ps))"
    using looper_step_refines [OF Cons.prems] by blast
  obtain l'' where "looper_run ops l' = Inr (fst (timer_run ops (snd (timer_step op ps))), l'')"
    "looper_abs l'' (snd (timer_run ops (snd (timer_step op ps))))"
    using Cons.IH [OF l'(2)] by blast
  with l' show ?case by (auto simp: case_prod_beta split: option.split)
qed simp

text \<open>What \<open>CreateNewLooper\<close> makes, once its task has entered its loop.\<close>

lemma new_looper_abs:
  assumes "CreateNewLooper ok name w = (Some a, w1)" "LoopTask_enter True a w1 = Inr w2"
  shows "\<exists>l. lw_heap w2 a = Some l \<and> looper_abs l []"
  using assms by (auto simp: CreateNewLooper_def LoopTask_enter_def new_context_def looper_abs_def split: if_splits)

text \<open>
  A looper that is destroyed before its task has entered its loop does not count as running, so it is freed at once;
  the task then starts on a freed looper.
\<close>

lemma destroy_before_start:
  assumes "CreateNewLooper ok name w = (Some a, w1)"
  shows "\<exists>w2. DestroyLooper [] (Some a) w1 = Some (Inr w2) \<and> LoopTask_enter lockOk a w2 = Inl InvalidPointer"
  using assms
  by (auto simp: CreateNewLooper_def DestroyLooper_def await_stopped.simps new_context_def destroy_free_def ReleaseLooper_def
      LoopTask_enter_def Let_def split: if_splits)

section \<open>Properties\<close>

text \<open>
  C13: The message loop is a set of timers.  Whatever threads post and remove and however the posts fail, the messages
  the task of a new looper handles are exactly those the specification hands over: a message is handled only when it
  is due, the time of the post plus its delay in 64-bit microseconds, always the first posted of those due earliest, none twice and none lost but those removed; the list of the
  looper is the stable sort by time of what is outstanding.
\<close>

theorem looper_refines_timers:
  assumes "CreateNewLooper ok name w = (Some a, w1)" "LoopTask_enter True a w1 = Inr w2"
  shows "\<exists>l l' c. lw_heap w2 a = Some l \<and> looper_run ops l = Inr (fst (timer_run ops []), l') \<and> lp_context l' = Some c \<and>
    lc_msgHead c = sort_key sm_time (snd (timer_run ops [])) \<and> lc_msgSize c = u32 (length (snd (timer_run ops [])))"
proof -
  obtain l where l: "lw_heap w2 a = Some l" "looper_abs l []" using new_looper_abs [OF assms] by blast
  obtain l' where "looper_run ops l = Inr (fst (timer_run ops []), l')" "looper_abs l' (snd (timer_run ops []))"
    using looper_run_refines [OF l(2)] by blast
  with l show ?thesis by (auto elim!: looper_absE)
qed

definition ex_message :: "int \<Rightarrow> unit SoftBusMessage" where
  "ex_message n = \<lparr>sm_what = n, sm_arg1 = 0, sm_arg2 = 0, sm_time = 0, sm_obj = None, sm_handler = Some 1\<rparr>"

theorem looper_refines_timers_witness:
  "\<exists>l l' c. looper_run [LPost (\<lambda>_. True) (0, 0) (ex_message 1) 5, LPost (\<lambda>_. True) (0, 1) (ex_message 2) 0, LPass True (0, 1),
       LPass True (0, 10), LHandled, LPost (\<lambda>_. True) (0, 20) (ex_message 3) 9, LPass True (1, 0)] l =
     Inr ([ex_message 2\<lparr>sm_time := 1\<rparr>, ex_message 1\<lparr>sm_time := 5000\<rparr>], l') \<and> lp_context l' = Some c \<and>
     lc_msgHead c = [ex_message 3\<lparr>sm_time := 9020\<rparr>]"
proof -
  let ?w = "looper_boot :: unit looper_world"
  have "CreateNewLooper (\<lambda>_. True) ''a'' ?w = (Some 0, snd (CreateNewLooper (\<lambda>_. True) ''a'' ?w))"
    by (simp add: CreateNewLooper_def looper_boot_def)
  moreover have "\<exists>w2. LoopTask_enter True 0 (snd (CreateNewLooper (\<lambda>_. True) ''a'' ?w)) = Inr w2"
    by (simp add: CreateNewLooper_def looper_boot_def LoopTask_enter_def new_context_def)
  ultimately obtain w2 where "CreateNewLooper (\<lambda>_. True) ''a'' ?w = (Some 0, snd (CreateNewLooper (\<lambda>_. True) ''a'' ?w))"
    "LoopTask_enter True 0 (snd (CreateNewLooper (\<lambda>_. True) ''a'' ?w)) = Inr w2" by blast
  from looper_refines_timers [OF this, of "[LPost (\<lambda>_. True) (0, 0) (ex_message 1) 5, LPost (\<lambda>_. True) (0, 1) (ex_message 2) 0,
       LPass True (0, 1), LPass True (0, 10), LHandled, LPost (\<lambda>_. True) (0, 20) (ex_message 3) 9, LPass True (1, 0)]"]
  show ?thesis by (simp add: earliest_def due_time_def UptimeMicros_def ex_message_def) blast
qed

end
