(* ===== verification/Prog.thy ===== *)
theory Prog
  imports Prelude
begin

text \<open>
  Programs over a state: a program maps a state to nothing (it never returns), to a fault, or to a result and a new
  state.  Sequencing, and triples \<open>hoare P m Q\<close> that say what holds when a program started in \<open>P\<close> returns.
\<close>

type_synonym ('s, 'a) prog = "'s \<Rightarrow> (fault + 'a \<times> 's) option"

definition ret :: "'a \<Rightarrow> ('s, 'a) prog" where
  "ret x s = Some (Inr (x, s))"

definition bnd :: "('s, 'a) prog \<Rightarrow> ('a \<Rightarrow> ('s, 'b) prog) \<Rightarrow> ('s, 'b) prog" where
  "bnd m f s = (case m s of None \<Rightarrow> None | Some (Inl e) \<Rightarrow> Some (Inl e) | Some (Inr (x, t)) \<Rightarrow> f x t)"

definition crash :: "fault \<Rightarrow> ('s, 'a) prog" where
  "crash e s = Some (Inl e)"

definition gets :: "('s \<Rightarrow> 'a) \<Rightarrow> ('s, 'a) prog" where
  "gets f s = Some (Inr (f s, s))"

definition modify :: "('s \<Rightarrow> 's) \<Rightarrow> ('s, unit) prog" where
  "modify f s = Some (Inr ((), f s))"

definition seq :: "('s, 'a) prog \<Rightarrow> ('s, 'b) prog \<Rightarrow> ('s, 'b) prog" where
  "seq m n = bnd m (\<lambda>_. n)"

text \<open>Running a program for each element of a list.\<close>

fun each :: "('x \<Rightarrow> ('s, unit) prog) \<Rightarrow> 'x list \<Rightarrow> ('s, unit) prog" where
  "each f [] = ret ()"
| "each f (x # xs) = seq (f x) (each f xs)"

section \<open>Triples\<close>

definition hoare :: "('s \<Rightarrow> bool) \<Rightarrow> ('s, 'a) prog \<Rightarrow> ('a \<Rightarrow> 's \<Rightarrow> bool) \<Rightarrow> bool" where
  "hoare P m Q \<longleftrightarrow> (\<forall>s x t. P s \<longrightarrow> m s = Some (Inr (x, t)) \<longrightarrow> Q x t)"

named_theorems wp

lemma hoareI: "(\<And>s x t. P s \<Longrightarrow> m s = Some (Inr (x, t)) \<Longrightarrow> Q x t) \<Longrightarrow> hoare P m Q"
  by (auto simp: hoare_def)

lemma hoareD: "hoare P m Q \<Longrightarrow> P s \<Longrightarrow> m s = Some (Inr (x, t)) \<Longrightarrow> Q x t"
  by (auto simp: hoare_def)

lemma hoare_pre: "hoare P' m Q \<Longrightarrow> (\<And>s. P s \<Longrightarrow> P' s) \<Longrightarrow> hoare P m Q"
  by (auto simp: hoare_def)

lemma hoare_post: "hoare P m Q' \<Longrightarrow> (\<And>x s. Q' x s \<Longrightarrow> Q x s) \<Longrightarrow> hoare P m Q"
  by (auto simp: hoare_def)

lemma hoare_ret [wp]: "hoare (Q x) (ret x) Q"
  by (simp add: hoare_def ret_def)

lemma hoare_crash [wp]: "hoare P (crash e) Q"
  by (simp add: hoare_def crash_def)

lemma hoare_gets [wp]: "hoare (\<lambda>s. Q (f s) s) (gets f) Q"
  by (simp add: hoare_def gets_def)

lemma hoare_modify [wp]: "hoare (\<lambda>s. Q () (f s)) (modify f) Q"
  by (simp add: hoare_def modify_def)

lemma hoare_bnd: "hoare P m R \<Longrightarrow> (\<And>x. hoare (R x) (f x) Q) \<Longrightarrow> hoare P (bnd m f) Q"
  by (fastforce simp: hoare_def bnd_def split: option.splits sum.splits prod.splits)

lemma hoare_seq: "hoare P m (\<lambda>_. R) \<Longrightarrow> hoare R n Q \<Longrightarrow> hoare P (seq m n) Q"
  unfolding seq_def by (rule hoare_bnd)

text \<open>Invariants: a program keeps a predicate of the state whatever it returns.\<close>

definition keeps :: "('s \<Rightarrow> bool) \<Rightarrow> ('s, 'a) prog \<Rightarrow> bool" where
  "keeps P m \<longleftrightarrow> hoare P m (\<lambda>_. P)"

named_theorems keep

lemma keepsD: "keeps P m \<Longrightarrow> P s \<Longrightarrow> m s = Some (Inr (x, t)) \<Longrightarrow> P t"
  by (auto simp: keeps_def hoare_def)

lemma keepsI: "(\<And>s x t. P s \<Longrightarrow> m s = Some (Inr (x, t)) \<Longrightarrow> P t) \<Longrightarrow> keeps P m"
  by (auto simp: keeps_def hoare_def)

lemma keeps_ret [keep]: "keeps P (ret x)"
  by (simp add: keeps_def hoare_def ret_def)

lemma keeps_crash [keep]: "keeps P (crash e)"
  by (simp add: keeps_def hoare_def crash_def)

lemma keeps_gets [keep]: "keeps P (gets f)"
  by (simp add: keeps_def hoare_def gets_def)

lemma keeps_bnd [keep]: "keeps P m \<Longrightarrow> (\<And>x. keeps P (f x)) \<Longrightarrow> keeps P (bnd m f)"
  unfolding keeps_def by (rule hoare_bnd)

lemma keeps_seq [keep]: "keeps P m \<Longrightarrow> keeps P n \<Longrightarrow> keeps P (seq m n)"
  unfolding keeps_def by (rule hoare_seq)

lemma keeps_modify: "(\<And>s. P s \<Longrightarrow> P (f s)) \<Longrightarrow> keeps P (modify f)"
  by (simp add: keeps_def hoare_def modify_def)

lemma keeps_each [keep]: "(\<And>x. keeps P (f x)) \<Longrightarrow> keeps P (each f xs)"
  by (induction xs) (auto intro: keeps_ret keeps_seq)

lemma keeps_if [keep]: "keeps P m \<Longrightarrow> keeps P n \<Longrightarrow> keeps P (if b then m else n)"
  by simp

lemma keeps_option [keep]: "keeps P m \<Longrightarrow> (\<And>x. keeps P (f x)) \<Longrightarrow> keeps P (case y of None \<Rightarrow> m | Some x \<Rightarrow> f x)"
  by (cases y) auto

lemma keeps_prod [keep]: "(\<And>x z. keeps P (f x z)) \<Longrightarrow> keeps P (case y of (x, z) \<Rightarrow> f x z)"
  by (cases y) auto

lemma keeps_Let [keep]: "keeps P (f x) \<Longrightarrow> keeps P (let y = x in f y)"
  by simp

end
