(* ===== verification/Br_Connection.thy ===== *)
theory Br_Connection
  imports Br_Task Looper Softbus_Utils Prog
begin

text \<open>
  The BR connection module, \<^verbatim>\<open>core/connection/br/src/softbus_conn_br_connection.c\<close>: the exchange of reference
  counts by which two sides agree to close a connection, disconnection, the client and server threads and the message
  handler of the module; with the lookup by address and the listener functions of \<^verbatim>\<open>softbus_conn_br_manager.c\<close>
  that the module calls.

  Functions are programs over the state \<open>br_node\<close> that the connection module and the manager share.  Both modules
  post to the looper of the connection modules.  The outcomes of locks, allocations and thread starts come from
  an oracle that is asked once per use.
\<close>

section \<open>State\<close>

abbreviation SOFTBUS_CONN_BR_INVALID_ADDRESS_ERR :: int where "SOFTBUS_CONN_BR_INVALID_ADDRESS_ERR \<equiv> - 425918446"
abbreviation SOFTBUS_CONN_BR_RETRY_OPEN_SERVER :: int where "SOFTBUS_CONN_BR_RETRY_OPEN_SERVER \<equiv> - 425918312"
abbreviation SOFTBUS_CONN_BR_SPP_SERVER_ERR :: int where "SOFTBUS_CONN_BR_SPP_SERVER_ERR \<equiv> - 425918353"
abbreviation SOFTBUS_CONN_BR_UNDERLAYBASE_ERR :: int where "SOFTBUS_CONN_BR_UNDERLAYBASE_ERR \<equiv> - 427163647"
abbreviation CONN_BR_CONNECT_UNDERLAYER_ERROR_UNDEFINED :: int where "CONN_BR_CONNECT_UNDERLAYER_ERROR_UNDEFINED \<equiv> 255"
abbreviation WAIT_BR_NEGOTIATION_CLOSING_TIMEOUT_MILLIS :: nat where "WAIT_BR_NEGOTIATION_CLOSING_TIMEOUT_MILLIS \<equiv> 3000"
abbreviation RETRY_NOTIFY_REFERENCE_DELAY_MILLIS :: nat where "RETRY_NOTIFY_REFERENCE_DELAY_MILLIS \<equiv> 1000"
abbreviation WAIT_TIMEOUT_OCCUPY :: nat where "WAIT_TIMEOUT_OCCUPY \<equiv> 3000"
abbreviation WAIT_TIMEOUT_TRY_AGAIN :: nat where "WAIT_TIMEOUT_TRY_AGAIN \<equiv> 1000"
abbreviation BR_CONNECT_WAIT_CALLBACK_TIMEOUT_MAX_MILLIS :: nat where "BR_CONNECT_WAIT_CALLBACK_TIMEOUT_MAX_MILLIS \<equiv> 500"
abbreviation COMPARE_SUCCESS :: int where "COMPARE_SUCCESS \<equiv> 0"
abbreviation COMPARE_FAILED :: int where "COMPARE_FAILED \<equiv> 1"

text \<open>The message types of the manager and of the connection module.\<close>

abbreviation MSG_NEXT_CMD :: int where "MSG_NEXT_CMD \<equiv> 0"
abbreviation MSG_CONNECT_REQUEST :: int where "MSG_CONNECT_REQUEST \<equiv> 1"
abbreviation MSG_CONNECT_SUCCESS :: int where "MSG_CONNECT_SUCCESS \<equiv> 2"
abbreviation MSG_CONNECT_TIMEOUT :: int where "MSG_CONNECT_TIMEOUT \<equiv> 3"
abbreviation MSG_CONNECT_FAIL :: int where "MSG_CONNECT_FAIL \<equiv> 4"
abbreviation MSG_SERVER_ACCEPTED :: int where "MSG_SERVER_ACCEPTED \<equiv> 5"
abbreviation MSG_DATA_RECEIVED :: int where "MSG_DATA_RECEIVED \<equiv> 6"
abbreviation MSG_CONNECTION_EXECEPTION :: int where "MSG_CONNECTION_EXECEPTION \<equiv> 7"
abbreviation MSG_CONNECTION_RESUME :: int where "MSG_CONNECTION_RESUME \<equiv> 8"
abbreviation MGR_DISCONNECT_REQUEST :: int where "MGR_DISCONNECT_REQUEST \<equiv> 9"
abbreviation MSG_UNPEND :: int where "MSG_UNPEND \<equiv> 10"
abbreviation MSG_RESET :: int where "MSG_RESET \<equiv> 11"
abbreviation MSG_CONNECTION_WAIT_NEGOTIATION_CLOSING_TIMEOUT :: int where "MSG_CONNECTION_WAIT_NEGOTIATION_CLOSING_TIMEOUT \<equiv> 100"
abbreviation MSG_CONNECTION_RETRY_NOTIFY_REFERENCE :: int where "MSG_CONNECTION_RETRY_NOTIFY_REFERENCE \<equiv> 101"
abbreviation MSG_CONNECTION_REPORT_CONNECT_EXCEPTION :: int where "MSG_CONNECTION_REPORT_CONNECT_EXCEPTION \<equiv> 102"
abbreviation MSG_CONNECTION_OCCUPY_RELEASE :: int where "MSG_CONNECTION_OCCUPY_RELEASE \<equiv> 103"
abbreviation MSG_CONNECTION_UPDATE_LOCAL_RC :: int where "MSG_CONNECTION_UPDATE_LOCAL_RC \<equiv> 104"
abbreviation MSG_CONNECTION_UPDATE_PEER_RC :: int where "MSG_CONNECTION_UPDATE_PEER_RC \<equiv> 105"

text \<open>The two handler objects, \<open>g_brManagerAsyncHandler\<close> and \<open>g_brConnectionAsyncHandler\<close>.\<close>

abbreviation g_brManagerAsyncHandler :: nat where "g_brManagerAsyncHandler \<equiv> 1"
abbreviation g_brConnectionAsyncHandler :: nat where "g_brConnectionAsyncHandler \<equiv> 2"

text \<open>What messages carry.  A \<open>ConnectResult\<close>, a pair of callbacks of the requester, is a number.\<close>

record ConnBrConnectRequestContext =
  cc_addr :: string
  cc_waitTimeoutDelay :: nat
  cc_requestId :: nat
  cc_connectionId :: nat
  cc_result :: nat

datatype br_obj =
    ConnectRequestObj ConnBrConnectRequestContext
  | AddressObj string
  | ErrorObj nat int
  | DataObj nat bytes
  | ReferenceObj int int

record ConnBrRequest =
  rq_requestId :: nat
  rq_result :: nat

datatype ConnBrDeviceState =
    BR_DEVICE_STATE_INIT
  | BR_DEVICE_STATE_WAIT_EVENT
  | BR_DEVICE_STATE_PENDING
  | BR_DEVICE_STATE_WAIT_SCHEDULE
  | BR_DEVICE_STATE_SCHEDULING

text \<open>Devices are told apart by the address \<open>dv_at\<close> they are allocated at.\<close>

record ConnBrDevice =
  dv_at :: nat
  dv_addr :: string
  dv_state :: ConnBrDeviceState
  dv_requests :: "ConnBrRequest list"
  dv_connectionId :: nat
  dv_waitTimeoutDelay :: nat
  dv_keepAliveBleRequestId :: nat
  dv_keepAliveBleConnectionId :: nat

datatype BrServerState = BR_STATE_AVAILABLE | BR_STATE_CONNECTING

text \<open>The pointer \<open>g_brManager.connecting\<close>; it may point to a device that has been freed.\<close>

datatype device_pointer = NoDevice | Device ConnBrDevice | FreedDevice

record ConnectionInfo =
  ci_isAvailable :: bool
  ci_isServer :: bool
  ci_type :: nat
  ci_brMac :: string

text \<open>What the modules tell other components: the requesters, the connection manager, NIP, the bus centre and BLE.\<close>

datatype br_call =
    OnConnectSuccessed nat nat nat ConnectionInfo
  | OnConnectFailed nat nat int
  | OnConnected nat ConnectionInfo
  | OnDisconnected nat ConnectionInfo
  | OnDataReceivedCall nat int int bytes
  | NipRecvDataFromBr nat bytes
  | NipConnectDevice nat string
  | NipDisconnectDevice nat
  | LnnDCClearConnectException string
  | LnnDCReportConnectException string int
  | ConnBleKeepAlive nat nat
  | ConnBleRemoveKeepAlive nat nat
  | StartClientThread nat
  | StartServeThread int

record ServerState =
  ss_traceId :: nat
  ss_available :: bool
  ss_serverId :: int

text \<open>
  The oracle: \<open>oc_oks k i\<close> is the outcome of the \<open>i\<close>-th lock or allocation of the call that asks it at time \<open>k\<close>; the others
  are the clock, the environments of posted and packed messages, the status of a thread start,
  a reply to an acknowledgement, the BLE connection to an address and a new request id.
\<close>

record br_oracle =
  oc_oks :: "nat \<Rightarrow> nat \<Rightarrow> bool"
  oc_now :: "nat \<Rightarrow> int \<times> int"
  oc_posts :: "nat \<Rightarrow> post_env"
  oc_packs :: "nat \<Rightarrow> bool \<times> (nat \<Rightarrow> nat \<Rightarrow> bool) \<times> bool"
  oc_status :: "nat \<Rightarrow> int"
  oc_replies :: "nat \<Rightarrow> reply_env"
  oc_ble :: "nat \<Rightarrow> nat option"
  oc_requestId :: "nat \<Rightarrow> nat"

text \<open>The functions of the driver of \<open>wrapper_br_interface.h\<close> that these modules call.\<close>

record 'd SppSocketDriver =
  sd_Connect :: "bytes \<Rightarrow> 'd \<Rightarrow> int \<times> 'd"
  sd_DisConnect :: "int \<Rightarrow> 'd \<Rightarrow> int \<times> 'd"
  sd_GetRemoteDeviceInfo :: "int \<Rightarrow> 'd \<Rightarrow> (int \<times> bytes) \<times> 'd"
  sd_OpenSppServer :: "'d \<Rightarrow> int \<times> 'd"
  sd_CloseSppServer :: "int \<Rightarrow> 'd \<Rightarrow> unit \<times> 'd"
  sd_Accept :: "int \<Rightarrow> 'd \<Rightarrow> int \<times> 'd"

record 'd br_node =
  nd_world :: "'d br_world"
  nd_looper :: "br_obj SoftBusLooper option"
  nd_state :: "BrServerState option"
  nd_waitings :: "ConnBrDevice list"
  nd_pendings :: "(string \<times> bool) list"
  nd_pendingsCnt :: nat
  nd_connecting :: device_pointer
  nd_brStateTurnOn :: bool
  nd_servers :: "nat \<Rightarrow> ServerState option"
  nd_serverState :: "nat option"
  nd_traceId :: nat
  nd_readBufferCapacity :: int
  nd_mtuSize :: int
  nd_calls :: "br_call list"
  nd_orc :: br_oracle
  nd_tick :: nat
  nd_plat :: "'d br_platform"
  nd_spp :: "'d SppSocketDriver"
  nd_parse :: "bytes \<Rightarrow> json_object option"

type_synonym ('d, 'a) br_prog = "('d br_node, 'a) prog"

section \<open>Access to the state\<close>

definition draw :: "(br_oracle \<Rightarrow> nat \<Rightarrow> 'a) \<Rightarrow> ('d, 'a) br_prog" where
  "draw f s = Some (Inr (f (nd_orc s) (nd_tick s), s\<lparr>nd_tick := Suc (nd_tick s)\<rparr>))"

definition succeeds :: "('d, bool) br_prog" where
  "succeeds = bnd (draw oc_oks) (\<lambda>ok. ret (ok 0))"

definition call :: "br_call \<Rightarrow> ('d, unit) br_prog" where
  "call c = modify (\<lambda>s. s\<lparr>nd_calls := nd_calls s @ [c]\<rparr>)"

definition on_conns :: "(br_conns \<Rightarrow> fault + 'a \<times> br_conns) \<Rightarrow> ('d, 'a) br_prog" where
  "on_conns f s =
     Some (map_sum id (\<lambda>(x, conns). (x, s\<lparr>nd_world := (nd_world s)\<lparr>bw_conns := conns\<rparr>\<rparr>)) (f (bw_conns (nd_world s))))"

definition on_world :: "('d br_world \<Rightarrow> (fault + 'a \<times> 'd br_world) option) \<Rightarrow> ('d, 'a) br_prog" where
  "on_world f s = map_option (map_sum id (\<lambda>(x, w). (x, s\<lparr>nd_world := w\<rparr>))) (f (nd_world s))"

definition on_driver :: "('d SppSocketDriver \<Rightarrow> 'd \<Rightarrow> 'a \<times> 'd) \<Rightarrow> ('d, 'a) br_prog" where
  "on_driver f s =
     (case f (nd_spp s) (bw_drv (nd_world s)) of (x, d) \<Rightarrow> Some (Inr (x, s\<lparr>nd_world := (nd_world s)\<lparr>bw_drv := d\<rparr>\<rparr>)))"

text \<open>Reading and writing a connection object through a pointer.\<close>

definition conn :: "nat \<Rightarrow> ('d, ConnBrConnection) br_prog" where
  "conn a = on_conns (\<lambda>s. case bo_heap s a of None \<Rightarrow> Inl InvalidPointer | Some c \<Rightarrow> Inr (c, s))"

definition update_conn :: "nat \<Rightarrow> (ConnBrConnection \<Rightarrow> ConnBrConnection) \<Rightarrow> ('d, unit) br_prog" where
  "update_conn a f = on_conns (\<lambda>s. case bo_heap s a of None \<Rightarrow> Inl InvalidPointer | Some c \<Rightarrow> Inr ((), put_conn a (f c) s))"

definition get_by_id :: "nat \<Rightarrow> ('d, nat option) br_prog" where
  "get_by_id connectionId = bnd (draw oc_oks) (\<lambda>ok. on_conns (ConnBrGetConnectionById ok connectionId))"

definition give_back :: "nat \<Rightarrow> ('d, unit) br_prog" where
  "give_back a = bnd (draw oc_oks) (\<lambda>ok. on_conns (\<lambda>s. map_sum id (Pair ()) (ConnBrReturnConnection ok (Some a) s)))"

definition remove_conn :: "nat \<Rightarrow> ('d, unit) br_prog" where
  "remove_conn a = bnd (draw oc_oks) (\<lambda>ok. on_conns (\<lambda>s. map_sum id (Pair ()) (ConnBrRemoveConnection ok (Some a) s)))"

definition save_conn :: "nat \<Rightarrow> ('d, int) br_prog" where
  "save_conn a = bnd (draw oc_oks) (\<lambda>ok. on_world (\<lambda>w.
     map_option (map_sum id (\<lambda>(r, conns). (r, w\<lparr>bw_conns := conns\<rparr>))) (ConnBrSaveConnection ok (Some a) (bw_conns w))))"

definition new_conn :: "string \<Rightarrow> ConnSideType \<Rightarrow> int \<Rightarrow> ('d, nat option) br_prog" where
  "new_conn addr side socketHandle =
     bnd (draw oc_oks) (\<lambda>ok. bnd (gets nd_mtuSize) (\<lambda>mtu.
     on_conns (\<lambda>s. Inr (ConnBrCreateConnection ok (nat (mtu mod 2 ^ 32)) (Some addr) side socketHandle s))))"

text \<open>The array an address is kept in, and the text in such an array.\<close>

definition addr_array :: "string \<Rightarrow> bytes" where
  "addr_array a = addr_bytes a @ replicate (BT_MAC_LEN - length a) 0"

definition addr_text :: "bytes \<Rightarrow> string" where
  "addr_text b = map (\<lambda>x. char_of (unat x)) (takeWhile (\<lambda>x. x \<noteq> 0) b)"

definition get_by_addr :: "string \<Rightarrow> ConnSideType \<Rightarrow> ('d, nat option) br_prog" where
  "get_by_addr addr side = bnd (draw oc_oks) (\<lambda>ok. on_conns (ConnBrGetConnectionByAddr ok (Some addr) side))"

section \<open>Messages\<close>

text \<open>
  The comparison functions of the two handlers.  An unpend message carries an address; comparing anything else fails.
\<close>

definition BrCompareManagerLooperEventFunc :: "br_obj SoftBusMessage \<Rightarrow> br_obj SoftBusMessage \<Rightarrow> int" where
  "BrCompareManagerLooperEventFunc msg ctx =
     (if sm_what msg \<noteq> sm_what ctx then COMPARE_FAILED
      else if sm_what ctx = MSG_CONNECT_TIMEOUT then (if sm_arg1 msg = sm_arg1 ctx then COMPARE_SUCCESS else COMPARE_FAILED)
      else if sm_what ctx = MSG_UNPEND then
        (case (sm_obj msg, sm_obj ctx) of
           (Some (AddressObj a), Some (AddressObj b)) \<Rightarrow> if same_addr a b then COMPARE_SUCCESS else COMPARE_FAILED
         | _ \<Rightarrow> COMPARE_FAILED)
      else if sm_arg1 ctx \<noteq> 0 \<or> sm_arg2 ctx \<noteq> 0 \<or> sm_obj ctx \<noteq> None then COMPARE_FAILED
      else COMPARE_SUCCESS)"

definition BrCompareConnectionLooperEventFunc :: "br_obj SoftBusMessage \<Rightarrow> br_obj SoftBusMessage \<Rightarrow> int" where
  "BrCompareConnectionLooperEventFunc msg ctx =
     (if sm_what msg \<noteq> sm_what ctx then COMPARE_FAILED
      else if sm_what ctx = MSG_CONNECTION_WAIT_NEGOTIATION_CLOSING_TIMEOUT \<or> sm_what ctx = MSG_CONNECTION_UPDATE_PEER_RC \<or>
              sm_what ctx = MSG_CONNECTION_OCCUPY_RELEASE \<or> sm_what ctx = MSG_CONNECTION_UPDATE_LOCAL_RC
      then (if sm_arg1 msg = sm_arg1 ctx then COMPARE_SUCCESS else COMPARE_FAILED)
      else if sm_arg1 ctx \<noteq> 0 \<or> sm_arg2 ctx \<noteq> 0 \<or> sm_obj ctx \<noteq> None then COMPARE_FAILED
      else COMPARE_SUCCESS)"

definition post :: "nat \<Rightarrow> int \<Rightarrow> nat \<Rightarrow> nat \<Rightarrow> br_obj option \<Rightarrow> nat \<Rightarrow> ('d, int) br_prog" where
  "post wrapper what arg1 arg2 ob delayMillis =
     bnd (draw oc_oks) (\<lambda>ok. bnd (draw oc_now) (\<lambda>now. \<lambda>s.
     Some (map_sum id (\<lambda>(r, lp). (r, s\<lparr>nd_looper := lp\<rparr>))
       (ConnPostMsgToLooper (ok 0) (\<lambda>i. ok (Suc i)) now wrapper what arg1 arg2 ob delayMillis (nd_looper s)))))"

definition unpost :: "nat \<Rightarrow> int \<Rightarrow> nat \<Rightarrow> nat \<Rightarrow> br_obj option \<Rightarrow> ('d, unit) br_prog" where
  "unpost wrapper what arg1 arg2 ob =
     bnd succeeds (\<lambda>lockOk. \<lambda>s.
     Some (map_sum id (\<lambda>lp. ((), s\<lparr>nd_looper := lp\<rparr>))
       (ConnRemoveMsgFromLooper lockOk wrapper
          (if wrapper = g_brManagerAsyncHandler then BrCompareManagerLooperEventFunc else BrCompareConnectionLooperEventFunc)
          what arg1 arg2 ob (nd_looper s))))"

definition ignore :: "('s, 'a) prog \<Rightarrow> ('s, unit) prog" where
  "ignore m = seq m (ret ())"

definition pack :: "BrCtlMessageSerializationContext \<Rightarrow> ('d, int \<times> bytes option) br_prog" where
  "pack ctx =
     bnd (draw oc_packs) (\<lambda>env. \<lambda>s.
     case ConnBrPackCtlMessage (bp_host (nd_plat s)) (bp_print (nd_plat s)) env (bw_gen (nd_world s)) ctx of
       (q, data, gen) \<Rightarrow> Some (Inr ((q, data), s\<lparr>nd_world := (nd_world s)\<lparr>bw_gen := gen\<rparr>\<rparr>)))"

definition post_bytes :: "nat \<Rightarrow> bytes option \<Rightarrow> int \<Rightarrow> int \<Rightarrow> int \<Rightarrow> int \<Rightarrow> ('d, int) br_prog" where
  "post_bytes connectionId data pid flag modul q =
     bnd (draw oc_posts) (\<lambda>env. on_world (ConnBrPostBytes env connectionId data pid flag modul q))"

section \<open>The listener of the connection module\<close>

definition OnServerAccepted :: "nat \<Rightarrow> ('d, unit) br_prog" where
  "OnServerAccepted connectionId = ignore (post g_brManagerAsyncHandler MSG_SERVER_ACCEPTED connectionId 0 None 0)"

definition OnClientConnected :: "nat \<Rightarrow> ('d, unit) br_prog" where
  "OnClientConnected connectionId = ignore (post g_brManagerAsyncHandler MSG_CONNECT_SUCCESS connectionId 0 None 0)"

text \<open>The last non-zero result in list order; new results are put at the front, so it is the one reported first.\<close>

fun last_error :: "(int \<times> int) list \<Rightarrow> int \<Rightarrow> int" where
  "last_error [] result = result"
| "last_error ((status, r) # rest) result = last_error rest (if r \<noteq> 0 then r else result)"

definition IsNeedWaitCallbackError :: "nat \<Rightarrow> int \<Rightarrow> ('d, bool \<times> int) br_prog" where
  "IsNeedWaitCallbackError connectionId error =
     bnd (get_by_id connectionId) (\<lambda>connection.
     case connection of None \<Rightarrow> ret (False, error)
     | Some a \<Rightarrow>
       bnd succeeds (\<lambda>lockOk.
       if \<not> lockOk then seq (give_back a) (ret (False, error))
       else bnd (conn a) (\<lambda>c.
         let result = last_error (bc_connectProcessStatus c) 0
         in seq (give_back a)
              (if result > 0 \<and> result \<le> CONN_BR_CONNECT_UNDERLAYER_ERROR_UNDEFINED
               then ret (False, SOFTBUS_CONN_BR_UNDERLAYBASE_ERR + result)
               else ret (True, error)))))"

definition OnClientConnectFailed :: "nat \<Rightarrow> int \<Rightarrow> ('d, unit) br_prog" where
  "OnClientConnectFailed connectionId error =
     bnd succeeds (\<lambda>callocOk.
     if \<not> callocOk then ret ()
     else bnd (IsNeedWaitCallbackError connectionId error) (\<lambda>(needWait, error).
       ignore (post g_brManagerAsyncHandler MSG_CONNECT_FAIL connectionId 0 (Some (ErrorObj connectionId error))
         (if needWait then BR_CONNECT_WAIT_CALLBACK_TIMEOUT_MAX_MILLIS else 0))))"

definition OnDataReceived :: "nat \<Rightarrow> bytes \<Rightarrow> ('d, unit) br_prog" where
  "OnDataReceived connectionId data =
     bnd succeeds (\<lambda>callocOk.
     if \<not> callocOk then ret ()
     else ignore (post g_brManagerAsyncHandler MSG_DATA_RECEIVED 0 0 (Some (DataObj connectionId data)) 0))"

definition OnConnectionException :: "nat \<Rightarrow> int \<Rightarrow> ('d, unit) br_prog" where
  "OnConnectionException connectionId error =
     bnd succeeds (\<lambda>callocOk.
     if \<not> callocOk then ret ()
     else ignore (post g_brManagerAsyncHandler MSG_CONNECTION_EXECEPTION connectionId 0 (Some (ErrorObj connectionId error)) 0))"

definition OnConnectionResume :: "nat \<Rightarrow> ('d, unit) br_prog" where
  "OnConnectionResume connectionId = ignore (post g_brManagerAsyncHandler MSG_CONNECTION_RESUME connectionId 0 None 0)"

section \<open>Occupation\<close>

definition ConnBrOccupy :: "nat option \<Rightarrow> ('d, unit) br_prog" where
  "ConnBrOccupy connection =
     (case connection of None \<Rightarrow> ret ()
      | Some a \<Rightarrow>
        bnd succeeds (\<lambda>lockOk.
        if \<not> lockOk then ret ()
        else bnd (conn a) (\<lambda>c.
          seq (unpost g_brConnectionAsyncHandler MSG_CONNECTION_OCCUPY_RELEASE (bc_connectionId c) 0 None)
          (bnd (post g_brConnectionAsyncHandler MSG_CONNECTION_OCCUPY_RELEASE (bc_connectionId c) 0 None WAIT_TIMEOUT_OCCUPY) (\<lambda>r.
           if r \<noteq> SOFTBUS_OK then ret () else update_conn a (\<lambda>c. c\<lparr>bc_isOccupied := True\<rparr>))))))"

definition BrOnOccupyRelease :: "nat \<Rightarrow> ('d, unit) br_prog" where
  "BrOnOccupyRelease connectionId =
     bnd (get_by_id connectionId) (\<lambda>connection.
     case connection of None \<Rightarrow> ret ()
     | Some a \<Rightarrow>
       bnd succeeds (\<lambda>lockOk.
       if \<not> lockOk then give_back a
       else seq (update_conn a (\<lambda>c. c\<lparr>bc_isOccupied := False\<rparr>)) (give_back a)))"

section \<open>Disconnection\<close>

definition ConnBrDisconnectNow :: "nat \<Rightarrow> ('d, int) br_prog" where
  "ConnBrDisconnectNow a =
     bnd succeeds (\<lambda>lockOk.
     if \<not> lockOk then ret SOFTBUS_LOCK_ERR
     else bnd (conn a) (\<lambda>c.
       let socketHandle = bc_socketHandle c
       in if socketHandle = INVALID_SOCKET_HANDLE
          then seq (update_conn a (\<lambda>c. c\<lparr>bc_state := BR_CONNECTION_STATE_CLOSED\<rparr>)) (ret SOFTBUS_OK)
          else
            seq (update_conn a (\<lambda>c. c\<lparr>bc_socketHandle := INVALID_SOCKET_HANDLE, bc_state := BR_CONNECTION_STATE_CONNECTING\<rparr>))
            (seq (on_driver (\<lambda>spp. sd_DisConnect spp socketHandle))
            (bnd succeeds (\<lambda>lockOk.
             if \<not> lockOk then ret SOFTBUS_LOCK_ERR
             else seq (update_conn a (\<lambda>c. c\<lparr>bc_state := BR_CONNECTION_STATE_CLOSED\<rparr>)) (ret SOFTBUS_OK))))))"

section \<open>Reference counts\<close>

definition NotifyUpdateConnectionRc :: "nat \<Rightarrow> int \<Rightarrow> ('d, int) br_prog" where
  "NotifyUpdateConnectionRc connectionId deltaRc =
     bnd (get_by_id connectionId) (\<lambda>connection.
     case connection of None \<Rightarrow> ret SOFTBUS_INVALID_PARAM
     | Some a \<Rightarrow>
       bnd succeeds (\<lambda>lockOk.
       if \<not> lockOk then seq (give_back a) (ret SOFTBUS_LOCK_ERR)
       else
         seq (update_conn a (\<lambda>c. c\<lparr>bc_connectionRc := s32 (bc_connectionRc c + deltaRc)\<rparr>))
         (bnd (conn a) (\<lambda>c.
          seq (if bc_connectionRc c \<le> 0 then
                 seq (update_conn a (\<lambda>c. c\<lparr>bc_state := BR_CONNECTION_STATE_NEGOTIATION_CLOSING\<rparr>))
                   (ignore (post g_brConnectionAsyncHandler MSG_CONNECTION_WAIT_NEGOTIATION_CLOSING_TIMEOUT connectionId 0 None
                      WAIT_BR_NEGOTIATION_CLOSING_TIMEOUT_MILLIS))
               else ret ())
          (let flag = (if deltaRc \<ge> 0 then CONN_HIGH else CONN_LOW);
               ctx = \<lparr>cm_connectionId = connectionId, cm_flag = flag, cm_message = NotifyRequest deltaRc (bc_connectionRc c)\<rparr>
           in seq (give_back a)
              (bnd (pack ctx) (\<lambda>(q, data).
               if q < 0 then ret (s32 q) else post_bytes connectionId data 0 flag MODULE_CONNECTION q)))))))"

definition BrUpdateConnectionRc :: "nat \<Rightarrow> int \<Rightarrow> ('d, int) br_prog" where
  "BrUpdateConnectionRc connectionId deltaRc =
     bnd (get_by_id connectionId) (\<lambda>connection.
     case connection of None \<Rightarrow> ret SOFTBUS_INVALID_PARAM
     | Some a \<Rightarrow>
       bnd succeeds (\<lambda>lockOk.
       if \<not> lockOk then seq (give_back a) (ret SOFTBUS_LOCK_ERR)
       else bnd (conn a) (\<lambda>c.
         let isOccupied = bc_isOccupied c
         in seq (give_back a)
            (if deltaRc < 0 \<and> isOccupied
             then post g_brConnectionAsyncHandler MSG_CONNECTION_UPDATE_LOCAL_RC connectionId (u64_of_int deltaRc) None WAIT_TIMEOUT_TRY_AGAIN
             else NotifyUpdateConnectionRc connectionId deltaRc))))"

definition ConnBrUpdateConnectionRc :: "nat option \<Rightarrow> int \<Rightarrow> ('d, int) br_prog" where
  "ConnBrUpdateConnectionRc connection deltaRc =
     (case connection of None \<Rightarrow> ret SOFTBUS_INVALID_PARAM
      | Some a \<Rightarrow> bnd (conn a) (\<lambda>c. BrUpdateConnectionRc (bc_connectionId c) deltaRc))"

definition BrPostReplyMessage :: "nat \<Rightarrow> int \<Rightarrow> ('d, int) br_prog" where
  "BrPostReplyMessage connectionId localRc =
     bnd (pack \<lparr>cm_connectionId = connectionId, cm_flag = CONN_HIGH, cm_message = NotifyResponse localRc\<rparr>) (\<lambda>(q, data).
     if q < 0 then ret (s32 q) else post_bytes connectionId data 0 CONN_HIGH MODULE_CONNECTION q)"

text \<open>The connection is needed again: the closing timeout is taken back and the manager is told.\<close>

definition resume_closing :: "nat \<Rightarrow> nat \<Rightarrow> ('d, unit) br_prog" where
  "resume_closing a connectionId =
     seq (unpost g_brConnectionAsyncHandler MSG_CONNECTION_WAIT_NEGOTIATION_CLOSING_TIMEOUT connectionId 0 None)
     (seq (update_conn a (\<lambda>c. c\<lparr>bc_state := BR_CONNECTION_STATE_CONNECTED\<rparr>)) (OnConnectionResume connectionId))"

definition NotifyReferenceRequest :: "nat \<Rightarrow> int \<Rightarrow> int \<Rightarrow> ('d, int) br_prog" where
  "NotifyReferenceRequest connectionId deltaRc peerRc =
     bnd (get_by_id connectionId) (\<lambda>connection.
     case connection of None \<Rightarrow> ret SOFTBUS_INVALID_PARAM
     | Some a \<Rightarrow>
       bnd succeeds (\<lambda>lockOk.
       if \<not> lockOk then seq (give_back a) (ret SOFTBUS_LOCK_ERR)
       else
         seq (update_conn a (\<lambda>c. c\<lparr>bc_connectionRc := s32 (bc_connectionRc c + deltaRc)\<rparr>))
         (bnd (conn a) (\<lambda>c.
          let localRc = bc_connectionRc c
          in if peerRc > 0 then
               seq (if localRc = 0
                    then ignore (post g_brConnectionAsyncHandler MSG_CONNECTION_RETRY_NOTIFY_REFERENCE connectionId 0 None
                           RETRY_NOTIFY_REFERENCE_DELAY_MILLIS)
                    else ret ())
               (seq (if bc_state c = BR_CONNECTION_STATE_NEGOTIATION_CLOSING then resume_closing a connectionId else ret ())
               (seq (give_back a) (ret SOFTBUS_OK)))
             else if localRc \<le> 0 then
               seq (update_conn a (\<lambda>c. c\<lparr>bc_state := BR_CONNECTION_STATE_CLOSING\<rparr>))
               (seq (ConnBrDisconnectNow a) (seq (give_back a) (ret SOFTBUS_OK)))
             else seq (give_back a) (BrPostReplyMessage connectionId localRc)))))"

definition BrOnReferenceRequest :: "nat \<Rightarrow> int \<Rightarrow> int \<Rightarrow> ('d, int) br_prog" where
  "BrOnReferenceRequest connectionId deltaRc peerRc =
     bnd (get_by_id connectionId) (\<lambda>connection.
     case connection of None \<Rightarrow> ret SOFTBUS_INVALID_PARAM
     | Some a \<Rightarrow>
       bnd succeeds (\<lambda>lockOk.
       if \<not> lockOk then seq (give_back a) (ret SOFTBUS_LOCK_ERR)
       else bnd (conn a) (\<lambda>c.
         let isOccupied = bc_isOccupied c
         in seq (give_back a)
            (if deltaRc < 0 \<and> isOccupied then
               bnd succeeds (\<lambda>mallocOk.
               if \<not> mallocOk then ret SOFTBUS_MALLOC_ERR
               else post g_brConnectionAsyncHandler MSG_CONNECTION_UPDATE_PEER_RC connectionId 0 (Some (ReferenceObj deltaRc peerRc))
                      WAIT_TIMEOUT_TRY_AGAIN)
             else NotifyReferenceRequest connectionId deltaRc peerRc))))"

definition from_json :: "(fault + 'a) \<Rightarrow> ('d, 'a) br_prog" where
  "from_json r = (case r of Inl f \<Rightarrow> crash f | Inr x \<Rightarrow> ret x)"

definition ConnBrOnReferenceRequest :: "nat \<Rightarrow> json_object \<Rightarrow> ('d, int) br_prog" where
  "ConnBrOnReferenceRequest a json =
     bnd (from_json (GetJsonObjectSignedNumberItem json KEY_DELTA)) (\<lambda>deltaRc.
     case deltaRc of None \<Rightarrow> ret SOFTBUS_PARSE_JSON_ERR
     | Some deltaRc \<Rightarrow>
       bnd (from_json (GetJsonObjectSignedNumberItem json KEY_REFERENCE_NUM)) (\<lambda>peerRc.
       case peerRc of None \<Rightarrow> ret SOFTBUS_PARSE_JSON_ERR
       | Some peerRc \<Rightarrow> bnd (conn a) (\<lambda>c. BrOnReferenceRequest (bc_connectionId c) deltaRc peerRc)))"

definition ConnBrOnReferenceResponse :: "nat option \<Rightarrow> json_object \<Rightarrow> ('d, int) br_prog" where
  "ConnBrOnReferenceResponse connection json =
     (case connection of None \<Rightarrow> ret SOFTBUS_INVALID_PARAM
      | Some a \<Rightarrow>
        bnd (from_json (GetJsonObjectSignedNumberItem json KEY_REFERENCE_NUM)) (\<lambda>peerRc.
        case peerRc of None \<Rightarrow> ret SOFTBUS_PARSE_JSON_ERR
        | Some peerRc \<Rightarrow>
          bnd succeeds (\<lambda>lockOk.
          if \<not> lockOk then ret SOFTBUS_LOCK_ERR
          else bnd (conn a) (\<lambda>c.
            seq (if peerRc > 0 \<and> bc_state c = BR_CONNECTION_STATE_NEGOTIATION_CLOSING
                 then resume_closing a (bc_connectionId c) else ret ())
            (ret SOFTBUS_OK)))))"

section \<open>The message handler\<close>

definition WaitNegotiationClosingTimeoutHandler :: "nat \<Rightarrow> ('d, unit) br_prog" where
  "WaitNegotiationClosingTimeoutHandler connectionId =
     bnd (get_by_id connectionId) (\<lambda>connection.
     case connection of None \<Rightarrow> ret ()
     | Some a \<Rightarrow>
       bnd succeeds (\<lambda>lockOk.
       if \<not> lockOk then give_back a
       else bnd (conn a) (\<lambda>c.
         seq (if bc_state c = BR_CONNECTION_STATE_NEGOTIATION_CLOSING then ignore (ConnBrDisconnectNow a) else ret ()) (give_back a))))"

definition RetryNotifyReferenceHandler :: "nat \<Rightarrow> ('d, unit) br_prog" where
  "RetryNotifyReferenceHandler connectionId =
     bnd (get_by_id connectionId) (\<lambda>connection.
     case connection of None \<Rightarrow> ret ()
     | Some a \<Rightarrow> seq (ConnBrUpdateConnectionRc (Some a) 0) (give_back a))"

definition ReportConnectExceptionHandler :: "nat \<Rightarrow> int \<Rightarrow> ('d, unit) br_prog" where
  "ReportConnectExceptionHandler u64Mac errorCode =
     (case ConvertU64MacToStr (word_of_nat u64Mac) (Some (replicate BT_MAC_LEN 0)) BT_MAC_LEN of
        Inl f \<Rightarrow> crash f
      | Inr (r, brMac) \<Rightarrow>
          if r \<noteq> SOFTBUS_OK then ret () else call (LnnDCReportConnectException (addr_text (the brMac)) errorCode))"

definition BrConnectionMsgHandler :: "br_obj SoftBusMessage \<Rightarrow> ('d, unit) br_prog" where
  "BrConnectionMsgHandler msg =
     (if sm_what msg = MSG_CONNECTION_WAIT_NEGOTIATION_CLOSING_TIMEOUT then WaitNegotiationClosingTimeoutHandler (u32 (sm_arg1 msg))
      else if sm_what msg = MSG_CONNECTION_RETRY_NOTIFY_REFERENCE then RetryNotifyReferenceHandler (u32 (sm_arg1 msg))
      else if sm_what msg = MSG_CONNECTION_REPORT_CONNECT_EXCEPTION
        then ReportConnectExceptionHandler (sm_arg1 msg) (s32 (int (sm_arg2 msg)))
      else if sm_what msg = MSG_CONNECTION_OCCUPY_RELEASE then BrOnOccupyRelease (u32 (sm_arg1 msg))
      else if sm_what msg = MSG_CONNECTION_UPDATE_LOCAL_RC
        then ignore (BrUpdateConnectionRc (u32 (sm_arg1 msg)) (s32 (int (sm_arg2 msg))))
      else if sm_what msg = MSG_CONNECTION_UPDATE_PEER_RC then
        (case sm_obj msg of
           Some (ReferenceObj deltaRc peerRc) \<Rightarrow> ignore (BrOnReferenceRequest (u32 (sm_arg1 msg)) deltaRc peerRc)
         | _ \<Rightarrow> crash InvalidPointer)
      else ret ())"

section \<open>Client and server threads\<close>

text \<open>The status callback of the driver; \<open>bdAddr\<close> are the six bytes of the address.\<close>

definition BrConnectStatusCallback :: "bytes \<Rightarrow> int \<Rightarrow> int \<Rightarrow> ('d, unit) br_prog" where
  "BrConnectStatusCallback bdAddr status result =
     (case ConvertBtMacToStr (Some (replicate BT_MAC_LEN 0)) BT_MAC_LEN (Some bdAddr) BT_ADDR_LEN of
        Inl f \<Rightarrow> crash f
      | Inr (r, copyMac) \<Rightarrow>
          if r \<noteq> SOFTBUS_OK then ret ()
          else
            seq (if result \<noteq> SOFTBUS_OK then
                   bnd succeeds (\<lambda>mallocOk.
                   case ConvertBtMacToU64 mallocOk copyMac BT_MAC_LEN True of
                     Inl f \<Rightarrow> crash f
                   | Inr (r, u64Mac) \<Rightarrow>
                       if r = SOFTBUS_OK
                       then ignore (post g_brConnectionAsyncHandler MSG_CONNECTION_REPORT_CONNECT_EXCEPTION (unat (the u64Mac))
                              (u64_of_int result) None 0)
                       else ret ())
                 else ret ())
            (bnd (get_by_addr (addr_text (the copyMac)) CONN_SIDE_CLIENT) (\<lambda>connection.
             case connection of None \<Rightarrow> ret ()
             | Some a \<Rightarrow>
               bnd succeeds (\<lambda>callocOk.
               if \<not> callocOk then give_back a
               else seq (update_conn a (\<lambda>c. c\<lparr>bc_connectProcessStatus := (status, result) # bc_connectProcessStatus c\<rparr>)) (give_back a)))))"

definition ConnBrConnect :: "nat \<Rightarrow> ('d, int) br_prog" where
  "ConnBrConnect a =
     bnd succeeds (\<lambda>callocOk.
     if \<not> callocOk then ret SOFTBUS_LOCK_ERR
     else bnd (conn a) (\<lambda>c. bnd (draw oc_status) (\<lambda>status.
       if status \<noteq> SOFTBUS_OK then ret status else seq (call (StartClientThread (bc_connectionId c))) (ret SOFTBUS_OK))))"

definition StartBrClientConnect :: "nat \<Rightarrow> ('d, int) br_prog" where
  "StartBrClientConnect a =
     bnd (conn a) (\<lambda>c. bnd succeeds (\<lambda>mallocOk.
     case ConvertBtMacToBinary mallocOk (Some (addr_array (bc_addr c))) BT_MAC_LEN (Some (replicate BT_ADDR_LEN 0)) BT_ADDR_LEN of
       Inl f \<Rightarrow> crash f
     | Inr (status, binaryAddr) \<Rightarrow>
         if status \<noteq> SOFTBUS_OK then ret SOFTBUS_CONN_BR_INVALID_ADDRESS_ERR
         else
           bnd (on_driver (\<lambda>spp. sd_Connect spp (the binaryAddr))) (\<lambda>socketHandle.
           if socketHandle \<le> INVALID_SOCKET_HANDLE then ret socketHandle
           else bnd succeeds (\<lambda>lockOk.
             if \<not> lockOk then seq (on_driver (\<lambda>spp. sd_DisConnect spp socketHandle)) (ret SOFTBUS_LOCK_ERR)
             else bnd (conn a) (\<lambda>c.
               if bc_state c \<noteq> BR_CONNECTION_STATE_CONNECTING then
                 seq (on_driver (\<lambda>spp. sd_DisConnect spp socketHandle))
                 (seq (update_conn a (\<lambda>c. c\<lparr>bc_state := BR_CONNECTION_STATE_CLOSED\<rparr>)) (ret SOFTBUS_CONN_BR_INTERNAL_ERR))
               else
                 seq (update_conn a (\<lambda>c. c\<lparr>bc_socketHandle := socketHandle, bc_state := BR_CONNECTION_STATE_CONNECTED\<rparr>))
                 (ret SOFTBUS_OK))))))"

text \<open>The client thread up to its read loop; the result is the connection it holds and will read from.\<close>

definition StartClientConnect :: "nat \<Rightarrow> ('d, nat option) br_prog" where
  "StartClientConnect connectionId =
     bnd (get_by_id connectionId) (\<lambda>connection.
     case connection of
       None \<Rightarrow> seq (OnClientConnectFailed connectionId SOFTBUS_CONN_BR_INTERNAL_ERR) (ret None)
     | Some a \<Rightarrow>
         bnd (StartBrClientConnect a) (\<lambda>r. bnd (conn a) (\<lambda>c.
         if r \<noteq> SOFTBUS_OK
         then seq (OnClientConnectFailed (bc_connectionId c) r) (seq (give_back a) (ret None))
         else seq (OnClientConnected (bc_connectionId c)) (ret (Some a)))))"

text \<open>What the client thread does when its read loop has returned \<open>r\<close>.\<close>

definition StartClientConnect_exit :: "nat \<Rightarrow> int \<Rightarrow> ('d, unit) br_prog" where
  "StartClientConnect_exit a r =
     bnd succeeds (\<lambda>lockOk. bnd (conn a) (\<lambda>c.
     seq (if \<not> lockOk then OnConnectionException (bc_connectionId c) SOFTBUS_LOCK_ERR
          else
            seq (if bc_socketHandle c \<noteq> INVALID_SOCKET_HANDLE then
                   seq (on_driver (\<lambda>spp. sd_DisConnect spp (bc_socketHandle c)))
                     (update_conn a (\<lambda>c. c\<lparr>bc_socketHandle := INVALID_SOCKET_HANDLE\<rparr>))
                 else ret ())
            (seq (update_conn a (\<lambda>c. c\<lparr>bc_state := if r = SOFTBUS_CONN_BR_UNDERLAY_SOCKET_CLOSED then BR_CONNECTION_STATE_CLOSED
                                                   else BR_CONNECTION_STATE_EXCEPTION\<rparr>))
               (OnConnectionException (bc_connectionId c) r)))
     (give_back a)))"

definition CreateAndSaveConnection :: "int \<Rightarrow> ('d, nat option) br_prog" where
  "CreateAndSaveConnection socketHandle =
     bnd (on_driver (\<lambda>spp. sd_GetRemoteDeviceInfo spp socketHandle)) (\<lambda>(r, remote).
     let drop_socket = seq (on_driver (\<lambda>spp. sd_DisConnect spp socketHandle)) (ret None)
     in if r \<noteq> SOFTBUS_OK then drop_socket
        else case ConvertBtMacToStr (Some (replicate BT_MAC_LEN 0)) BT_MAC_LEN (Some remote) BT_ADDR_LEN of
               Inl f \<Rightarrow> crash f
             | Inr (r, mac) \<Rightarrow>
                 if r \<noteq> SOFTBUS_OK then drop_socket
                 else
                   bnd (new_conn (addr_text (the mac)) CONN_SIDE_SERVER socketHandle) (\<lambda>connection.
                   case connection of None \<Rightarrow> drop_socket
                   | Some a \<Rightarrow>
                       bnd (save_conn a) (\<lambda>r.
                       if r \<noteq> SOFTBUS_OK
                       then seq (on_conns (\<lambda>s. Inr ((), s\<lparr>bo_heap := (bo_heap s)(a := None)\<rparr>))) drop_socket
                       else ret (Some a))))"

definition StartServerServe :: "int \<Rightarrow> ('d, nat option) br_prog" where
  "StartServerServe socketHandle =
     bnd (CreateAndSaveConnection socketHandle) (\<lambda>connection.
     case connection of None \<Rightarrow> ret None
     | Some a \<Rightarrow> bnd (conn a) (\<lambda>c. seq (OnServerAccepted (bc_connectionId c)) (ret (Some a))))"

text \<open>The result of the read loop is overwritten by that of the lock, so a closed socket is never told from an error.\<close>

definition StartServerServe_exit :: "nat \<Rightarrow> int \<Rightarrow> int \<Rightarrow> ('d, unit) br_prog" where
  "StartServerServe_exit a socketHandle r =
     bnd succeeds (\<lambda>lockOk. bnd (conn a) (\<lambda>c.
     let r = (if lockOk then SOFTBUS_OK else SOFTBUS_LOCK_ERR)
     in seq (if r \<noteq> SOFTBUS_OK then
               seq (on_driver (\<lambda>spp. sd_DisConnect spp socketHandle))
               (seq (update_conn a (\<lambda>c. c\<lparr>bc_socketHandle := INVALID_SOCKET_HANDLE\<rparr>))
                  (OnConnectionException (bc_connectionId c) r))
             else
               seq (if bc_socketHandle c \<noteq> INVALID_SOCKET_HANDLE then
                      seq (on_driver (\<lambda>spp. sd_DisConnect spp socketHandle))
                        (update_conn a (\<lambda>c. c\<lparr>bc_socketHandle := INVALID_SOCKET_HANDLE\<rparr>))
                    else ret ())
               (seq (update_conn a (\<lambda>c. c\<lparr>bc_state := if r = SOFTBUS_CONN_BR_UNDERLAY_SOCKET_CLOSED then BR_CONNECTION_STATE_CLOSED
                                                      else BR_CONNECTION_STATE_EXCEPTION\<rparr>))
                  (OnConnectionException (bc_connectionId c) r)))
        (give_back a)))"

section \<open>The server\<close>

definition server :: "nat \<Rightarrow> ('d, ServerState) br_prog" where
  "server p s = (case nd_servers s p of None \<Rightarrow> Some (Inl InvalidPointer) | Some v \<Rightarrow> Some (Inr (v, s)))"

definition put_server :: "nat \<Rightarrow> ServerState option \<Rightarrow> ('d, unit) br_prog" where
  "put_server p v = modify (\<lambda>s. s\<lparr>nd_servers := (nd_servers s)(p := v)\<rparr>)"

definition CheckBrServerStateAndOpenSppServer :: "nat \<Rightarrow> ('d, int) br_prog" where
  "CheckBrServerStateAndOpenSppServer p =
     bnd succeeds (\<lambda>lockOk.
     if \<not> lockOk then ret SOFTBUS_LOCK_ERR
     else bnd (server p) (\<lambda>v.
       if \<not> ss_available v then ret SOFTBUS_INVALID_PARAM
       else
         seq (if ss_serverId v \<noteq> - 1 then
                seq (on_driver (\<lambda>spp. sd_CloseSppServer spp (ss_serverId v))) (put_server p (Some (v\<lparr>ss_serverId := - 1\<rparr>)))
              else ret ())
         (bnd (on_driver sd_OpenSppServer) (\<lambda>serverId.
          if serverId = - 1 then ret SOFTBUS_CONN_BR_RETRY_OPEN_SERVER
          else bnd succeeds (\<lambda>lockOk.
            if \<not> lockOk then seq (on_driver (\<lambda>spp. sd_CloseSppServer spp serverId)) (ret SOFTBUS_LOCK_ERR)
            else bnd (server p) (\<lambda>v.
              if \<not> ss_available v then seq (on_driver (\<lambda>spp. sd_CloseSppServer spp serverId)) (ret SOFTBUS_INVALID_PARAM)
              else seq (put_server p (Some (v\<lparr>ss_serverId := serverId\<rparr>))) (ret SOFTBUS_OK)))))))"

text \<open>
  The listening task: a pass of its outer loop, which ends in a retry, in the end of the task or with an open server,
  and a pass of its inner loop, which says whether the loop goes on.
\<close>

datatype listen_pass = ListenRetries | ListenEnds | ListenAccepts int

definition ListenTask :: "nat option \<Rightarrow> ('d, listen_pass) br_prog" where
  "ListenTask arg =
     (case arg of None \<Rightarrow> ret ListenEnds
      | Some p \<Rightarrow>
        bnd (CheckBrServerStateAndOpenSppServer p) (\<lambda>status.
        if status = SOFTBUS_CONN_BR_RETRY_OPEN_SERVER then ret ListenRetries
        else if status \<noteq> SOFTBUS_OK then seq (put_server p None) (ret ListenEnds)
        else bnd succeeds (\<lambda>lockOk.
          if \<not> lockOk then ret ListenEnds
          else bnd (server p) (\<lambda>v. ret (ListenAccepts (ss_serverId v))))))"

definition ListenTask_accept :: "int \<Rightarrow> ('d, bool) br_prog" where
  "ListenTask_accept serverId =
     bnd (on_driver (\<lambda>spp. sd_Accept spp serverId)) (\<lambda>socketHandle.
     if socketHandle = SOFTBUS_CONN_BR_SPP_SERVER_ERR then ret False
     else bnd succeeds (\<lambda>callocOk.
       if \<not> callocOk then seq (on_driver (\<lambda>spp. sd_DisConnect spp socketHandle)) (ret True)
       else bnd (draw oc_status) (\<lambda>status.
         if status \<noteq> SOFTBUS_OK then seq (on_driver (\<lambda>spp. sd_DisConnect spp socketHandle)) (ret True)
         else seq (call (StartServeThread socketHandle)) (ret True))))"

text \<open>The objects of the server are allocated at the numbers \<open>traceIdGenerator\<close> gives them.\<close>

definition ConnBrStartServer :: "('d, int) br_prog" where
  "ConnBrStartServer =
     bnd (gets nd_serverState) (\<lambda>g.
     if g \<noteq> None then ret SOFTBUS_OK
     else bnd (draw oc_oks) (\<lambda>ok.
       if \<not> ok 0 then ret SOFTBUS_MEM_ERR
       else bnd (gets nd_traceId) (\<lambda>p.
         seq (modify (\<lambda>s. s\<lparr>nd_traceId := Suc p\<rparr>))
         (if \<not> ok 1 then ret SOFTBUS_LOCK_ERR
          else bnd (draw oc_status) (\<lambda>status.
            if status \<noteq> SOFTBUS_OK then ret status
            else
              seq (put_server p (Some \<lparr>ss_traceId = p, ss_available = True, ss_serverId = - 1\<rparr>))
              (seq (modify (\<lambda>s. s\<lparr>nd_serverState := Some p\<rparr>)) (ret SOFTBUS_OK)))))))"

definition ConnBrStopServer :: "('d, int) br_prog" where
  "ConnBrStopServer =
     bnd (gets nd_serverState) (\<lambda>g.
     case g of None \<Rightarrow> ret SOFTBUS_OK
     | Some p \<Rightarrow>
       bnd (server p) (\<lambda>v. bnd succeeds (\<lambda>lockOk.
       if \<not> lockOk then ret SOFTBUS_LOCK_ERR
       else
         seq (if ss_serverId v \<noteq> - 1 then ignore (on_driver (\<lambda>spp. sd_CloseSppServer spp (ss_serverId v))) else ret ())
         (seq (put_server p (Some (v\<lparr>ss_available := False, ss_serverId := - 1\<rparr>)))
         (seq (modify (\<lambda>s. s\<lparr>nd_serverState := None\<rparr>)) (ret SOFTBUS_OK))))))"

section \<open>Initialisation\<close>

abbreviation SOFTBUS_NO_INIT :: int where "SOFTBUS_NO_INIT \<equiv> - 426442746"
abbreviation MAX_BR_READ_BUFFER_CAPACITY :: int where "MAX_BR_READ_BUFFER_CAPACITY \<equiv> 40000"
abbreviation MAX_BR_MTU_SIZE :: int where "MAX_BR_MTU_SIZE \<equiv> 3072"

text \<open>The two configuration values, None where the configuration has none.\<close>

definition InitProperty :: "int option \<Rightarrow> int option \<Rightarrow> ('d, int) br_prog" where
  "InitProperty cap mtu =
     (case cap of None \<Rightarrow> ret SOFTBUS_NO_INIT
      | Some cap \<Rightarrow>
        if cap \<le> 0 \<or> cap > MAX_BR_READ_BUFFER_CAPACITY then ret SOFTBUS_NO_INIT
        else case mtu of None \<Rightarrow> ret SOFTBUS_NO_INIT
             | Some mtu \<Rightarrow>
               if mtu \<le> 0 \<or> mtu > MAX_BR_MTU_SIZE then ret SOFTBUS_NO_INIT
               else seq (modify (\<lambda>s. s\<lparr>nd_readBufferCapacity := cap, nd_mtuSize := mtu\<rparr>)) (ret SOFTBUS_OK))"

text \<open>\<open>given i\<close> says that the looper, the driver, the listener and each of its six functions is not null.\<close>

definition ConnBrConnectionMuduleInit :: "(nat \<Rightarrow> bool) \<Rightarrow> int option \<Rightarrow> int option \<Rightarrow> ('d, int) br_prog" where
  "ConnBrConnectionMuduleInit given cap mtu =
     (if \<not> (given 0 \<and> given 1 \<and> given 2 \<and> given 3 \<and> given 4 \<and> given 5 \<and> given 6 \<and> given 7 \<and> given 8) then ret SOFTBUS_INVALID_PARAM
      else bnd (InitProperty cap mtu) (\<lambda>status.
        if status \<noteq> SOFTBUS_OK then ret SOFTBUS_INVALID_PARAM else ret SOFTBUS_OK))"

end
