(* ===== verification/Br_Manager.thy ===== *)
theory Br_Manager
  imports Br_Connection
begin

text \<open>
  The BR manager, \<^verbatim>\<open>core/connection/br/src/softbus_conn_br_manager.c\<close>: requests to connect to a device are posted to the
  looper, wait in \<open>waitings\<close> grouped by device, and are scheduled one device at a time; the result of the connection
  attempt, or a connection that already exists, answers all requests of the device.

  The state machine has two states.  Handlers run on the looper; a device is a value with the number it was allocated
  at, and the pointer to the connecting device tells a freed device apart.  Events for statistics are left out.
\<close>

section \<open>Devices and requests\<close>

abbreviation SOFTBUS_CONN_BR_CONNECT_TIMEOUT_ERR :: int where "SOFTBUS_CONN_BR_CONNECT_TIMEOUT_ERR \<equiv> - 425918445"
abbreviation SOFTBUS_CONN_BLUETOOTH_OFF :: int where "SOFTBUS_CONN_BLUETOOTH_OFF \<equiv> - 425918449"
abbreviation SOFTBUS_CONN_BR_STATE_TURN_OFF :: int where "SOFTBUS_CONN_BR_STATE_TURN_OFF \<equiv> - 425918448"
abbreviation SOFTBUS_CONN_BR_UNDERLAY_CONNECT_FAIL :: int where "SOFTBUS_CONN_BR_UNDERLAY_CONNECT_FAIL \<equiv> - 425918441"
abbreviation SOFTBUS_STRCPY_ERR :: int where "SOFTBUS_STRCPY_ERR \<equiv> - 426442740"
abbreviation SOFTBUS_CREATE_LIST_ERR :: int where "SOFTBUS_CREATE_LIST_ERR \<equiv> - 426442693"
abbreviation BR_CONNECT_TIMEOUT_MIN_MILLIS :: nat where "BR_CONNECT_TIMEOUT_MIN_MILLIS \<equiv> 10000"
abbreviation BR_CONNECT_TIMEOUT_MAX_MILLIS :: nat where "BR_CONNECT_TIMEOUT_MAX_MILLIS \<equiv> 20000"
abbreviation BR_CONNECTION_PEND_TIMEOUT_MAX_MILLIS :: nat where "BR_CONNECTION_PEND_TIMEOUT_MAX_MILLIS \<equiv> 10000"
abbreviation BR_CONNECTION_ACL_RETRY_CONNECT_COLLISION_MILLIS :: nat where "BR_CONNECTION_ACL_RETRY_CONNECT_COLLISION_MILLIS \<equiv> 3000"
abbreviation BR_CONNECTION_ACL_CONNECT_COLLISION_MILLIS :: nat where "BR_CONNECTION_ACL_CONNECT_COLLISION_MILLIS \<equiv> 6000"
abbreviation MAX_RETRY_COUNT :: nat where "MAX_RETRY_COUNT \<equiv> 2"
abbreviation MODULE_NIP_BR_CHANNEL :: int where "MODULE_NIP_BR_CHANNEL \<equiv> 201"
abbreviation BR_NIP_SEQ :: "64 word" where "BR_NIP_SEQ \<equiv> 0xeaddeaddeaddeadd"
abbreviation CONN_BR_CONNECT_UNDERLAYER_ERROR_CONNECTION_EXISTS :: int where "CONN_BR_CONNECT_UNDERLAYER_ERROR_CONNECTION_EXISTS \<equiv> 11"
abbreviation CONN_BR_CONNECT_UNDERLAYER_ERROR_CONTROLLER_BUSY :: int where "CONN_BR_CONNECT_UNDERLAYER_ERROR_CONTROLLER_BUSY \<equiv> 58"
abbreviation CONN_BR_CONNECT_UNDERLAYER_ERROR_CONN_SDP_BUSY :: int where "CONN_BR_CONNECT_UNDERLAYER_ERROR_CONN_SDP_BUSY \<equiv> 82"
abbreviation CONN_BR_CONNECT_UNDERLAYER_ERROR_CONN_AUTH_FAILED :: int where "CONN_BR_CONNECT_UNDERLAYER_ERROR_CONN_AUTH_FAILED \<equiv> 86"
abbreviation CONN_BR_CONNECT_UNDERLAYER_ERROR_CONN_RFCOM_DM :: int where "CONN_BR_CONNECT_UNDERLAYER_ERROR_CONN_RFCOM_DM \<equiv> 88"

text \<open>A device is allocated at the number of the question asked of the oracle.\<close>

definition NewDevice :: "string \<Rightarrow> ('d, int \<times> ConnBrDevice option) br_prog" where
  "NewDevice addr =
     bnd (gets nd_tick) (\<lambda>place. bnd succeeds (\<lambda>callocOk.
     if \<not> callocOk then ret (SOFTBUS_MALLOC_ERR, None)
     else ret (SOFTBUS_OK, Some \<lparr>dv_at = place, dv_addr = addr, dv_state = BR_DEVICE_STATE_INIT, dv_requests = [], dv_connectionId = 0,
            dv_waitTimeoutDelay = 0, dv_keepAliveBleRequestId = 0, dv_keepAliveBleConnectionId = 0\<rparr>)))"

text \<open>Freeing a device takes it off the list it is on; a pointer to it dangles.\<close>

definition FreeDevice :: "ConnBrDevice \<Rightarrow> ('d, unit) br_prog" where
  "FreeDevice device = modify (\<lambda>s. s\<lparr>
     nd_waitings := filter (\<lambda>it. dv_at it \<noteq> dv_at device) (nd_waitings s),
     nd_connecting := (case nd_connecting s of Device d \<Rightarrow> if dv_at d = dv_at device then FreedDevice else Device d | p \<Rightarrow> p)\<rparr>)"

definition NewRequest :: "nat \<Rightarrow> nat \<Rightarrow> ('d, int \<times> ConnBrRequest option) br_prog" where
  "NewRequest requestId result =
     bnd succeeds (\<lambda>callocOk.
     if \<not> callocOk then ret (SOFTBUS_MALLOC_ERR, None)
     else ret (SOFTBUS_OK, Some \<lparr>rq_requestId = requestId, rq_result = result\<rparr>))"

definition Convert2ConnectionInfo :: "ConnBrConnection \<Rightarrow> ConnectionInfo" where
  "Convert2ConnectionInfo connection =
     \<lparr>ci_isAvailable = (bc_state connection = BR_CONNECTION_STATE_CONNECTED), ci_isServer = (bc_side connection = CONN_SIDE_SERVER),
      ci_type = CONNECT_BR, ci_brMac = bc_addr connection\<rparr>"

definition ConvertCtxToDevice :: "ConnBrConnectRequestContext \<Rightarrow> ('d, int \<times> ConnBrDevice option) br_prog" where
  "ConvertCtxToDevice ctx =
     bnd (NewRequest (cc_requestId ctx) (cc_result ctx)) (\<lambda>(status, request).
     case request of None \<Rightarrow> ret (status, None)
     | Some request \<Rightarrow>
       bnd (NewDevice (cc_addr ctx)) (\<lambda>(status, device).
       case device of None \<Rightarrow> ret (status, None)
       | Some device \<Rightarrow>
         ret (SOFTBUS_OK, Some (device\<lparr>dv_connectionId := cc_connectionId ctx, dv_waitTimeoutDelay := cc_waitTimeoutDelay ctx,
                dv_requests := [request]\<rparr>))))"

text \<open>The pointer to the connecting device is followed; a freed device is a fault.\<close>

definition connecting :: "('d, ConnBrDevice option) br_prog" where
  "connecting =
     bnd (gets nd_connecting) (\<lambda>p. case p of NoDevice \<Rightarrow> ret None | Device d \<Rightarrow> ret (Some d) | FreedDevice \<Rightarrow> crash InvalidPointer)"

definition set_connecting :: "device_pointer \<Rightarrow> ('d, unit) br_prog" where
  "set_connecting p = modify (\<lambda>s. s\<lparr>nd_connecting := p\<rparr>)"

definition next_cmd :: "('d, unit) br_prog" where
  "next_cmd = ignore (post g_brManagerAsyncHandler MSG_NEXT_CMD 0 0 None 0)"

section \<open>States\<close>

definition EnterAvailableState :: "('d, unit) br_prog" where
  "EnterAvailableState = next_cmd"

definition TransitionToState :: "BrServerState \<Rightarrow> ('d, unit) br_prog" where
  "TransitionToState target =
     bnd (gets nd_state) (\<lambda>st.
     if st = Some target then ret ()
     else seq (modify (\<lambda>s. s\<lparr>nd_state := Some target\<rparr>))
            (case target of BR_STATE_AVAILABLE \<Rightarrow> EnterAvailableState | BR_STATE_CONNECTING \<Rightarrow> ret ()))"

section \<open>Answering\<close>

fun notify_success :: "nat \<Rightarrow> ConnectionInfo \<Rightarrow> ConnBrRequest list \<Rightarrow> bool \<Rightarrow> ('d, unit) br_prog" where
  "notify_success a info [] isReuse = ret ()"
| "notify_success a info (it # rest) isReuse =
     seq (if isReuse then ignore (ConnBrUpdateConnectionRc (Some a) 1) else ret ())
     (bnd (conn a) (\<lambda>c.
      seq (call (OnConnectSuccessed (rq_result it) (rq_requestId it) (bc_connectionId c) info))
        (notify_success a info rest True)))"

definition NotifyDeviceConnectResult :: "ConnBrDevice \<Rightarrow> nat option \<Rightarrow> bool \<Rightarrow> int \<Rightarrow> ('d, unit) br_prog" where
  "NotifyDeviceConnectResult device connection isReuse reason =
     seq (call (ConnBleRemoveKeepAlive (dv_keepAliveBleConnectionId device) (dv_keepAliveBleRequestId device)))
     (case connection of
        None \<Rightarrow> each (\<lambda>it. call (OnConnectFailed (rq_result it) (rq_requestId it) reason)) (dv_requests device)
      | Some a \<Rightarrow>
          bnd (conn a) (\<lambda>c.
          seq (if reason = 0 then call (NipConnectDevice (bc_connectionId c) (bc_addr c)) else call (NipDisconnectDevice (bc_connectionId c)))
          (let info = Convert2ConnectionInfo c
           in seq (call (LnnDCClearConnectException (ci_brMac info)))
                (notify_success a info (dv_requests device) isReuse))))"

section \<open>Connecting\<close>

definition KeepAliveBleIfSameAddress :: "ConnBrDevice \<Rightarrow> ('d, ConnBrDevice) br_prog" where
  "KeepAliveBleIfSameAddress device =
     bnd (draw oc_ble) (\<lambda>bleConnection.
     case bleConnection of None \<Rightarrow> ret device
     | Some connectionId \<Rightarrow>
       bnd (draw oc_requestId) (\<lambda>requestId.
       seq (call (ConnBleKeepAlive connectionId requestId))
         (ret (device\<lparr>dv_keepAliveBleRequestId := requestId, dv_keepAliveBleConnectionId := connectionId\<rparr>))))"

definition connect_timeout :: "nat \<Rightarrow> nat" where
  "connect_timeout delay =
     (if delay < BR_CONNECT_TIMEOUT_MIN_MILLIS then BR_CONNECT_TIMEOUT_MIN_MILLIS
      else if delay > BR_CONNECT_TIMEOUT_MAX_MILLIS then BR_CONNECT_TIMEOUT_MAX_MILLIS
      else delay)"

text \<open>The steps up to the transition; the first that fails ends them with its status.\<close>

definition connect_steps :: "ConnBrDevice \<Rightarrow> nat \<Rightarrow> ('d, int) br_prog" where
  "connect_steps device a =
     bnd succeeds (\<lambda>callocOk.
     if \<not> callocOk \<or> length (dv_addr device) \<ge> BT_MAC_LEN then ret SOFTBUS_MEM_ERR
     else bnd (save_conn a) (\<lambda>status.
     if status \<noteq> SOFTBUS_OK then ret status
     else bnd (ConnBrConnect a) (\<lambda>status.
     if status \<noteq> SOFTBUS_OK then ret status
     else
       seq (set_connecting (Device device))
       (bnd (conn a) (\<lambda>c.
        bnd (post g_brManagerAsyncHandler MSG_CONNECT_TIMEOUT (bc_connectionId c) 0 (Some (AddressObj (dv_addr device)))
               (connect_timeout (dv_waitTimeoutDelay device))) (\<lambda>status.
        if status \<noteq> SOFTBUS_OK then ret status
        else seq (TransitionToState BR_STATE_CONNECTING) (ret SOFTBUS_OK)))))))"

definition ConnectDeviceDirectly :: "ConnBrDevice \<Rightarrow> ('d, int \<times> ConnBrDevice) br_prog" where
  "ConnectDeviceDirectly device =
     bnd (new_conn (dv_addr device) CONN_SIDE_CLIENT INVALID_SOCKET_HANDLE) (\<lambda>connection.
     case connection of None \<Rightarrow> ret (SOFTBUS_CONN_BR_INTERNAL_ERR, device)
     | Some a \<Rightarrow>
       bnd (KeepAliveBleIfSameAddress device) (\<lambda>device.
       bnd (connect_steps device a) (\<lambda>status.
       seq (if status \<noteq> SOFTBUS_OK then remove_conn a else ret ())
       (seq (give_back a) (ret (status, device))))))"

text \<open>
  A device waits, or joins the connecting or waiting device of the same address: its requests are put, one by one, in
  front of those of that device.
\<close>

definition join_requests :: "ConnBrDevice \<Rightarrow> ConnBrDevice \<Rightarrow> ConnBrDevice" where
  "join_requests device target = target\<lparr>dv_requests := rev (dv_requests device) @ dv_requests target\<rparr>"

fun join_waiting :: "ConnBrDevice \<Rightarrow> ConnBrDevice list \<Rightarrow> ConnBrDevice list" where
  "join_waiting device [] = [device]"
| "join_waiting device (it # rest) =
     (if same_addr (dv_addr it) (dv_addr device) then join_requests device it # rest else it # join_waiting device rest)"

definition PendingDevice :: "ConnBrDevice \<Rightarrow> ('d, int \<times> ConnBrDevice) br_prog" where
  "PendingDevice device =
     bnd connecting (\<lambda>connectingDevice.
     seq (case connectingDevice of
            Some d \<Rightarrow>
              if same_addr (dv_addr d) (dv_addr device) then set_connecting (Device (join_requests device d))
              else modify (\<lambda>s. s\<lparr>nd_waitings := join_waiting device (nd_waitings s)\<rparr>)
          | None \<Rightarrow> modify (\<lambda>s. s\<lparr>nd_waitings := join_waiting device (nd_waitings s)\<rparr>))
     (ret (SOFTBUS_OK, device)))"

definition BrReuseConnection :: "ConnBrDevice \<Rightarrow> nat \<Rightarrow> ('d, bool) br_prog" where
  "BrReuseConnection device a =
     bnd succeeds (\<lambda>lockOk.
     if \<not> lockOk then ret False
     else bnd (conn a) (\<lambda>c.
       if bc_state c \<noteq> BR_CONNECTION_STATE_CONNECTED then ret False
       else seq (NotifyDeviceConnectResult device (Some a) True 0) (ret True)))"

text \<open>The list of addresses on which connecting is suspended; an entry that has been freed is a fault.\<close>

fun find_pending :: "string \<Rightarrow> (string \<times> bool) list \<Rightarrow> fault + bool" where
  "find_pending addr [] = Inr False"
| "find_pending addr ((it, valid) # rest) =
     (if \<not> valid then Inl InvalidPointer else if same_addr it addr then Inr True else find_pending addr rest)"

definition pending_addr :: "string \<Rightarrow> ('d, bool) br_prog" where
  "pending_addr addr = bnd (gets nd_pendings) (\<lambda>ps. from_json (find_pending addr ps))"

definition CheckPending :: "string \<Rightarrow> ('d, bool) br_prog" where
  "CheckPending addr = bnd succeeds (\<lambda>lockOk. if \<not> lockOk then ret False else pending_addr addr)"

definition CheckPendingAndactionIfAbsent ::
  "ConnBrDevice \<Rightarrow> (ConnBrDevice \<Rightarrow> ('d, int \<times> ConnBrDevice) br_prog) \<Rightarrow> ('d, unit) br_prog" where
  "CheckPendingAndactionIfAbsent device actionIfAbsent =
     bnd (CheckPending (dv_addr device)) (\<lambda>pending.
     if pending then ignore (PendingDevice (device\<lparr>dv_state := BR_DEVICE_STATE_PENDING\<rparr>))
     else bnd (actionIfAbsent (device\<lparr>dv_state := BR_DEVICE_STATE_WAIT_SCHEDULE\<rparr>)) (\<lambda>(r, device).
       if r \<noteq> SOFTBUS_OK then seq (NotifyDeviceConnectResult device None False r) (FreeDevice device) else ret ()))"

definition give_back_if :: "nat option \<Rightarrow> ('d, unit) br_prog" where
  "give_back_if connection = (case connection of None \<Rightarrow> ret () | Some a \<Rightarrow> give_back a)"

definition reuse_if :: "ConnBrDevice \<Rightarrow> nat option \<Rightarrow> ('d, bool) br_prog" where
  "reuse_if device connection = (case connection of None \<Rightarrow> ret False | Some a \<Rightarrow> BrReuseConnection device a)"

definition AttempReuseConnect ::
  "ConnBrDevice \<Rightarrow> (ConnBrDevice \<Rightarrow> ('d, int \<times> ConnBrDevice) br_prog) \<Rightarrow> ('d, unit) br_prog" where
  "AttempReuseConnect device actionIfAbsent =
     bnd (get_by_addr (dv_addr device) CONN_SIDE_CLIENT) (\<lambda>clientConnection.
     bnd (get_by_addr (dv_addr device) CONN_SIDE_SERVER) (\<lambda>serverConnection.
     if clientConnection = None \<and> serverConnection = None then CheckPendingAndactionIfAbsent device actionIfAbsent
     else
       bnd (get_by_id (dv_connectionId device)) (\<lambda>connection.
       seq (bnd (case connection of None \<Rightarrow> ret False
                 | Some a \<Rightarrow> bnd (conn a) (\<lambda>c. if dv_addr device = bc_addr c then BrReuseConnection device a else ret False)) (\<lambda>reused.
            if reused then FreeDevice device
            else bnd (reuse_if device clientConnection) (\<lambda>reused.
            if reused then FreeDevice device
            else bnd (reuse_if device serverConnection) (\<lambda>reused.
            if reused then FreeDevice device
            else ignore (PendingDevice (device\<lparr>dv_state := BR_DEVICE_STATE_WAIT_EVENT\<rparr>))))))
       (seq (give_back_if clientConnection) (seq (give_back_if serverConnection) (give_back_if connection))))))"

section \<open>Requests\<close>

definition ConnectRequestOnAvailableState :: "ConnBrConnectRequestContext \<Rightarrow> ('d, unit) br_prog" where
  "ConnectRequestOnAvailableState ctx =
     bnd (gets nd_brStateTurnOn) (\<lambda>on.
     if \<not> on then call (OnConnectFailed (cc_result ctx) (cc_requestId ctx) SOFTBUS_CONN_BR_STATE_TURN_OFF)
     else bnd (ConvertCtxToDevice ctx) (\<lambda>(status, device).
       case device of None \<Rightarrow> call (OnConnectFailed (cc_result ctx) (cc_requestId ctx) status)
       | Some device \<Rightarrow> seq (PendingDevice (device\<lparr>dv_state := BR_DEVICE_STATE_WAIT_SCHEDULE\<rparr>)) next_cmd))"

definition ConnectRequestOnConnectingState :: "ConnBrConnectRequestContext \<Rightarrow> ('d, unit) br_prog" where
  "ConnectRequestOnConnectingState ctx =
     bnd (ConvertCtxToDevice ctx) (\<lambda>(status, device).
     case device of None \<Rightarrow> call (OnConnectFailed (cc_result ctx) (cc_requestId ctx) status)
     | Some device \<Rightarrow> AttempReuseConnect device PendingDevice)"

definition HandlePendingRequestOnAvailableState :: "('d, unit) br_prog" where
  "HandlePendingRequestOnAvailableState =
     bnd (gets (\<lambda>s. find (\<lambda>it. dv_state it = BR_DEVICE_STATE_WAIT_SCHEDULE) (nd_waitings s))) (\<lambda>target.
     case target of None \<Rightarrow> ret ()
     | Some device \<Rightarrow>
       seq (modify (\<lambda>s. s\<lparr>nd_waitings := filter (\<lambda>it. dv_at it \<noteq> dv_at device) (nd_waitings s)\<rparr>))
         (AttempReuseConnect device ConnectDeviceDirectly))"

section \<open>Suspended addresses\<close>

text \<open>The first waiting device of an address becomes ready to be scheduled.\<close>

fun schedule_first :: "string \<Rightarrow> ConnBrDevice list \<Rightarrow> ConnBrDevice list" where
  "schedule_first addr [] = []"
| "schedule_first addr (it # rest) =
     (if same_addr (dv_addr it) addr then it\<lparr>dv_state := BR_DEVICE_STATE_WAIT_SCHEDULE\<rparr> # rest else it # schedule_first addr rest)"

definition schedule :: "string \<Rightarrow> ('d, unit) br_prog" where
  "schedule addr = modify (\<lambda>s. s\<lparr>nd_waitings := schedule_first addr (nd_waitings s)\<rparr>)"

fun drop_pending :: "string \<Rightarrow> (string \<times> bool) list \<Rightarrow> (string \<times> bool) list" where
  "drop_pending addr [] = []"
| "drop_pending addr ((it, valid) # rest) = (if same_addr it addr then rest else (it, valid) # drop_pending addr rest)"

definition UnpendConnection :: "string \<Rightarrow> ('d, unit) br_prog" where
  "UnpendConnection addr =
     bnd succeeds (\<lambda>lockOk.
     if \<not> lockOk then ret ()
     else
       seq (unpost g_brManagerAsyncHandler MSG_UNPEND 0 0 (Some (AddressObj addr)))
       (bnd (pending_addr addr) (\<lambda>found.
        if \<not> found then ret ()
        else
          seq (modify (\<lambda>s. s\<lparr>nd_pendings := drop_pending addr (nd_pendings s), nd_pendingsCnt := u32_sub (nd_pendingsCnt s) 1\<rparr>))
          (seq (schedule addr) next_cmd))))"

record ConnectOption =
  co_type :: nat
  co_brMac :: string
  co_connectionId :: nat
  co_sideType :: ConnSideType
  co_waitTimeoutDelay :: nat

text \<open>When the message cannot be posted, the new entry is freed and stays on the list.\<close>

definition BrPendConnection :: "ConnectOption option \<Rightarrow> nat \<Rightarrow> ('d, int) br_prog" where
  "BrPendConnection option time =
     (case option of None \<Rightarrow> ret SOFTBUS_INVALID_PARAM
      | Some opt \<Rightarrow>
        if time = 0 \<or> time > BR_CONNECTION_PEND_TIMEOUT_MAX_MILLIS then ret SOFTBUS_INVALID_PARAM
        else if co_type opt \<noteq> CONNECT_BR then ret SOFTBUS_INVALID_PARAM
        else bnd succeeds (\<lambda>lockOk.
          if \<not> lockOk then ret SOFTBUS_LOCK_ERR
          else bnd succeeds (\<lambda>callocOk.
            if \<not> callocOk \<or> length (co_brMac opt) \<ge> BT_MAC_LEN then ret SOFTBUS_MALLOC_ERR
            else bnd (pending_addr (co_brMac opt)) (\<lambda>found.
              if found then
                seq (unpost g_brManagerAsyncHandler MSG_UNPEND 0 0 (Some (AddressObj (co_brMac opt))))
                  (post g_brManagerAsyncHandler MSG_UNPEND 0 0 (Some (AddressObj (co_brMac opt))) time)
              else bnd succeeds (\<lambda>callocOk.
                if \<not> callocOk then ret SOFTBUS_MALLOC_ERR
                else
                  seq (modify (\<lambda>s. s\<lparr>nd_pendings := (co_brMac opt, True) # nd_pendings s, nd_pendingsCnt := u32 (nd_pendingsCnt s + 1)\<rparr>))
                  (bnd (post g_brManagerAsyncHandler MSG_UNPEND 0 0 (Some (AddressObj (co_brMac opt))) time) (\<lambda>status.
                   if status \<noteq> SOFTBUS_OK
                   then seq (modify (\<lambda>s. s\<lparr>nd_pendings := (co_brMac opt, False) # tl (nd_pendings s)\<rparr>)) (ret status)
                   else ret status)))))))"

definition ProcessAclCollisionException :: "ConnBrDevice \<Rightarrow> nat \<Rightarrow> ('d, unit) br_prog" where
  "ProcessAclCollisionException device duration =
     (if length (dv_addr device) \<ge> BT_MAC_LEN then ret ()
      else
        seq (BrPendConnection (Some \<lparr>co_type = CONNECT_BR, co_brMac = dv_addr device, co_connectionId = 0, co_sideType = CONN_SIDE_ANY,
               co_waitTimeoutDelay = 0\<rparr>) duration)
          (ignore (PendingDevice (device\<lparr>dv_state := BR_DEVICE_STATE_PENDING\<rparr>))))"

section \<open>Results of connecting\<close>

text \<open>Every waiting device of the address is answered with the connection, if that is connected.\<close>

definition reuse_waitings :: "nat \<Rightarrow> string \<Rightarrow> ('d, unit) br_prog" where
  "reuse_waitings a addr =
     bnd (gets nd_waitings) (each (\<lambda>it.
       if same_addr (dv_addr it) addr then bnd (BrReuseConnection it a) (\<lambda>reused. if reused then FreeDevice it else ret ()) else ret ()))"

definition ServerAccepted :: "nat \<Rightarrow> ('d, unit) br_prog" where
  "ServerAccepted connectionId =
     bnd (get_by_id connectionId) (\<lambda>connection.
     case connection of None \<Rightarrow> ret ()
     | Some a \<Rightarrow>
       bnd (conn a) (\<lambda>c.
       seq (call (OnConnected connectionId (Convert2ConnectionInfo c)))
       (seq (unpost g_brManagerAsyncHandler MSG_UNPEND 0 0 (Some (AddressObj (bc_addr c))))
       (seq (UnpendConnection (bc_addr c))
       (bnd connecting (\<lambda>connectingDevice.
        if (case connectingDevice of None \<Rightarrow> False | Some d \<Rightarrow> same_addr (dv_addr d) (bc_addr c)) then give_back a
        else seq (reuse_waitings a (bc_addr c)) (give_back a)))))))"

definition ClientConnected :: "nat \<Rightarrow> ('d, unit) br_prog" where
  "ClientConnected connectionId =
     bnd (get_by_id connectionId) (\<lambda>connection.
     case connection of None \<Rightarrow> ret ()
     | Some a \<Rightarrow>
       bnd (conn a) (\<lambda>c.
       bnd (gets (\<lambda>s. find (\<lambda>it. same_addr (dv_addr it) (bc_addr c)) (nd_waitings s))) (\<lambda>targetDevice.
       case targetDevice of
         Some device \<Rightarrow>
           seq (update_conn a (\<lambda>c. c\<lparr>bc_retryCount := 0\<rparr>))
           (seq (NotifyDeviceConnectResult device (Some a) False 0)
           (seq (modify (\<lambda>s. s\<lparr>nd_waitings := filter (\<lambda>it. dv_at it \<noteq> dv_at device) (nd_waitings s)\<rparr>)) (give_back a)))
       | None \<Rightarrow>
           bnd connecting (\<lambda>connectingDevice.
           case connectingDevice of
             Some d \<Rightarrow>
               if \<not> same_addr (dv_addr d) (bc_addr c) then seq (ConnBrUpdateConnectionRc (Some a) (- 1)) (give_back a)
               else
                 seq (unpost g_brManagerAsyncHandler MSG_CONNECT_TIMEOUT connectionId 0 None)
                 (seq (update_conn a (\<lambda>c. c\<lparr>bc_retryCount := 0\<rparr>))
                 (seq (NotifyDeviceConnectResult d (Some a) False 0)
                 (seq (FreeDevice d)
                 (seq (set_connecting NoDevice)
                 (seq (TransitionToState BR_STATE_AVAILABLE) (give_back a))))))
           | None \<Rightarrow> seq (ConnBrUpdateConnectionRc (Some a) (- 1)) (give_back a)))))"

definition collision_result :: "int \<Rightarrow> bool" where
  "collision_result r \<longleftrightarrow>
     r = CONN_BR_CONNECT_UNDERLAYER_ERROR_CONNECTION_EXISTS \<or> r = CONN_BR_CONNECT_UNDERLAYER_ERROR_CONTROLLER_BUSY \<or>
     r = CONN_BR_CONNECT_UNDERLAYER_ERROR_CONN_SDP_BUSY \<or> r = CONN_BR_CONNECT_UNDERLAYER_ERROR_CONN_AUTH_FAILED \<or>
     r = CONN_BR_CONNECT_UNDERLAYER_ERROR_CONN_RFCOM_DM"

definition AuthenticationFailedAndRetry :: "nat \<Rightarrow> ConnBrDevice \<Rightarrow> ('d, int) br_prog" where
  "AuthenticationFailedAndRetry a connectingDevice =
     bnd (conn a) (\<lambda>c.
     case find (\<lambda>it. collision_result (snd it)) (bc_connectProcessStatus c) of
       None \<Rightarrow> ret SOFTBUS_CONN_BR_UNDERLAY_CONNECT_FAIL
     | Some it \<Rightarrow>
         seq (update_conn a (\<lambda>c. c\<lparr>bc_retryCount := u32 (bc_retryCount c + 1)\<rparr>))
         (if u32 (bc_retryCount c + 1) < MAX_RETRY_COUNT then
            (let time = (if snd it = CONN_BR_CONNECT_UNDERLAYER_ERROR_CONN_RFCOM_DM
                         then BR_CONNECTION_ACL_RETRY_CONNECT_COLLISION_MILLIS else BR_CONNECTION_ACL_CONNECT_COLLISION_MILLIS)
             in seq (set_connecting NoDevice) (seq (ProcessAclCollisionException connectingDevice time) (ret SOFTBUS_OK)))
          else ret SOFTBUS_CONN_BR_UNDERLAY_CONNECT_FAIL))"

text \<open>A connection the peer has opened meanwhile answers the requests of the device.\<close>

definition reuse_server :: "ConnBrDevice \<Rightarrow> string \<Rightarrow> ('d, bool) br_prog" where
  "reuse_server device addr =
     bnd (get_by_addr addr CONN_SIDE_SERVER) (\<lambda>serverConnection.
     case serverConnection of None \<Rightarrow> ret False
     | Some b \<Rightarrow> bnd (BrReuseConnection device b) (\<lambda>reused. seq (give_back b) (ret reused)))"

definition ClientConnectFailed :: "nat \<Rightarrow> int \<Rightarrow> ('d, unit) br_prog" where
  "ClientConnectFailed connectionId error =
     bnd (get_by_id connectionId) (\<lambda>connection.
     case connection of None \<Rightarrow> ret ()
     | Some a \<Rightarrow>
       seq (unpost g_brManagerAsyncHandler MSG_CONNECT_TIMEOUT connectionId 0 None)
       (seq (ConnBrDisconnectNow a)
       (bnd (conn a) (\<lambda>c.
        bnd connecting (\<lambda>connectingDevice.
        case connectingDevice of
          Some d \<Rightarrow>
            if \<not> same_addr (dv_addr d) (bc_addr c)
            then seq (schedule (bc_addr c)) (seq (remove_conn a) (seq (give_back a) next_cmd))
            else
              seq (bnd (reuse_server d (bc_addr c)) (\<lambda>reused.
                   if reused then ret ()
                   else bnd (AuthenticationFailedAndRetry a d) (\<lambda>r.
                     if r = SOFTBUS_OK then ret () else NotifyDeviceConnectResult d None False error)))
              (seq (remove_conn a)
              (seq (give_back a)
              (bnd connecting (\<lambda>p.
               seq (case p of None \<Rightarrow> ret () | Some d \<Rightarrow> seq (FreeDevice d) (set_connecting NoDevice))
                 (TransitionToState BR_STATE_AVAILABLE)))))
        | None \<Rightarrow> seq (schedule (bc_addr c)) (seq (remove_conn a) (seq (give_back a) next_cmd)))))))"

definition ClientConnectTimeoutOnConnectingState :: "nat \<Rightarrow> string \<Rightarrow> ('d, unit) br_prog" where
  "ClientConnectTimeoutOnConnectingState connectionId address =
     bnd connecting (\<lambda>connectingDevice.
     case connectingDevice of
       Some d \<Rightarrow>
         if \<not> same_addr (dv_addr d) address then ret ()
         else
           seq (NotifyDeviceConnectResult d None False SOFTBUS_CONN_BR_CONNECT_TIMEOUT_ERR)
           (seq (FreeDevice d) (seq (set_connecting NoDevice) (TransitionToState BR_STATE_AVAILABLE)))
     | None \<Rightarrow> ret ())"

section \<open>Data and connections\<close>

definition ReceivedControlData :: "nat \<Rightarrow> bytes \<Rightarrow> ('d, unit) br_prog" where
  "ReceivedControlData a data =
     bnd (gets (\<lambda>s. nd_parse s data)) (\<lambda>json.
     case json of None \<Rightarrow> ret ()
     | Some json \<Rightarrow>
       bnd (from_json (GetJsonObjectNumberItem json KEY_METHOD)) (\<lambda>method.
       case method of None \<Rightarrow> ret ()
       | Some method \<Rightarrow>
         if method = BR_METHOD_NOTIFY_REQUEST then ignore (ConnBrOnReferenceRequest a json)
         else if method = BR_METHOD_NOTIFY_RESPONSE then ignore (ConnBrOnReferenceResponse (Some a) json)
         else if method = BR_METHOD_NOTIFY_ACK then
           bnd (draw oc_replies) (\<lambda>env. bnd (gets nd_plat) (\<lambda>plat. ignore (on_world (ConnBrOnAckRequest plat env (Some a) json))))
         else if method = BR_METHOD_ACK_RESPONSE then
           bnd (draw oc_oks) (\<lambda>ok. ignore (on_world (\<lambda>w. Some (ConnBrOnAckResponse (ok 0) (ok 1) a json w))))
         else ret ()))"

definition DataReceived :: "nat \<Rightarrow> bytes \<Rightarrow> ('d, unit) br_prog" where
  "DataReceived connectionId data =
     (if length data < CONN_PKT_HEAD_LEN then ret ()
      else
        bnd (gets nd_plat) (\<lambda>plat.
        let head = pkt_load (bp_host plat) (take CONN_PKT_HEAD_LEN data)
        in bnd (get_by_id connectionId) (\<lambda>connection.
           case connection of None \<Rightarrow> ret ()
           | Some a \<Rightarrow>
             seq (if sint (h_module head) = MODULE_CONNECTION then ReceivedControlData a (drop CONN_PKT_HEAD_LEN data)
                  else if sint (h_module head) = MODULE_NIP_BR_CHANNEL \<and> h_seq head = BR_NIP_SEQ
                  then call (NipRecvDataFromBr connectionId data)
                  else call (OnDataReceivedCall connectionId (sint (h_module head)) (sint (h_seq head)) data))
             (give_back a))))"

definition ConnectionException :: "nat \<Rightarrow> int \<Rightarrow> ('d, unit) br_prog" where
  "ConnectionException connectionId error =
     bnd (get_by_id connectionId) (\<lambda>connection.
     case connection of None \<Rightarrow> ret ()
     | Some a \<Rightarrow>
       seq (ConnBrDisconnectNow a)
       (bnd (conn a) (\<lambda>c.
        seq (schedule (bc_addr c))
        (seq (remove_conn a)
        (seq (give_back a)
        (seq next_cmd
           (call (OnDisconnected connectionId (Convert2ConnectionInfo c)))))))))"

definition ConnectionResume :: "nat \<Rightarrow> ('d, unit) br_prog" where
  "ConnectionResume connectionId =
     bnd (get_by_id connectionId) (\<lambda>connection.
     case connection of None \<Rightarrow> ret ()
     | Some a \<Rightarrow> bnd (conn a) (\<lambda>c. seq (reuse_waitings a (bc_addr c)) (give_back a)))"

definition DisconnectRequest :: "nat \<Rightarrow> ('d, unit) br_prog" where
  "DisconnectRequest connectionId =
     bnd (get_by_id connectionId) (\<lambda>connection.
     case connection of None \<Rightarrow> ret ()
     | Some a \<Rightarrow> seq (ConnBrUpdateConnectionRc (Some a) (- 1)) (give_back a))"

text \<open>The three lists of \<open>Reset\<close>: waiting devices, suspended addresses and connections.\<close>

definition reset_waitings :: "('d, unit) br_prog" where
  "reset_waitings =
     bnd (gets nd_waitings) (each (\<lambda>it.
       seq (modify (\<lambda>s. s\<lparr>nd_waitings := filter (\<lambda>d. dv_at d \<noteq> dv_at it) (nd_waitings s)\<rparr>))
       (seq (NotifyDeviceConnectResult it None False SOFTBUS_CONN_BLUETOOTH_OFF) (FreeDevice it))))"

definition reset_pendings :: "('d, unit) br_prog" where
  "reset_pendings =
     bnd (gets nd_pendings) (each (\<lambda>(addr, valid).
       if \<not> valid then crash InvalidPointer
       else
         seq (modify (\<lambda>s. s\<lparr>nd_pendings := tl (nd_pendings s), nd_pendingsCnt := u32_sub (nd_pendingsCnt s) 1\<rparr>))
           (unpost g_brManagerAsyncHandler MSG_UNPEND 0 0 (Some (AddressObj addr)))))"

definition Reset :: "int \<Rightarrow> ('d, unit) br_prog" where
  "Reset reason =
     bnd connecting (\<lambda>connectingDevice.
     seq (case connectingDevice of None \<Rightarrow> ret ()
          | Some d \<Rightarrow>
            bnd (get_by_addr (dv_addr d) CONN_SIDE_CLIENT) (\<lambda>connection.
            seq (case connection of None \<Rightarrow> ret ()
                 | Some a \<Rightarrow>
                   bnd (conn a) (\<lambda>c.
                   seq (unpost g_brManagerAsyncHandler MSG_CONNECT_TIMEOUT (bc_connectionId c) 0 None) (give_back a)))
            (seq (NotifyDeviceConnectResult d None False SOFTBUS_CONN_BLUETOOTH_OFF)
            (seq (FreeDevice d) (set_connecting NoDevice)))))
     (seq reset_waitings
     (bnd succeeds (\<lambda>lockOk.
      if \<not> lockOk then ret ()
      else seq reset_pendings
      (bnd succeeds (\<lambda>lockOk.
       if \<not> lockOk then ret ()
       else seq (bnd (gets (\<lambda>s. bo_list (bw_conns (nd_world s)))) (each (\<lambda>a. ignore (ConnBrDisconnectNow a))))
              (TransitionToState BR_STATE_AVAILABLE)))))))"

section \<open>The message handler\<close>

text \<open>
  The functions of the state table that differ between the states; a missing state is a null pointer.  A message whose
  object has another type than its handler expects would be misread: that is a fault.
\<close>

definition in_state :: "('d, unit) br_prog \<Rightarrow> ('d, unit) br_prog \<Rightarrow> ('d, unit) br_prog" where
  "in_state onAvailable onConnecting =
     bnd (gets nd_state) (\<lambda>st.
     case st of None \<Rightarrow> crash InvalidPointer
     | Some st \<Rightarrow> (case st of BR_STATE_AVAILABLE \<Rightarrow> onAvailable | BR_STATE_CONNECTING \<Rightarrow> onConnecting))"

definition HandlePendingRequestFunc :: "br_obj SoftBusMessage \<Rightarrow> ('d, unit) br_prog" where
  "HandlePendingRequestFunc msg = in_state HandlePendingRequestOnAvailableState (ret ())"

definition ConnectRequestFunc :: "br_obj SoftBusMessage \<Rightarrow> ('d, unit) br_prog" where
  "ConnectRequestFunc msg =
     (case sm_obj msg of None \<Rightarrow> in_state (ret ()) (ret ())
      | Some (ConnectRequestObj ctx) \<Rightarrow> in_state (ConnectRequestOnAvailableState ctx) (ConnectRequestOnConnectingState ctx)
      | _ \<Rightarrow> crash InvalidPointer)"

definition ClientConnectedFunc :: "br_obj SoftBusMessage \<Rightarrow> ('d, unit) br_prog" where
  "ClientConnectedFunc msg = in_state (ClientConnected (u32 (sm_arg1 msg))) (ClientConnected (u32 (sm_arg1 msg)))"

definition ClientConnectTimeoutFunc :: "br_obj SoftBusMessage \<Rightarrow> ('d, unit) br_prog" where
  "ClientConnectTimeoutFunc msg =
     (case sm_obj msg of None \<Rightarrow> ret ()
      | Some (AddressObj addr) \<Rightarrow> in_state (ret ()) (ClientConnectTimeoutOnConnectingState (u32 (sm_arg1 msg)) addr)
      | _ \<Rightarrow> in_state (ret ()) (crash InvalidPointer))"

definition ClientConnectFailedFunc :: "br_obj SoftBusMessage \<Rightarrow> ('d, unit) br_prog" where
  "ClientConnectFailedFunc msg =
     (case sm_obj msg of None \<Rightarrow> in_state (ret ()) (ret ())
      | Some (ErrorObj connectionId error) \<Rightarrow> in_state (ClientConnectFailed connectionId error) (ClientConnectFailed connectionId error)
      | _ \<Rightarrow> crash InvalidPointer)"

definition ServerAcceptedFunc :: "br_obj SoftBusMessage \<Rightarrow> ('d, unit) br_prog" where
  "ServerAcceptedFunc msg = in_state (ServerAccepted (u32 (sm_arg1 msg))) (ServerAccepted (u32 (sm_arg1 msg)))"

definition DataReceivedFunc :: "br_obj SoftBusMessage \<Rightarrow> ('d, unit) br_prog" where
  "DataReceivedFunc msg =
     (case sm_obj msg of None \<Rightarrow> ret ()
      | Some (DataObj connectionId data) \<Rightarrow> in_state (DataReceived connectionId data) (DataReceived connectionId data)
      | _ \<Rightarrow> crash InvalidPointer)"

definition ConnectionExceptionFunc :: "br_obj SoftBusMessage \<Rightarrow> ('d, unit) br_prog" where
  "ConnectionExceptionFunc msg =
     (case sm_obj msg of None \<Rightarrow> in_state (ret ()) (ret ())
      | Some (ErrorObj connectionId error) \<Rightarrow> in_state (ConnectionException connectionId error) (ConnectionException connectionId error)
      | _ \<Rightarrow> crash InvalidPointer)"

definition ConnectionResumeFunc :: "br_obj SoftBusMessage \<Rightarrow> ('d, unit) br_prog" where
  "ConnectionResumeFunc msg = in_state (ConnectionResume (u32 (sm_arg1 msg))) (ConnectionResume (u32 (sm_arg1 msg)))"

definition DisconnectRequestFunc :: "br_obj SoftBusMessage \<Rightarrow> ('d, unit) br_prog" where
  "DisconnectRequestFunc msg = in_state (DisconnectRequest (u32 (sm_arg1 msg))) (DisconnectRequest (u32 (sm_arg1 msg)))"

definition UnpendFunc :: "br_obj SoftBusMessage \<Rightarrow> ('d, unit) br_prog" where
  "UnpendFunc msg =
     (case sm_obj msg of None \<Rightarrow> ret ()
      | Some (AddressObj addr) \<Rightarrow> in_state (UnpendConnection addr) (UnpendConnection addr)
      | _ \<Rightarrow> crash InvalidPointer)"

definition ResetFunc :: "br_obj SoftBusMessage \<Rightarrow> ('d, unit) br_prog" where
  "ResetFunc msg =
     (case sm_obj msg of None \<Rightarrow> in_state (ret ()) (ret ())
      | Some (ErrorObj connectionId error) \<Rightarrow> in_state (Reset error) (Reset error)
      | _ \<Rightarrow> crash InvalidPointer)"

definition g_commands :: "(int \<times> (br_obj SoftBusMessage \<Rightarrow> ('d, unit) br_prog)) list" where
  "g_commands =
     [(MSG_NEXT_CMD, HandlePendingRequestFunc), (MSG_CONNECT_REQUEST, ConnectRequestFunc), (MSG_CONNECT_SUCCESS, ClientConnectedFunc),
      (MSG_CONNECT_TIMEOUT, ClientConnectTimeoutFunc), (MSG_CONNECT_FAIL, ClientConnectFailedFunc), (MSG_SERVER_ACCEPTED, ServerAcceptedFunc),
      (MSG_DATA_RECEIVED, DataReceivedFunc), (MSG_CONNECTION_EXECEPTION, ConnectionExceptionFunc),
      (MSG_CONNECTION_RESUME, ConnectionResumeFunc), (MGR_DISCONNECT_REQUEST, DisconnectRequestFunc), (MSG_UNPEND, UnpendFunc),
      (MSG_RESET, ResetFunc)]"

definition BrManagerMsgHandler :: "br_obj SoftBusMessage \<Rightarrow> ('d, unit) br_prog" where
  "BrManagerMsgHandler msg = (case map_of g_commands (sm_what msg) of None \<Rightarrow> ret () | Some func \<Rightarrow> func msg)"

section \<open>Functions other components call\<close>

text \<open>A \<open>ConnectResult\<close> with the two callbacks given or not.\<close>

definition BrConnectDevice :: "ConnectOption option \<Rightarrow> nat \<Rightarrow> (nat \<times> bool \<times> bool) option \<Rightarrow> ('d, int) br_prog" where
  "BrConnectDevice option requestId result =
     (case option of None \<Rightarrow> ret SOFTBUS_INVALID_PARAM
      | Some opt \<Rightarrow>
        if co_type opt \<noteq> CONNECT_BR then ret SOFTBUS_INVALID_PARAM
        else case result of None \<Rightarrow> ret SOFTBUS_INVALID_PARAM
        | Some (callbacks, hasSuccessed, hasFailed) \<Rightarrow>
          if \<not> hasSuccessed then ret SOFTBUS_INVALID_PARAM
          else if \<not> hasFailed then ret SOFTBUS_INVALID_PARAM
          else bnd succeeds (\<lambda>callocOk.
            if \<not> callocOk then ret SOFTBUS_MEM_ERR
            else if length (co_brMac opt) \<ge> BT_MAC_LEN then ret SOFTBUS_STRCPY_ERR
            else
              let ctx = \<lparr>cc_addr = co_brMac opt, cc_waitTimeoutDelay = co_waitTimeoutDelay opt, cc_requestId = requestId,
                         cc_connectionId = co_connectionId opt, cc_result = callbacks\<rparr>
              in post g_brManagerAsyncHandler MSG_CONNECT_REQUEST 0 0 (Some (ConnectRequestObj ctx)) 0))"

definition BrDisconnectDevice :: "nat \<Rightarrow> ('d, int) br_prog" where
  "BrDisconnectDevice connectionId =
     bnd (get_by_id connectionId) (\<lambda>connection.
     case connection of None \<Rightarrow> ret SOFTBUS_CONN_BR_CONNECTION_NOT_EXIST_ERR
     | Some a \<Rightarrow>
       seq (call (NipDisconnectDevice connectionId))
       (seq (give_back a) (post g_brManagerAsyncHandler MGR_DISCONNECT_REQUEST connectionId 0 None 0)))"

definition BrDisconnectDeviceNow :: "ConnectOption option \<Rightarrow> ('d, int) br_prog" where
  "BrDisconnectDeviceNow option =
     (case option of None \<Rightarrow> ret SOFTBUS_INVALID_PARAM
      | Some opt \<Rightarrow>
        if co_type opt \<noteq> CONNECT_BR then ret SOFTBUS_INVALID_PARAM
        else bnd (get_by_addr (co_brMac opt) (co_sideType opt)) (\<lambda>connection.
          case connection of None \<Rightarrow> ret SOFTBUS_CONN_BR_CONNECTION_NOT_EXIST_ERR
          | Some a \<Rightarrow>
            bnd (conn a) (\<lambda>c.
            seq (call (NipDisconnectDevice (bc_connectionId c)))
            (seq (ConnBrDisconnectNow a) (seq (give_back a) (ret SOFTBUS_OK))))))"

definition BrGetConnectionInfo :: "nat \<Rightarrow> bool \<Rightarrow> ('d, int \<times> ConnectionInfo option) br_prog" where
  "BrGetConnectionInfo connectionId infoNonNull =
     (if \<not> infoNonNull then ret (SOFTBUS_INVALID_PARAM, None)
      else bnd (get_by_id connectionId) (\<lambda>connection.
        case connection of None \<Rightarrow> ret (SOFTBUS_CONN_BR_CONNECTION_NOT_EXIST_ERR, None)
        | Some a \<Rightarrow> bnd (conn a) (\<lambda>c. seq (give_back a) (ret (SOFTBUS_OK, Some (Convert2ConnectionInfo c))))))"

definition BrCheckActiveConnection :: "ConnectOption option \<Rightarrow> bool \<Rightarrow> ('d, bool) br_prog" where
  "BrCheckActiveConnection option needOccupy =
     (case option of None \<Rightarrow> ret False
      | Some opt \<Rightarrow>
        if co_type opt \<noteq> CONNECT_BR then ret False
        else bnd (get_by_addr (co_brMac opt) (co_sideType opt)) (\<lambda>connection.
          case connection of None \<Rightarrow> ret False
          | Some a \<Rightarrow>
            bnd (conn a) (\<lambda>c.
            let isActive = (bc_state c = BR_CONNECTION_STATE_CONNECTED)
            in seq (if isActive \<and> needOccupy then ConnBrOccupy (Some a) else ret ())
                 (seq (give_back a) (ret isActive)))))"

text \<open>What the send task reports: a message that could not be sent ends the connection.\<close>

definition OnPostByteFinshed :: "nat \<Rightarrow> int \<Rightarrow> ('d, unit) br_prog" where
  "OnPostByteFinshed connectionId error =
     (if error = SOFTBUS_OK then ret ()
      else bnd (get_by_id connectionId) (\<lambda>connection.
        case connection of None \<Rightarrow> ret ()
        | Some a \<Rightarrow> seq (ConnBrDisconnectNow a) (give_back a)))"

abbreviation SOFTBUS_BR_STATE_TURN_ON :: int where "SOFTBUS_BR_STATE_TURN_ON \<equiv> 5"
abbreviation SOFTBUS_BR_STATE_TURN_OFF :: int where "SOFTBUS_BR_STATE_TURN_OFF \<equiv> 7"

definition OnBtStateChanged :: "int \<Rightarrow> ('d, unit) br_prog" where
  "OnBtStateChanged state =
     (if state = SOFTBUS_BR_STATE_TURN_ON
      then seq (modify (\<lambda>s. s\<lparr>nd_brStateTurnOn := True\<rparr>)) (ignore ConnBrStartServer)
      else if state = SOFTBUS_BR_STATE_TURN_OFF then
        seq (modify (\<lambda>s. s\<lparr>nd_brStateTurnOn := False\<rparr>))
        (seq ConnBrStopServer
        (bnd succeeds (\<lambda>callocOk.
         if \<not> callocOk then ret ()
         else ignore (post g_brManagerAsyncHandler MSG_RESET 0 0 (Some (ErrorObj 0 SOFTBUS_CONN_BLUETOOTH_OFF)) 0))))
      else ret ())"

definition InitBrManager :: "('d, int) br_prog" where
  "InitBrManager =
     bnd (draw oc_oks) (\<lambda>ok.
     if \<not> (ok 0 \<and> ok 1) then ret SOFTBUS_CREATE_LIST_ERR
     else
       seq (modify (\<lambda>s. s\<lparr>nd_world := (nd_world s)\<lparr>bw_conns := (bw_conns (nd_world s))\<lparr>bo_list := []\<rparr>\<rparr>,
              nd_pendings := [], nd_pendingsCnt := 0, nd_waitings := [], nd_state := None, nd_connecting := NoDevice\<rparr>))
       (if \<not> ok 2 then ret SOFTBUS_CONN_BR_INTERNAL_ERR
        else seq (TransitionToState BR_STATE_AVAILABLE) (ret SOFTBUS_OK)))"

definition BrStartLocalListening :: "('d, int) br_prog" where
  "BrStartLocalListening = ConnBrStartServer"

definition BrStopLocalListening :: "('d, int) br_prog" where
  "BrStopLocalListening = ConnBrStopServer"

text \<open>\<open>given 0\<close> says that the callback is not null, \<open>given 1\<close> to \<open>given 3\<close> that its functions are not.\<close>

definition CheckConnCallbackPara :: "(nat \<Rightarrow> bool) \<Rightarrow> int" where
  "CheckConnCallbackPara given =
     (if \<not> given 0 then SOFTBUS_INVALID_PARAM
      else if \<not> given 1 then SOFTBUS_INVALID_PARAM
      else if \<not> given 2 then SOFTBUS_INVALID_PARAM
      else if \<not> given 3 then SOFTBUS_INVALID_PARAM
      else SOFTBUS_OK)"

definition ConnBrInitBrPendingPacket :: "int \<Rightarrow> int" where
  "ConnBrInitBrPendingPacket mutexInit = (if mutexInit \<noteq> 0 then SOFTBUS_LOCK_ERR else SOFTBUS_OK)"

text \<open>What initialisation finds: the driver, the configuration and the outcomes of allocations and of mutex and condition set-up.\<close>

record br_init_env =
  ie_driver :: bool
  ie_capacity :: "int option"
  ie_mtu :: "int option"
  ie_alloc :: "nat \<Rightarrow> bool"
  ie_queue :: "int \<times> int \<times> int"
  ie_flow :: "bool \<times> bool"
  ie_mutex :: int
  ie_pendingMutex :: int

definition InitBrEventListener :: "br_init_env \<Rightarrow> ('d, int) br_prog" where
  "InitBrEventListener env =
     bnd (gets nd_looper) (\<lambda>looper.
     if looper = None then ret SOFTBUS_CONN_BR_INTERNAL_ERR
     else if \<not> ie_driver env then ret SOFTBUS_CONN_BR_INTERNAL_ERR
     else bnd (ConnBrConnectionMuduleInit (\<lambda>_. True) (ie_capacity env) (ie_mtu env)) (\<lambda>r.
       if r \<noteq> SOFTBUS_OK then ret r
       else bnd (on_world (\<lambda>w. Some (Inr (ConnBrTransMuduleInit (\<lambda>_. True) (ie_alloc env) (ie_queue env) (ie_flow env) (ie_mutex env) w)))) (\<lambda>r.
         if r \<noteq> SOFTBUS_OK then ret r else ret SOFTBUS_OK)))"

text \<open>The result says that the table of functions is returned and not null.\<close>

definition ConnInitBr :: "(nat \<Rightarrow> bool) \<Rightarrow> br_init_env \<Rightarrow> ('d, bool) br_prog" where
  "ConnInitBr callback env =
     (if CheckConnCallbackPara callback \<noteq> SOFTBUS_OK then ret False
      else bnd (InitBrEventListener env) (\<lambda>r.
        if r \<noteq> SOFTBUS_OK then ret False
        else bnd InitBrManager (\<lambda>r.
          if r \<noteq> SOFTBUS_OK then ret False
          else if ConnBrInitBrPendingPacket (ie_pendingMutex env) \<noteq> SOFTBUS_OK then ret False
          else ret True)))"

end
