(* ===== verification/Br_Requests.thy ===== *)
theory Br_Requests
  imports Br_Manager "HOL-Library.Multiset"
begin

text \<open>
  What happens to requests to connect.  A request is outstanding while its message is in the looper or its device is
  waiting or connecting, and answered when one of its callbacks has been called.
\<close>

section \<open>Where requests are\<close>

definition dreqs :: "ConnBrDevice \<Rightarrow> (nat \<times> nat) multiset" where
  "dreqs d = image_mset (\<lambda>r. (rq_result r, rq_requestId r)) (mset (dv_requests d))"

fun answer :: "br_call \<Rightarrow> (nat \<times> nat) multiset" where
  "answer (OnConnectSuccessed result requestId connectionId info) = {#(result, requestId)#}"
| "answer (OnConnectFailed result requestId reason) = {#(result, requestId)#}"
| "answer _ = {#}"

definition answers :: "br_call list \<Rightarrow> (nat \<times> nat) multiset" where
  "answers cs = sum_list (map answer cs)"

definition mreqs :: "br_obj SoftBusMessage \<Rightarrow> (nat \<times> nat) multiset" where
  "mreqs m =
     (if sm_handler m = Some g_brManagerAsyncHandler \<and> sm_what m = MSG_CONNECT_REQUEST then
        (case sm_obj m of Some (ConnectRequestObj ctx) \<Rightarrow> {#(cc_result ctx, cc_requestId ctx)#} | _ \<Rightarrow> {#})
      else {#})"

definition lreqs :: "br_obj SoftBusLooper option \<Rightarrow> (nat \<times> nat) multiset" where
  "lreqs lp =
     (case lp of None \<Rightarrow> {#}
      | Some l \<Rightarrow> (case lp_context l of None \<Rightarrow> {#} | Some c \<Rightarrow> sum_list (map mreqs (lc_msgHead c))))"

definition wreqs :: "ConnBrDevice list \<Rightarrow> (nat \<times> nat) multiset" where
  "wreqs ds = sum_list (map dreqs ds)"

fun creqs :: "device_pointer \<Rightarrow> (nat \<times> nat) multiset" where
  "creqs (Device d) = dreqs d"
| "creqs _ = {#}"

definition outstanding :: "'d br_node \<Rightarrow> (nat \<times> nat) multiset" where
  "outstanding s = lreqs (nd_looper s) + wreqs (nd_waitings s) + creqs (nd_connecting s)"

definition total_reqs :: "'d br_node \<Rightarrow> (nat \<times> nat) multiset" where
  "total_reqs s = outstanding s + answers (nd_calls s)"

section \<open>Typed messages\<close>

text \<open>
  The object a message carries is a bare pointer in C; each handler reads it as the type it expects.  These are the types
  the posts of the two modules give to the objects of their messages; an address in them fits its array.
\<close>

fun obj_ok :: "nat \<Rightarrow> int \<Rightarrow> br_obj option \<Rightarrow> bool" where
  "obj_ok wrapper what (Some (ConnectRequestObj ctx)) \<longleftrightarrow>
     wrapper = g_brManagerAsyncHandler \<and> what = MSG_CONNECT_REQUEST \<and> length (cc_addr ctx) < BT_MAC_LEN"
| "obj_ok wrapper what (Some (AddressObj addr)) \<longleftrightarrow>
     wrapper = g_brManagerAsyncHandler \<and> (what = MSG_CONNECT_TIMEOUT \<or> what = MSG_UNPEND) \<and> length addr < BT_MAC_LEN"
| "obj_ok wrapper what (Some (ErrorObj connectionId error)) \<longleftrightarrow>
     wrapper = g_brManagerAsyncHandler \<and> (what = MSG_CONNECT_FAIL \<or> what = MSG_CONNECTION_EXECEPTION \<or> what = MSG_RESET)"
| "obj_ok wrapper what (Some (DataObj connectionId data)) \<longleftrightarrow> wrapper = g_brManagerAsyncHandler \<and> what = MSG_DATA_RECEIVED"
| "obj_ok wrapper what (Some (ReferenceObj deltaRc peerRc)) \<longleftrightarrow>
     wrapper = g_brConnectionAsyncHandler \<and> what = MSG_CONNECTION_UPDATE_PEER_RC"
| "obj_ok wrapper what None \<longleftrightarrow>
     (if wrapper = g_brManagerAsyncHandler
      then what = MSG_NEXT_CMD \<or> what = MSG_CONNECT_SUCCESS \<or> what = MSG_SERVER_ACCEPTED \<or> what = MSG_CONNECTION_RESUME \<or> what = MGR_DISCONNECT_REQUEST
      else wrapper = g_brConnectionAsyncHandler \<and>
        (what = MSG_CONNECTION_WAIT_NEGOTIATION_CLOSING_TIMEOUT \<or> what = MSG_CONNECTION_RETRY_NOTIFY_REFERENCE \<or>
         what = MSG_CONNECTION_REPORT_CONNECT_EXCEPTION \<or> what = MSG_CONNECTION_OCCUPY_RELEASE \<or> what = MSG_CONNECTION_UPDATE_LOCAL_RC))"

definition msg_ok :: "br_obj SoftBusMessage \<Rightarrow> bool" where
  "msg_ok m \<longleftrightarrow> (case sm_handler m of None \<Rightarrow> False | Some wrapper \<Rightarrow> obj_ok wrapper (sm_what m) (sm_obj m))"

definition looper_ok :: "br_obj SoftBusLooper option \<Rightarrow> bool" where
  "looper_ok lp \<longleftrightarrow>
     (case lp of None \<Rightarrow> False
      | Some l \<Rightarrow> (case lp_context l of None \<Rightarrow> False
                   | Some c \<Rightarrow> lc_running c \<and> \<not> lc_stop c \<and> list_all msg_ok (lc_msgHead c)))"

section \<open>Programs that leave requests alone\<close>

definition core :: "'d br_node \<Rightarrow> BrServerState option \<times> ConnBrDevice list \<times> device_pointer \<times> (nat \<times> nat) multiset" where
  "core s = (nd_state s, nd_waitings s, nd_connecting s, lreqs (nd_looper s) + answers (nd_calls s))"

definition frame :: "('d, 'a) br_prog \<Rightarrow> bool" where
  "frame m \<longleftrightarrow> (\<forall>s x t. m s = Some (Inr (x, t)) \<longrightarrow> core t = core s \<and> nd_tick s \<le> nd_tick t \<and> (looper_ok (nd_looper s) \<longrightarrow> looper_ok (nd_looper t)))"

named_theorems frm

lemma frameI:
  "(\<And>s x t. m s = Some (Inr (x, t)) \<Longrightarrow> core t = core s \<and> nd_tick s \<le> nd_tick t \<and> (looper_ok (nd_looper s) \<longrightarrow> looper_ok (nd_looper t))) \<Longrightarrow> frame m"
  by (auto simp: frame_def)

lemma frame_ret [frm]: "frame (ret x)"
  by (simp add: frame_def ret_def)

lemma frame_crash [frm]: "frame (crash e)"
  by (simp add: frame_def crash_def)

lemma frame_gets [frm]: "frame (gets f)"
  by (simp add: frame_def gets_def)

lemma frame_bnd [frm]: "frame m \<Longrightarrow> (\<And>x. frame (f x)) \<Longrightarrow> frame (bnd m f)"
  by (fastforce simp: frame_def bnd_def split: option.splits sum.splits prod.splits)

lemma frame_seq [frm]: "frame m \<Longrightarrow> frame n \<Longrightarrow> frame (seq m n)"
  unfolding seq_def by (rule frame_bnd)

lemma frame_if [frm]: "(b \<Longrightarrow> frame m) \<Longrightarrow> (\<not> b \<Longrightarrow> frame n) \<Longrightarrow> frame (if b then m else n)"
  by simp

lemma frame_option [frm]: "frame m \<Longrightarrow> (\<And>x. frame (f x)) \<Longrightarrow> frame (case y of None \<Rightarrow> m | Some x \<Rightarrow> f x)"
  by (cases y) auto

lemma frame_prod [frm]: "(\<And>x z. frame (f x z)) \<Longrightarrow> frame (case y of (x, z) \<Rightarrow> f x z)"
  by (cases y) auto

lemma frame_sum [frm]: "(\<And>x. frame (f x)) \<Longrightarrow> (\<And>x. frame (g x)) \<Longrightarrow> frame (case y of Inl x \<Rightarrow> f x | Inr x \<Rightarrow> g x)"
  by (cases y) auto

lemma frame_each [frm]: "(\<And>x. frame (f x)) \<Longrightarrow> frame (each f xs)"
  by (induction xs) (auto intro: frame_ret frame_seq)

lemma frame_ignore [frm]: "frame m \<Longrightarrow> frame (ignore m)"
  unfolding ignore_def by (intro frm)

lemma frame_draw [frm]: "frame (draw f)"
  by (auto simp: frame_def draw_def core_def)

lemma frame_succeeds [frm]: "frame succeeds"
  unfolding succeeds_def by (intro frm)

lemma frame_call [frm]: "answer c = {#} \<Longrightarrow> frame (call c)"
  by (auto simp: frame_def call_def modify_def core_def answers_def)

lemma frame_on_conns [frm]: "frame (on_conns f)"
  by (auto simp: frame_def on_conns_def core_def map_sum_Inr)

lemma frame_on_world [frm]: "frame (on_world f)"
  by (auto simp: frame_def on_world_def core_def map_sum_Inr)

lemma frame_on_driver [frm]: "frame (on_driver f)"
  by (auto simp: frame_def on_driver_def core_def split: prod.splits)

lemma frame_modify: "(\<And>s. core (f s) = core s \<and> nd_tick (f s) = nd_tick s \<and> nd_looper (f s) = nd_looper s) \<Longrightarrow> frame (modify f)"
  by (simp add: frame_def modify_def)

lemma sum_insert_message: "sum_list (map f (insert_message m xs)) = f m + (sum_list (map f xs) :: 'a multiset)"
  by (induction xs) (auto simp: ac_simps)

text \<open>A post adds its message to the looper or drops it.\<close>

lemma ConnPost_lreqs:
  assumes "ConnPostMsgToLooper b ok now wrapper what arg1 arg2 ob delay lp = Inr (r, lp')"
  shows "lreqs lp' = lreqs lp \<or>
    lreqs lp' = lreqs lp + mreqs \<lparr>sm_what = what, sm_arg1 = arg1, sm_arg2 = arg2, sm_time = 0, sm_obj = ob, sm_handler = Some wrapper\<rparr>"
  using assms
  by (auto simp: ConnPostMsgToLooper_def LooperPostMessageDelay_def PostMessageAtTime_def Let_def lreqs_def sum_insert_message mreqs_def
      map_sum_Inr split: if_splits option.splits)

lemma list_all_insert_message: "list_all P (insert_message m xs) \<longleftrightarrow> P m \<and> list_all P xs"
  by (induction xs) auto

lemma msg_ok_time [simp]: "msg_ok (m\<lparr>sm_time := time\<rparr>) \<longleftrightarrow> msg_ok m"
  by (simp add: msg_ok_def split: option.split)

lemma ConnPost_ok:
  assumes "ConnPostMsgToLooper b ok now wrapper what arg1 arg2 ob delay lp = Inr (r, lp')" "obj_ok wrapper what ob" "looper_ok lp"
  shows "looper_ok lp'"
  using assms
  by (auto simp: ConnPostMsgToLooper_def LooperPostMessageDelay_def PostMessageAtTime_def Let_def looper_ok_def list_all_insert_message
      map_sum_Inr msg_ok_def split: if_splits option.splits)

lemma frame_post [frm]:
  assumes "obj_ok wrapper what ob \<and> (what \<noteq> MSG_CONNECT_REQUEST \<or> wrapper \<noteq> g_brManagerAsyncHandler)"
  shows "frame (post wrapper what arg1 arg2 ob delay)"
proof -
  have none: "mreqs \<lparr>sm_what = what, sm_arg1 = arg1, sm_arg2 = arg2, sm_time = 0, sm_obj = ob, sm_handler = Some wrapper\<rparr> = {#}"
    using assms by (auto simp: mreqs_def)
  show ?thesis unfolding post_def
    by (intro frm frameI) (auto simp: core_def map_sum_Inr none dest: ConnPost_lreqs ConnPost_ok [OF _ conjunct1 [OF assms]])
qed

lemma remove_loop_keeps:
  assumes "\<And>m. match m \<Longrightarrow> f m = (0 :: 'b :: comm_monoid_add)"
  shows "sum_list (map f (fst (remove_loop match xs n))) = sum_list (map f xs)"
  using assms by (induction match xs n rule: remove_loop.induct) (auto split: prod.splits)

lemma remove_loop_all: "list_all P xs \<Longrightarrow> list_all P (fst (remove_loop match xs n))"
  by (induction match xs n rule: remove_loop.induct) (auto split: prod.splits)

lemma compare_what:
  "BrCompareManagerLooperEventFunc m ctx = 0 \<Longrightarrow> sm_what m = sm_what ctx" "BrCompareConnectionLooperEventFunc m ctx = 0 \<Longrightarrow> sm_what m = sm_what ctx"
  by (auto simp: BrCompareManagerLooperEventFunc_def BrCompareConnectionLooperEventFunc_def split: if_splits)

lemma ConnRemove_lreqs:
  assumes res: "ConnRemoveMsgFromLooper b wrapper cmp what arg1 arg2 ob lp = Inr lp'"
    and other: "\<And>m ctx. cmp m ctx = 0 \<Longrightarrow> sm_what ctx = what \<Longrightarrow> sm_handler m = Some wrapper \<Longrightarrow> mreqs m = {#}"
  shows "lreqs lp' = lreqs lp \<and> (looper_ok lp \<longrightarrow> looper_ok lp')"
proof -
  let ?ctx = "\<lparr>sm_what = what, sm_arg1 = arg1, sm_arg2 = arg2, sm_time = 0, sm_obj = ob, sm_handler = None\<rparr>"
  let ?match = "\<lambda>m. sm_handler m = Some wrapper \<and> cmp m ?ctx = 0"
  have keep: "sum_list (map mreqs (fst (remove_loop ?match xs n))) = sum_list (map mreqs xs)" for xs n
    by (rule remove_loop_keeps) (use other [of _ ?ctx] in auto)
  have ok: "list_all msg_ok xs \<Longrightarrow> list_all msg_ok (fst (remove_loop ?match xs n))" for xs n
    by (rule remove_loop_all)
  obtain l c where l: "lp = Some l" "lp_context l = Some c"
    using res by (auto simp: ConnRemoveMsgFromLooper_def LoopRemoveMessageCustom_def Let_def split: option.splits)
  obtain kept n where k: "remove_loop ?match (lc_msgHead c) (lc_msgSize c) = (kept, n)" by fastforce
  then have "lp' = lp \<or> lp' = Some (l\<lparr>lp_context := Some (c\<lparr>lc_msgHead := kept, lc_msgSize := n\<rparr>)\<rparr>)"
    using res l by (simp add: ConnRemoveMsgFromLooper_def LoopRemoveMessageCustom_def Let_def split: if_splits)
  with l k keep [of "lc_msgHead c" "lc_msgSize c"] ok [of "lc_msgHead c" "lc_msgSize c"] show ?thesis by (auto simp: lreqs_def looper_ok_def)
qed

lemma frame_unpost [frm]:
  assumes "what \<noteq> MSG_CONNECT_REQUEST"
  shows "frame (unpost wrapper what arg1 arg2 ob)"
proof -
  have "mreqs m = {#}" if "(if wrapper = g_brManagerAsyncHandler then BrCompareManagerLooperEventFunc else BrCompareConnectionLooperEventFunc) m ctx = 0"
      "sm_what ctx = what" "sm_handler m = Some wrapper" for m ctx
    using that assms by (auto simp: mreqs_def dest!: compare_what split: if_splits)
  from ConnRemove_lreqs [OF _ this] show ?thesis unfolding unpost_def
    by (intro frm frameI) (auto simp: core_def map_sum_Inr)
qed


text \<open>The connection module.\<close>

lemma frame_conn [frm]: "frame (conn a)"
  unfolding conn_def by (intro frm)

lemma frame_update_conn [frm]: "frame (update_conn a f)"
  unfolding update_conn_def by (intro frm)

lemma frame_get_by_id [frm]: "frame (get_by_id i)"
  unfolding get_by_id_def by (intro frm)

lemma frame_give_back [frm]: "frame (give_back a)"
  unfolding give_back_def by (intro frm)

lemma frame_remove_conn [frm]: "frame (remove_conn a)"
  unfolding remove_conn_def by (intro frm)

lemma frame_save_conn [frm]: "frame (save_conn a)"
  unfolding save_conn_def by (intro frm)

lemma frame_new_conn [frm]: "frame (new_conn addr side h)"
  unfolding new_conn_def by (intro frm)

lemma frame_get_by_addr [frm]: "frame (get_by_addr addr side)"
  unfolding get_by_addr_def by (intro frm)

lemma frame_from_json [frm]: "frame (from_json r)"
  unfolding from_json_def by (intro frm)

lemma frame_pack [frm]: "frame (pack ctx)"
  unfolding pack_def by (intro frm frameI) (auto simp: core_def split: prod.splits)

lemma frame_post_bytes [frm]: "frame (post_bytes i data pid flag modul q)"
  unfolding post_bytes_def by (intro frm)

lemma frame_OnServerAccepted [frm]: "frame (OnServerAccepted i)"
  unfolding OnServerAccepted_def by (intro frm) simp_all

lemma frame_OnClientConnected [frm]: "frame (OnClientConnected i)"
  unfolding OnClientConnected_def by (intro frm) simp_all

lemma frame_OnConnectionResume [frm]: "frame (OnConnectionResume i)"
  unfolding OnConnectionResume_def by (intro frm) simp_all

lemma frame_IsNeedWaitCallbackError [frm]: "frame (IsNeedWaitCallbackError i e)"
  unfolding IsNeedWaitCallbackError_def Let_def by (intro frm)

lemma frame_OnClientConnectFailed [frm]: "frame (OnClientConnectFailed i e)"
  unfolding OnClientConnectFailed_def by (intro frm) simp_all

lemma frame_OnDataReceived [frm]: "frame (OnDataReceived i data)"
  unfolding OnDataReceived_def by (intro frm) simp_all

lemma frame_OnConnectionException [frm]: "frame (OnConnectionException i e)"
  unfolding OnConnectionException_def by (intro frm) simp_all

lemma frame_ConnBrOccupy [frm]: "frame (ConnBrOccupy c)"
  unfolding ConnBrOccupy_def by (intro frm) simp_all

lemma frame_BrOnOccupyRelease [frm]: "frame (BrOnOccupyRelease i)"
  unfolding BrOnOccupyRelease_def by (intro frm)

lemma frame_ConnBrDisconnectNow [frm]: "frame (ConnBrDisconnectNow a)"
  unfolding ConnBrDisconnectNow_def Let_def by (intro frm)

lemma frame_NotifyUpdateConnectionRc [frm]: "frame (NotifyUpdateConnectionRc i d)"
  unfolding NotifyUpdateConnectionRc_def Let_def by (intro frm) simp_all

lemma frame_BrUpdateConnectionRc [frm]: "frame (BrUpdateConnectionRc i d)"
  unfolding BrUpdateConnectionRc_def Let_def by (intro frm) simp_all

lemma frame_ConnBrUpdateConnectionRc [frm]: "frame (ConnBrUpdateConnectionRc c d)"
  unfolding ConnBrUpdateConnectionRc_def by (intro frm)

lemma frame_BrPostReplyMessage [frm]: "frame (BrPostReplyMessage i r)"
  unfolding BrPostReplyMessage_def by (intro frm)

lemma frame_resume_closing [frm]: "frame (resume_closing a i)"
  unfolding resume_closing_def by (intro frm) simp_all

lemma frame_NotifyReferenceRequest [frm]: "frame (NotifyReferenceRequest i d r)"
  unfolding NotifyReferenceRequest_def Let_def by (intro frm) simp_all

lemma frame_BrOnReferenceRequest [frm]: "frame (BrOnReferenceRequest i d r)"
  unfolding BrOnReferenceRequest_def Let_def by (intro frm) simp_all

lemma frame_ConnBrOnReferenceRequest [frm]: "frame (ConnBrOnReferenceRequest a json)"
  unfolding ConnBrOnReferenceRequest_def by (intro frm)

lemma frame_ConnBrOnReferenceResponse [frm]: "frame (ConnBrOnReferenceResponse c json)"
  unfolding ConnBrOnReferenceResponse_def by (intro frm)

lemma frame_WaitNegotiationClosingTimeoutHandler [frm]: "frame (WaitNegotiationClosingTimeoutHandler i)"
  unfolding WaitNegotiationClosingTimeoutHandler_def by (intro frm)

lemma frame_RetryNotifyReferenceHandler [frm]: "frame (RetryNotifyReferenceHandler i)"
  unfolding RetryNotifyReferenceHandler_def by (intro frm)

lemma frame_ReportConnectExceptionHandler [frm]: "frame (ReportConnectExceptionHandler m e)"
  unfolding ReportConnectExceptionHandler_def by (intro frm) simp_all

lemma frame_obj [frm]:
  "(\<And>x. frame (a x)) \<Longrightarrow> (\<And>x. frame (b x)) \<Longrightarrow> (\<And>x y. frame (c x y)) \<Longrightarrow> (\<And>x y. frame (d x y)) \<Longrightarrow> (\<And>x y. frame (e x y)) \<Longrightarrow>
   frame (case ob of ConnectRequestObj x \<Rightarrow> a x | AddressObj x \<Rightarrow> b x | ErrorObj x y \<Rightarrow> c x y | DataObj x y \<Rightarrow> d x y | ReferenceObj x y \<Rightarrow> e x y)"
  by (cases ob) auto

lemma frame_BrConnectionMsgHandler [frm]: "frame (BrConnectionMsgHandler msg)"
  unfolding BrConnectionMsgHandler_def by (intro frm)

lemma frame_BrConnectStatusCallback [frm]: "frame (BrConnectStatusCallback bd st r)"
  unfolding BrConnectStatusCallback_def by (intro frm) simp_all

lemma frame_ConnBrConnect [frm]: "frame (ConnBrConnect a)"
  unfolding ConnBrConnect_def by (intro frm) simp_all

lemma frame_StartBrClientConnect [frm]: "frame (StartBrClientConnect a)"
  unfolding StartBrClientConnect_def by (intro frm)

lemma frame_StartClientConnect [frm]: "frame (StartClientConnect i)"
  unfolding StartClientConnect_def by (intro frm)

lemma frame_StartClientConnect_exit [frm]: "frame (StartClientConnect_exit a r)"
  unfolding StartClientConnect_exit_def by (intro frm)

lemma frame_CreateAndSaveConnection [frm]: "frame (CreateAndSaveConnection h)"
  unfolding CreateAndSaveConnection_def Let_def by (intro frm)

lemma frame_StartServerServe [frm]: "frame (StartServerServe h)"
  unfolding StartServerServe_def by (intro frm)

lemma frame_StartServerServe_exit [frm]: "frame (StartServerServe_exit a h r)"
  unfolding StartServerServe_exit_def Let_def by (intro frm)

lemma frame_put_server [frm]: "frame (put_server p v)"
  unfolding put_server_def by (rule frame_modify) (simp add: core_def)

lemma frame_server [frm]: "frame (server p)"
  by (rule frameI) (auto simp: server_def split: option.splits)

lemma frame_CheckBrServerStateAndOpenSppServer [frm]: "frame (CheckBrServerStateAndOpenSppServer p)"
  unfolding CheckBrServerStateAndOpenSppServer_def by (intro frm)

lemma frame_ListenTask [frm]: "frame (ListenTask p)"
  unfolding ListenTask_def by (intro frm)

lemma frame_ListenTask_accept [frm]: "frame (ListenTask_accept h)"
  unfolding ListenTask_accept_def by (intro frm) simp_all

lemma frame_ConnBrStartServer [frm]: "frame ConnBrStartServer"
  unfolding ConnBrStartServer_def by (intro frm frame_modify) (simp_all add: core_def)

lemma frame_ConnBrStopServer [frm]: "frame ConnBrStopServer"
  unfolding ConnBrStopServer_def by (intro frm frame_modify) (simp_all add: core_def)

section \<open>The invariant\<close>

text \<open>
  Devices are told apart by where they are allocated, the connecting device is not among the waiting ones, and
  addresses fit their arrays.
\<close>

definition short_addr :: "ConnBrDevice \<Rightarrow> bool" where
  "short_addr d \<longleftrightarrow> length (dv_addr d) < BT_MAC_LEN"

definition ids_ok :: "'d br_node \<Rightarrow> bool" where
  "ids_ok s \<longleftrightarrow> distinct (map dv_at (nd_waitings s)) \<and> (\<forall>d \<in> set (nd_waitings s). short_addr d \<and> dv_at d < nd_tick s) \<and>
     (\<forall>e. nd_connecting s = Device e \<longrightarrow> short_addr e \<and> dv_at e < nd_tick s \<and> dv_at e \<notin> dv_at ` set (nd_waitings s))"

definition fresh :: "ConnBrDevice \<Rightarrow> 'd br_node \<Rightarrow> bool" where
  "fresh d s \<longleftrightarrow> short_addr d \<and> dv_at d < nd_tick s \<and> dv_at d \<notin> dv_at ` set (nd_waitings s) \<and> (\<forall>e. nd_connecting s = Device e \<longrightarrow> dv_at e \<noteq> dv_at d)"

text \<open>There is a connecting device only in the connecting state.\<close>

definition idle_free :: "'d br_node \<Rightarrow> bool" where
  "idle_free s \<longleftrightarrow> (nd_state s \<noteq> Some BR_STATE_CONNECTING \<longrightarrow> (\<forall>e. nd_connecting s \<noteq> Device e))"

text \<open>\<open>J t P\<close>: all requests together are \<open>t\<close>, and \<open>P\<close>.\<close>

definition J :: "(nat \<times> nat) multiset \<Rightarrow> ('d br_node \<Rightarrow> bool) \<Rightarrow> 'd br_node \<Rightarrow> bool" where
  "J t P s \<longleftrightarrow> looper_ok (nd_looper s) \<and> ids_ok s \<and> total_reqs s = t \<and> P s"

definition shape :: "'d br_node \<Rightarrow> BrServerState option \<times> ConnBrDevice list \<times> device_pointer" where
  "shape s = (nd_state s, nd_waitings s, nd_connecting s)"

definition shapely :: "('d br_node \<Rightarrow> bool) \<Rightarrow> bool" where
  "shapely P \<longleftrightarrow> (\<forall>s t. P s \<longrightarrow> shape t = shape s \<longrightarrow> nd_tick s \<le> nd_tick t \<longrightarrow> P t)"

text \<open>\<open>adds a m\<close>: running \<open>m\<close> answers the requests \<open>a\<close>, and leaves the devices alone.\<close>

definition adds :: "(nat \<times> nat) multiset \<Rightarrow> ('d, 'a) br_prog \<Rightarrow> bool" where
  "adds a m \<longleftrightarrow> (\<forall>s x t. m s = Some (Inr (x, t)) \<longrightarrow> shape t = shape s \<and> nd_tick s \<le> nd_tick t \<and>
     (looper_ok (nd_looper s) \<longrightarrow> looper_ok (nd_looper t)) \<and> lreqs (nd_looper t) + answers (nd_calls t) = lreqs (nd_looper s) + answers (nd_calls s) + a)"

named_theorems shp

lemma shapely_ids_ok: "shapely ids_ok"
  by (auto simp: shapely_def ids_ok_def shape_def dest: less_le_trans)

lemma shapely_fresh [shp]: "shapely (fresh d)"
  by (auto simp: shapely_def fresh_def shape_def dest: less_le_trans)

lemma shapely_idle_free [shp]: "shapely idle_free"
  by (auto simp: shapely_def idle_free_def shape_def)

lemma shapely_state [shp]: "shapely (\<lambda>s. nd_state s = st)"
  by (auto simp: shapely_def shape_def)

lemma shapely_connecting [shp]: "shapely (\<lambda>s. P (nd_connecting s))"
  by (auto simp: shapely_def shape_def)

lemma shapely_waitings [shp]: "shapely (\<lambda>s. P (nd_waitings s))"
  by (auto simp: shapely_def shape_def)

lemma shapely_conj [shp]: "shapely P \<Longrightarrow> shapely Q \<Longrightarrow> shapely (\<lambda>s. P s \<and> Q s)"
  by (auto simp: shapely_def)

lemma shapely_const [shp]: "shapely (\<lambda>s. b)"
  by (simp add: shapely_def)

lemma frame_adds: "frame m \<longleftrightarrow> adds {#} m"
  by (auto simp: frame_def adds_def core_def shape_def)

lemma adds_bnd: "adds a m \<Longrightarrow> (\<And>x. adds b (f x)) \<Longrightarrow> adds (a + b) (bnd m f)"
  by (fastforce simp: adds_def bnd_def ac_simps split: option.splits sum.splits prod.splits)

lemma adds_seq: "adds a m \<Longrightarrow> adds b n \<Longrightarrow> adds (a + b) (seq m n)"
  unfolding seq_def by (rule adds_bnd)

lemma adds_frame_bnd: "frame m \<Longrightarrow> (\<And>x. adds b (f x)) \<Longrightarrow> adds b (bnd m f)"
  using adds_bnd [of "{#}" m b f] by (simp add: frame_adds)

lemma adds_frame_seq: "frame m \<Longrightarrow> adds b n \<Longrightarrow> adds b (seq m n)"
  unfolding seq_def by (rule adds_frame_bnd)

lemma adds_call: "adds (answer c) (call c)"
  by (auto simp: adds_def call_def modify_def shape_def answers_def)

lemma adds_J: "adds a m \<Longrightarrow> shapely P \<Longrightarrow> hoare (J t P) m (\<lambda>_. J (t + a) P)"
  using shapely_ids_ok
  by (fastforce simp: hoare_def J_def adds_def shapely_def total_reqs_def outstanding_def shape_def ac_simps)

lemma frame_J: "frame m \<Longrightarrow> shapely P \<Longrightarrow> hoare (J t P) m (\<lambda>_. J t P)"
  using adds_J [of "{#}" m P t] by (simp add: frame_adds)

lemma frame_J_bnd: "frame m \<Longrightarrow> shapely P \<Longrightarrow> (\<And>x. hoare (J t P) (f x) Q) \<Longrightarrow> hoare (J t P) (bnd m f) Q"
  by (rule hoare_bnd [OF frame_J])

lemma frame_J_seq: "frame m \<Longrightarrow> shapely P \<Longrightarrow> hoare (J t P) n Q \<Longrightarrow> hoare (J t P) (seq m n) Q"
  by (rule hoare_seq [OF frame_J])

lemma adds_J_seq: "adds a m \<Longrightarrow> shapely P \<Longrightarrow> hoare (J (t + a) P) n Q \<Longrightarrow> hoare (J t P) (seq m n) Q"
  by (rule hoare_seq [OF adds_J])

section \<open>Answering\<close>

lemma adds_each: "(\<And>x. adds (g x) (f x)) \<Longrightarrow> adds (sum_list (map g xs)) (each f xs)"
proof (induction xs)
  case Nil
  then show ?case using frame_ret [of "()"] by (simp add: frame_adds)
qed (auto intro: adds_seq)

lemma sum_singletons: "sum_list (map (\<lambda>x. {#g x#}) xs) = image_mset g (mset xs)"
  by (induction xs) auto

lemma adds_notify_success: "adds (image_mset (\<lambda>r. (rq_result r, rq_requestId r)) (mset rs)) (notify_success a info rs isReuse :: ('d, unit) br_prog)"
proof (induction a info rs isReuse rule: notify_success.induct)
  case (1 a info isReuse)
  then show ?case using frame_ret [of "()"] by (simp add: frame_adds)
next
  case (2 a info it rest isReuse)
  have "adds ({#(rq_result it, rq_requestId it)#} + image_mset (\<lambda>r. (rq_result r, rq_requestId r)) (mset rest))
          (seq (call (OnConnectSuccessed (rq_result it) (rq_requestId it) i info)) (notify_success a info rest True) :: ('d, unit) br_prog)" for i
    using adds_call [of "OnConnectSuccessed (rq_result it) (rq_requestId it) i info"] 2 by (intro adds_seq) simp_all
  then have "adds (image_mset (\<lambda>r. (rq_result r, rq_requestId r)) (mset (it # rest)))
      (bnd (conn a) (\<lambda>c. seq (call (OnConnectSuccessed (rq_result it) (rq_requestId it) (bc_connectionId c) info)) (notify_success a info rest True))
         :: ('d, unit) br_prog)"
    by (intro adds_frame_bnd frame_conn) simp
  then show ?case unfolding notify_success.simps by (rule adds_frame_seq [rotated]) (intro frm)
qed

lemma adds_NotifyDeviceConnectResult: "adds (dreqs d) (NotifyDeviceConnectResult d c isReuse reason)"
proof (cases c)
  case None
  have "adds (sum_list (map (\<lambda>it. {#(rq_result it, rq_requestId it)#}) (dv_requests d)))
     (each (\<lambda>it. call (OnConnectFailed (rq_result it) (rq_requestId it) reason)) (dv_requests d))"
  proof (rule adds_each)
    show "adds {#(rq_result x, rq_requestId x)#} (call (OnConnectFailed (rq_result x) (rq_requestId x) reason))" for x
      using adds_call [of "OnConnectFailed (rq_result x) (rq_requestId x) reason"] by simp
  qed
  then show ?thesis unfolding NotifyDeviceConnectResult_def None
    by (auto intro!: adds_frame_seq frm simp: dreqs_def sum_singletons)
next
  case (Some a)
  show ?thesis unfolding NotifyDeviceConnectResult_def Some Let_def
    by (auto intro!: adds_frame_seq adds_frame_bnd frm adds_notify_success simp: dreqs_def)
qed

lemma hoare_BrReuseConnection:
  assumes "shapely P"
  shows "hoare (J t P) (BrReuseConnection d a) (\<lambda>r. J (if r then t + dreqs d else t) P)"
  unfolding BrReuseConnection_def
proof (rule frame_J_bnd [OF frame_succeeds assms])
  show "hoare (J t P) (if \<not> ok then ret False else bnd (conn a) (\<lambda>c. if bc_state c \<noteq> BR_CONNECTION_STATE_CONNECTED then ret False
      else seq (NotifyDeviceConnectResult d (Some a) True 0) (ret True))) (\<lambda>r. J (if r then t + dreqs d else t) P)" for ok
    using assms by (auto intro!: frame_J_bnd [OF frame_conn] hoare_pre [OF hoare_ret] adds_J_seq [OF adds_NotifyDeviceConnectResult])
qed

section \<open>Devices\<close>

lemma dreqs_update [simp]:
  "dreqs (d\<lparr>dv_state := st\<rparr>) = dreqs d" "fresh (d\<lparr>dv_state := st\<rparr>) s = fresh d s"
  "dreqs (d\<lparr>dv_keepAliveBleRequestId := i, dv_keepAliveBleConnectionId := j\<rparr>) = dreqs d"
  "fresh (d\<lparr>dv_keepAliveBleRequestId := i, dv_keepAliveBleConnectionId := j\<rparr>) s = fresh d s"
  by (simp_all add: dreqs_def fresh_def short_addr_def)

lemma short_addr_update [simp]:
  "short_addr (d\<lparr>dv_state := st\<rparr>) = short_addr d" "short_addr (join_requests d target) = short_addr target"
  by (simp_all add: short_addr_def join_requests_def)

lemma dreqs_join: "dreqs (join_requests d target) = dreqs target + dreqs d"
  by (simp add: dreqs_def join_requests_def)

lemma dv_at_join [simp]: "dv_at (join_requests d target) = dv_at target"
  by (simp add: join_requests_def)

lemma wreqs_join_waiting: "wreqs (join_waiting d ds) = wreqs ds + dreqs d"
  by (induction ds) (auto simp: wreqs_def dreqs_join ac_simps)

lemma short_join_waiting: "short_addr d \<Longrightarrow> \<forall>x \<in> set ds. short_addr x \<Longrightarrow> x \<in> set (join_waiting d ds) \<Longrightarrow> short_addr x"
  by (induction ds) (auto split: if_splits)

lemma short_schedule_first: "\<forall>x \<in> set ds. short_addr x \<Longrightarrow> x \<in> set (schedule_first addr ds) \<Longrightarrow> short_addr x"
  by (induction ds) (auto split: if_splits)

lemma ids_join_waiting: "map dv_at (join_waiting d ds) = map dv_at ds \<or> map dv_at (join_waiting d ds) = map dv_at ds @ [dv_at d]"
  by (induction ds) auto

lemma filter_absent: "dv_at d \<notin> dv_at ` set ds \<Longrightarrow> filter (\<lambda>it. dv_at it \<noteq> dv_at d) ds = ds"
  by (rule filter_True) (metis imageI)

lemma wreqs_remove:
  "distinct (map dv_at ds) \<Longrightarrow> d \<in> set ds \<Longrightarrow> wreqs ds = wreqs (filter (\<lambda>it. dv_at it \<noteq> dv_at d) ds) + dreqs d"
proof (induction ds)
  case (Cons x ds)
  show ?case
  proof (cases "dv_at x = dv_at d")
    case True
    with Cons.prems have "x = d" by (metis distinct.simps(2) imageI list.set_map list.simps(9) set_ConsD)
    moreover have "filter (\<lambda>it. dv_at it \<noteq> dv_at d) ds = ds" using Cons.prems True by (intro filter_absent) simp
    ultimately show ?thesis by (simp add: wreqs_def)
  next
    case False
    with Cons show ?thesis by (auto simp: wreqs_def ac_simps)
  qed
qed simp

lemma distinct_filter_ids: "distinct (map dv_at ds) \<Longrightarrow> distinct (map dv_at (filter P ds))"
  by (rule distinct_map_filter)

lemma schedule_first_ids [simp]: "map dv_at (schedule_first addr ds) = map dv_at ds" "wreqs (schedule_first addr ds) = wreqs ds"
  by (induction ds) (auto simp: wreqs_def)

lemma schedule_first_at [simp]: "dv_at ` set (schedule_first addr ds) = dv_at ` set ds"
  using schedule_first_ids(1) [of addr ds] by (metis list.set_map)

text \<open>Freeing a device that is in nobody's list, that waits, or that is connecting.\<close>

lemma FreeDevice_fresh: "fresh d s \<Longrightarrow> FreeDevice d s = Some (Inr ((), s))"
  by (cases "nd_connecting s") (auto simp: FreeDevice_def modify_def fresh_def filter_absent)

lemma free_fresh: "hoare (J t (\<lambda>s. P s \<and> fresh d s)) (FreeDevice d) (\<lambda>_. J t P)"
  by (auto simp: hoare_def J_def FreeDevice_fresh)

definition unlink :: "ConnBrDevice \<Rightarrow> 'd br_node \<Rightarrow> 'd br_node" where
  "unlink d s = s\<lparr>nd_waitings := filter (\<lambda>it. dv_at it \<noteq> dv_at d) (nd_waitings s)\<rparr>"

lemma J_unlink:
  assumes "J t (\<lambda>s. P (nd_state s) (nd_connecting s)) s" "d \<in> set (nd_waitings s)"
  shows "dreqs d \<subseteq># t" "J (t - dreqs d) (\<lambda>s. P (nd_state s) (nd_connecting s) \<and> fresh d s) (unlink d s)"
proof -
  have ids: "ids_ok s" and t: "total_reqs s = t" and P: "looper_ok (nd_looper s)" "P (nd_state s) (nd_connecting s)" using assms(1) by (auto simp: J_def)
  have w: "wreqs (nd_waitings s) = wreqs (filter (\<lambda>it. dv_at it \<noteq> dv_at d) (nd_waitings s)) + dreqs d"
    using ids assms(2) by (intro wreqs_remove) (auto simp: ids_ok_def)
  then have eq: "t = total_reqs (unlink d s) + dreqs d"
    unfolding t [symmetric] by (simp add: total_reqs_def outstanding_def unlink_def)
  show "dreqs d \<subseteq># t" unfolding eq by simp
  have "ids_ok (unlink d s)" using ids by (auto simp: ids_ok_def unlink_def distinct_filter_ids)
  moreover have "fresh d (unlink d s)" using ids assms(2) by (auto simp: fresh_def ids_ok_def unlink_def)
  ultimately show "J (t - dreqs d) (\<lambda>s. P (nd_state s) (nd_connecting s) \<and> fresh d s) (unlink d s)"
    using P by (simp add: J_def eq unlink_def [of d s])
qed

text \<open>A waiting device is taken off the list, or freed.\<close>

lemma unlink_waiting:
  "hoare (J t (\<lambda>s. P (nd_state s) (nd_connecting s) \<and> d \<in> set (nd_waitings s)))
     (modify (\<lambda>s. s\<lparr>nd_waitings := filter (\<lambda>it. dv_at it \<noteq> dv_at d) (nd_waitings s)\<rparr>))
     (\<lambda>_ s. dreqs d \<subseteq># t \<and> J (t - dreqs d) (\<lambda>s. P (nd_state s) (nd_connecting s) \<and> fresh d s) s)"
proof (rule hoareI)
  fix s x s'
  assume "J t (\<lambda>s. P (nd_state s) (nd_connecting s) \<and> d \<in> set (nd_waitings s)) s"
    and run: "modify (\<lambda>s. s\<lparr>nd_waitings := filter (\<lambda>it. dv_at it \<noteq> dv_at d) (nd_waitings s)\<rparr>) s = Some (Inr (x, s'))"
  then have "J t (\<lambda>s. P (nd_state s) (nd_connecting s)) s" "d \<in> set (nd_waitings s)" by (auto simp: J_def)
  moreover have "s' = unlink d s" using run by (simp add: modify_def unlink_def)
  ultimately show "dreqs d \<subseteq># t \<and> J (t - dreqs d) (\<lambda>s. P (nd_state s) (nd_connecting s) \<and> fresh d s) s'" using J_unlink by blast
qed

lemma FreeDevice_waiting: "ids_ok s \<Longrightarrow> d \<in> set (nd_waitings s) \<Longrightarrow> FreeDevice d s = Some (Inr ((), unlink d s))"
  by (cases "nd_connecting s") (auto simp: FreeDevice_def modify_def unlink_def ids_ok_def)

lemma free_connecting:
  "hoare (J (t + dreqs d) (\<lambda>s. nd_connecting s = Device d)) (FreeDevice d) (\<lambda>_. J t (\<lambda>s. nd_connecting s = FreedDevice))"
  by (auto simp: hoare_def FreeDevice_def modify_def J_def ids_ok_def total_reqs_def outstanding_def distinct_filter_ids filter_absent)

lemma hoare_set_NoDevice:
  "hoare (J t (\<lambda>s. nd_connecting s = FreedDevice)) (set_connecting NoDevice) (\<lambda>_. J t (\<lambda>s. nd_connecting s = NoDevice))"
  by (auto simp: hoare_def set_connecting_def modify_def J_def ids_ok_def total_reqs_def outstanding_def)

text \<open>A device that pends joins another one or waits.\<close>

lemma hoare_PendingDevice:
  "hoare (J t (\<lambda>s. idle_free s \<and> fresh d s)) (PendingDevice d) (\<lambda>r. J (t + dreqs d) (\<lambda>s. idle_free s \<and> r = (SOFTBUS_OK, d)))"
proof (rule hoareI)
  fix s :: "'a br_node" and r s'
  assume pre: "J t (\<lambda>s. idle_free s \<and> fresh d s) s" and run: "PendingDevice d s = Some (Inr (r, s'))"
  have ids: "map dv_at (join_waiting d (nd_waitings s)) = map dv_at (nd_waitings s) \<or>
      map dv_at (join_waiting d (nd_waitings s)) = map dv_at (nd_waitings s) @ [dv_at d]" by (rule ids_join_waiting)
  then have mem: "dv_at ` set (join_waiting d (nd_waitings s)) \<subseteq> insert (dv_at d) (dv_at ` set (nd_waitings s))"
    by (metis (no_types, lifting) Un_insert_right boolean_algebra.disj_zero_right list.set_map list.simps(15) list.set(1) set_append subset_insertI subset_refl)
  have dist: "distinct (map dv_at (join_waiting d (nd_waitings s)))"
    using ids pre by (auto simp: J_def ids_ok_def fresh_def)
  consider (joins) e where "nd_connecting s = Device e" "r = (SOFTBUS_OK, d)" "s' = s\<lparr>nd_connecting := Device (join_requests d e)\<rparr>"
    | (waits) "r = (SOFTBUS_OK, d)" "s' = s\<lparr>nd_waitings := join_waiting d (nd_waitings s)\<rparr>"
    using run by (auto simp: PendingDevice_def connecting_def bnd_def gets_def seq_def ret_def crash_def set_connecting_def modify_def
        split: device_pointer.splits if_splits)
  then show "J (t + dreqs d) (\<lambda>s. idle_free s \<and> r = (SOFTBUS_OK, d)) s'"
  proof cases
    case joins
    with pre show ?thesis
      by (auto simp: J_def ids_ok_def total_reqs_def outstanding_def idle_free_def dreqs_join ac_simps)
  next
    case waits
    have "dv_at x < nd_tick s" "short_addr x" if "x \<in> set (join_waiting d (nd_waitings s))" for x
      using mem that pre short_join_waiting [of d "nd_waitings s" x] by (auto simp: J_def ids_ok_def fresh_def)
    with waits pre dist mem show ?thesis
      by (auto simp: J_def ids_ok_def total_reqs_def outstanding_def idle_free_def wreqs_join_waiting fresh_def ac_simps)
  qed
qed

section \<open>Scheduling\<close>

lemma frame_connecting [frm]: "frame connecting"
  unfolding connecting_def by (rule frame_bnd [OF frame_gets]) (auto split: device_pointer.split intro: frm)

lemma frame_next_cmd [frm]: "frame next_cmd"
  unfolding next_cmd_def by (intro frm) simp

lemma frame_KeepAlive [frm]: "frame (KeepAliveBleIfSameAddress d)"
  unfolding KeepAliveBleIfSameAddress_def by (intro frm) simp

lemma frame_pending_addr [frm]: "frame (pending_addr addr)"
  unfolding pending_addr_def by (intro frm)

lemma frame_CheckPending [frm]: "frame (CheckPending addr)"
  unfolding CheckPending_def by (intro frm)

lemma frame_give_back_if [frm]: "frame (give_back_if c)"
  unfolding give_back_if_def by (intro frm)

lemma to_available:
  "hoare (J t (\<lambda>s. \<forall>e. nd_connecting s \<noteq> Device e)) (TransitionToState BR_STATE_AVAILABLE) (\<lambda>_. J t idle_free)"
proof -
  have set_state: "hoare (J t (\<lambda>s. \<forall>e. nd_connecting s \<noteq> Device e)) (modify (\<lambda>s. s\<lparr>nd_state := Some BR_STATE_AVAILABLE\<rparr>)) (\<lambda>_. J t idle_free)"
    by (auto simp: hoare_def modify_def J_def ids_ok_def total_reqs_def outstanding_def idle_free_def)
  have "hoare (J t (\<lambda>s. \<forall>e. nd_connecting s \<noteq> Device e)) (ret ()) (\<lambda>_. J t idle_free)"
    by (rule hoare_pre [OF hoare_ret]) (simp add: J_def idle_free_def)
  then show ?thesis unfolding TransitionToState_def EnterAvailableState_def
    by (intro frame_J_bnd frm shp) (auto intro!: hoare_seq [OF set_state] frame_J frm shp)
qed

lemma to_connecting: "hoare (J t (\<lambda>_. True)) (TransitionToState BR_STATE_CONNECTING) (\<lambda>_. J t idle_free)"
  by (auto simp: hoare_def TransitionToState_def bnd_def gets_def seq_def modify_def ret_def J_def ids_ok_def total_reqs_def outstanding_def idle_free_def
      split: if_splits)

text \<open>When connecting to a device has failed, the caller still has the device, and it may be the connecting one.\<close>

definition failed :: "(nat \<times> nat) multiset \<Rightarrow> ConnBrDevice \<Rightarrow> 'd br_node \<Rightarrow> bool" where
  "failed t d s \<longleftrightarrow> J t (\<lambda>s. (\<forall>e. nd_connecting s \<noteq> Device e) \<and> fresh d s) s \<or> J (t + dreqs d) (\<lambda>s. nd_connecting s = Device d) s"

lemma hoare_disj: "hoare P m Q \<Longrightarrow> hoare P' m Q' \<Longrightarrow> hoare (\<lambda>s. P s \<or> P' s) m (\<lambda>x s. Q x s \<or> Q' x s)"
  by (auto simp: hoare_def)

lemma frame_failed: "frame m \<Longrightarrow> hoare (failed t d) m (\<lambda>_. failed t d)"
  unfolding failed_def by (intro hoare_disj frame_J shp)

definition connected_or_failed :: "(nat \<times> nat) multiset \<Rightarrow> ConnBrDevice \<Rightarrow> int \<Rightarrow> 'd br_node \<Rightarrow> bool" where
  "connected_or_failed t d r s \<longleftrightarrow> (if r = SOFTBUS_OK then J (t + dreqs d) idle_free s else failed t d s)"

lemma frame_connected_or_failed: "frame m \<Longrightarrow> hoare (connected_or_failed t d r) m (\<lambda>_. connected_or_failed t d r)"
  unfolding connected_or_failed_def by (cases "r = SOFTBUS_OK") (simp_all add: frame_failed frame_J shapely_idle_free)

lemma set_connecting_fresh:
  "hoare (J t (\<lambda>s. (\<forall>e. nd_connecting s \<noteq> Device e) \<and> fresh d s)) (set_connecting (Device d)) (\<lambda>_. J (t + dreqs d) (\<lambda>s. nd_connecting s = Device d))"
  by (rule hoareI, case_tac "nd_connecting s")
    (auto simp: set_connecting_def modify_def J_def ids_ok_def total_reqs_def outstanding_def fresh_def ac_simps)

lemma hoare_connect_steps:
  "hoare (J t (\<lambda>s. (\<forall>e. nd_connecting s \<noteq> Device e) \<and> fresh d s)) (connect_steps d a) (\<lambda>r. connected_or_failed t d r)"
proof -
  have fail: "hoare (J t (\<lambda>s. (\<forall>e. nd_connecting s \<noteq> Device e) \<and> fresh d s)) (ret r) (\<lambda>r. connected_or_failed t d r)" if "r \<noteq> SOFTBUS_OK" for r
    by (rule hoare_pre [OF hoare_ret]) (simp add: connected_or_failed_def failed_def that)
  have post_fail: "hoare (J (t + dreqs d) (\<lambda>s. nd_connecting s = Device d)) (ret r) (\<lambda>r. connected_or_failed t d r)" if "r \<noteq> SOFTBUS_OK" for r
    by (rule hoare_pre [OF hoare_ret]) (simp add: connected_or_failed_def failed_def that)
  have fin: "hoare (J (t + dreqs d) (\<lambda>s. nd_connecting s = Device d)) (seq (TransitionToState BR_STATE_CONNECTING) (ret SOFTBUS_OK)) (\<lambda>r. connected_or_failed t d r)"
    by (rule hoare_seq [OF hoare_pre [OF to_connecting]]) (auto simp: J_def connected_or_failed_def intro: hoare_pre [OF hoare_ret])
  show ?thesis unfolding connect_steps_def
    by (intro frame_J_bnd frm shp)
      (auto intro!: frame_J_bnd frm shp hoare_seq [OF set_connecting_fresh] fail post_fail fin)
qed

lemma hoare_ConnectDeviceDirectly:
  "hoare (J t (\<lambda>s. (\<forall>e. nd_connecting s \<noteq> Device e) \<and> fresh d s)) (ConnectDeviceDirectly d)
     (\<lambda>(r, d') s. dreqs d' = dreqs d \<and> connected_or_failed t d' r s)"
proof -
  let ?P = "\<lambda>d s. (\<forall>e. nd_connecting s \<noteq> Device e) \<and> fresh d s"
  have fail: "hoare (J t (?P d)) (ret (SOFTBUS_CONN_BR_INTERNAL_ERR, d)) (\<lambda>(r, d') s. dreqs d' = dreqs d \<and> connected_or_failed t d' r s)"
    by (rule hoare_pre [OF hoare_ret]) (simp add: connected_or_failed_def failed_def)
  have keepalive: "hoare (J t (?P d)) (KeepAliveBleIfSameAddress d) (\<lambda>d' s. dreqs d' = dreqs d \<and> J t (?P d') s)"
    unfolding KeepAliveBleIfSameAddress_def
    by (auto intro!: frame_J_bnd frm shp frame_J_seq hoare_pre [OF hoare_ret] split: option.split simp: J_def)
  have rest: "hoare (\<lambda>s. dreqs d' = dreqs d \<and> connected_or_failed t d' r s)
      (seq (if r \<noteq> SOFTBUS_OK then remove_conn a else ret ()) (seq (give_back a) (ret (r, d'))))
      (\<lambda>(r, d') s. dreqs d' = dreqs d \<and> connected_or_failed t d' r s)" for r d' a
    by (cases "dreqs d' = dreqs d")
      (auto intro!: hoare_seq [OF frame_connected_or_failed] frm hoare_pre [OF hoare_ret] simp: hoare_def [of "\<lambda>_. False"])
  have steps: "hoare (\<lambda>s. dreqs d' = dreqs d \<and> J t (?P d') s) (connect_steps d' a) (\<lambda>r s. dreqs d' = dreqs d \<and> connected_or_failed t d' r s)" for d' a
    using hoare_connect_steps [of t d' a] by (auto simp: hoare_def)
  show ?thesis unfolding ConnectDeviceDirectly_def
    by (intro frame_J_bnd frm shp)
      (auto split: option.split intro!: fail hoare_bnd [OF keepalive] hoare_bnd [OF steps] rest)
qed

text \<open>What the two actions for a device with no connection promise.\<close>

definition action_ok :: "BrServerState option \<Rightarrow> (ConnBrDevice \<Rightarrow> ('d, int \<times> ConnBrDevice) br_prog) \<Rightarrow> bool" where
  "action_ok st action \<longleftrightarrow>
     (\<forall>t d. hoare (J t (\<lambda>s. idle_free s \<and> fresh d s \<and> nd_state s = st)) (action d)
        (\<lambda>(r, d') s. dreqs d' = dreqs d \<and> connected_or_failed t d' r s))"

lemma action_ConnectDeviceDirectly: "action_ok (Some BR_STATE_AVAILABLE) ConnectDeviceDirectly"
  unfolding action_ok_def
  by (intro allI) (rule hoare_pre [OF hoare_ConnectDeviceDirectly], auto simp: J_def idle_free_def)

lemma action_PendingDevice: "action_ok st PendingDevice"
  unfolding action_ok_def
  by (intro allI) (rule hoare_post [OF hoare_pre [OF hoare_PendingDevice]], auto simp: J_def connected_or_failed_def)

lemma hoare_pends:
  "hoare (J t (\<lambda>s. idle_free s \<and> fresh d s)) (ignore (PendingDevice (d\<lparr>dv_state := st\<rparr>))) (\<lambda>_. J (t + dreqs d) idle_free)"
proof -
  have "hoare (J t (\<lambda>s. idle_free s \<and> fresh d s)) (PendingDevice (d\<lparr>dv_state := st\<rparr>)) (\<lambda>_. J (t + dreqs d) idle_free)"
    using hoare_PendingDevice [of t "d\<lparr>dv_state := st\<rparr>"] by (auto simp: hoare_def J_def)
  then show ?thesis unfolding ignore_def by (rule hoare_seq) (rule hoare_pre [OF hoare_ret], simp)
qed

lemma hoare_give_up:
  "hoare (failed t d) (seq (NotifyDeviceConnectResult d None False r) (FreeDevice d)) (\<lambda>_. J (t + dreqs d) idle_free)"
proof -
  have "hoare (J t (\<lambda>s. (\<forall>e. nd_connecting s \<noteq> Device e) \<and> fresh d s)) (seq (NotifyDeviceConnectResult d None False r) (FreeDevice d))
      (\<lambda>_. J (t + dreqs d) idle_free)"
    by (rule adds_J_seq [OF adds_NotifyDeviceConnectResult], intro shp)
      (rule hoare_pre [OF free_fresh], auto simp: J_def idle_free_def)
  moreover have "hoare (J (t + dreqs d) (\<lambda>s. nd_connecting s = Device d)) (seq (NotifyDeviceConnectResult d None False r) (FreeDevice d))
      (\<lambda>_. J (t + dreqs d) idle_free)"
    by (rule adds_J_seq [OF adds_NotifyDeviceConnectResult], intro shp)
      (rule hoare_post [OF free_connecting], auto simp: J_def idle_free_def)
  ultimately show ?thesis unfolding failed_def by (auto simp: hoare_def)
qed

lemma hoare_CheckPendingAndactionIfAbsent:
  assumes "action_ok st action"
  shows "hoare (J t (\<lambda>s. idle_free s \<and> fresh d s \<and> nd_state s = st)) (CheckPendingAndactionIfAbsent d action) (\<lambda>_. J (t + dreqs d) idle_free)"
proof -
  let ?d = "d\<lparr>dv_state := BR_DEVICE_STATE_WAIT_SCHEDULE\<rparr>"
  have action: "hoare (J t (\<lambda>s. idle_free s \<and> fresh d s \<and> nd_state s = st)) (action ?d) (\<lambda>(r, d') s. dreqs d' = dreqs d \<and> connected_or_failed t d' r s)"
    using assms [unfolded action_ok_def, rule_format, of t ?d] by simp
  have finish: "hoare (\<lambda>s. dreqs d' = dreqs d \<and> connected_or_failed t d' r s)
      (if r \<noteq> SOFTBUS_OK then seq (NotifyDeviceConnectResult d' None False r) (FreeDevice d') else ret ()) (\<lambda>_. J (t + dreqs d) idle_free)" for r d'
    using hoare_give_up [of t d' r] by (auto simp: connected_or_failed_def hoare_def ret_def)
  have pend: "hoare (J t (\<lambda>s. idle_free s \<and> fresh d s \<and> nd_state s = st)) (ignore (PendingDevice (d\<lparr>dv_state := BR_DEVICE_STATE_PENDING\<rparr>)))
      (\<lambda>_. J (t + dreqs d) idle_free)"
    by (rule hoare_pre [OF hoare_pends]) (auto simp: J_def)
  show ?thesis unfolding CheckPendingAndactionIfAbsent_def
    by (rule frame_J_bnd, intro frm, intro shp)
      (auto intro!: pend hoare_bnd [OF action] finish split: prod.splits)
qed

lemma hoare_reuse_then:
  assumes "hoare (J t (\<lambda>s. idle_free s \<and> fresh d s)) m (\<lambda>r. J (if r then t + dreqs d else t) (\<lambda>s. idle_free s \<and> fresh d s))"
    and "hoare (J t (\<lambda>s. idle_free s \<and> fresh d s)) n (\<lambda>_. J (t + dreqs d) idle_free)"
  shows "hoare (J t (\<lambda>s. idle_free s \<and> fresh d s)) (bnd m (\<lambda>r. if r then FreeDevice d else n)) (\<lambda>_. J (t + dreqs d) idle_free)"
  by (rule hoare_bnd [OF assms(1)]) (auto intro: assms(2) free_fresh)

lemma hoare_no_reuse:
  "shapely P \<Longrightarrow> hoare (J t P) (ret False) (\<lambda>r. J (if r then t + a else t) P)"
  by (rule hoare_pre [OF hoare_ret]) simp

lemma hoare_AttempReuseConnect:
  assumes "action_ok st action"
  shows "hoare (J t (\<lambda>s. idle_free s \<and> fresh d s \<and> nd_state s = st)) (AttempReuseConnect d action) (\<lambda>_. J (t + dreqs d) idle_free)"
proof -
  let ?P = "\<lambda>s. idle_free s \<and> fresh d s"
  have sh: "shapely ?P" by (intro shp)
  note pend = hoare_pends [of t d BR_DEVICE_STATE_WAIT_EVENT]
  have by_id: "hoare (J t ?P) (case c of None \<Rightarrow> ret False
      | Some a \<Rightarrow> bnd (conn a) (\<lambda>c. if dv_addr d = bc_addr c then BrReuseConnection d a else ret False)) (\<lambda>r. J (if r then t + dreqs d else t) ?P)" for c
    by (auto split: option.split intro!: hoare_no_reuse [OF sh] frame_J_bnd [OF frame_conn sh] hoare_BrReuseConnection [OF sh])
  have by_conn: "hoare (J t ?P) (reuse_if d c) (\<lambda>r. J (if r then t + dreqs d else t) ?P)" for c
    unfolding reuse_if_def by (auto split: option.split intro!: hoare_no_reuse [OF sh] hoare_BrReuseConnection [OF sh])
  have weaken: "hoare (J t ?P) m Q \<Longrightarrow> hoare (J t (\<lambda>s. idle_free s \<and> fresh d s \<and> nd_state s = st)) m Q" for m :: "('b, unit) br_prog" and Q
    by (erule hoare_pre) (auto simp: J_def)
  show ?thesis unfolding AttempReuseConnect_def
  proof (intro frame_J_bnd frm shp)
    fix c1 c2
    show "hoare (J t (\<lambda>s. idle_free s \<and> fresh d s \<and> nd_state s = st)) (if c1 = None \<and> c2 = None then CheckPendingAndactionIfAbsent d action
       else bnd (get_by_id (dv_connectionId d)) (\<lambda>connection.
         seq (bnd (case connection of None \<Rightarrow> ret False | Some a \<Rightarrow> bnd (conn a) (\<lambda>c. if dv_addr d = bc_addr c then BrReuseConnection d a else ret False))
               (\<lambda>reused. if reused then FreeDevice d else bnd (reuse_if d c1) (\<lambda>reused. if reused then FreeDevice d
                 else bnd (reuse_if d c2) (\<lambda>reused. if reused then FreeDevice d else ignore (PendingDevice (d\<lparr>dv_state := BR_DEVICE_STATE_WAIT_EVENT\<rparr>))))))
          (seq (give_back_if c1) (seq (give_back_if c2) (give_back_if connection))))) (\<lambda>_. J (t + dreqs d) idle_free)"
      by (auto intro!: hoare_CheckPendingAndactionIfAbsent [OF assms] weaken frame_J_bnd [OF frame_get_by_id sh]
          hoare_seq [OF hoare_reuse_then [OF by_id hoare_reuse_then [OF by_conn hoare_reuse_then [OF by_conn pend]]]] frame_J frm shp)
  qed
qed

section \<open>Requests arrive and are scheduled\<close>

definition ctx_req :: "ConnBrConnectRequestContext \<Rightarrow> (nat \<times> nat) multiset" where
  "ctx_req ctx = {#(cc_result ctx, cc_requestId ctx)#}"

lemma hoare_gets_bnd: "(\<And>x. hoare (\<lambda>s. P s \<and> f s = x) (g x) Q) \<Longrightarrow> hoare P (bnd (gets f) g) Q"
  by (simp add: hoare_def bnd_def gets_def)

lemma hoare_connecting_bnd:
  assumes "hoare (\<lambda>s. P s \<and> nd_connecting s = NoDevice) (g None) Q" "\<And>d. hoare (\<lambda>s. P s \<and> nd_connecting s = Device d) (g (Some d)) Q"
  shows "hoare P (bnd connecting g) Q"
  unfolding connecting_def
proof (rule hoareI)
  fix s x t
  assume "P s" "bnd (bnd (gets nd_connecting) (\<lambda>p. case p of NoDevice \<Rightarrow> ret None | Device d \<Rightarrow> ret (Some d) | FreedDevice \<Rightarrow> crash InvalidPointer)) g s = Some (Inr (x, t))"
  then show "Q x t" using assms
    by (cases "nd_connecting s") (auto simp: bnd_def gets_def ret_def crash_def hoare_def)
qed

lemma J_and: "J t P s \<and> Q s \<longleftrightarrow> J t (\<lambda>s. P s \<and> Q s) s"
  by (auto simp: J_def)

lemma hoare_NewDevice:
  "hoare (J t P) (NewDevice addr)
     (\<lambda>x s. \<forall>d. snd x = Some d \<longrightarrow> dv_addr d = addr \<and> dv_requests d = [] \<and> (length addr < BT_MAC_LEN \<longrightarrow> J t (fresh d) s))"
proof (rule hoareI)
  fix s x s'
  assume pre: "J t P s" and run: "NewDevice addr s = Some (Inr (x, s'))"
  have s': "s' = s\<lparr>nd_tick := Suc (nd_tick s)\<rparr>"
    and d: "\<forall>d. snd x = Some d \<longrightarrow> dv_at d = nd_tick s \<and> dv_addr d = addr \<and> dv_requests d = []"
    using run by (auto simp: NewDevice_def bnd_def gets_def succeeds_def draw_def ret_def split: if_splits)
  have "J t (fresh d) s'" if "snd x = Some d" "length addr < BT_MAC_LEN" for d
    using pre d that by (auto simp: s' J_def ids_ok_def fresh_def short_addr_def total_reqs_def outstanding_def)
  with d show "\<forall>d. snd x = Some d \<longrightarrow> dv_addr d = addr \<and> dv_requests d = [] \<and> (length addr < BT_MAC_LEN \<longrightarrow> J t (fresh d) s')"
    by auto
qed

lemma frame_NewDevice [frm]: "frame (NewDevice addr)"
  unfolding NewDevice_def by (intro frm)

lemma frame_NewRequest [frm]: "frame (NewRequest i r)"
  unfolding NewRequest_def by (intro frm)

lemma hoare_conj: "hoare P m Q \<Longrightarrow> hoare P m R \<Longrightarrow> hoare P m (\<lambda>x s. Q x s \<and> R x s)"
  by (auto simp: hoare_def)

lemma hoare_drop: "hoare P m Q \<Longrightarrow> hoare (\<lambda>s. P s \<and> b) m (\<lambda>x s. Q x s \<and> b)"
  by (auto simp: hoare_def)

lemma hoare_fact: "(b \<Longrightarrow> hoare P m Q) \<Longrightarrow> hoare (\<lambda>s. P s \<and> b) m Q"
  by (auto simp: hoare_def)

lemma NewRequest_result: "NewRequest i r s = Some (Inr (x, t)) \<Longrightarrow> snd x = Some q \<Longrightarrow> q = \<lparr>rq_requestId = i, rq_result = r\<rparr>"
  by (auto simp: NewRequest_def bnd_def succeeds_def draw_def ret_def split: if_splits)

text \<open>The device made for a request is nowhere else and holds just that request.\<close>

lemma hoare_ConvertCtxToDevice:
  assumes "length (cc_addr ctx) < BT_MAC_LEN" "shapely P"
  shows "hoare (J t P) (ConvertCtxToDevice ctx)
    (\<lambda>x s. J t P s \<and> (\<forall>d. snd x = Some d \<longrightarrow> dreqs d = ctx_req ctx \<and> fresh d s))"
proof -
  let ?Q = "\<lambda>(x :: int \<times> ConnBrDevice option) s. J t P s \<and> (\<forall>d. snd x = Some d \<longrightarrow> dreqs d = ctx_req ctx \<and> fresh d s)"
  have dev: "hoare (J t P) (NewDevice (cc_addr ctx)) (\<lambda>x s. J t P s \<and> (\<forall>d. snd x = Some d \<longrightarrow> dv_addr d = cc_addr ctx \<and> fresh d s))"
  proof (rule hoareI)
    fix s x s'
    assume pre: "J t P s" and run: "NewDevice (cc_addr ctx) s = Some (Inr (x, s'))"
    have "\<forall>d. snd x = Some d \<longrightarrow> dv_addr d = cc_addr ctx \<and> fresh d s'"
      using hoareD [OF hoare_NewDevice pre run] assms(1) by (auto simp: J_def)
    with hoareD [OF frame_J [OF frame_NewDevice assms(2)] pre run]
    show "J t P s' \<and> (\<forall>d. snd x = Some d \<longrightarrow> dv_addr d = cc_addr ctx \<and> fresh d s')" by blast
  qed
  have make: "hoare (\<lambda>s. J t P s \<and> (\<forall>d. snd x = Some d \<longrightarrow> dv_addr d = cc_addr ctx \<and> fresh d s))
     (case x of (status, device) \<Rightarrow> case device of None \<Rightarrow> ret (status, None) | Some device \<Rightarrow> ret (SOFTBUS_OK, Some (device\<lparr>
        dv_connectionId := cc_connectionId ctx, dv_waitTimeoutDelay := cc_waitTimeoutDelay ctx,
        dv_requests := [\<lparr>rq_requestId = cc_requestId ctx, rq_result = cc_result ctx\<rparr>]\<rparr>))) ?Q" for x
    by (auto simp: hoare_def ret_def dreqs_def ctx_req_def fresh_def short_addr_def split: prod.splits option.splits)
  have req: "hoare (J t P) (NewRequest (cc_requestId ctx) (cc_result ctx))
     (\<lambda>x s. J t P s \<and> (\<forall>q. snd x = Some q \<longrightarrow> q = \<lparr>rq_requestId = cc_requestId ctx, rq_result = cc_result ctx\<rparr>))"
    by (rule hoare_conj [OF frame_J [OF frame_NewRequest assms(2)]]) (auto simp: hoare_def dest: NewRequest_result)
  show ?thesis unfolding ConvertCtxToDevice_def
  proof (rule hoare_bnd [OF req], rule hoare_fact)
    fix x :: "int \<times> ConnBrRequest option"
    assume "\<forall>q. snd x = Some q \<longrightarrow> q = \<lparr>rq_requestId = cc_requestId ctx, rq_result = cc_result ctx\<rparr>"
    then show "hoare (J t P) (case x of (status, request) \<Rightarrow> case request of None \<Rightarrow> ret (status, None)
        | Some request \<Rightarrow> bnd (NewDevice (cc_addr ctx)) (\<lambda>(status, device). case device of None \<Rightarrow> ret (status, None)
            | Some device \<Rightarrow> ret (SOFTBUS_OK, Some (device\<lparr>dv_connectionId := cc_connectionId ctx,
                dv_waitTimeoutDelay := cc_waitTimeoutDelay ctx, dv_requests := [request]\<rparr>)))) ?Q"
      by (cases x; cases "snd x") (auto intro: hoare_pre [OF hoare_ret] hoare_bnd [OF dev make])
  qed
qed

lemma adds_fail: "adds (ctx_req ctx) (call (OnConnectFailed (cc_result ctx) (cc_requestId ctx) r))"
  using adds_call [of "OnConnectFailed (cc_result ctx) (cc_requestId ctx) r"] by (simp add: ctx_req_def)

lemma hoare_with_device:
  assumes "length (cc_addr ctx) < BT_MAC_LEN" "shapely P"
    and "\<And>r. hoare (J t P) (f r) Q" "\<And>d. dreqs d = ctx_req ctx \<Longrightarrow> hoare (J t (\<lambda>s. P s \<and> fresh d s)) (g d) Q"
  shows "hoare (J t P) (bnd (ConvertCtxToDevice ctx) (\<lambda>(r, d). case d of None \<Rightarrow> f r | Some d \<Rightarrow> g d)) Q"
proof (rule hoare_bnd [OF hoare_ConvertCtxToDevice [OF assms(1,2)]])
  fix x :: "int \<times> ConnBrDevice option"
  show "hoare (\<lambda>s. J t P s \<and> (\<forall>d. snd x = Some d \<longrightarrow> dreqs d = ctx_req ctx \<and> fresh d s))
      (case x of (r, d) \<Rightarrow> case d of None \<Rightarrow> f r | Some d \<Rightarrow> g d) Q"
    using assms(3) [of "fst x"] assms(4) by (cases x; cases "snd x") (auto simp: hoare_def J_def)
qed

lemma hoare_ConnectRequestOnAvailableState:
  assumes "length (cc_addr ctx) < BT_MAC_LEN"
  shows "hoare (J t idle_free) (ConnectRequestOnAvailableState ctx) (\<lambda>_. J (t + ctx_req ctx) idle_free)"
proof -
  have fail: "hoare (J t idle_free) (call (OnConnectFailed (cc_result ctx) (cc_requestId ctx) r)) (\<lambda>_. J (t + ctx_req ctx) idle_free)" for r
    by (intro adds_J adds_fail shp)
  have "hoare (J t (\<lambda>s. idle_free s \<and> fresh d s)) (PendingDevice (d\<lparr>dv_state := BR_DEVICE_STATE_WAIT_SCHEDULE\<rparr>))
      (\<lambda>_. J (t + dreqs d) idle_free)" for d
    using hoare_PendingDevice [of t "d\<lparr>dv_state := BR_DEVICE_STATE_WAIT_SCHEDULE\<rparr>"] by (auto simp: hoare_def J_def)
  then have pend: "hoare (J t (\<lambda>s. idle_free s \<and> fresh d s)) (seq (PendingDevice (d\<lparr>dv_state := BR_DEVICE_STATE_WAIT_SCHEDULE\<rparr>)) next_cmd)
      (\<lambda>_. J (t + dreqs d) idle_free)" for d
    by (rule hoare_seq) (intro frame_J frm shp)
  have "hoare (J t idle_free) (bnd (ConvertCtxToDevice ctx) (\<lambda>(status, device). case device of
         None \<Rightarrow> call (OnConnectFailed (cc_result ctx) (cc_requestId ctx) status)
       | Some device \<Rightarrow> seq (PendingDevice (device\<lparr>dv_state := BR_DEVICE_STATE_WAIT_SCHEDULE\<rparr>)) next_cmd)) (\<lambda>_. J (t + ctx_req ctx) idle_free)"
    by (rule hoare_with_device [OF assms shapely_idle_free fail]) (metis pend)
  with fail show ?thesis unfolding ConnectRequestOnAvailableState_def
    by (intro frame_J_bnd [OF frame_gets shapely_idle_free]) auto
qed

lemma hoare_ConnectRequestOnConnectingState:
  assumes "length (cc_addr ctx) < BT_MAC_LEN"
  shows "hoare (J t idle_free) (ConnectRequestOnConnectingState ctx) (\<lambda>_. J (t + ctx_req ctx) idle_free)"
proof -
  have fail: "hoare (J t idle_free) (call (OnConnectFailed (cc_result ctx) (cc_requestId ctx) r)) (\<lambda>_. J (t + ctx_req ctx) idle_free)" for r
    by (intro adds_J adds_fail shp)
  have tried: "hoare (J t (\<lambda>s. idle_free s \<and> fresh d s)) (AttempReuseConnect d PendingDevice) (\<lambda>_. J (t + dreqs d) idle_free)" for d
  proof (rule hoareI)
    fix s x s'
    assume pre: "J t (\<lambda>s. idle_free s \<and> fresh d s) s" and run: "AttempReuseConnect d PendingDevice s = Some (Inr (x, s'))"
    have "J t (\<lambda>s'. idle_free s' \<and> fresh d s' \<and> nd_state s' = nd_state s) s" using pre by (simp add: J_def)
    from hoareD [OF hoare_AttempReuseConnect [OF action_PendingDevice] this run] show "J (t + dreqs d) idle_free s'" .
  qed
  show ?thesis unfolding ConnectRequestOnConnectingState_def
    by (rule hoare_with_device [OF assms shapely_idle_free fail]) (metis tried)
qed

lemma hoare_HandlePendingRequestOnAvailableState:
  "hoare (J t (\<lambda>s. idle_free s \<and> nd_state s = Some BR_STATE_AVAILABLE)) HandlePendingRequestOnAvailableState (\<lambda>_. J t idle_free)"
  unfolding HandlePendingRequestOnAvailableState_def
proof (rule hoare_gets_bnd)
  fix target
  let ?P = "\<lambda>st c. (st \<noteq> Some BR_STATE_CONNECTING \<longrightarrow> (\<forall>e. c \<noteq> Device e)) \<and> st = Some BR_STATE_AVAILABLE"
  show "hoare (\<lambda>s. J t (\<lambda>s. idle_free s \<and> nd_state s = Some BR_STATE_AVAILABLE) s \<and>
        find (\<lambda>it. dv_state it = BR_DEVICE_STATE_WAIT_SCHEDULE) (nd_waitings s) = target)
      (case target of None \<Rightarrow> ret () | Some d \<Rightarrow> seq (modify (\<lambda>s. s\<lparr>nd_waitings := filter (\<lambda>it. dv_at it \<noteq> dv_at d) (nd_waitings s)\<rparr>))
         (AttempReuseConnect d ConnectDeviceDirectly)) (\<lambda>_. J t idle_free)"
  proof (cases target)
    case None
    then show ?thesis by (auto intro!: hoare_pre [OF hoare_ret] simp: J_def)
  next
    case (Some d)
    have tried: "hoare (\<lambda>s. dreqs d \<subseteq># t \<and> J (t - dreqs d) (\<lambda>s. ?P (nd_state s) (nd_connecting s) \<and> fresh d s) s)
        (AttempReuseConnect d ConnectDeviceDirectly) (\<lambda>_. J t idle_free)"
    proof (rule hoareI)
      fix s x s'
      assume pre: "dreqs d \<subseteq># t \<and> J (t - dreqs d) (\<lambda>s. ?P (nd_state s) (nd_connecting s) \<and> fresh d s) s"
        and run: "AttempReuseConnect d ConnectDeviceDirectly s = Some (Inr (x, s'))"
      have "J (t - dreqs d) (\<lambda>s. idle_free s \<and> fresh d s \<and> nd_state s = Some BR_STATE_AVAILABLE) s" using pre by (simp add: J_def idle_free_def)
      from hoareD [OF hoare_AttempReuseConnect [OF action_ConnectDeviceDirectly] this run] pre show "J t idle_free s'" by simp
    qed
    show ?thesis unfolding Some option.case
      by (rule hoare_pre [OF hoare_seq [OF unlink_waiting tried]]) (auto simp: J_def idle_free_def dest: find_SomeD)
  qed
qed

section \<open>Results and other events\<close>

lemma hoare_if: "(b \<Longrightarrow> hoare P m Q) \<Longrightarrow> (\<not> b \<Longrightarrow> hoare P n Q) \<Longrightarrow> hoare P (if b then m else n) Q"
  by simp

lemma hoare_schedule: "hoare (J t (\<lambda>s. P (nd_state s) (nd_connecting s))) (schedule addr) (\<lambda>_. J t (\<lambda>s. P (nd_state s) (nd_connecting s)))"
proof (rule hoareI)
  fix s x s'
  assume pre: "J t (\<lambda>s. P (nd_state s) (nd_connecting s)) s" and run: "schedule addr s = Some (Inr (x, s'))"
  have s': "s' = s\<lparr>nd_waitings := schedule_first addr (nd_waitings s)\<rparr>" using run by (simp add: schedule_def modify_def)
  have ids: "ids_ok s" using pre by (simp add: J_def)
  have at: "dv_at x \<in> dv_at ` set (nd_waitings s)" if "x \<in> set (schedule_first addr (nd_waitings s))" for x
    using that schedule_first_at [of addr "nd_waitings s"] by blast
  have "dv_at x < nd_tick s" "short_addr x" if "x \<in> set (schedule_first addr (nd_waitings s))" for x
    using at [OF that] ids short_schedule_first [OF _ that] by (auto simp: ids_ok_def)
  with ids have "ids_ok s'" by (auto simp: ids_ok_def s')
  with pre show "J t (\<lambda>s. P (nd_state s) (nd_connecting s)) s'" by (simp add: J_def s' total_reqs_def outstanding_def)
qed

lemma schedule_idle_free: "hoare (J t idle_free) (schedule addr) (\<lambda>_. J t idle_free)"
  using hoare_schedule [of t "\<lambda>st c. st \<noteq> Some BR_STATE_CONNECTING \<longrightarrow> (\<forall>e. c \<noteq> Device e)" addr]
  by (simp add: idle_free_def [abs_def])

lemma hoare_UnpendConnection: "hoare (J t idle_free) (UnpendConnection addr) (\<lambda>_. J t idle_free)"
proof -
  have "frame (modify (\<lambda>s. s\<lparr>nd_pendings := drop_pending addr (nd_pendings s), nd_pendingsCnt := u32_sub (nd_pendingsCnt s) 1\<rparr>))"
    by (rule frame_modify) (simp add: core_def)
  then have drops: "hoare (J t idle_free) (seq (modify (\<lambda>s. s\<lparr>nd_pendings := drop_pending addr (nd_pendings s), nd_pendingsCnt := u32_sub (nd_pendingsCnt s) 1\<rparr>))
      (seq (schedule addr) next_cmd)) (\<lambda>_. J t idle_free)"
    by (intro frame_J_seq shp hoare_seq [OF schedule_idle_free] frame_J frm)
  have nothing_to_do: "hoare (J t idle_free) (ret ()) (\<lambda>_. J t idle_free)" by (rule hoare_ret)
  show ?thesis unfolding UnpendConnection_def
    by (rule frame_J_bnd [OF frame_succeeds shapely_idle_free], rule hoare_if, rule nothing_to_do,
        rule frame_J_seq [OF frame_unpost shapely_idle_free], simp, rule frame_J_bnd [OF frame_pending_addr shapely_idle_free],
        rule hoare_if, rule nothing_to_do, rule drops)
qed

lemma frame_BrPendConnection [frm]: "frame (BrPendConnection opt time)"
  unfolding BrPendConnection_def by (intro frm frame_modify) (simp_all add: core_def)

lemma PendingDevice_NoDevice: "PendingDevice d s = Some (Inr (x, t)) \<Longrightarrow> nd_connecting s = NoDevice \<Longrightarrow> nd_connecting t = NoDevice"
  by (auto simp: PendingDevice_def connecting_def bnd_def gets_def seq_def ret_def modify_def split: if_splits)

lemma hoare_pends_idle:
  "hoare (J t (\<lambda>s. nd_connecting s = NoDevice \<and> fresh d s)) (ignore (PendingDevice (d\<lparr>dv_state := st\<rparr>))) (\<lambda>_. J (t + dreqs d) (\<lambda>s. nd_connecting s = NoDevice))"
proof -
  have "hoare (J t (\<lambda>s. nd_connecting s = NoDevice \<and> fresh d s)) (PendingDevice (d\<lparr>dv_state := st\<rparr>)) (\<lambda>_. J (t + dreqs d) (\<lambda>s. nd_connecting s = NoDevice))"
  proof (rule hoareI)
    fix s x s'
    assume pre: "J t (\<lambda>s. nd_connecting s = NoDevice \<and> fresh d s) s" and run: "PendingDevice (d\<lparr>dv_state := st\<rparr>) s = Some (Inr (x, s'))"
    have "J t (\<lambda>s. idle_free s \<and> fresh (d\<lparr>dv_state := st\<rparr>) s) s" using pre by (simp add: J_def idle_free_def)
    from hoareD [OF hoare_PendingDevice this run] PendingDevice_NoDevice [OF run] pre
    show "J (t + dreqs d) (\<lambda>s. nd_connecting s = NoDevice) s'" by (simp add: J_def)
  qed
  then show ?thesis unfolding ignore_def by (rule hoare_seq) (rule hoare_pre [OF hoare_ret], simp)
qed

lemma hoare_ProcessAclCollisionException:
  "hoare (J t (\<lambda>s. nd_connecting s = NoDevice \<and> fresh d s)) (ProcessAclCollisionException d time) (\<lambda>_. J (t + dreqs d) (\<lambda>s. nd_connecting s = NoDevice))"
proof (cases "short_addr d")
  case True
  then show ?thesis unfolding ProcessAclCollisionException_def
    by (auto simp: short_addr_def intro!: frame_J_seq frm shp hoare_pends_idle)
next
  case False
  then show ?thesis by (auto simp: hoare_def J_def fresh_def)
qed

text \<open>The connecting pointer is cleared while the device stays in hand.\<close>

lemma take_connecting:
  "hoare (J t (\<lambda>s. nd_connecting s = Device d)) (set_connecting NoDevice)
     (\<lambda>_ s. dreqs d \<subseteq># t \<and> J (t - dreqs d) (\<lambda>s. nd_connecting s = NoDevice \<and> fresh d s) s)"
  by (auto simp: hoare_def set_connecting_def modify_def J_def ids_ok_def fresh_def total_reqs_def outstanding_def)

lemma hoare_sub: "(a \<subseteq># t \<Longrightarrow> hoare (J (t - a) P) m (\<lambda>_. J (t - a + a) Q)) \<Longrightarrow> hoare (\<lambda>s. a \<subseteq># t \<and> J (t - a) P s) m (\<lambda>_. J t Q)"
  by (auto simp: hoare_def)

lemma hoare_AuthenticationFailedAndRetry:
  "hoare (J t (\<lambda>s. nd_connecting s = Device d)) (AuthenticationFailedAndRetry a d)
     (\<lambda>r. J t (\<lambda>s. nd_connecting s = (if r = SOFTBUS_OK then NoDevice else Device d)))"
proof -
  have fail: "hoare (J t (\<lambda>s. nd_connecting s = Device d)) (ret SOFTBUS_CONN_BR_UNDERLAY_CONNECT_FAIL)
      (\<lambda>r. J t (\<lambda>s. nd_connecting s = (if r = SOFTBUS_OK then NoDevice else Device d)))"
    by (rule hoare_pre [OF hoare_ret]) simp
  have ok: "hoare (J t (\<lambda>s. nd_connecting s = NoDevice)) (ret SOFTBUS_OK) (\<lambda>r. J t (\<lambda>s. nd_connecting s = (if r = SOFTBUS_OK then NoDevice else Device d)))"
    by (rule hoare_pre [OF hoare_ret]) simp
  have retry: "hoare (J t (\<lambda>s. nd_connecting s = Device d)) (seq (set_connecting NoDevice) (seq (ProcessAclCollisionException d time) (ret SOFTBUS_OK)))
      (\<lambda>r. J t (\<lambda>s. nd_connecting s = (if r = SOFTBUS_OK then NoDevice else Device d)))" for time
    by (rule hoare_seq [OF take_connecting], rule hoare_seq [OF hoare_sub ok], rule hoare_ProcessAclCollisionException)
  show ?thesis unfolding AuthenticationFailedAndRetry_def Let_def
    by (intro frame_J_bnd frm shp) (auto split: option.split intro!: fail frame_J_seq frm shp retry)
qed

text \<open>Loops over the waiting devices, as they were when the loop began.\<close>

lemma hoare_each: "(\<And>x xs. hoare (I (x # xs)) (f x) (\<lambda>_. I xs)) \<Longrightarrow> hoare (I xs) (each f xs) (\<lambda>_. I [])"
  by (induction xs) (auto intro: hoare_ret hoare_seq)

definition idle_pair :: "BrServerState option \<Rightarrow> device_pointer \<Rightarrow> bool" where
  "idle_pair st c \<longleftrightarrow> (st \<noteq> Some BR_STATE_CONNECTING \<longrightarrow> (\<forall>e. c \<noteq> Device e))"

lemma idle_free_pair: "idle_free = (\<lambda>s. idle_pair (nd_state s) (nd_connecting s))"
  by (auto simp: idle_free_def idle_pair_def)

definition still_waiting :: "ConnBrDevice list \<Rightarrow> 'd br_node \<Rightarrow> bool" where
  "still_waiting ds s \<longleftrightarrow> set ds \<subseteq> set (nd_waitings s) \<and> distinct (map dv_at ds)"

lemma shapely_still_waiting [shp]: "shapely (still_waiting ds)"
  by (auto simp: shapely_def shape_def still_waiting_def)

lemma still_waiting_unlink: "still_waiting (d # ds) s \<Longrightarrow> still_waiting ds (unlink d s)"
  by (auto simp: still_waiting_def unlink_def image_iff)

lemma hoare_each_waiting:
  assumes "\<And>d ds. hoare (J t (\<lambda>s. P s \<and> still_waiting (d # ds) s)) (f d) (\<lambda>_. J t (\<lambda>s. P s \<and> still_waiting ds s))"
  shows "hoare (J t P) (bnd (gets nd_waitings) (each f)) (\<lambda>_. J t P)"
proof (rule hoare_gets_bnd)
  fix ds
  have "hoare (J t (\<lambda>s. P s \<and> still_waiting ds s)) (each f ds) (\<lambda>_. J t (\<lambda>s. P s \<and> still_waiting [] s))"
    using assms by (rule hoare_each)
  then show "hoare (\<lambda>s. J t P s \<and> nd_waitings s = ds) (each f ds) (\<lambda>_. J t P)"
    by (rule hoare_pre [OF hoare_post]) (auto simp: J_def still_waiting_def ids_ok_def)
qed

lemma free_still_waiting:
  "hoare (J (t + dreqs d) (\<lambda>s. idle_free s \<and> still_waiting (d # ds) s)) (FreeDevice d) (\<lambda>_. J t (\<lambda>s. idle_free s \<and> still_waiting ds s))"
proof (rule hoareI)
  fix s x s'
  assume pre: "J (t + dreqs d) (\<lambda>s. idle_free s \<and> still_waiting (d # ds) s) s" and run: "FreeDevice d s = Some (Inr (x, s'))"
  then have d: "d \<in> set (nd_waitings s)" "ids_ok s" "J (t + dreqs d) (\<lambda>s. idle_pair (nd_state s) (nd_connecting s)) s" "still_waiting (d # ds) s"
    by (auto simp: J_def still_waiting_def idle_free_pair)
  from run FreeDevice_waiting [OF d(2,1)] have "s' = unlink d s" by simp
  with J_unlink(2) [OF d(3,1)] still_waiting_unlink [OF d(4)]
  show "J t (\<lambda>s. idle_free s \<and> still_waiting ds s) s'" by (simp add: J_def idle_free_pair)
qed

lemma hoare_reuse_waitings: "hoare (J t idle_free) (reuse_waitings a addr) (\<lambda>_. J t idle_free)"
  unfolding reuse_waitings_def
proof (rule hoare_each_waiting, rule hoare_if)
  fix d ds
  have sh: "shapely (\<lambda>s. idle_free s \<and> still_waiting (d # ds) s)" by (intro shp)
  show skip: "hoare (J t (\<lambda>s. idle_free s \<and> still_waiting (d # ds) s)) (ret ()) (\<lambda>_. J t (\<lambda>s. idle_free s \<and> still_waiting ds s))"
    by (rule hoare_pre [OF hoare_ret]) (auto simp: J_def still_waiting_def)
  show "hoare (J t (\<lambda>s. idle_free s \<and> still_waiting (d # ds) s)) (bnd (BrReuseConnection d a) (\<lambda>r. if r then FreeDevice d else ret ()))
      (\<lambda>_. J t (\<lambda>s. idle_free s \<and> still_waiting ds s))"
    by (rule hoare_bnd [OF hoare_BrReuseConnection [OF sh]]) (auto intro: free_still_waiting skip)
qed

lemma frame_last: "frame m \<Longrightarrow> hoare (J t idle_free) m (\<lambda>_. J t idle_free)"
  by (rule frame_J [OF _ shapely_idle_free])

lemmas frame_idle_seq = frame_J_seq [OF _ shapely_idle_free]
lemmas frame_idle_bnd = frame_J_bnd [OF _ shapely_idle_free]

lemma hoare_option: "hoare P m Q \<Longrightarrow> (\<And>x. hoare P (f x) Q) \<Longrightarrow> hoare P (case y of None \<Rightarrow> m | Some x \<Rightarrow> f x) Q"
  by (cases y) auto

lemma hoare_ServerAccepted: "hoare (J t idle_free) (ServerAccepted i :: ('d, unit) br_prog) (\<lambda>_. J t idle_free)"
proof -
  have gives: "hoare (J t idle_free) (give_back a :: ('d, unit) br_prog) (\<lambda>_. J t idle_free)" for a by (intro frame_last frm)
  have fin: "hoare (J t idle_free) (bnd connecting (\<lambda>p. if (case p of None \<Rightarrow> False | Some d \<Rightarrow> same_addr (dv_addr d) addr) then give_back a
      else seq (reuse_waitings a addr) (give_back a)) :: ('d, unit) br_prog) (\<lambda>_. J t idle_free)" for a addr
    by (intro frame_idle_bnd frame_connecting hoare_if gives hoare_seq [OF hoare_reuse_waitings])
  show "hoare (J t idle_free) (ServerAccepted i :: ('d, unit) br_prog) (\<lambda>_. J t idle_free)" unfolding ServerAccepted_def
    by (intro frame_idle_bnd hoare_option hoare_ret frame_get_by_id frame_conn frame_idle_seq [OF frame_call] frame_idle_seq [OF frame_unpost]
        hoare_seq [OF hoare_UnpendConnection] fin) simp_all
qed

lemma hoare_ConnectionResume: "hoare (J t idle_free) (ConnectionResume i) (\<lambda>_. J t idle_free)"
  unfolding ConnectionResume_def
  by (intro frame_idle_bnd hoare_option hoare_ret frame_get_by_id frame_conn hoare_seq [OF hoare_reuse_waitings] frame_last frm)

text \<open>The connecting device is answered, freed and forgotten.\<close>

lemma hoare_finish_connecting:
  assumes "adds (dreqs d) m" "hoare (J t (\<lambda>s. nd_connecting s = NoDevice)) n Q"
  shows "hoare (J t (\<lambda>s. nd_connecting s = Device d)) (seq m (seq (FreeDevice d) (seq (set_connecting NoDevice) n))) Q"
  by (rule adds_J_seq [OF assms(1)], intro shp) (intro hoare_seq [OF free_connecting] hoare_seq [OF hoare_set_NoDevice] assms(2))

lemma available_NoDevice: "hoare (J t (\<lambda>s. nd_connecting s = NoDevice)) (TransitionToState BR_STATE_AVAILABLE) (\<lambda>_. J t idle_free)"
  by (rule hoare_pre [OF to_available]) (auto simp: J_def)

lemma hoare_ClientConnectTimeout: "hoare (J t idle_free) (ClientConnectTimeoutOnConnectingState i addr) (\<lambda>_. J t idle_free)"
  unfolding ClientConnectTimeoutOnConnectingState_def
proof (rule hoare_connecting_bnd)
  show "hoare (\<lambda>s. J t idle_free s \<and> nd_connecting s = NoDevice) (case None of None \<Rightarrow> ret () | Some d \<Rightarrow> f d) (\<lambda>_. J t idle_free)" for f :: "ConnBrDevice \<Rightarrow> ('b, unit) br_prog"
    by (auto intro: hoare_pre [OF hoare_ret])
  fix d
  have "hoare (J t (\<lambda>s. nd_connecting s = Device d)) (seq (NotifyDeviceConnectResult d None False SOFTBUS_CONN_BR_CONNECT_TIMEOUT_ERR)
      (seq (FreeDevice d) (seq (set_connecting NoDevice) (TransitionToState BR_STATE_AVAILABLE)))) (\<lambda>_. J t idle_free)"
    by (rule hoare_finish_connecting [OF adds_NotifyDeviceConnectResult available_NoDevice])
  then have "hoare (\<lambda>s. J t idle_free s \<and> nd_connecting s = Device d) (seq (NotifyDeviceConnectResult d None False SOFTBUS_CONN_BR_CONNECT_TIMEOUT_ERR)
      (seq (FreeDevice d) (seq (set_connecting NoDevice) (TransitionToState BR_STATE_AVAILABLE)))) (\<lambda>_. J t idle_free)"
    by (rule hoare_pre) (auto simp: J_def)
  then show "hoare (\<lambda>s. J t idle_free s \<and> nd_connecting s = Device d)
     (case Some d of None \<Rightarrow> ret () | Some d \<Rightarrow> if \<not> same_addr (dv_addr d) addr then ret () else
         seq (NotifyDeviceConnectResult d None False SOFTBUS_CONN_BR_CONNECT_TIMEOUT_ERR)
           (seq (FreeDevice d) (seq (set_connecting NoDevice) (TransitionToState BR_STATE_AVAILABLE)))) (\<lambda>_. J t idle_free)"
    by (auto intro: hoare_pre [OF hoare_ret])
qed

lemma frame_ReceivedControlData [frm]: "frame (ReceivedControlData a data)"
  unfolding ReceivedControlData_def by (intro frm)

lemma frame_DataReceived [frm]: "frame (DataReceived i data)"
  unfolding DataReceived_def Let_def by (intro frm) simp_all

lemma frame_DisconnectRequest [frm]: "frame (DisconnectRequest i)"
  unfolding DisconnectRequest_def by (intro frm)

lemma hoare_ConnectionException: "hoare (J t idle_free) (ConnectionException i e) (\<lambda>_. J t idle_free)"
  unfolding ConnectionException_def
  by (intro frame_idle_bnd hoare_option hoare_ret frame_get_by_id frame_conn frame_idle_seq [OF frame_ConnBrDisconnectNow] hoare_seq [OF schedule_idle_free]
      frame_last frm) simp

text \<open>A device found waiting is answered and taken off the list.\<close>

lemma answer_waiting:
  assumes "adds (dreqs d) m"
  shows "hoare (J t (\<lambda>s. idle_free s \<and> d \<in> set (nd_waitings s)))
    (seq m (modify (\<lambda>s. s\<lparr>nd_waitings := filter (\<lambda>it. dv_at it \<noteq> dv_at d) (nd_waitings s)\<rparr>))) (\<lambda>_. J t (\<lambda>s. idle_free s \<and> fresh d s))"
proof -
  have "hoare (J (t + dreqs d) (\<lambda>s. idle_free s \<and> d \<in> set (nd_waitings s)))
      (modify (\<lambda>s. s\<lparr>nd_waitings := filter (\<lambda>it. dv_at it \<noteq> dv_at d) (nd_waitings s)\<rparr>)) (\<lambda>_. J t (\<lambda>s. idle_free s \<and> fresh d s))"
    using unlink_waiting [of "t + dreqs d" idle_pair d] unfolding idle_free_pair by (rule hoare_post) simp
  then show ?thesis by (rule adds_J_seq [OF assms, rotated]) (intro shp)
qed

lemma find_member: "find P xs = Some x \<Longrightarrow> x \<in> set xs"
  by (auto simp: find_Some_iff)

lemma seq_assoc: "seq (seq m n) k = seq m (seq n k)"
  by (auto simp: seq_def bnd_def fun_eq_iff split: option.split sum.split)

lemma hoare_found_waiting:
  "hoare (\<lambda>s. J t idle_free s \<and> find P (nd_waitings s) = Some d)
     (seq (update_conn a f) (seq (NotifyDeviceConnectResult d (Some a) False 0)
       (seq (modify (\<lambda>s. s\<lparr>nd_waitings := filter (\<lambda>it. dv_at it \<noteq> dv_at d) (nd_waitings s)\<rparr>)) (give_back a)))) (\<lambda>_. J t idle_free)"
proof -
  have fin: "hoare (J t (\<lambda>s. idle_free s \<and> fresh d s)) (give_back a) (\<lambda>_. J t idle_free)"
    by (rule hoare_pre [OF frame_last [OF frame_give_back]]) (simp add: J_def)
  have "hoare (J t (\<lambda>s. idle_free s \<and> d \<in> set (nd_waitings s)))
     (seq (update_conn a f) (seq (seq (NotifyDeviceConnectResult d (Some a) False 0)
       (modify (\<lambda>s. s\<lparr>nd_waitings := filter (\<lambda>it. dv_at it \<noteq> dv_at d) (nd_waitings s)\<rparr>))) (give_back a))) (\<lambda>_. J t idle_free)"
    by (intro frame_J_seq frame_update_conn shp hoare_seq [OF answer_waiting fin] adds_NotifyDeviceConnectResult)
  then show ?thesis unfolding seq_assoc by (rule hoare_pre) (auto simp: J_def dest: find_member)
qed

lemma hoare_ClientConnected: "hoare (J t idle_free) (ClientConnected i :: ('d, unit) br_prog) (\<lambda>_. J t idle_free)"
proof -
  have over: "hoare (J t idle_free) (seq (ConnBrUpdateConnectionRc (Some a) (- 1)) (give_back a) :: ('d, unit) br_prog) (\<lambda>_. J t idle_free)" for a
    by (intro frame_last frm)
  have connected: "hoare (J t (\<lambda>s. nd_connecting s = Device d)) (seq (unpost g_brManagerAsyncHandler MSG_CONNECT_TIMEOUT i 0 None)
       (seq (update_conn a f) (seq (NotifyDeviceConnectResult d (Some a) False 0) (seq (FreeDevice d) (seq (set_connecting NoDevice)
       (seq (TransitionToState BR_STATE_AVAILABLE) (give_back a)))))) :: ('d, unit) br_prog) (\<lambda>_. J t idle_free)" for d a f
    by (intro frame_J_seq [OF frame_unpost] frame_J_seq [OF frame_update_conn] shp hoare_finish_connecting adds_NotifyDeviceConnectResult
        hoare_seq [OF available_NoDevice] frame_last frame_give_back) simp
  let ?idle = "\<lambda>a addr. bnd connecting (\<lambda>p. case p of
        Some d \<Rightarrow> if \<not> same_addr (dv_addr d) addr then seq (ConnBrUpdateConnectionRc (Some a) (- 1)) (give_back a)
          else seq (unpost g_brManagerAsyncHandler MSG_CONNECT_TIMEOUT i 0 None)
            (seq (update_conn a (\<lambda>c. c\<lparr>bc_retryCount := 0\<rparr>)) (seq (NotifyDeviceConnectResult d (Some a) False 0) (seq (FreeDevice d) (seq (set_connecting NoDevice)
              (seq (TransitionToState BR_STATE_AVAILABLE) (give_back a))))))
      | None \<Rightarrow> seq (ConnBrUpdateConnectionRc (Some a) (- 1)) (give_back a)) :: ('d, unit) br_prog"
  have idle: "hoare (J t idle_free) (?idle a addr) (\<lambda>_. J t idle_free)" for a addr
    by (rule hoare_connecting_bnd, unfold option.case)
      (rule hoare_pre [OF over], simp, intro hoare_if, rule hoare_pre [OF over], simp, rule hoare_pre [OF connected], simp add: J_def)
  show ?thesis unfolding ClientConnected_def
  proof (rule frame_idle_bnd [OF frame_get_by_id], rule hoare_option, rule hoare_ret, rule frame_idle_bnd [OF frame_conn], rule hoare_gets_bnd)
    fix a and c :: ConnBrConnection and found
    show "hoare (\<lambda>s. J t idle_free s \<and> find (\<lambda>it. same_addr (dv_addr it) (bc_addr c)) (nd_waitings s) = found)
      (case found of
         Some device \<Rightarrow> seq (update_conn a (\<lambda>c. c\<lparr>bc_retryCount := 0\<rparr>)) (seq (NotifyDeviceConnectResult device (Some a) False 0)
           (seq (modify (\<lambda>s. s\<lparr>nd_waitings := filter (\<lambda>it. dv_at it \<noteq> dv_at device) (nd_waitings s)\<rparr>)) (give_back a)))
       | None \<Rightarrow> ?idle a (bc_addr c)) (\<lambda>_. J t idle_free)"
    proof (cases found)
      case None
      show ?thesis unfolding None option.case by (rule hoare_pre [OF idle]) simp
    next
      case (Some d)
      show ?thesis unfolding Some option.case by (rule hoare_found_waiting)
    qed
  qed
qed

section \<open>A connection that failed\<close>

lemma hoare_reuse_server:
  assumes "shapely P"
  shows "hoare (J t P) (reuse_server d addr) (\<lambda>r. J (if r then t + dreqs d else t) P)"
  unfolding reuse_server_def
proof (rule frame_J_bnd [OF frame_get_by_addr assms], rule hoare_option)
  show "hoare (J t P) (ret False) (\<lambda>r. J (if r then t + dreqs d else t) P)"
    by (rule hoare_pre [OF hoare_ret]) simp
  show "hoare (J t P) (bnd (BrReuseConnection d b) (\<lambda>r. seq (give_back b) (ret r))) (\<lambda>r. J (if r then t + dreqs d else t) P)" for b
  proof (rule hoare_bnd [OF hoare_BrReuseConnection [OF assms]])
    fix r
    show "hoare (J (if r then t + dreqs d else t) P) (seq (give_back b) (ret r)) (\<lambda>r. J (if r then t + dreqs d else t) P)"
      by (rule frame_J_seq [OF frame_give_back assms], rule hoare_pre [OF hoare_ret]) simp
  qed
qed

text \<open>
  After that the requests of the device are answered and it is still the connecting one, or the device waits for another
  try and nothing is connecting.
\<close>

definition settled :: "(nat \<times> nat) multiset \<Rightarrow> ConnBrDevice \<Rightarrow> 'd br_node \<Rightarrow> bool" where
  "settled t d s \<longleftrightarrow> J (t + dreqs d) (\<lambda>s. nd_connecting s = Device d) s \<or> J t (\<lambda>s. nd_connecting s = NoDevice) s"

lemma frame_settled: "frame m \<Longrightarrow> hoare (settled t d) m (\<lambda>_. settled t d)"
  unfolding settled_def by (intro hoare_disj frame_J shp)

lemma hoare_settle:
  "hoare (J t (\<lambda>s. nd_connecting s = Device d))
     (bnd (reuse_server d addr) (\<lambda>reused. if reused then ret ()
        else bnd (AuthenticationFailedAndRetry a d) (\<lambda>r. if r = SOFTBUS_OK then ret () else NotifyDeviceConnectResult d None False e)))
     (\<lambda>_. settled t d)"
proof (rule hoare_bnd [OF hoare_reuse_server], intro shp, rule hoare_if)
  fix reused
  show "hoare (J (if reused then t + dreqs d else t) (\<lambda>s. nd_connecting s = Device d)) (ret ()) (\<lambda>_. settled t d)" if reused
    using that by (auto simp: settled_def intro: hoare_pre [OF hoare_ret])
  have adds: "hoare (J t (\<lambda>s. nd_connecting s = Device d)) (NotifyDeviceConnectResult d None False e) (\<lambda>_. settled t d)"
    by (rule hoare_post [OF adds_J [OF adds_NotifyDeviceConnectResult shapely_connecting]]) (simp add: settled_def)
  show "hoare (J (if reused then t + dreqs d else t) (\<lambda>s. nd_connecting s = Device d))
     (bnd (AuthenticationFailedAndRetry a d) (\<lambda>r. if r = SOFTBUS_OK then ret () else NotifyDeviceConnectResult d None False e))
     (\<lambda>_. settled t d)" if "\<not> reused"
    unfolding if_not_P [OF that]
    by (rule hoare_bnd [OF hoare_AuthenticationFailedAndRetry], rule hoare_if)
      (auto simp: settled_def intro: hoare_pre [OF hoare_ret] hoare_pre [OF adds])
qed

lemma hoare_forget:
  "hoare (settled t d)
     (bnd connecting (\<lambda>p. seq (case p of None \<Rightarrow> ret () | Some d \<Rightarrow> seq (FreeDevice d) (set_connecting NoDevice)) (TransitionToState BR_STATE_AVAILABLE :: ('d, unit) br_prog)))
     (\<lambda>_. J t idle_free)"
proof (rule hoare_connecting_bnd, unfold option.case)
  have "hoare (J t (\<lambda>s. nd_connecting s = NoDevice)) (seq (ret ()) (TransitionToState BR_STATE_AVAILABLE :: ('d, unit) br_prog)) (\<lambda>_. J t idle_free)"
    by (intro frame_J_seq frm shp available_NoDevice)
  then show "hoare (\<lambda>s. settled t d s \<and> nd_connecting s = NoDevice) (seq (ret ()) (TransitionToState BR_STATE_AVAILABLE :: ('d, unit) br_prog)) (\<lambda>_. J t idle_free)"
    by (rule hoare_pre) (auto simp: settled_def J_def)
  have "hoare (J (t + dreqs d) (\<lambda>s. nd_connecting s = Device d)) (seq (seq (FreeDevice d) (set_connecting NoDevice)) (TransitionToState BR_STATE_AVAILABLE :: ('d, unit) br_prog))
      (\<lambda>_. J t idle_free)"
    by (intro hoare_seq [OF hoare_seq [OF free_connecting hoare_set_NoDevice]] available_NoDevice)
  then have "hoare (\<lambda>s. settled t d s \<and> nd_connecting s = Device d) (seq (seq (FreeDevice d) (set_connecting NoDevice)) (TransitionToState BR_STATE_AVAILABLE :: ('d, unit) br_prog))
      (\<lambda>_. J t idle_free)" by (rule hoare_pre) (auto simp: settled_def J_def)
  moreover have "\<not> (settled t d s \<and> nd_connecting s = Device e)" if "e \<noteq> d" for e and s :: "'d br_node"
    using that by (auto simp: settled_def J_def)
  ultimately show "hoare (\<lambda>s. settled t d s \<and> nd_connecting s = Device e) (seq (seq (FreeDevice e) (set_connecting NoDevice)) (TransitionToState BR_STATE_AVAILABLE :: ('d, unit) br_prog))
      (\<lambda>_. J t idle_free)" for e
    by (cases "e = d") (blast, rule hoareI, blast)
qed

lemma hoare_ClientConnectFailed: "hoare (J t idle_free) (ClientConnectFailed i e :: ('d, unit) br_prog) (\<lambda>_. J t idle_free)"
proof -
  have other: "hoare (J t idle_free) (seq (schedule addr) (seq (remove_conn a) (seq (give_back a) next_cmd)) :: ('d, unit) br_prog) (\<lambda>_. J t idle_free)" for a addr
    by (intro hoare_seq [OF schedule_idle_free] frame_last frm)
  have mine: "hoare (J t (\<lambda>s. nd_connecting s = Device d))
      (seq (bnd (reuse_server d addr) (\<lambda>reused. if reused then ret ()
           else bnd (AuthenticationFailedAndRetry a d) (\<lambda>r. if r = SOFTBUS_OK then ret () else NotifyDeviceConnectResult d None False e)))
        (seq (remove_conn a) (seq (give_back a) (bnd connecting (\<lambda>p.
          seq (case p of None \<Rightarrow> ret () | Some d \<Rightarrow> seq (FreeDevice d) (set_connecting NoDevice)) (TransitionToState BR_STATE_AVAILABLE)))))
       :: ('d, unit) br_prog) (\<lambda>_. J t idle_free)" for d a addr
    by (rule hoare_seq [OF hoare_settle], rule hoare_seq [OF frame_settled [OF frame_remove_conn]],
        rule hoare_seq [OF frame_settled [OF frame_give_back]], rule hoare_forget)
  show ?thesis unfolding ClientConnectFailed_def
    by (intro frame_idle_bnd hoare_option [where m = "ret ()"] hoare_ret frame_get_by_id frame_conn frame_idle_seq [OF frame_unpost]
        frame_idle_seq [OF frame_ConnBrDisconnectNow] hoare_connecting_bnd, simp, unfold option.case)
      (rule hoare_pre [OF other], simp, intro hoare_if, rule hoare_pre [OF other], simp, rule hoare_pre [OF mine], simp add: J_def)
qed

section \<open>Bluetooth is switched off\<close>

lemma hoare_reset_waitings: "hoare (J t (\<lambda>s. nd_connecting s = NoDevice)) reset_waitings (\<lambda>_. J t (\<lambda>s. nd_connecting s = NoDevice))"
  unfolding reset_waitings_def
proof (rule hoare_each_waiting)
  fix d ds
  let ?I = "\<lambda>s. nd_connecting s = NoDevice \<and> still_waiting ds s"
  have "hoare (J t (\<lambda>s. nd_connecting s = NoDevice \<and> still_waiting (d # ds) s))
      (modify (\<lambda>s. s\<lparr>nd_waitings := filter (\<lambda>it. dv_at it \<noteq> dv_at d) (nd_waitings s)\<rparr>))
      (\<lambda>_ s. dreqs d \<subseteq># t \<and> J (t - dreqs d) (\<lambda>s. ?I s \<and> fresh d s) s)"
  proof (rule hoareI)
    fix s x s'
    assume pre: "J t (\<lambda>s. nd_connecting s = NoDevice \<and> still_waiting (d # ds) s) s"
      and run: "modify (\<lambda>s. s\<lparr>nd_waitings := filter (\<lambda>it. dv_at it \<noteq> dv_at d) (nd_waitings s)\<rparr>) s = Some (Inr (x, s'))"
    then have s': "s' = unlink d s" and d: "d \<in> set (nd_waitings s)" and w: "still_waiting (d # ds) s" "J t (\<lambda>s. (\<lambda>_ c. c = NoDevice) (nd_state s) (nd_connecting s)) s"
      by (auto simp: modify_def unlink_def J_def still_waiting_def)
    from J_unlink [OF w(2) d] still_waiting_unlink [OF w(1)]
    show "dreqs d \<subseteq># t \<and> J (t - dreqs d) (\<lambda>s. ?I s \<and> fresh d s) s'" by (simp add: s' J_def)
  qed
  moreover have "hoare (J (t - dreqs d) (\<lambda>s. ?I s \<and> fresh d s)) (seq (NotifyDeviceConnectResult d None False SOFTBUS_CONN_BLUETOOTH_OFF) (FreeDevice d))
      (\<lambda>_. J (t - dreqs d + dreqs d) ?I)"
    by (rule adds_J_seq [OF adds_NotifyDeviceConnectResult], intro shp, rule free_fresh)
  ultimately show "hoare (J t (\<lambda>s. nd_connecting s = NoDevice \<and> still_waiting (d # ds) s))
      (seq (modify (\<lambda>s. s\<lparr>nd_waitings := filter (\<lambda>it. dv_at it \<noteq> dv_at d) (nd_waitings s)\<rparr>))
       (seq (NotifyDeviceConnectResult d None False SOFTBUS_CONN_BLUETOOTH_OFF) (FreeDevice d))) (\<lambda>_. J t ?I)"
    by (rule hoare_seq [OF _ hoare_sub])
qed

lemma frame_reset_pendings [frm]: "frame reset_pendings"
  unfolding reset_pendings_def by (intro frm frame_modify) (simp_all add: core_def)

lemma hoare_Reset: "hoare (J t idle_free) (Reset e :: ('d, unit) br_prog) (\<lambda>_. J t idle_free)"
proof -
  have empty: "hoare (J t (\<lambda>s. nd_connecting s = NoDevice)) (ret () :: ('d, unit) br_prog) (\<lambda>_. J t idle_free)"
    by (rule hoare_pre [OF hoare_ret]) (simp add: J_def idle_free_def)
  have rest: "hoare (J t (\<lambda>s. nd_connecting s = NoDevice)) (seq reset_waitings
     (bnd succeeds (\<lambda>lockOk.
      if \<not> lockOk then ret ()
      else seq reset_pendings
      (bnd succeeds (\<lambda>lockOk.
       if \<not> lockOk then ret ()
       else seq (bnd (gets (\<lambda>s. bo_list (bw_conns (nd_world s)))) (each (\<lambda>a. ignore (ConnBrDisconnectNow a))))
              (TransitionToState BR_STATE_AVAILABLE))))) :: ('d, unit) br_prog) (\<lambda>_. J t idle_free)"
    by (rule hoare_seq [OF hoare_reset_waitings], rule frame_J_bnd [OF frame_succeeds], intro shp, rule hoare_if, rule empty,
        rule frame_J_seq [OF frame_reset_pendings], intro shp, rule frame_J_bnd [OF frame_succeeds], intro shp, rule hoare_if, rule empty,
        rule frame_J_seq, intro frm, intro shp, rule available_NoDevice)
  have answered: "hoare (J t (\<lambda>s. nd_connecting s = Device d)) (bnd (get_by_addr (dv_addr d) CONN_SIDE_CLIENT) (\<lambda>connection.
            seq (case connection of None \<Rightarrow> ret ()
                 | Some a \<Rightarrow>
                   bnd (conn a) (\<lambda>c.
                   seq (unpost g_brManagerAsyncHandler MSG_CONNECT_TIMEOUT (bc_connectionId c) 0 None) (give_back a)))
            (seq (NotifyDeviceConnectResult d None False SOFTBUS_CONN_BLUETOOTH_OFF)
            (seq (FreeDevice d) (set_connecting NoDevice)))) :: ('d, unit) br_prog) (\<lambda>_. J t (\<lambda>s. nd_connecting s = NoDevice))" for d
    by (rule frame_J_bnd [OF frame_get_by_addr], intro shp, rule frame_J_seq, intro frm, simp, intro shp,
        rule adds_J_seq [OF adds_NotifyDeviceConnectResult], intro shp, rule hoare_seq [OF free_connecting], rule hoare_set_NoDevice)
  show ?thesis unfolding Reset_def
    by (rule hoare_connecting_bnd, unfold option.case)
      (rule hoare_pre, rule frame_J_seq [OF frame_ret _ rest], intro shp, simp add: J_def,
       rule hoare_pre, rule hoare_seq [OF answered rest], simp add: J_def)
qed

end
