(* ===== verification/Br_Node.thy ===== *)
theory Br_Node
  imports Br_Requests "HOL-Library.Code_Target_Nat" "HOL-Library.Code_Target_Int"
begin

text \<open>
  Runs of the two BR modules: what other components ask for, what the driver and the threads of the connections report,
  and passes of the task of the looper that hand a due message to its handler, in any order.
\<close>

section \<open>The handlers\<close>

lemma hoare_in_state:
  assumes "hoare (\<lambda>s. P s \<and> nd_state s = Some BR_STATE_AVAILABLE) m Q" "hoare (\<lambda>s. P s \<and> nd_state s = Some BR_STATE_CONNECTING) n Q"
  shows "hoare P (in_state m n) Q"
  unfolding in_state_def
proof (rule hoare_gets_bnd)
  show "hoare (\<lambda>s. P s \<and> nd_state s = st)
      (case st of None \<Rightarrow> crash InvalidPointer | Some st \<Rightarrow> (case st of BR_STATE_AVAILABLE \<Rightarrow> m | BR_STATE_CONNECTING \<Rightarrow> n)) Q" for st
    using assms by (cases st) (auto simp: hoare_def crash_def split: BrServerState.split)
qed

lemma hoare_both: "hoare P m Q \<Longrightarrow> hoare P n Q \<Longrightarrow> hoare P (in_state m n) Q"
  by (rule hoare_in_state) (auto intro: hoare_pre)

lemma hoare_HandlePendingRequestFunc: "hoare (J t idle_free) (HandlePendingRequestFunc msg) (\<lambda>_. J t idle_free)"
  unfolding HandlePendingRequestFunc_def
  by (rule hoare_in_state, rule hoare_pre [OF hoare_HandlePendingRequestOnAvailableState]) (auto simp: J_def intro: hoare_pre [OF hoare_ret])

lemma hoare_ConnectRequestFunc:
  assumes "obj_ok g_brManagerAsyncHandler MSG_CONNECT_REQUEST (sm_obj msg)"
  shows "\<exists>ctx. sm_obj msg = Some (ConnectRequestObj ctx) \<and> hoare (J t idle_free) (ConnectRequestFunc msg) (\<lambda>_. J (t + ctx_req ctx) idle_free)"
proof -
  obtain ctx where "sm_obj msg = Some (ConnectRequestObj ctx)" "length (cc_addr ctx) < BT_MAC_LEN"
    using assms by (cases "(g_brManagerAsyncHandler, MSG_CONNECT_REQUEST, sm_obj msg)" rule: obj_ok.cases) auto
  then show ?thesis unfolding ConnectRequestFunc_def
    by (auto intro!: hoare_both hoare_ConnectRequestOnAvailableState hoare_ConnectRequestOnConnectingState)
qed

lemmas hoare_handlers =
  hoare_ret hoare_ClientConnected hoare_ClientConnectTimeout hoare_ClientConnectFailed hoare_ServerAccepted hoare_ConnectionException
  hoare_ConnectionResume hoare_UnpendConnection hoare_Reset frame_last [OF frame_DataReceived] frame_last [OF frame_DisconnectRequest]

lemma hoare_BrManagerMsgHandler:
  assumes "msg_ok msg" "sm_handler msg = Some g_brManagerAsyncHandler"
  shows "hoare (J t idle_free) (BrManagerMsgHandler msg) (\<lambda>_. J (t + mreqs msg) idle_free)"
proof (cases "sm_what msg = MSG_CONNECT_REQUEST")
  case True
  then have "obj_ok g_brManagerAsyncHandler MSG_CONNECT_REQUEST (sm_obj msg)" using assms by (simp add: msg_ok_def)
  from hoare_ConnectRequestFunc [OF this, of t] True assms(2) show ?thesis
    by (auto simp: BrManagerMsgHandler_def g_commands_def mreqs_def ctx_req_def)
next
  case False
  then have none: "mreqs msg = {#}" by (simp add: mreqs_def)
  have all: "hoare (J t idle_free) (func msg) (\<lambda>_. J t idle_free)" if "(what, func) \<in> set g_commands" "what \<noteq> MSG_CONNECT_REQUEST" for what func
    using that
    by (auto simp: g_commands_def ClientConnectedFunc_def ClientConnectTimeoutFunc_def ClientConnectFailedFunc_def ServerAcceptedFunc_def DataReceivedFunc_def
        ConnectionExceptionFunc_def ConnectionResumeFunc_def DisconnectRequestFunc_def UnpendFunc_def ResetFunc_def
        intro!: hoare_HandlePendingRequestFunc hoare_both hoare_crash hoare_handlers split: option.split br_obj.split)
  show ?thesis
  proof (cases "map_of g_commands (sm_what msg) :: (br_obj SoftBusMessage \<Rightarrow> ('a, unit) br_prog) option")
    case None
    then show ?thesis unfolding BrManagerMsgHandler_def by (simp add: none) (rule hoare_ret)
  next
    case (Some func)
    then show ?thesis using all [OF map_of_SomeD [OF Some] False] by (simp add: BrManagerMsgHandler_def none)
  qed
qed

section \<open>Runs\<close>

text \<open>
  A pass of the task of the looper.  A message that is due leaves the list and goes to the function of its handler;
  after that the looper no longer has a current message.
\<close>

definition dispatch :: "br_obj SoftBusMessage \<Rightarrow> ('d, unit) br_prog" where
  "dispatch msg =
     (if sm_handler msg = Some g_brManagerAsyncHandler then BrManagerMsgHandler msg
      else if sm_handler msg = Some g_brConnectionAsyncHandler then BrConnectionMsgHandler msg
      else ret ())"

definition on_looper :: "br_obj looper_op \<Rightarrow> ('d, br_obj SoftBusMessage option) br_prog" where
  "on_looper opn s =
     (case nd_looper s of None \<Rightarrow> Some (Inl InvalidPointer)
      | Some l \<Rightarrow> Some (map_sum id (\<lambda>(msg, l). (msg, s\<lparr>nd_looper := Some l\<rparr>)) (looper_step opn l)))"

definition loop_pass :: "('d, unit) br_prog" where
  "loop_pass =
     bnd succeeds (\<lambda>lockOk. bnd (draw oc_now) (\<lambda>now.
     bnd (on_looper (LPass lockOk now)) (\<lambda>msg.
     case msg of None \<Rightarrow> ret () | Some msg \<Rightarrow> seq (dispatch msg) (ignore (on_looper LHandled)))))"

datatype 'd node_event =
    ConnectDeviceEvent "ConnectOption option" nat "(nat \<times> bool \<times> bool) option"
  | LoopPassEvent
  | DisconnectDeviceEvent nat
  | DisconnectDeviceNowEvent "ConnectOption option"
  | PendConnectionEvent "ConnectOption option" nat
  | CheckActiveConnectionEvent "ConnectOption option" bool
  | GetConnectionInfoEvent nat bool
  | BtStateChangedEvent int
  | PostByteFinshedEvent nat int
  | ClientThreadEvent nat
  | ClientThreadExitEvent nat int
  | ServeThreadEvent int
  | ServeThreadExitEvent nat int int
  | DataReceivedEvent nat bytes
  | ConnectStatusEvent bytes int int
  | ListenEvent "nat option"
  | AcceptEvent int
  | OtherThreadsEvent "'d br_world"

text \<open>An event and the request it has accepted, if it is a request: its callbacks and its number.\<close>

fun node_step :: "'d node_event \<Rightarrow> ('d, (nat \<times> nat) list) br_prog" where
  "node_step (ConnectDeviceEvent option requestId result) =
     bnd (BrConnectDevice option requestId result) (\<lambda>r.
     ret (if r = SOFTBUS_OK then (case result of None \<Rightarrow> [] | Some (callbacks, _) \<Rightarrow> [(callbacks, requestId)]) else []))"
| "node_step LoopPassEvent = seq loop_pass (ret [])"
| "node_step (DisconnectDeviceEvent connectionId) = seq (BrDisconnectDevice connectionId) (ret [])"
| "node_step (DisconnectDeviceNowEvent option) = seq (BrDisconnectDeviceNow option) (ret [])"
| "node_step (PendConnectionEvent option time) = seq (BrPendConnection option time) (ret [])"
| "node_step (CheckActiveConnectionEvent option needOccupy) = seq (BrCheckActiveConnection option needOccupy) (ret [])"
| "node_step (GetConnectionInfoEvent connectionId infoNonNull) = seq (BrGetConnectionInfo connectionId infoNonNull) (ret [])"
| "node_step (BtStateChangedEvent state) = seq (OnBtStateChanged state) (ret [])"
| "node_step (PostByteFinshedEvent connectionId error) = seq (OnPostByteFinshed connectionId error) (ret [])"
| "node_step (ClientThreadEvent connectionId) = seq (StartClientConnect connectionId) (ret [])"
| "node_step (ClientThreadExitEvent a r) = seq (StartClientConnect_exit a r) (ret [])"
| "node_step (ServeThreadEvent socketHandle) = seq (StartServerServe socketHandle) (ret [])"
| "node_step (ServeThreadExitEvent a socketHandle r) = seq (StartServerServe_exit a socketHandle r) (ret [])"
| "node_step (DataReceivedEvent connectionId data) = seq (OnDataReceived connectionId data) (ret [])"
| "node_step (ConnectStatusEvent bdAddr status result) = seq (BrConnectStatusCallback bdAddr status result) (ret [])"
| "node_step (ListenEvent arg) = seq (ListenTask arg) (ret [])"
| "node_step (AcceptEvent serverId) = seq (ListenTask_accept serverId) (ret [])"
| "node_step (OtherThreadsEvent w) = seq (modify (\<lambda>s. s\<lparr>nd_world := w\<rparr>)) (ret [])"

text \<open>Each event comes with the answers of its environment; a run collects the requests that were accepted.\<close>

fun node_run :: "(br_oracle \<times> 'd node_event) list \<Rightarrow> ('d, (nat \<times> nat) list) br_prog" where
  "node_run [] = ret []"
| "node_run ((orc, e) # es) =
     seq (modify (\<lambda>s. s\<lparr>nd_orc := orc\<rparr>)) (bnd (node_step e) (\<lambda>a. bnd (node_run es) (\<lambda>b. ret (a @ b))))"

section \<open>Every event keeps the account\<close>

lemma frame_OnPostByteFinshed [frm]: "frame (OnPostByteFinshed i e)"
  unfolding OnPostByteFinshed_def by (intro frm)

lemma frame_BrDisconnectDevice [frm]: "frame (BrDisconnectDevice i)"
  unfolding BrDisconnectDevice_def by (intro frm) simp_all

lemma frame_BrDisconnectDeviceNow [frm]: "frame (BrDisconnectDeviceNow opt)"
  unfolding BrDisconnectDeviceNow_def by (intro frm) simp_all

lemma frame_BrCheckActiveConnection [frm]: "frame (BrCheckActiveConnection opt b)"
  unfolding BrCheckActiveConnection_def Let_def by (intro frm)

lemma frame_BrGetConnectionInfo [frm]: "frame (BrGetConnectionInfo i b)"
  unfolding BrGetConnectionInfo_def by (intro frm)

lemma frame_OnBtStateChanged [frm]: "frame (OnBtStateChanged st)"
  unfolding OnBtStateChanged_def by (intro frm frame_modify) (simp_all add: core_def)

lemma frame_other_threads [frm]: "frame (modify (\<lambda>s. s\<lparr>nd_world := w\<rparr>))"
  by (rule frame_modify) (simp add: core_def)

lemma frame_set_orc [frm]: "frame (modify (\<lambda>s. s\<lparr>nd_orc := orc\<rparr>))"
  by (rule frame_modify) (simp add: core_def)

text \<open>Taking a message off the list.\<close>

lemma pass_takes:
  assumes "looper_step (LPass lo now) l = Inr (msg, l')" "looper_ok (Some l)"
  shows "looper_ok (Some l')" "lreqs (Some l) = lreqs (Some l') + (case msg of None \<Rightarrow> {#} | Some m \<Rightarrow> mreqs m)"
    "\<And>m. msg = Some m \<Longrightarrow> msg_ok m"
  using assms by (auto simp: looper_ok_def lreqs_def LoopTask_pass_def split: option.splits list.splits if_splits)

lemma frame_handled [frm]: "frame (on_looper LHandled)"
  by (rule frameI) (auto simp: on_looper_def core_def lreqs_def looper_ok_def LoopTask_handled_def split: option.splits)

lemma hoare_dispatch:
  assumes "msg_ok msg"
  shows "hoare (J t idle_free) (dispatch msg) (\<lambda>_. J (t + mreqs msg) idle_free)"
proof (cases "sm_handler msg = Some g_brManagerAsyncHandler")
  case True
  then show ?thesis using hoare_BrManagerMsgHandler [OF assms] by (simp add: dispatch_def)
next
  case False
  then have "mreqs msg = {#}" by (simp add: mreqs_def)
  with False show ?thesis by (auto simp: dispatch_def intro!: hoare_ret frame_last frm)
qed

lemma on_looperD: "on_looper opn s = Some (Inr (msg, s')) \<Longrightarrow> \<exists>l l'. nd_looper s = Some l \<and> looper_step opn l = Inr (msg, l') \<and> s' = s\<lparr>nd_looper := Some l'\<rparr>"
  by (auto simp: on_looper_def map_sum_Inr simp del: looper_step.simps split: option.splits)

lemma bndD: "bnd m f s = Some (Inr (x, t)) \<Longrightarrow> \<exists>y u. m s = Some (Inr (y, u)) \<and> f y u = Some (Inr (x, t))"
  by (auto simp: bnd_def split: option.splits sum.splits)

lemma hoare_loop_pass: "hoare (J t idle_free) (loop_pass :: ('d, unit) br_prog) (\<lambda>_. J t idle_free)"
proof -
  have "hoare (J t idle_free) (bnd (on_looper (LPass lo now)) (\<lambda>msg. case msg of None \<Rightarrow> ret () | Some msg \<Rightarrow> seq (dispatch msg) (ignore (on_looper LHandled))) :: ('d, unit) br_prog)
      (\<lambda>_. J t idle_free)" for lo now
  proof (rule hoareI)
    fix s :: "'d br_node" and x s'
    let ?rest = "\<lambda>msg. case msg of None \<Rightarrow> ret () | Some msg \<Rightarrow> (seq (dispatch msg) (ignore (on_looper LHandled)) :: ('d, unit) br_prog)"
    assume pre: "J t idle_free s" and run: "bnd (on_looper (LPass lo now)) ?rest s = Some (Inr (x, s'))"
    then obtain l msg l' where l: "nd_looper s = Some l" "looper_step (LPass lo now) l = Inr (msg, l')"
      and rest: "?rest msg (s\<lparr>nd_looper := Some l'\<rparr>) = Some (Inr (x, s'))"
      by (auto dest!: bndD on_looperD simp del: looper_step.simps)
    from pre l have ok: "looper_ok (Some l)" by (simp add: J_def)
    note took = pass_takes [OF l(2) ok]
    show "J t idle_free s'"
    proof (cases msg)
      case None
      with rest have "s' = s\<lparr>nd_looper := Some l'\<rparr>" by (simp add: ret_def)
      with pre l took(1,2) None show ?thesis by (simp add: J_def ids_ok_def total_reqs_def outstanding_def idle_free_def)
    next
      case (Some m)
      then have t: "t = (t - mreqs m) + mreqs m" and "J (t - mreqs m) idle_free (s\<lparr>nd_looper := Some l'\<rparr>)"
        using pre l took(1,2) by (auto simp: J_def ids_ok_def total_reqs_def outstanding_def idle_free_def)
      moreover have "hoare (J (t - mreqs m) idle_free) (seq (dispatch m) (ignore (on_looper LHandled))) (\<lambda>_. J (t - mreqs m + mreqs m) idle_free)"
        by (intro hoare_seq [OF hoare_dispatch] frame_last frm took(3) Some)
      ultimately show ?thesis using rest Some t by (auto dest: hoareD)
    qed
  qed
  then show ?thesis unfolding loop_pass_def by (rule frame_idle_bnd [OF frame_succeeds frame_idle_bnd [OF frame_draw]])
qed

section \<open>Requests\<close>

fun is_request :: "'d node_event \<Rightarrow> bool" where
  "is_request (ConnectDeviceEvent option requestId result) \<longleftrightarrow> True"
| "is_request _ \<longleftrightarrow> False"

definition reliable :: "br_oracle \<Rightarrow> bool" where
  "reliable orc \<longleftrightarrow> (\<forall>k i. oc_oks orc k i)"

lemma ConnPost_request:
  assumes "ConnPostMsgToLooper b ok now wrapper what arg1 arg2 ob delay lp = Inr (r, lp')" "looper_ok lp"
  defines "msg \<equiv> \<lparr>sm_what = what, sm_arg1 = arg1, sm_arg2 = arg2, sm_time = 0, sm_obj = ob, sm_handler = Some wrapper\<rparr>"
  shows "lreqs lp' = lreqs lp \<or> (r = SOFTBUS_OK \<and> lreqs lp' = lreqs lp + mreqs msg)"
    "b \<Longrightarrow> (\<And>i. ok i) \<Longrightarrow> r = SOFTBUS_OK \<and> lreqs lp' = lreqs lp + mreqs msg"
  using assms
  by (auto simp: ConnPostMsgToLooper_def LooperPostMessageDelay_def PostMessageAtTime_def PostMessageAtTimeParamVerify_def Let_def lreqs_def looper_ok_def
      sum_insert_message mreqs_def map_sum_Inr split: if_splits option.splits)

definition requested :: "(nat \<times> nat) multiset \<Rightarrow> int \<Rightarrow> 'd br_node \<Rightarrow> 'd br_node \<Rightarrow> (nat \<times> nat) multiset \<Rightarrow> bool" where
  "requested t r s s' req \<longleftrightarrow> (\<exists>a. J (t + a) idle_free s' \<and> (a = {#} \<or> r = SOFTBUS_OK \<and> a = req) \<and>
     (reliable (nd_orc s) \<longrightarrow> (r = SOFTBUS_OK \<longleftrightarrow> a = req)))"

lemma post_request:
  assumes pre: "J t idle_free s" and run: "post g_brManagerAsyncHandler MSG_CONNECT_REQUEST 0 0 (Some (ConnectRequestObj ctx)) 0 s = Some (Inr (r, s'))"
    and short: "length (cc_addr ctx) < BT_MAC_LEN"
  shows "requested t r s s' (ctx_req ctx)"
proof -
  define ok now where "ok = oc_oks (nd_orc s) (nd_tick s)" and "now = oc_now (nd_orc s) (Suc (nd_tick s))"
  have ok: "reliable (nd_orc s) \<Longrightarrow> \<forall>i. ok i" by (simp add: ok_def reliable_def)
  obtain lp' where posted: "ConnPostMsgToLooper (ok 0) (\<lambda>i. ok (Suc i)) now g_brManagerAsyncHandler MSG_CONNECT_REQUEST 0 0 (Some (ConnectRequestObj ctx)) 0 (nd_looper s) = Inr (r, lp')"
    and s': "s' = s\<lparr>nd_tick := nd_tick s + 2, nd_looper := lp'\<rparr>"
    using run by (auto simp: post_def bnd_def draw_def map_sum_Inr ok_def now_def)
  have live: "looper_ok (nd_looper s)" using pre by (simp add: J_def)
  have m: "mreqs \<lparr>sm_what = MSG_CONNECT_REQUEST, sm_arg1 = 0, sm_arg2 = 0, sm_time = 0, sm_obj = Some (ConnectRequestObj ctx),
      sm_handler = Some g_brManagerAsyncHandler\<rparr> = ctx_req ctx" by (simp add: mreqs_def ctx_req_def)
  note cases = ConnPost_request [OF posted live, unfolded m]
  have lok: "looper_ok lp'" by (rule ConnPost_ok [OF posted _ live]) (simp add: short)
  have J: "J (t + a) idle_free s'" if "lreqs lp' = lreqs (nd_looper s) + a" for a
    using pre that lok s' by (auto simp: J_def ids_ok_def total_reqs_def outstanding_def idle_free_def ac_simps intro: less_le_trans)
  have c: "ctx_req ctx \<noteq> {#}" by (simp add: ctx_req_def)
  show ?thesis
  proof (cases "reliable (nd_orc s)")
    case True
    then have "r = SOFTBUS_OK \<and> lreqs lp' = lreqs (nd_looper s) + ctx_req ctx" using cases(2) ok by blast
    with J show ?thesis unfolding requested_def by blast
  next
    case False
    with cases(1) J [of "{#}"] J [of "ctx_req ctx"] show ?thesis unfolding requested_def by (metis add.right_neutral)
  qed
qed

text \<open>What a step has accepted.\<close>

lemma refused: "J t idle_free s \<Longrightarrow> r \<noteq> SOFTBUS_OK \<Longrightarrow> req \<noteq> {#} \<Longrightarrow> requested t r s s req"
  unfolding requested_def by (rule exI [of _ "{#}"]) simp

lemma requested_frame:
  assumes "requested t r s s' req" "nd_orc s = nd_orc u"
  shows "requested t r u s' req"
  using assms by (simp add: requested_def)

definition request_ctx :: "ConnectOption \<Rightarrow> nat \<Rightarrow> nat \<Rightarrow> ConnBrConnectRequestContext" where
  "request_ctx ot i cb = \<lparr>cc_addr = co_brMac ot, cc_waitTimeoutDelay = co_waitTimeoutDelay ot, cc_requestId = i, cc_connectionId = co_connectionId ot,
     cc_result = cb\<rparr>"

lemma BrConnectDevice_cases:
  assumes "BrConnectDevice opt i res s = Some (Inr (r, s'))"
  shows "(r \<noteq> SOFTBUS_OK \<and> (s' = s \<or> s' = s\<lparr>nd_tick := Suc (nd_tick s)\<rparr>)) \<or>
    (\<exists>ot cb ok. res = Some (cb, ok) \<and> length (co_brMac ot) < BT_MAC_LEN \<and>
       post g_brManagerAsyncHandler MSG_CONNECT_REQUEST 0 0 (Some (ConnectRequestObj (request_ctx ot i cb))) 0 (s\<lparr>nd_tick := Suc (nd_tick s)\<rparr>) =
         Some (Inr (r, s')))"
proof (cases opt)
  case None
  with assms show ?thesis by (simp add: BrConnectDevice_def ret_def)
next
  case (Some ot)
  show ?thesis
  proof (cases res)
    case None
    with Some assms show ?thesis by (auto simp: BrConnectDevice_def ret_def split: if_splits)
  next
    case (Some callbacks)
    obtain cb su fa where c: "callbacks = (cb, su, fa)" by (cases callbacks)
    from assms have "s' = s \<and> r = SOFTBUS_INVALID_PARAM \<or> bnd succeeds (\<lambda>callocOk. if \<not> callocOk then ret SOFTBUS_MEM_ERR
        else if length (co_brMac ot) \<ge> BT_MAC_LEN then ret SOFTBUS_STRCPY_ERR
        else post g_brManagerAsyncHandler MSG_CONNECT_REQUEST 0 0 (Some (ConnectRequestObj (request_ctx ot i cb))) 0) s = Some (Inr (r, s'))"
      unfolding BrConnectDevice_def \<open>opt = Some ot\<close> Some c Let_def option.case prod.case request_ctx_def [symmetric]
      by (simp add: ret_def split: if_splits)
    then show ?thesis using Some c by (auto simp: bnd_def succeeds_def draw_def ret_def split: if_splits)
  qed
qed

lemma BrConnectDevice_requested:
  assumes "J t idle_free s" "BrConnectDevice opt i res s = Some (Inr (r, s'))"
  shows "requested t r s s' (case res of None \<Rightarrow> {#(0, 0)#} | Some (cb, _) \<Rightarrow> {#(cb, i)#})"
proof -
  let ?req = "case res of None \<Rightarrow> {#(0, 0)#} | Some (cb, _) \<Rightarrow> {#(cb, i)#}"
  have req: "?req \<noteq> {#}" by (simp split: option.split prod.split)
  have tick: "J t idle_free (s\<lparr>nd_tick := Suc (nd_tick s)\<rparr>)"
    using assms(1) by (auto simp: J_def ids_ok_def total_reqs_def outstanding_def idle_free_def)
  consider (early) "r \<noteq> SOFTBUS_OK" "s' = s \<or> s' = s\<lparr>nd_tick := Suc (nd_tick s)\<rparr>"
    | (posts) ot cb ok where "res = Some (cb, ok)" "length (co_brMac ot) < BT_MAC_LEN"
        "post g_brManagerAsyncHandler MSG_CONNECT_REQUEST 0 0 (Some (ConnectRequestObj (request_ctx ot i cb))) 0 (s\<lparr>nd_tick := Suc (nd_tick s)\<rparr>) =
           Some (Inr (r, s'))"
    using BrConnectDevice_cases [OF assms(2)] by blast
  then show ?thesis
  proof cases
    case early
    then show ?thesis using refused [OF assms(1) _ req] refused [OF tick _ req] by (auto simp: requested_def)
  next
    case posts
    from post_request [OF tick posts(3)] posts show ?thesis by (simp add: ctx_req_def requested_def request_ctx_def)
  qed
qed

lemma hoare_quiet: "hoare (J t idle_free) m (\<lambda>_. J t idle_free) \<Longrightarrow> hoare (J t idle_free) (seq m (ret [])) (\<lambda>acc s. J t idle_free s \<and> acc = [])"
  by (rule hoare_seq, assumption, rule hoare_pre [OF hoare_ret]) simp

lemma quiet_account:
  assumes "J t idle_free s" "node_step e s = Some (Inr (acc, s'))" "node_step e = seq m (ret [])" "hoare (J t idle_free) m (\<lambda>_. J t idle_free)"
  shows "\<exists>a. J (t + a) idle_free s' \<and> a \<subseteq># mset acc \<and> ((is_request e \<longrightarrow> reliable (nd_orc s)) \<longrightarrow> a = mset acc)"
  using hoareD [OF hoare_quiet [OF assms(4)] assms(1)] assms(2,3) by (intro exI [of _ "{#}"]) auto

lemma step_account:
  assumes "J t idle_free s" "node_step e s = Some (Inr (acc, s'))"
  shows "\<exists>a. J (t + a) idle_free s' \<and> a \<subseteq># mset acc \<and> ((is_request e \<longrightarrow> reliable (nd_orc s)) \<longrightarrow> a = mset acc)"
proof (cases e)
  case (ConnectDeviceEvent opt i res)
  with assms(2) obtain r where r: "BrConnectDevice opt i res s = Some (Inr (r, s'))"
    and acc: "acc = (if r = SOFTBUS_OK then (case res of None \<Rightarrow> [] | Some (cb, _) \<Rightarrow> [(cb, i)]) else [])"
    by (auto dest!: bndD simp: ret_def)
  have "res \<noteq> None" if "r = SOFTBUS_OK"
    using r that by (auto simp: BrConnectDevice_def ret_def split: option.splits if_splits)
  with BrConnectDevice_requested [OF assms(1) r] acc show ?thesis
    by (auto simp: requested_def ConnectDeviceEvent split: option.splits)
next
  case LoopPassEvent
  show ?thesis by (rule quiet_account [OF assms _ hoare_loop_pass]) (simp add: LoopPassEvent)
qed (rule quiet_account [OF assms], hypsubst, rule node_step.simps, intro frame_last frm)+

lemma run_account:
  assumes "J t idle_free s" "node_run es s = Some (Inr (acc, s'))"
  shows "\<exists>a. J (t + a) idle_free s' \<and> a \<subseteq># mset acc \<and> (list_all (\<lambda>(orc, e). is_request e \<longrightarrow> reliable orc) es \<longrightarrow> a = mset acc)"
  using assms
proof (induction es arbitrary: t s acc)
  case Nil
  then show ?case by (intro exI [of _ "{#}"]) (simp add: ret_def)
next
  case (Cons oe es)
  obtain orc e where oe: "oe = (orc, e)" by (cases oe)
  let ?s = "s\<lparr>nd_orc := orc\<rparr>"
  obtain a u b where step: "node_step e ?s = Some (Inr (a, u))" and run: "node_run es u = Some (Inr (b, s'))" and acc: "acc = a @ b"
    using Cons.prems(2) unfolding oe node_run.simps seq_def by (auto dest!: bndD simp: modify_def ret_def)
  have "J t idle_free ?s" using hoareD [OF frame_last [OF frame_set_orc] Cons.prems(1)] by (simp add: modify_def)
  from step_account [OF this step] obtain x where x: "J (t + x) idle_free u" "x \<subseteq># mset a" "(is_request e \<longrightarrow> reliable orc) \<Longrightarrow> x = mset a" by auto
  from Cons.IH [OF x(1) run] obtain y where y: "J (t + x + y) idle_free s'" "y \<subseteq># mset b" "list_all (\<lambda>(orc, e). is_request e \<longrightarrow> reliable orc) es \<Longrightarrow> y = mset b"
    by blast
  show ?case
    using x y by (intro exI [of _ "x + y"]) (simp add: acc oe ac_simps subset_mset.add_mono)
qed

section \<open>The start\<close>

text \<open>The looper once its task runs; nothing has been answered before the manager is initialised.\<close>

definition started_looper :: "br_obj SoftBusLooper" where
  "started_looper = \<lparr>lp_context = Some (new_context\<lparr>lc_running := True\<rparr>), lp_dumpable = True\<rparr>"

lemma CreateNewLooper_started:
  assumes "CreateNewLooper ok name w = (Some a, w1)" "LoopTask_enter True a w1 = Inr w2"
  shows "lw_heap w2 a = Some started_looper"
  using assms by (auto simp: CreateNewLooper_def LoopTask_enter_def started_looper_def split: if_splits)

lemma InitBrManager_account:
  assumes "looper_ok (nd_looper s)" "lreqs (nd_looper s) + answers (nd_calls s) = {#}" "InitBrManager s = Some (Inr (SOFTBUS_OK, s'))"
  shows "J {#} idle_free s'"
proof -
  let ?f = "\<lambda>s. s\<lparr>nd_world := (nd_world s)\<lparr>bw_conns := (bw_conns (nd_world s))\<lparr>bo_list := []\<rparr>\<rparr>,
              nd_pendings := [], nd_pendingsCnt := 0, nd_waitings := [], nd_state := None, nd_connecting := NoDevice\<rparr>"
  have J: "J {#} (\<lambda>s. nd_connecting s = NoDevice) (?f (s\<lparr>nd_tick := Suc (nd_tick s)\<rparr>))"
    using assms(1,2) by (simp add: J_def ids_ok_def total_reqs_def outstanding_def wreqs_def)
  have opens: "hoare (J {#} (\<lambda>s. nd_connecting s = NoDevice)) (seq (TransitionToState BR_STATE_AVAILABLE) (ret SOFTBUS_OK)) (\<lambda>_. J {#} idle_free)"
    by (rule hoare_seq [OF available_NoDevice], rule hoare_pre [OF hoare_ret])
  have "seq (TransitionToState BR_STATE_AVAILABLE) (ret SOFTBUS_OK) (?f (s\<lparr>nd_tick := Suc (nd_tick s)\<rparr>)) = Some (Inr (SOFTBUS_OK, s'))"
    using assms(3) unfolding InitBrManager_def by (auto simp: bnd_def draw_def ret_def seq_def modify_def split: if_splits)
  from hoareD [OF opens J this] show ?thesis .
qed

lemma frame_InitBrEventListener [frm]: "frame (InitBrEventListener env)"
  unfolding InitBrEventListener_def ConnBrConnectionMuduleInit_def InitProperty_def by (intro frm frame_modify) (simp_all add: core_def)

lemma ConnInitBr_account:
  assumes "nd_looper s = Some started_looper" "nd_calls s = []" "ConnInitBr callback env s = Some (Inr (True, s0))"
  shows "J {#} idle_free s0"
proof -
  obtain u where u: "InitBrEventListener env s = Some (Inr (SOFTBUS_OK, u))" and s0: "InitBrManager u = Some (Inr (SOFTBUS_OK, s0))"
    using assms(3) unfolding ConnInitBr_def by (auto dest!: bndD simp: ret_def split: if_splits)
  have "core u = core s" "looper_ok (nd_looper s) \<Longrightarrow> looper_ok (nd_looper u)" using frame_InitBrEventListener u unfolding frame_def by blast+
  moreover have "looper_ok (nd_looper s)" "lreqs (nd_looper s) + answers (nd_calls s) = {#}"
    using assms(1,2) by (simp_all add: looper_ok_def lreqs_def started_looper_def new_context_def answers_def)
  ultimately have "looper_ok (nd_looper u)" "lreqs (nd_looper u) + answers (nd_calls u) = {#}" by (simp_all add: core_def)
  from InitBrManager_account [OF this s0] show ?thesis .
qed

lemma started_run:
  assumes "nd_looper s = Some started_looper" "nd_calls s = []" "ConnInitBr callback env s = Some (Inr (True, s0))" "node_run es s0 = Some (Inr (acc, s'))"
  shows "\<exists>a. J a idle_free s' \<and> a \<subseteq># mset acc \<and> (list_all (\<lambda>(orc, e). is_request e \<longrightarrow> reliable orc) es \<longrightarrow> a = mset acc)"
  using run_account [OF ConnInitBr_account [OF assms(1-3)] assms(4)] by simp

section \<open>An example\<close>

text \<open>A device is asked for, the looper hands the request on, the client thread connects and the requester is told.\<close>

declare allocate_loop.simps [code]

definition ex_oracle :: br_oracle where
  "ex_oracle = \<lparr>oc_oks = (\<lambda>_ _. True), oc_now = (\<lambda>_. (0, 0)), oc_posts = (\<lambda>_. ex_post), oc_packs = (\<lambda>_. (True, \<lambda>_ _. True, True)), oc_status = (\<lambda>_. 0),
     oc_replies = (\<lambda>_. undefined), oc_ble = (\<lambda>_. None), oc_requestId = id\<rparr>"

definition ex_spp :: "bytes SppSocketDriver" where
  "ex_spp = \<lparr>sd_Connect = (\<lambda>_ d. (3, d)), sd_DisConnect = (\<lambda>_ d. (0, d)), sd_GetRemoteDeviceInfo = (\<lambda>_ d. ((0, [1, 2, 3, 4, 5, 6]), d)),
     sd_OpenSppServer = Pair 5, sd_CloseSppServer = (\<lambda>_ d. ((), d)), sd_Accept = (\<lambda>_ d. (4, d))\<rparr>"

definition ex_start :: "bytes br_node" where
  "ex_start = \<lparr>nd_world = ex_blank\<lparr>bw_conns := no_conns\<rparr>, nd_looper = Some started_looper, nd_state = None, nd_waitings = [], nd_pendings = [], nd_pendingsCnt = 0,
     nd_connecting = NoDevice, nd_brStateTurnOn = True, nd_servers = (\<lambda>_. None), nd_serverState = None, nd_traceId = 0, nd_readBufferCapacity = 40000,
     nd_mtuSize = 990, nd_calls = [], nd_orc = ex_oracle, nd_tick = 0, nd_plat = ex_plat, nd_spp = ex_spp, nd_parse = (\<lambda>_. None)\<rparr>"

definition ex_env :: br_init_env where
  "ex_env = \<lparr>ie_driver = True, ie_capacity = Some 40000, ie_mtu = Some 990, ie_alloc = (\<lambda>_. True), ie_queue = (0, 0, 0), ie_flow = (True, True),
     ie_mutex = 0, ie_pendingMutex = 0\<rparr>"

definition ex_option :: ConnectOption where
  "ex_option = \<lparr>co_type = CONNECT_BR, co_brMac = ''11:22:33:44:55:66'', co_connectionId = 0, co_sideType = CONN_SIDE_ANY, co_waitTimeoutDelay = 0\<rparr>"

definition ex_events :: "(br_oracle \<times> bytes node_event) list" where
  "ex_events = map (Pair ex_oracle) [ConnectDeviceEvent (Some ex_option) 5 (Some (9, True, True)), LoopPassEvent, LoopPassEvent, LoopPassEvent, ClientThreadEvent 131073, LoopPassEvent]"

fun answered :: "br_call \<Rightarrow> (nat \<times> nat) list" where
  "answered (OnConnectSuccessed result requestId connectionId info) = [(result, requestId)]"
| "answered (OnConnectFailed result requestId reason) = [(result, requestId)]"
| "answered _ = []"

lemma answers_answered: "answers cs = mset (concat (map answered cs))"
proof (induction cs)
  case (Cons c cs)
  then show ?case by (cases c) (simp_all add: answers_def)
qed (simp add: answers_def)

lemma ex_run_all:
  "case bnd (ConnInitBr (\<lambda>_. True) ex_env) (\<lambda>r. if r then node_run ex_events else crash InvalidPointer) ex_start of
     Some (Inr (acc, s)) \<Rightarrow> acc = [(9, 5)] \<and> concat (map answered (nd_calls s)) = [(9, 5)]
   | _ \<Rightarrow> False"
  by code_simp

lemma ex_runs:
  obtains s0 s where "ConnInitBr (\<lambda>_. True) ex_env ex_start = Some (Inr (True, s0))" "node_run ex_events s0 = Some (Inr ([(9, 5)], s))"
    "answers (nd_calls s) = {#(9, 5)#}"
proof -
  obtain s where run: "bnd (ConnInitBr (\<lambda>_. True) ex_env) (\<lambda>r. if r then node_run ex_events else crash InvalidPointer) ex_start = Some (Inr ([(9, 5)], s))"
    and a: "concat (map answered (nd_calls s)) = [(9, 5)]"
    using ex_run_all by (auto split: option.splits sum.splits)
  from bndD [OF run] a show ?thesis by (auto simp: crash_def answers_answered split: if_splits intro: that)
qed

text \<open>
  One \<open>MSG_NEXT_CMD\<close> serves one waiting device.  Two devices are asked for while a third is connecting; when that one is
  done, the manager becomes available and tries the first, whose thread cannot be started.  The second stays
  in the list although nothing is connecting and the looper is empty.
\<close>

definition ex_stranding :: "(br_oracle \<times> bytes node_event) list" where
  "ex_stranding =
     map (Pair ex_oracle)
       [ConnectDeviceEvent (Some ex_option) 1 (Some (9, True, True)), LoopPassEvent, LoopPassEvent, LoopPassEvent,
        ConnectDeviceEvent (Some (ex_option\<lparr>co_brMac := ''22''\<rparr>)) 2 (Some (9, True, True)), LoopPassEvent,
        ConnectDeviceEvent (Some (ex_option\<lparr>co_brMac := ''33''\<rparr>)) 3 (Some (9, True, True)), LoopPassEvent,
        ClientThreadEvent 131073, LoopPassEvent] @
     [(ex_oracle\<lparr>oc_status := (\<lambda>_. - 1)\<rparr>, LoopPassEvent), (ex_oracle, LoopPassEvent)]"

lemma br_request_stranded:
  "case bnd (ConnInitBr (\<lambda>_. True) ex_env) (\<lambda>_. node_run ex_stranding) ex_start of
     Some (Inr (acc, s)) \<Rightarrow> acc = [(9, 1), (9, 2), (9, 3)] \<and> concat (map answered (nd_calls s)) = [(9, 1), (9, 2)] \<and>
       nd_state s = Some BR_STATE_AVAILABLE \<and> nd_connecting s = NoDevice \<and>
       map (\<lambda>d. (dv_state d, dv_requests d)) (nd_waitings s) = [(BR_DEVICE_STATE_WAIT_SCHEDULE, [\<lparr>rq_requestId = 3, rq_result = 9\<rparr>])] \<and>
       (case nd_looper s of None \<Rightarrow> False | Some l \<Rightarrow> (case lp_context l of None \<Rightarrow> False | Some c \<Rightarrow> lc_msgHead c = []))
   | _ \<Rightarrow> False"
  by code_simp

section \<open>Properties\<close>

text \<open>
  C10: No requester is called twice.  However the events interleave and whatever fails, the requests whose callbacks
  have been called together with those still in the looper, waiting or connecting are among the requests that were
  accepted, each as often as it was accepted: a request is never answered twice, never answered and still outstanding,
  and nothing is answered that was not asked for.
\<close>

theorem br_answered_once:
  assumes "nd_looper s = Some started_looper" "nd_calls s = []" "ConnInitBr callback env s = Some (Inr (True, s0))"
    and "node_run es s0 = Some (Inr (acc, s'))"
  shows "answers (nd_calls s') + outstanding s' \<subseteq># mset acc"
proof -
  obtain a where "J a idle_free s'" "a \<subseteq># mset acc" using started_run [OF assms] by blast
  then show ?thesis by (simp add: J_def total_reqs_def add.commute)
qed

theorem br_answered_once_witness:
  "\<exists>s0 s. node_run ex_events s0 = Some (Inr ([(9, 5)], s)) \<and> answers (nd_calls s) = {#(9, 5)#} \<and> answers (nd_calls s) + outstanding s \<subseteq># {#(9, 5)#}"
proof -
  obtain s0 s where r: "ConnInitBr (\<lambda>_. True) ex_env ex_start = Some (Inr (True, s0))" "node_run ex_events s0 = Some (Inr ([(9, 5)], s))"
    and a: "answers (nd_calls s) = {#(9, 5)#}" by (rule ex_runs)
  from br_answered_once [OF _ _ r] have "answers (nd_calls s) + outstanding s \<subseteq># {#(9, 5)#}" by (simp add: ex_start_def)
  with a r(2) show ?thesis by blast
qed

text \<open>
  C11: No request is lost.  If the allocations and locks of the calls that make requests succeed, then whatever else
  fails and happens, every accepted request has been answered once or is still in the looper, waiting or connecting.
\<close>

theorem br_requests_kept:
  assumes "nd_looper s = Some started_looper" "nd_calls s = []" "ConnInitBr callback env s = Some (Inr (True, s0))"
    and "node_run es s0 = Some (Inr (acc, s'))" "list_all (\<lambda>(orc, e). is_request e \<longrightarrow> reliable orc) es"
  shows "answers (nd_calls s') + outstanding s' = mset acc"
proof -
  have "J (mset acc) idle_free s'" using started_run [OF assms(1-4)] assms(5) by blast
  then show ?thesis by (simp add: J_def total_reqs_def add.commute)
qed

theorem br_requests_kept_witness:
  "\<exists>s0 s. node_run ex_events s0 = Some (Inr ([(9, 5)], s)) \<and> answers (nd_calls s) = {#(9, 5)#} \<and> outstanding s = {#}"
proof -
  obtain s0 s where r: "ConnInitBr (\<lambda>_. True) ex_env ex_start = Some (Inr (True, s0))" "node_run ex_events s0 = Some (Inr ([(9, 5)], s))"
    and a: "answers (nd_calls s) = {#(9, 5)#}" by (rule ex_runs)
  from br_requests_kept [OF _ _ r] have "answers (nd_calls s) + outstanding s = {#(9, 5)#}"
    by (simp add: ex_start_def ex_events_def ex_oracle_def reliable_def)
  with a r(2) show ?thesis by auto
qed

text \<open>
  C12: Messages are well typed.  Messages carry their object as a bare pointer, which the handler reads as the type it
  expects.  In every state that the modules reach, after their initialisation on a started looper and any events handled without a fault, each message
  in the looper is for one of the two handlers and carries an object of the type this handler reads for this kind of message, and the address in it,
  be it that of a request to connect, of a connection timeout or of the end of a suspension, is shorter than the array it is copied to.
\<close>

theorem br_messages_typed:
  assumes "nd_looper s = Some started_looper" "nd_calls s = []" "ConnInitBr callback env s = Some (Inr (True, s0))"
    and "node_run es s0 = Some (Inr (acc, s'))"
  shows "\<exists>l c. nd_looper s' = Some l \<and> lp_context l = Some c \<and> list_all msg_ok (lc_msgHead c)"
proof -
  obtain a where "J a idle_free s'" using started_run [OF assms] by blast
  then have "looper_ok (nd_looper s')" by (simp add: J_def)
  then show ?thesis by (auto simp: looper_ok_def split: option.splits)
qed

theorem br_messages_typed_witness:
  "\<exists>s0 s l c. node_run ex_events s0 = Some (Inr ([(9, 5)], s)) \<and> nd_looper s = Some l \<and> lp_context l = Some c \<and> list_all msg_ok (lc_msgHead c)"
proof -
  obtain s0 s where r: "ConnInitBr (\<lambda>_. True) ex_env ex_start = Some (Inr (True, s0))" "node_run ex_events s0 = Some (Inr ([(9, 5)], s))"
    by (rule ex_runs)
  from br_messages_typed [OF _ _ r] r(2) show ?thesis by (auto simp: ex_start_def)
qed

end
