(* ===== verification/Ble_Trans.thy ===== *)
theory Ble_Trans
  imports Frame_Stream Json_Utils Flow_Control Ble_Send_Queue Send_Task "HOL-Library.Multiset" "HOL-Library.Sublist"
begin

text \<open>
  Data transfer of the BLE connection, \<^verbatim>\<open>core/connection/ble/src/softbus_conn_ble_trans.c\<close>: over GATT a message
  is cut into packets that carry their place in the message, and reassembled from packets in any order; over CoC it
  is a byte stream cut into frames as for BR.  \<open>ConnBleSend\<close> of \<^verbatim>\<open>softbus_conn_ble_connection.c\<close> is included.

  The two functions of the unify interface that write to the Bluetooth stack are parameters with a state \<open>d\<close>.
\<close>

section \<open>The packet header\<close>

abbreviation BLE_TRANS_HEADER_SIZE :: nat where "BLE_TRANS_HEADER_SIZE \<equiv> 16"
abbreviation MTU_HEADER_SIZE :: nat where "MTU_HEADER_SIZE \<equiv> 3"

record BleTransHeader =
  th_seq :: "32 word"
  th_size :: "32 word"
  th_offset :: "32 word"
  th_total :: "32 word"

definition hton32 :: "endian \<Rightarrow> 32 word \<Rightarrow> 32 word" where "hton32 e w = word_of_nat (htonl e (unat w))"
definition ntoh32 :: "endian \<Rightarrow> 32 word \<Rightarrow> 32 word" where "ntoh32 e w = word_of_nat (ntohl e (unat w))"

definition trans_image :: "endian \<Rightarrow> BleTransHeader \<Rightarrow> bytes" where
  "trans_image e h = field_bytes e 4 (th_seq h) @ field_bytes e 4 (th_size h) @ field_bytes e 4 (th_offset h) @ field_bytes e 4 (th_total h)"

definition trans_load :: "endian \<Rightarrow> bytes \<Rightarrow> BleTransHeader" where
  "trans_load e bs = \<lparr>th_seq = field_of e (segment 0 4 bs), th_size = field_of e (segment 4 4 bs),
     th_offset = field_of e (segment 8 4 bs), th_total = field_of e (segment 12 4 bs)\<rparr>"

text \<open>The conversions of the two functions that write and read the header.\<close>

definition trans_pack :: "endian \<Rightarrow> BleTransHeader \<Rightarrow> BleTransHeader" where
  "trans_pack e h = h\<lparr>th_total := hton32 e (th_total h), th_size := hton32 e (th_size h),
     th_offset := hton32 e (th_offset h), th_seq := hton32 e (th_seq h)\<rparr>"

definition trans_unpack :: "endian \<Rightarrow> BleTransHeader \<Rightarrow> BleTransHeader" where
  "trans_unpack e tmp = tmp\<lparr>th_seq := ntoh32 e (th_seq tmp), th_size := ntoh32 e (th_size tmp),
     th_offset := ntoh32 e (th_offset tmp), th_total := ntoh32 e (th_total tmp)\<rparr>"

definition UnpackTransHeader :: "endian \<Rightarrow> bytes \<Rightarrow> int \<times> BleTransHeader" where
  "UnpackTransHeader e data =
     (let none = \<lparr>th_seq = 0, th_size = 0, th_offset = 0, th_total = 0\<rparr>
      in if length data < BLE_TRANS_HEADER_SIZE then (SOFTBUS_INVALID_PARAM, none)
         else
           let header = trans_unpack e (trans_load e (take BLE_TRANS_HEADER_SIZE data))
           in if unat (th_size header) \<noteq> length data - BLE_TRANS_HEADER_SIZE \<or> unat (th_total header) > MAX_DATA_LEN \<or>
                th_size header > th_total header \<or> th_total header - th_size header < th_offset header
              then (SOFTBUS_CONN_BLE_INTERNAL_ERR, header)
              else (SOFTBUS_OK, header))"

section \<open>Reassembly\<close>

record ConnBlePacket =
  pk_header :: BleTransHeader
  pk_data :: bytes

record ConnBleReadBuffer =
  rb_seq :: "32 word"
  rb_received :: "32 word"
  rb_total :: "32 word"
  rb_packets :: "ConnBlePacket list"

definition DiscardBuffer :: "ConnBleReadBuffer \<Rightarrow> ConnBleReadBuffer" where
  "DiscardBuffer b = \<lparr>rb_seq = 0, rb_received = 0, rb_total = 0, rb_packets = []\<rparr>"

text \<open>
  The place of a packet in the list: before the first one with a larger offset, or at the end.  None for
  a duplicate.
\<close>

fun place_packet :: "32 word \<Rightarrow> ConnBlePacket list \<Rightarrow> nat option" where
  "place_packet off [] = Some 0"
| "place_packet off (it # rest) =
     (if off < th_offset (pk_header it) then Some 0
      else if off = th_offset (pk_header it) then None
      else map_option Suc (place_packet off rest))"

text \<open>The loop that copies the packets into the value; None when they are not contiguous.\<close>

fun join_packets :: "nat \<Rightarrow> ConnBlePacket list \<Rightarrow> nat \<Rightarrow> bytes \<Rightarrow> bytes option" where
  "join_packets valueLen [] off val = Some val"
| "join_packets valueLen (it # rest) off val =
     (if unat (th_offset (pk_header it)) \<noteq> off then None
      else if \<not> memcpy_s_ok (u32_sub valueLen off) (unat (th_size (pk_header it))) then None
      else join_packets valueLen rest (u32 (off + unat (th_size (pk_header it))))
             (mem_write val off (segment BLE_TRANS_HEADER_SIZE (unat (th_size (pk_header it))) (pk_data it))))"

text \<open>\<open>al i\<close> are the outcomes of the allocations in the order of the code; the result is the message, if complete.\<close>

definition ConnGattTransRecv ::
  "endian \<Rightarrow> (nat \<Rightarrow> bool) \<Rightarrow> bool \<Rightarrow> bytes option \<Rightarrow> ConnBleReadBuffer \<Rightarrow> bytes option \<times> ConnBleReadBuffer" where
  "ConnGattTransRecv e al outLenGiven data0 b =
     (case data0 of None \<Rightarrow> (None, b)
      | Some data \<Rightarrow>
        if length data = 0 then (None, b)
        else if \<not> outLenGiven then (None, b)
        else case UnpackTransHeader e data of (status, header) \<Rightarrow>
          if status \<noteq> SOFTBUS_OK then (None, b)
          else if th_size header = th_total header then
            (case SoftBusCalloc (al 0) (unat (th_total header)) of
               None \<Rightarrow> (None, b)
             | Some val \<Rightarrow>
                 if \<not> memcpy_s_ok (unat (th_total header)) (unat (th_size header)) then (None, b)
                 else (Some (mem_write val 0 (segment BLE_TRANS_HEADER_SIZE (unat (th_size header)) data)), b))
          else
            let b = (if rb_seq b \<noteq> 0 \<and> (rb_seq b \<noteq> th_seq header \<or> rb_total b \<noteq> th_total header) then DiscardBuffer b else b)
            in case place_packet (th_offset header) (rb_packets b) of
                 None \<Rightarrow> (None, b)
               | Some k \<Rightarrow>
                   if \<not> al 1 \<or> SoftBusCalloc (al 2) (length data) = None \<or> \<not> memcpy_s_ok (length data) (length data)
                   then (None, DiscardBuffer b)
                   else
                     let packet = \<lparr>pk_header = header, pk_data = data\<rparr>;
                         b = b\<lparr>rb_packets := take k (rb_packets b) @ packet # drop k (rb_packets b), rb_seq := th_seq header,
                               rb_received := rb_received b + th_size header, rb_total := th_total header\<rparr>
                     in if rb_received b < rb_total b then (None, b)
                        else if rb_received b > rb_total b then (None, DiscardBuffer b)
                        else case SoftBusCalloc (al 3) (unat (rb_total b)) of
                               None \<Rightarrow> (None, DiscardBuffer b)
                             | Some val \<Rightarrow> (join_packets (unat (rb_total b)) (rb_packets b) 0 val, DiscardBuffer b))"

section \<open>Sending\<close>

datatype BleProtocolType = BLE_GATT | BLE_COC | BLE_PROTOCOL_MAX

datatype ConnBleConnectionState =
    BLE_CONNECTION_STATE_CONNECTING
  | BLE_CONNECTION_STATE_CONNECTED
  | BLE_CONNECTION_STATE_SERVICE_SEARCHING
  | BLE_CONNECTION_STATE_SERVICE_SEARCHED
  | BLE_CONNECTION_STATE_CONN_NOTIFICATING
  | BLE_CONNECTION_STATE_CONN_NOTIFICATED
  | BLE_CONNECTION_STATE_NET_NOTIFICATING
  | BLE_CONNECTION_STATE_NET_NOTIFICATED
  | BLE_CONNECTION_STATE_MTU_SETTING
  | BLE_CONNECTION_STATE_MTU_SETTED
  | BLE_CONNECTION_STATE_EXCHANGING_BASIC_INFO
  | BLE_CONNECTION_STATE_EXCHANGED_BASIC_INFO
  | BLE_CONNECTION_STATE_NEGOTIATION_CLOSING
  | BLE_CONNECTION_STATE_CLOSING
  | BLE_CONNECTION_STATE_CLOSED
  | BLE_CONNECTION_STATE_INVALID

text \<open>The connection, without the fields that only establishing it uses.\<close>

record ConnBleConnection =
  le_protocol :: BleProtocolType
  le_connectionId :: nat
  le_side :: ConnSideType
  le_sequence :: "32 word"
  le_buffer :: ConnBleReadBuffer
  le_state :: ConnBleConnectionState
  le_mtu :: nat
  le_connectionRc :: int
  le_objectRc :: int

record 'd BleUnifyInterface =
  bleClientSend :: "ConnBleConnection \<Rightarrow> bytes \<Rightarrow> int \<Rightarrow> 'd \<Rightarrow> int \<times> 'd"
  bleServerSend :: "ConnBleConnection \<Rightarrow> bytes \<Rightarrow> int \<Rightarrow> 'd \<Rightarrow> int \<times> 'd"

definition ConnBleSend ::
  "(BleProtocolType \<Rightarrow> 'd BleUnifyInterface option) \<Rightarrow> ConnBleConnection option \<Rightarrow> bytes \<Rightarrow> int \<Rightarrow> 'd \<Rightarrow> int \<times> 'd" where
  "ConnBleSend unify connection data modul d =
     (case connection of None \<Rightarrow> (SOFTBUS_INVALID_PARAM, d)
      | Some c \<Rightarrow>
        if length data = 0 then (SOFTBUS_INVALID_PARAM, d)
        else case unify (le_protocol c) of
               None \<Rightarrow> (SOFTBUS_CONN_BLE_INTERNAL_ERR, d)
             | Some interface \<Rightarrow>
                 if le_side c = CONN_SIDE_SERVER then bleServerSend interface c data modul d else bleClientSend interface c data modul d)"

text \<open>
  The loop of \<open>ConnGattTransSend\<close>: \<open>att d\<close> gives the passes of the next \<open>apply\<close>, \<open>al d\<close> whether the packet
  can be allocated.  A negative result of \<open>apply\<close> becomes a large unsigned number.
\<close>

partial_function (option) GattTransSend_loop ::
  "endian \<Rightarrow> (BleProtocolType \<Rightarrow> 'd BleUnifyInterface option) \<Rightarrow> ('d \<Rightarrow> attempt list \<times> 'd) \<Rightarrow> ('d \<Rightarrow> bool) \<Rightarrow> ConnBleConnection \<Rightarrow>
   int \<Rightarrow> 32 word \<Rightarrow> nat \<Rightarrow> nat \<Rightarrow> bytes \<Rightarrow> nat \<Rightarrow> nat \<Rightarrow> ConnSlideWindowController option \<Rightarrow> 'd \<Rightarrow>
   (int \<times> ConnSlideWindowController option \<times> 'd) option" where
  "GattTransSend_loop e unify att al c modul sequence maxPayload dataLen waitSendData waitSendLen off ctl d =
     (if waitSendLen > 0 then
        let sendLen = (if waitSendLen \<le> maxPayload then waitSendLen else maxPayload)
        in case att d of (envs, d) \<Rightarrow>
             (case Apply envs ctl (s32 (int sendLen)) of
                None \<Rightarrow> None
              | Some (grant, ctl) \<Rightarrow>
                  let amnt = nat (grant mod 4294967296)
                  in case SoftBusCalloc (al d) (amnt + BLE_TRANS_HEADER_SIZE) of
                       None \<Rightarrow> Some (SOFTBUS_MALLOC_ERR, ctl, d)
                     | Some buff \<Rightarrow>
                         if \<not> memcpy_s_ok amnt amnt then Some (SOFTBUS_MEM_ERR, ctl, d)
                         else
                           let header = trans_pack e \<lparr>th_seq = sequence, th_size = word_of_nat amnt, th_offset = word_of_nat off, th_total = word_of_nat dataLen\<rparr>;
                               buff = mem_write (mem_write buff BLE_TRANS_HEADER_SIZE (take amnt waitSendData)) 0 (trans_image e header)
                           in case ConnBleSend unify (Some c) buff modul d of (status, d) \<Rightarrow>
                                if status \<noteq> SOFTBUS_OK then Some (status, ctl, d)
                                else GattTransSend_loop e unify att al c modul sequence maxPayload dataLen (drop amnt waitSendData)
                                       (u32_sub waitSendLen amnt) (u32 (off + amnt)) ctl d)
      else Some (SOFTBUS_OK, ctl, d))"

definition ConnGattTransSend ::
  "endian \<Rightarrow> (BleProtocolType \<Rightarrow> 'd BleUnifyInterface option) \<Rightarrow> ('d \<Rightarrow> attempt list \<times> 'd) \<Rightarrow> ('d \<Rightarrow> bool) \<Rightarrow> ConnBleConnection \<Rightarrow>
   bytes \<Rightarrow> int \<Rightarrow> ConnSlideWindowController option \<Rightarrow> 'd \<Rightarrow>
   (int \<times> ConnBleConnection \<times> ConnSlideWindowController option \<times> 'd) option" where
  "ConnGattTransSend e unify att al c data modul ctl d =
     (let maxPayload = u32_sub (u32_sub (le_mtu c) MTU_HEADER_SIZE) BLE_TRANS_HEADER_SIZE;
          sequence = le_sequence c; c = c\<lparr>le_sequence := le_sequence c + 1\<rparr>
      in map_option (\<lambda>(status, ctl, d). (status, c, ctl, d))
           (GattTransSend_loop e unify att al c modul sequence maxPayload (length data) data (length data) 0 ctl d))"

section \<open>The header on the wire\<close>

lemma hton_bytes: "field_bytes e 4 (hton32 e w) = rev (wire_bytes 4 w)"
proof -
  have "htonl e (unat w) < 2 ^ 32" using host_nat_less [of e "rev (nat_le 4 (unat w))"] by (simp add: htonl_def)
  then show ?thesis by (simp add: field_bytes_def hton32_def wire_bytes_def unat_of_nat htonl_bytes)
qed

lemma ntoh_field: "length bs = 4 \<Longrightarrow> ntoh32 e (field_of e bs) = word_of_nat (le_nat (rev bs))"
  using host_nat_less [of e bs] by (simp add: ntoh32_def field_of_def unat_of_nat ntohl_nat)

lemma ntoh_wire [simp]: "ntoh32 e (field_of e (rev (wire_bytes 4 w))) = w"
  by (simp add: ntoh_field le_nat_wire)

lemma hton_ntoh [simp]: "hton32 e (ntoh32 e w) = w"
proof -
  let ?bs = "field_bytes e 4 w"
  have w: "w = field_of e ?bs" by (simp add: field_bytes_of)
  have "ntoh32 e w = word_of_nat (le_nat (rev ?bs))" by (subst w, subst ntoh_field) simp_all
  then have "field_bytes e 4 (hton32 e (ntoh32 e w)) = rev (nat_le 4 (le_nat (rev ?bs)))"
    using le_nat_less [of "rev ?bs"] by (simp add: hton_bytes wire_bytes_def unat_of_nat)
  also have "\<dots> = ?bs" using nat_le_le_nat [of "rev ?bs"] by simp
  finally show ?thesis by (simp add: field_bytes_inject)
qed

interpretation gatt: head_codec BLE_TRANS_HEADER_SIZE trans_image trans_load trans_pack trans_unpack
proof
  fix e e' :: endian and h and bs :: bytes
  show "length (trans_image e h) = BLE_TRANS_HEADER_SIZE" by (simp add: trans_image_def)
  show "trans_image e (trans_load e bs) = bs" if "length bs = BLE_TRANS_HEADER_SIZE"
    using that segment_join [of 0 4 bs 4] segment_join [of 0 8 bs 4] segment_join [of 0 12 bs 4]
    by (simp add: trans_image_def trans_load_def field_simps flip: append_assoc)
  show "trans_pack e (trans_unpack e h) = h" by (simp add: trans_pack_def trans_unpack_def)
  show "trans_unpack e' (trans_load e' (trans_image e (trans_pack e h))) = h"
    by (simp add: trans_pack_def trans_unpack_def trans_image_def trans_load_def hton_bytes)
qed

section \<open>Fragments\<close>

text \<open>A message in pieces, each with its offset, and the packet of a piece.\<close>

fun cut :: "nat \<Rightarrow> bytes list \<Rightarrow> (nat \<times> bytes) list" where
  "cut off [] = []"
| "cut off (c # cs) = (off, c) # cut (off + length c) cs"

definition frag_head :: "32 word \<Rightarrow> nat \<Rightarrow> nat \<times> bytes \<Rightarrow> BleTransHeader" where
  "frag_head seq tot x = \<lparr>th_seq = seq, th_size = word_of_nat (length (snd x)), th_offset = word_of_nat (fst x), th_total = word_of_nat tot\<rparr>"

definition frag :: "endian \<Rightarrow> 32 word \<Rightarrow> nat \<Rightarrow> nat \<times> bytes \<Rightarrow> bytes" where
  "frag e seq tot x = trans_image e (trans_pack e (frag_head seq tot x)) @ snd x"

definition fits :: "nat \<Rightarrow> nat \<times> bytes \<Rightarrow> bool" where
  "fits tot x \<longleftrightarrow> snd x \<noteq> [] \<and> fst x + length (snd x) \<le> tot"

lemma frag_head_unat:
  assumes "fits tot x" "tot \<le> MAX_DATA_LEN"
  shows "unat (th_size (frag_head seq tot x)) = length (snd x)" "unat (th_offset (frag_head seq tot x)) = fst x"
    "unat (th_total (frag_head seq tot x)) = tot" "th_seq (frag_head seq tot x) = seq"
  using assms by (simp_all add: frag_head_def fits_def unat_of_nat)

lemma length_frag: "length (frag e seq tot x) = BLE_TRANS_HEADER_SIZE + length (snd x)"
  by (simp add: frag_def gatt.length_image)

lemma UnpackTransHeader_frag:
  assumes "fits tot x" "tot \<le> MAX_DATA_LEN"
  shows "UnpackTransHeader e' (frag e seq tot x) = (SOFTBUS_OK, frag_head seq tot x)"
proof -
  let ?h = "frag_head seq tot x"
  note u = frag_head_unat [OF assms, of seq]
  have h: "trans_unpack e' (trans_load e' (take BLE_TRANS_HEADER_SIZE (frag e seq tot x))) = ?h"
    unfolding frag_def by (rule gatt.read_head)
  have "\<not> th_size ?h > th_total ?h" "\<not> th_total ?h - th_size ?h < th_offset ?h"
    using assms u by (auto simp: word_less_nat_alt unat_sub_if_size fits_def word_size)
  with u assms(2) show ?thesis by (simp add: UnpackTransHeader_def h length_frag Let_def)
qed

lemma segment_frag: "segment BLE_TRANS_HEADER_SIZE (length (snd x)) (frag e seq tot x) = snd x"
  by (simp add: frag_def gatt.length_image segment_0)

definition frag_packet :: "endian \<Rightarrow> 32 word \<Rightarrow> nat \<Rightarrow> nat \<times> bytes \<Rightarrow> ConnBlePacket" where
  "frag_packet e seq tot x = \<lparr>pk_header = frag_head seq tot x, pk_data = frag e seq tot x\<rparr>"

lemma frag_packet_sel [simp]: "pk_header (frag_packet e seq tot x) = frag_head seq tot x" "pk_data (frag_packet e seq tot x) = frag e seq tot x"
  by (simp_all add: frag_packet_def)

abbreviation by_offset :: "(nat \<times> bytes) list \<Rightarrow> bool" where
  "by_offset \<equiv> sorted_wrt (\<lambda>x y. fst x < fst y)"

lemma place_packet_sorted:
  assumes "by_offset L" "fst x \<notin> fst ` set L" "\<forall>y \<in> set (x # L). fits tot y" "tot \<le> MAX_DATA_LEN"
  shows "\<exists>k. place_packet (th_offset (frag_head seq tot x)) (map (frag_packet e seq tot) L) = Some k \<and> by_offset (take k L @ x # drop k L)"
  using assms
proof (induction L)
  case (Cons y L)
  have off: "th_offset (frag_head seq tot x) < th_offset (frag_head seq tot y) \<longleftrightarrow> fst x < fst y"
    "th_offset (frag_head seq tot x) = th_offset (frag_head seq tot y) \<longleftrightarrow> fst x = fst y"
    using frag_head_unat(2) [of tot x seq] frag_head_unat(2) [of tot y seq] Cons.prems(3,4)
    by (simp_all add: word_less_nat_alt word_unat_eq_iff)
  show ?case
  proof (cases "fst x < fst y")
    case True
    then show ?thesis using Cons.prems(1) off by (intro exI [of _ 0]) auto
  next
    case False
    then have less: "fst y < fst x" using Cons.prems(2) by (auto simp: neq_iff)
    obtain k where k: "place_packet (th_offset (frag_head seq tot x)) (map (frag_packet e seq tot) L) = Some k" "by_offset (take k L @ x # drop k L)"
      using Cons by auto
    have "set (take k L @ x # drop k L) = insert x (set L)" by (metis append_take_drop_id set_append Un_insert_right list.simps(15))
    then have "by_offset (y # take k L @ x # drop k L)" using k(2) less Cons.prems(1) by (auto simp: ball_Un)
    with k(1) less off False show ?thesis by (intro exI [of _ "Suc k"]) auto
  qed
qed simp

lemma by_offset_unique:
  assumes "by_offset xs" "by_offset ys" "set xs = set ys"
  shows "xs = ys"
  using assms
proof (induction xs arbitrary: ys)
  case (Cons x xs)
  then obtain y ys' where ys: "ys = y # ys'" by (cases ys) auto
  have "x = y"
  proof (rule ccontr)
    assume "x \<noteq> y"
    then have "y \<in> set xs" "x \<in> set ys'" using Cons.prems(3) ys by auto
    then have "fst x < fst y" "fst y < fst x" using Cons.prems(1,2) ys by auto
    then show False by simp
  qed
  moreover have "x \<notin> set xs" "y \<notin> set ys'" using Cons.prems(1,2) ys by auto
  ultimately have "set xs = set ys'" using Cons.prems(3) ys by auto
  with Cons.IH [of ys'] Cons.prems(1,2) ys \<open>x = y\<close> show ?case by simp
qed simp

lemma cut_by_offset: "\<forall>c \<in> set cs. c \<noteq> [] \<Longrightarrow> by_offset (cut off cs) \<and> (\<forall>x \<in> set (cut off cs). off \<le> fst x)"
proof (induction cs arbitrary: off)
  case (Cons c cs)
  then have ih: "by_offset (cut (off + length c) cs)" "\<forall>x \<in> set (cut (off + length c) cs). off + length c \<le> fst x" and len: "0 < length c"
    using Cons.IH [of "off + length c"] by simp_all
  have "off < fst x \<and> off \<le> fst x" if "x \<in> set (cut (off + length c) cs)" for x using bspec [OF ih(2) that] len by linarith
  with ih(1) show ?case by simp
qed simp

lemma cut_fits: "\<forall>c \<in> set cs. c \<noteq> [] \<Longrightarrow> off + length (concat cs) \<le> tot \<Longrightarrow> x \<in> set (cut off cs) \<Longrightarrow> fits tot x"
proof (induction cs arbitrary: off)
  case (Cons c cs)
  then consider "x = (off, c)" | "x \<in> set (cut (off + length c) cs)" by auto
  then show ?case
  proof cases
    case 2
    then show ?thesis using Cons.IH [of "off + length c"] Cons.prems(1,2) by (simp add: add.assoc)
  qed (use Cons.prems in \<open>simp add: fits_def\<close>)
qed simp

definition weight :: "(nat \<times> bytes) list \<Rightarrow> nat" where
  "weight xs = sum_list (map (length \<circ> snd) xs)"

lemma weight_simps [simp]: "weight [] = 0" "weight (x # xs) = length (snd x) + weight xs" "weight (xs @ ys) = weight xs + weight ys"
  by (simp_all add: weight_def)

lemma weight_pos: "\<forall>y \<in> set xs. fits tot y \<Longrightarrow> xs \<noteq> [] \<Longrightarrow> 0 < weight xs"
  by (cases xs) (auto simp: fits_def)

lemma length_cut [simp]: "length (cut off cs) = length cs"
  by (induction cs arbitrary: off) simp_all

lemma weight_cut: "weight (cut off cs) = length (concat cs)"
  by (induction cs arbitrary: off) (simp_all add: weight_def)

lemma join_packets_cut:
  assumes "\<forall>c \<in> set cs. c \<noteq> []" "off + length (concat cs) = tot" "tot \<le> MAX_DATA_LEN" "length val = tot"
  shows "join_packets tot (map (frag_packet e seq tot) (cut off cs)) off val = Some (take off val @ concat cs)"
  using assms
proof (induction cs arbitrary: off val)
  case (Cons c cs)
  have fit: "fits tot (off, c)" using Cons.prems by (simp add: fits_def)
  note u = frag_head_unat [OF fit Cons.prems(3), of seq]
  have ok: "memcpy_s_ok (u32_sub tot off) (length c)" using Cons.prems by (auto simp: memcpy_s_ok_def SECUREC_MEM_MAX_LEN_def)
  have "take (off + length c) (mem_write val off c) = take off val @ c" "length (mem_write val off c) = tot"
    using Cons.prems by (simp_all add: mem_write_def)
  moreover have "u32 (off + length c) = off + length c" using Cons.prems by (intro u32_small) simp
  ultimately show ?case
    using Cons.IH [of "off + length c" "mem_write val off c"] Cons.prems u ok segment_frag [of "(off, c)" e seq tot]
    by simp
qed simp

section \<open>Receiving the fragments in any order\<close>

fun gatt_feed :: "endian \<Rightarrow> bytes list \<Rightarrow> ConnBleReadBuffer \<Rightarrow> bytes option list \<times> ConnBleReadBuffer" where
  "gatt_feed e [] b = ([], b)"
| "gatt_feed e (p # ps) b =
     (case ConnGattTransRecv e (\<lambda>_. True) True (Some p) b of (r, b') \<Rightarrow> apfst (Cons r) (gatt_feed e ps b'))"

definition idle :: ConnBleReadBuffer where
  "idle = \<lparr>rb_seq = 0, rb_received = 0, rb_total = 0, rb_packets = []\<rparr>"

text \<open>The buffer after some of the fragments, \<open>L\<close> sorted by offset.\<close>

definition holds :: "endian \<Rightarrow> 32 word \<Rightarrow> nat \<Rightarrow> (nat \<times> bytes) list \<Rightarrow> ConnBleReadBuffer \<Rightarrow> bool" where
  "holds e seq tot L b \<longleftrightarrow> by_offset L \<and> rb_packets b = map (frag_packet e seq tot) L \<and> rb_received b = word_of_nat (weight L) \<and>
     (L = [] \<and> rb_seq b = 0 \<or> rb_seq b = seq \<and> rb_total b = word_of_nat tot)"

lemma mset_place: "mset (take k L @ x # drop k L) = add_mset x (mset L)"
  by (metis append_take_drop_id mset.simps(2) mset_append union_mset_add_mset_right)

lemma weight_mset: "mset xs = mset ys \<Longrightarrow> weight xs = weight ys"
  unfolding weight_def by (metis mset_map sum_mset_sum_list)

lemma Recv_fragment:
  assumes b: "holds e seq tot L b" and x: "\<forall>y \<in> set (x # L). fits tot y" "fst x \<notin> fst ` set L" "length (snd x) < tot"
    and tot: "tot \<le> MAX_DATA_LEN" "weight (x # L) \<le> tot"
  shows "\<exists>L' b'. mset L' = add_mset x (mset L) \<and> holds e seq tot L' b' \<and>
    ConnGattTransRecv e' (\<lambda>_. True) True (Some (frag e seq tot x)) b =
      (if weight L' < tot then (None, b') else (join_packets tot (map (frag_packet e seq tot) L') 0 (replicate tot 0), idle))"
proof -
  have fit: "fits tot x" using x(1) by simp
  define h where "h = frag_head seq tot x"
  note u = frag_head_unat [OF fit tot(1), of seq, folded h_def]
  have h: "th_seq h = seq" "th_total h = word_of_nat tot" by (simp_all add: h_def frag_head_def)
  obtain k where k: "place_packet (th_offset h) (rb_packets b) = Some k" "by_offset (take k L @ x # drop k L)"
    using place_packet_sorted [OF _ x(2,1) tot(1)] b by (auto simp: holds_def h_def)
  define L' where "L' = take k L @ x # drop k L"
  define b' where "b' = b\<lparr>rb_packets := map (frag_packet e seq tot) L', rb_seq := seq, rb_received := word_of_nat (weight L'), rb_total := word_of_nat tot\<rparr>"
  have mset: "mset L' = add_mset x (mset L)" unfolding L'_def by (rule mset_place)
  then have weight: "weight L' = weight L + length (snd x)" using weight_mset [of L' "x # L"] by (simp add: weight_def)
  have holds': "holds e seq tot L' b'" using k(2) by (simp add: holds_def b'_def L'_def)
  have neq: "th_size h \<noteq> th_total h" using u x(3) by (auto simp: word_unat_eq_iff)
  have keep: "(if rb_seq b \<noteq> 0 \<and> (rb_seq b \<noteq> th_seq h \<or> rb_total b \<noteq> th_total h) then DiscardBuffer b else b) = b"
    using b h by (auto simp: holds_def)
  have le: "weight L' \<le> tot" using tot(2) weight by (simp add: weight_def)
  then have u': "unat (word_of_nat (weight L') :: 32 word) = weight L'" "unat (word_of_nat tot :: 32 word) = tot"
    using tot(1) by (simp_all only: unat_of_nat) simp_all
  have al: "SoftBusCalloc True (length (frag e seq tot x)) = Some (replicate (length (frag e seq tot x)) 0)" "memcpy_s_ok (length (frag e seq tot x)) (length (frag e seq tot x))"
    "SoftBusCalloc True tot = Some (replicate tot 0)"
    using fit tot(1) x(3)
    by (auto simp: length_frag SoftBusCalloc_def SoftBusMalloc_def memcpy_s_ok_def SECUREC_MEM_MAX_LEN_def MAX_MALLOC_SIZE_def fits_def)
  have some: "frag e seq tot x \<noteq> []" using length_frag [of e seq tot x] by (cases "frag e seq tot x") auto
  have pk: "take k (rb_packets b) @ \<lparr>pk_header = h, pk_data = frag e seq tot x\<rparr> # drop k (rb_packets b) = map (frag_packet e seq tot) L'"
    using b by (simp add: holds_def L'_def take_map drop_map frag_packet_def h_def)
  have recv: "rb_received b + th_size h = word_of_nat (weight L')"
    using b weight by (simp add: holds_def h_def frag_head_def)
  have upd: "b\<lparr>rb_packets := take k (rb_packets b) @ \<lparr>pk_header = h, pk_data = frag e seq tot x\<rparr> # drop k (rb_packets b),
      rb_seq := th_seq h, rb_received := rb_received b + th_size h, rb_total := th_total h\<rparr> = b'"
    using pk recv h by (simp add: b'_def)
  have "ConnGattTransRecv e' (\<lambda>_. True) True (Some (frag e seq tot x)) b =
     (if rb_received b' < rb_total b' then (None, b')
      else if rb_received b' > rb_total b' then (None, DiscardBuffer b')
      else case SoftBusCalloc True (unat (rb_total b')) of None \<Rightarrow> (None, DiscardBuffer b')
        | Some val \<Rightarrow> (join_packets (unat (rb_total b')) (rb_packets b') 0 val, DiscardBuffer b'))"
    unfolding ConnGattTransRecv_def UnpackTransHeader_frag [OF fit tot(1)] h_def [symmetric] option.case prod.case keep Let_def k(1) upd
    using al neq some by simp
  also have "\<dots> = (if weight L' < tot then (None, b') else (join_packets tot (map (frag_packet e seq tot) L') 0 (replicate tot 0), idle))"
    using u' le al(3) by (simp add: b'_def word_less_nat_alt DiscardBuffer_def idle_def)
  finally show ?thesis using mset holds' by blast
qed

lemma mset_map_split:
  assumes "mset ps = mset (map f F)"
  obtains qs where "ps = map f qs" "mset qs = mset F"
  using assms
proof (induction ps arbitrary: F thesis)
  case (Cons p ps)
  from Cons.prems(2) have "p \<in> set (map f F)" by (metis list.set_intros(1) mset_eq_setD)
  then obtain x where x: "x \<in> set F" "p = f x" by auto
  have "mset F = add_mset x (mset (remove1 x F))" using x(1) by simp
  then have "mset (map f F) = add_mset (f x) (mset (map f (remove1 x F)))" by (metis image_mset_add_mset mset_map)
  with Cons.prems(2) x(2) have "mset ps = mset (map f (remove1 x F))" by (metis add_mset_remove_trivial mset.simps(2))
  then obtain qs where "ps = map f qs" "mset qs = mset (remove1 x F)" by (rule Cons.IH [rotated])
  with x Cons.prems(1) [of "x # qs"] show ?case by simp
qed simp

lemma gatt_feed_fragments:
  assumes "holds e seq tot L b" "mset (L @ qs) = mset (cut 0 cs)" "qs \<noteq> []"
    and cs: "\<forall>c \<in> set cs. c \<noteq> []" "length (concat cs) = tot" "tot \<le> MAX_DATA_LEN" "length cs \<noteq> 1"
  shows "gatt_feed e' (map (frag e seq tot) qs) b = (replicate (length qs - 1) None @ [Some (concat cs)], idle)"
  using assms(1-3)
proof (induction qs arbitrary: L b)
  case (Cons x qs)
  have sorted: "by_offset (cut 0 cs)" using cut_by_offset [OF cs(1)] by blast
  have "set (L @ x # qs) = set (cut 0 cs)" using Cons.prems(2) by (rule mset_eq_setD)
  then have fits: "\<forall>y \<in> set (x # L @ qs). fits tot y" using cut_fits [OF cs(1), of 0 tot] cs(2) by auto
  have "distinct (map fst (cut 0 cs))" using sorted by (simp add: strict_sorted_iff flip: sorted_wrt_map)
  then have "distinct (map fst (L @ x # qs))" using Cons.prems(2) by (metis mset_eq_imp_distinct_iff mset_map)
  then have new: "fst x \<notin> fst ` set L" by auto
  have total: "weight L + length (snd x) + weight qs = tot" using weight_mset [OF Cons.prems(2)] by (simp add: weight_cut cs(2))
  have "L @ qs \<noteq> []" using mset_eq_length [OF Cons.prems(2)] cs(4) by auto
  then have "0 < weight (L @ qs)" using fits by (intro weight_pos [of _ tot]) auto
  then have less: "length (snd x) < tot" using total by (simp only: weight_simps)
  have all: "\<forall>y \<in> set (x # L). fits tot y" and le: "weight (x # L) \<le> tot" using fits total by auto
  obtain L' b' where L': "mset L' = add_mset x (mset L)" "holds e seq tot L' b'"
    "ConnGattTransRecv e' (\<lambda>_. True) True (Some (frag e seq tot x)) b =
      (if weight L' < tot then (None, b') else (join_packets tot (map (frag_packet e seq tot) L') 0 (replicate tot 0), idle))"
    using Recv_fragment [OF Cons.prems(1) all new less cs(3) le] by blast
  have weight: "weight L' = weight L + length (snd x)" using weight_mset [of L' "x # L"] L'(1) by simp
  have perm: "mset (L' @ qs) = mset (cut 0 cs)" using L'(1) Cons.prems(2) by simp
  show ?case
  proof (cases "qs = []")
    case True
    have "L' = cut 0 cs" using by_offset_unique [OF _ sorted, of L'] L'(2) mset_eq_setD [OF perm] True by (simp add: holds_def)
    with join_packets_cut [OF cs(1), of 0 tot "replicate tot 0" e seq] cs(2,3) L'(3) weight total True show ?thesis by simp
  next
    case False
    then have "0 < weight qs" using fits by (intro weight_pos [of _ tot]) auto
    with L'(3) weight total Cons.IH [OF L'(2) perm False] False show ?thesis by (cases "length qs") (auto simp: apfst_def)
  qed
qed simp

text \<open>A message in one packet passes the buffer by.\<close>

lemma gatt_feed_single:
  assumes "c \<noteq> []" "length c \<le> MAX_DATA_LEN"
  shows "gatt_feed e' [frag e seq (length c) (0, c)] b = ([Some c], b)"
proof -
  have fit: "fits (length c) (0, c)" using assms(1) by (simp add: fits_def)
  note u = frag_head_unat [OF fit assms(2), of seq]
  have "th_size (frag_head seq (length c) (0, c)) = th_total (frag_head seq (length c) (0, c))" by (simp add: frag_head_def)
  moreover have "frag e seq (length c) (0, c) \<noteq> []" using length_frag [of e seq "length c" "(0, c)"] by (cases "frag e seq (length c) (0, c)") auto
  moreover have "SoftBusCalloc True (length c) = Some (replicate (length c) 0)" "memcpy_s_ok (length c) (length c)"
    using assms by (auto simp: SoftBusCalloc_True MAX_MALLOC_SIZE_def memcpy_s_ok_def SECUREC_MEM_MAX_LEN_def)
  ultimately show ?thesis
    using u segment_frag [of "(0, c)" e seq "length c"] by (simp add: ConnGattTransRecv_def UnpackTransHeader_frag [OF fit assms(2)])
qed

lemma gatt_reassembly:
  assumes "\<forall>c \<in> set cs. c \<noteq> []" "cs \<noteq> []" "length (concat cs) \<le> MAX_DATA_LEN"
    and "mset ps = mset (map (frag e seq (length (concat cs))) (cut 0 cs))"
  shows "gatt_feed e' ps idle = (replicate (length ps - 1) None @ [Some (concat cs)], idle)"
proof -
  obtain qs where qs: "ps = map (frag e seq (length (concat cs))) qs" "mset qs = mset (cut 0 cs)" using assms(4) by (rule mset_map_split)
  show ?thesis
  proof (cases "length cs = 1")
    case True
    then obtain c where c: "cs = [c]" by (auto simp: length_Suc_conv)
    with qs(2) have "qs = [(0, c)]" by simp
    with c qs(1) gatt_feed_single [of c e' e seq idle] assms(1,3) show ?thesis by simp
  next
    case False
    have "qs \<noteq> []" using qs(2) assms(2) by (metis length_0_conv length_cut mset_eq_length)
    moreover have "holds e seq (length (concat cs)) [] idle" by (simp add: holds_def idle_def)
    ultimately show ?thesis using gatt_feed_fragments [of e seq _ "[]" idle qs cs] qs assms(1,3) False by simp
  qed
qed

section \<open>Cutting a message\<close>

text \<open>
  What the code relies on in the two send functions of the unify interface: a packet for which they return success
  is one the peer will receive, and no other; \<open>out d\<close> is the list of these packets.
\<close>

definition packet_link :: "(BleProtocolType \<Rightarrow> 'd BleUnifyInterface option) \<Rightarrow> ('d \<Rightarrow> bytes list) \<Rightarrow> bool" where
  "packet_link unify out \<longleftrightarrow> (\<forall>p i c data m d. unify p = Some i \<longrightarrow>
     out (snd (bleClientSend i c data m d)) = out d @ (if fst (bleClientSend i c data m d) = SOFTBUS_OK then [data] else []) \<and>
     out (snd (bleServerSend i c data m d)) = out d @ (if fst (bleServerSend i c data m d) = SOFTBUS_OK then [data] else []))"

lemma ConnBleSend_link:
  assumes "packet_link unify out" "ConnBleSend unify (Some c) data m d = (status, d')"
  shows "out d' = out d @ (if status = SOFTBUS_OK then [data] else [])"
proof (cases "unify (le_protocol c)")
  case (Some i)
  then show ?thesis
    using assms unfolding packet_link_def ConnBleSend_def by (auto split: if_splits) (metis fst_conv snd_conv)+
qed (use assms in \<open>auto simp: ConnBleSend_def split: if_splits\<close>)

lemma Apply_result:
  assumes "Apply envs ctl expect = Some (r, ctl')"
  shows "r = SOFTBUS_INVALID_PARAM \<or> r = SOFTBUS_LOCK_ERR \<or> r = expect \<or> 0 < r \<and> r \<le> expect"
  using assms
proof (induction envs arbitrary: ctl)
  case (Cons env envs)
  have once: "x = SOFTBUS_INVALID_PARAM \<or> x = SOFTBUS_LOCK_ERR \<or> x = expect \<or> 0 < x \<and> x \<le> expect"
    if "ApplyOnce env ctl expect = (Returned x, c)" for x c
    using that by (auto simp: ApplyOnce_def Let_def split: option.splits if_splits prod.splits)
  show ?case
  proof (cases "ApplyOnce env ctl expect")
    case (Pair res c)
    with Cons once show ?thesis by (cases res) auto
  qed
qed simp

lemma granted_amount:
  assumes "Apply envs ctl (s32 (int n)) = Some (r, ctl')" "n \<le> MAX_DATA_LEN"
    and "SoftBusCalloc ok (nat (r mod 4294967296) + BLE_TRANS_HEADER_SIZE) = Some buff" "memcpy_s_ok (nat (r mod 4294967296)) (nat (r mod 4294967296))"
  shows "0 < nat (r mod 4294967296)" "nat (r mod 4294967296) \<le> n" "buff = replicate (nat (r mod 4294967296) + BLE_TRANS_HEADER_SIZE) 0"
proof -
  let ?a = "nat (r mod 4294967296)"
  have a: "?a \<noteq> 0" "?a \<le> MAX_MALLOC_SIZE" and buff: "buff = replicate (?a + BLE_TRANS_HEADER_SIZE) 0"
    using assms(3,4) by (auto simp: SoftBusCalloc_Some memcpy_s_ok_def)
  then show "0 < ?a" "buff = replicate (?a + BLE_TRANS_HEADER_SIZE) 0" by simp_all
  have "s32 (int n) = int n" using assms(2) by simp
  with Apply_result [OF assms(1)] consider "r = SOFTBUS_INVALID_PARAM" | "r = SOFTBUS_LOCK_ERR" | "0 \<le> r" "r \<le> int n" by auto
  then show "?a \<le> n"
  proof cases
    case 3
    then have "r mod 4294967296 = r" using assms(2) by simp
    with 3 show ?thesis by simp
  qed (use a in \<open>auto simp: MAX_MALLOC_SIZE_def\<close>)
qed

lemma packet_written:
  assumes "length chunk = n"
  shows "mem_write (mem_write (replicate (n + BLE_TRANS_HEADER_SIZE) 0) BLE_TRANS_HEADER_SIZE chunk) 0
      (trans_image e (trans_pack e \<lparr>th_seq = seq, th_size = word_of_nat n, th_offset = word_of_nat off, th_total = word_of_nat tot\<rparr>)) =
    frag e seq tot (off, chunk)"
  using assms by (simp add: mem_write_def frag_def frag_head_def gatt.length_image)

definition sent_fragments :: "('d \<Rightarrow> bytes list) \<Rightarrow> endian \<Rightarrow> 32 word \<Rightarrow> nat \<Rightarrow> nat \<Rightarrow> bytes \<Rightarrow> 'd \<Rightarrow> int \<Rightarrow> 'd \<Rightarrow> bool" where
  "sent_fragments out e seq tot off data d status d' \<longleftrightarrow> (\<exists>cs. (\<forall>c \<in> set cs. c \<noteq> []) \<and>
     out d' = out d @ map (frag e seq tot) (cut off cs) \<and> (status = SOFTBUS_OK \<longrightarrow> concat cs = data))"

lemma sent_fragments_step:
  assumes "out d1 = out d @ [frag e seq tot (off, take n data)]" "0 < n" "n \<le> length data"
    and "sent_fragments out e seq tot (off + n) (drop n data) d1 status d'"
  shows "sent_fragments out e seq tot off data d status d'"
proof -
  obtain cs where cs: "\<forall>c \<in> set cs. c \<noteq> []" "out d' = out d1 @ map (frag e seq tot) (cut (off + n) cs)" "status = SOFTBUS_OK \<longrightarrow> concat cs = drop n data"
    using assms(4) by (auto simp: sent_fragments_def)
  have "take n data \<noteq> []" "length (take n data) = n" using assms(2,3) by auto
  with cs assms(1) show ?thesis unfolding sent_fragments_def by (intro exI [of _ "take n data # cs"]) auto
qed

text \<open>One pass of the loop, with \<open>loop\<close> for what follows it.\<close>

lemma gatt_pass:
  fixes out :: "'d \<Rightarrow> bytes list"
  assumes body: "(if n > 0 then
        let sendLen = (if n \<le> maxPayload then n else maxPayload)
        in case att d of (envs, d) \<Rightarrow>
             (case Apply envs ctl (s32 (int sendLen)) of
                None \<Rightarrow> None
              | Some (grant, ctl) \<Rightarrow>
                  let amnt = nat (grant mod 4294967296)
                  in case SoftBusCalloc (al d) (amnt + BLE_TRANS_HEADER_SIZE) of
                       None \<Rightarrow> Some (SOFTBUS_MALLOC_ERR, ctl, d)
                     | Some buff \<Rightarrow>
                         if \<not> memcpy_s_ok amnt amnt then Some (SOFTBUS_MEM_ERR, ctl, d)
                         else
                           let header = trans_pack e \<lparr>th_seq = seq, th_size = word_of_nat amnt, th_offset = word_of_nat off, th_total = word_of_nat tot\<rparr>;
                               buff = mem_write (mem_write buff BLE_TRANS_HEADER_SIZE (take amnt data)) 0 (trans_image e header)
                           in case ConnBleSend unify (Some c) buff m d of (status, d) \<Rightarrow>
                                if status \<noteq> SOFTBUS_OK then Some (status, ctl, d)
                                else loop (drop amnt data) (u32_sub n amnt) (u32 (off + amnt)) ctl d)
        else Some (SOFTBUS_OK, ctl, d)) = Some y"
    and ok: "packet_link unify out" "\<forall>d. out (snd (att d)) = out d" "n = length data" "off + n = tot" "tot \<le> MAX_DATA_LEN"
  obtains "out (snd (snd y)) = out d" "fst y \<noteq> SOFTBUS_OK \<or> data = []"
  | k ctl1 d2 where "0 < k" "k \<le> n" "out d2 = out d @ [frag e seq tot (off, take k data)]" "loop (drop k data) (n - k) (off + k) ctl1 d2 = Some y"
proof (cases "n = 0")
  case False
  let ?n = "if n \<le> maxPayload then n else maxPayload"
  obtain envs d1 where att: "att d = (envs, d1)" by fastforce
  then have d1: "out d1 = out d" using ok(2) by (metis snd_conv)
  obtain r ctl1 where grant: "Apply envs ctl (s32 (int ?n)) = Some (r, ctl1)"
    using body False att by (auto simp: Let_def split: option.splits)
  define k where "k = nat (r mod 4294967296)"
  note body1 = body [unfolded Let_def att prod.case grant option.case, folded k_def]
  show thesis
  proof (cases "SoftBusCalloc (al d1) (k + BLE_TRANS_HEADER_SIZE) = None \<or> \<not> memcpy_s_ok k k")
    case True
    then show thesis using body1 False d1 that(1) by (auto split: option.splits if_splits)
  next
    case alloc: False
    then obtain buff where buff: "SoftBusCalloc (al d1) (k + BLE_TRANS_HEADER_SIZE) = Some buff" by auto
    have k: "0 < k" "k \<le> ?n" "buff = replicate (k + BLE_TRANS_HEADER_SIZE) 0"
      using granted_amount [OF grant, folded k_def] buff alloc ok by auto
    then have kn: "k \<le> n" by (auto split: if_splits)
    have pkt: "mem_write (mem_write buff BLE_TRANS_HEADER_SIZE (take k data)) 0 (trans_image e (trans_pack e
        \<lparr>th_seq = seq, th_size = word_of_nat k, th_offset = word_of_nat off, th_total = word_of_nat tot\<rparr>)) = frag e seq tot (off, take k data)"
      unfolding k(3) using kn ok by (intro packet_written) simp
    obtain status d2 where send: "ConnBleSend unify (Some c) (frag e seq tot (off, take k data)) m d1 = (status, d2)" by fastforce
    have num: "u32_sub n k = n - k" "u32 (off + k) = off + k" using kn ok by auto
    show thesis
      using body1 False alloc buff ConnBleSend_link [OF ok(1) send] d1 that(2) [OF k(1) kn] that(1)
      by (auto simp: pkt send num split: if_splits)
  qed
qed (use body ok that(1) in auto)

lemma GattTransSend_loop_sent:
  fixes out :: "'d \<Rightarrow> bytes list"
  assumes res: "GattTransSend_loop e unify att al c m seq maxPayload tot data n off ctl d = Some y"
    and ok: "packet_link unify out" "\<forall>d. out (snd (att d)) = out d" "n = length data" "off + n = tot" "tot \<le> MAX_DATA_LEN"
  shows "sent_fragments out e seq tot off data d (fst y) (snd (snd y))"
proof -
  let ?ok = "\<lambda>unify att tot data n off. packet_link unify out \<and> (\<forall>d. out (snd (att d)) = out d) \<and> n = length data \<and> off + n = tot \<and> tot \<le> MAX_DATA_LEN"
  let ?sent = "\<lambda>e seq tot data off d y. sent_fragments out e seq tot off data d (fst y) (snd (snd y))"
  have "?ok unify att tot data n off \<longrightarrow> ?sent e seq tot data off d y"
  proof (rule GattTransSend_loop.raw_induct [OF _ res, where P = "\<lambda>e unify att al c m seq maxPayload tot data n off ctl d y.
        ?ok unify att tot data n off \<longrightarrow> ?sent e seq tot data off d y"], rule impI, goal_cases)
    case (1 loop e unify att al c m seq maxPayload tot data n off ctl d y)
    then have ok: "packet_link unify out" "\<forall>d. out (snd (att d)) = out d" "n = length data" "off + n = tot" "tot \<le> MAX_DATA_LEN" by blast+
    note ih = 1(1)
    show ?case
    proof (rule gatt_pass [where loop = "loop e unify att al c m seq maxPayload tot", OF 1(2) ok], goal_cases)
      case 1
      then show ?case by (auto simp: sent_fragments_def intro!: exI [of _ "[]"])
    next
      case (2 k ctl1 d2)
      have "?ok unify att tot (drop k data) (n - k) (off + k)" using ok 2(2) by simp
      from mp [OF ih [OF 2(4)] this] show ?case using 2 ok(3) by (intro sent_fragments_step [of out d2 d e seq tot off k data]) simp_all
    qed
  qed
  with ok show ?thesis by blast
qed

lemma gatt_sent_received:
  assumes "packet_link unify out" "\<forall>d. out (snd (att d)) = out d" "data \<noteq> []" "length data \<le> MAX_DATA_LEN"
    and "ConnGattTransSend e unify att al c data m ctl d = Some (SOFTBUS_OK, c', ctl', d')" "out d' = out d @ sent" "mset ps = mset sent"
  shows "gatt_feed e' ps idle = (replicate (length ps - 1) None @ [Some data], idle)"
proof -
  obtain mp where loop: "GattTransSend_loop e unify att al (c\<lparr>le_sequence := le_sequence c + 1\<rparr>) m (le_sequence c) mp (length data) data (length data) 0 ctl d =
      Some (SOFTBUS_OK, ctl', d')"
    using assms(5) by (auto simp: ConnGattTransSend_def Let_def)
  obtain cs where cs: "\<forall>c \<in> set cs. c \<noteq> []" "out d' = out d @ map (frag e (le_sequence c) (length data)) (cut 0 cs)" "concat cs = data"
    using GattTransSend_loop_sent [OF loop assms(1,2) refl _ assms(4)] by (auto simp: sent_fragments_def)
  then show ?thesis using gatt_reassembly [OF cs(1), of ps e "le_sequence c" e'] assms(3,4,6,7) by auto
qed

section \<open>Properties\<close>

text \<open>
  C34: GATT transport.  If \<open>ConnGattTransSend\<close> reports success for a message of up to 40000 bytes, then, whatever the
  flow controller granted for each packet and whatever the byte orders of the two hosts, a receiver that gets
  the packets in any order delivers exactly that message with the last of them, nothing before, and is idle
  again.
\<close>

theorem gatt_roundtrip:
  assumes "packet_link unify out" "\<forall>d. out (snd (att d)) = out d" "data \<noteq> []" "length data \<le> MAX_DATA_LEN"
    and "ConnGattTransSend e unify att al c data m ctl d = Some (SOFTBUS_OK, c', ctl', d')" "out d' = out d @ sent" "mset ps = mset sent"
  shows "gatt_feed e' ps idle = (replicate (length ps - 1) None @ [Some data], idle)"
  by (rule gatt_sent_received [OF assms])

definition list_link :: "BleProtocolType \<Rightarrow> bytes list BleUnifyInterface option" where
  "list_link p = Some \<lparr>bleClientSend = (\<lambda>c data m d. (SOFTBUS_OK, d @ [data])), bleServerSend = (\<lambda>c data m d. (SOFTBUS_OK, d @ [data]))\<rparr>"

lemma list_link_ok: "packet_link list_link id"
  by (simp add: packet_link_def list_link_def)

definition ble_conn :: ConnBleConnection where
  "ble_conn = \<lparr>le_protocol = BLE_GATT, le_connectionId = 196609, le_side = CONN_SIDE_CLIENT, le_sequence = 7, le_buffer = idle,
     le_state = BLE_CONNECTION_STATE_EXCHANGED_BASIC_INFO, le_mtu = 22, le_connectionRc = 1, le_objectRc = 1\<rparr>"

abbreviation free_flow :: ConnSlideWindowController where
  "free_flow \<equiv> \<lparr>active = False, windowInMillis = - 1, quotaInBytes = - 1, histories = []\<rparr>"

abbreviation ready :: "'d \<Rightarrow> attempt list \<times> 'd" where
  "ready \<equiv> Pair [\<lparr>lockOk = True, clock = 0, callocOk = True\<rparr>]"

lemmas alloc_simps = SoftBusCalloc_True MAX_MALLOC_SIZE_def memcpy_s_ok_def SECUREC_MEM_MAX_LEN_def

lemma trans_image_nonempty [simp]: "trans_image e h \<noteq> []"
  using gatt.length_image [of e h] by auto

lemma list_link_send: "data \<noteq> [] \<Longrightarrow> ConnBleSend list_link (Some c) data m d = (SOFTBUS_OK, d @ [data])"
  by (simp add: ConnBleSend_def list_link_def)

lemma ble_sent_loop:
  "case GattTransSend_loop Little list_link ready (\<lambda>_. True) c 3 7 3 5 [1, 2, 3, 4, 5] 5 0 (Some free_flow) [] of
     Some (status, ctl, sent) \<Rightarrow> status = SOFTBUS_OK \<and> ctl = Some free_flow \<and> length sent = 2 | None \<Rightarrow> False"
  by (subst GattTransSend_loop.simps, simp add: ApplyOnce_def alloc_simps list_link_send mem_write_def Let_def,
      subst GattTransSend_loop.simps, simp add: ApplyOnce_def alloc_simps list_link_send mem_write_def Let_def,
      subst GattTransSend_loop.simps, simp)

lemma ble_sent:
  obtains p1 p2 where "ConnGattTransSend Little list_link ready (\<lambda>_. True) (ble_conn\<lparr>le_objectRc := n\<rparr>) [1, 2, 3, 4, 5] 3 (Some free_flow) [] =
      Some (SOFTBUS_OK, ble_conn\<lparr>le_objectRc := n, le_sequence := 8\<rparr>, Some free_flow, [p1, p2])"
proof -
  let ?c = "ble_conn\<lparr>le_objectRc := n, le_sequence := 8\<rparr>"
  have five: "Suc (Suc (Suc (Suc (Suc 0)))) = 5" by simp
  obtain p1 p2 where "GattTransSend_loop Little list_link ready (\<lambda>_. True) ?c 3 7 3 5 [1, 2, 3, 4, 5] 5 0 (Some free_flow) [] =
      Some (SOFTBUS_OK, Some free_flow, [p1, p2])"
    using ble_sent_loop [of ?c] by (auto simp: length_Suc_conv numeral_2_eq_2 split: option.splits)
  then have "ConnGattTransSend Little list_link ready (\<lambda>_. True) (ble_conn\<lparr>le_objectRc := n\<rparr>) [1, 2, 3, 4, 5] 3 (Some free_flow) [] =
      Some (SOFTBUS_OK, ?c, Some free_flow, [p1, p2])"
    by (simp add: ConnGattTransSend_def ble_conn_def Let_def) (simp only: five)
  then show thesis by (rule that)
qed

theorem gatt_roundtrip_witness:
  "\<exists>p1 p2 c'. ConnGattTransSend Little list_link ready (\<lambda>_. True) ble_conn [1, 2, 3, 4, 5] 3 (Some free_flow) [] =
      Some (SOFTBUS_OK, c', Some free_flow, [p1, p2]) \<and> gatt_feed Big [p2, p1] idle = ([None, Some [1, 2, 3, 4, 5]], idle)"
proof -
  have [simp]: "ble_conn\<lparr>le_objectRc := 1\<rparr> = ble_conn" by (simp add: ble_conn_def)
  obtain p1 p2 where sent: "ConnGattTransSend Little list_link ready (\<lambda>_. True) ble_conn [1, 2, 3, 4, 5] 3 (Some free_flow) [] =
      Some (SOFTBUS_OK, ble_conn\<lparr>le_sequence := 8\<rparr>, Some free_flow, [p1, p2])"
    using ble_sent [of 1] by auto
  have "gatt_feed Big [p2, p1] idle = (replicate (length [p2, p1] - 1) None @ [Some [1, 2, 3, 4, 5]], idle)"
  proof (rule gatt_roundtrip [OF list_link_ok _ _ _ sent])
    show "\<forall>d. id (snd (ready d)) = id d" by simp
    show "id [p1, p2] = id [] @ [p1, p2]" by simp
    show "mset [p2, p1] = mset [p1, p2]" by (simp add: add_mset_commute)
  qed simp_all
  with sent show ?thesis by auto
qed

section \<open>Sequence number zero\<close>

text \<open>
  A buffer whose \<open>seq\<close> is 0 counts as empty, but a connection's first message has sequence number 0.  When a
  fragment of it is lost, fragments of the next message are joined with the ones that arrived.
\<close>

lemma gatt_seq0_mixed:
  "gatt_feed Little [frag Little 0 4 (0, [1, 2]), frag Little 1 4 (0, [9, 9]), frag Little 1 4 (2, [8, 8])] idle =
     ([None, None, Some [1, 2, 8, 8]], idle)"
proof -
  have fits: "fits 4 (0, [1, 2])" "fits 4 (0, [9, 9])" "fits 4 (2, [8, 8])" by (simp_all add: fits_def)
  have some: "frag Little seq 4 x \<noteq> []" for seq x by (simp add: frag_def)
  have data: "segment BLE_TRANS_HEADER_SIZE 2 (frag Little 0 4 (0, [1, 2])) = [1, 2]" "segment BLE_TRANS_HEADER_SIZE 2 (frag Little 1 4 (2, [8, 8])) = [8, 8]"
    using segment_frag [of "(0, [1, 2])" Little 0 4] segment_frag [of "(2, [8, 8])" Little 1 4] by (simp_all add: numeral_2_eq_2)
  show ?thesis
    by (simp add: ConnGattTransRecv_def UnpackTransHeader_frag [OF fits(1)] UnpackTransHeader_frag [OF fits(2)] UnpackTransHeader_frag [OF fits(3)]
        frag_head_def some data length_frag alloc_simps idle_def DiscardBuffer_def mem_write_def Let_def)
qed

end
