(* ===== verification/Ble_Task.thy ===== *)
theory Ble_Task
  imports Ble_Trans Br_Trans
begin

text \<open>
  Posting and sending of the BLE connection, the second half of
  \<^verbatim>\<open>core/connection/ble/src/softbus_conn_ble_trans.c\<close>: control messages, the CoC stream, \<open>ConnBlePostBytesInner\<close> and the
  send task, with the connection lookups of \<^verbatim>\<open>softbus_conn_ble_manager.c\<close> they use.

  State and environment are arguments as for the BR connection.  The refresh of the idle timer is recorded as
  an event; the callback a message carries is called right after the listener with the same status and is not
  a separate event.
\<close>

section \<open>Control messages\<close>

abbreviation CTRL_MSG_KEY_METHOD :: string where "CTRL_MSG_KEY_METHOD \<equiv> ''KEY_METHOD''"
abbreviation CTRL_MSG_KEY_DELTA :: string where "CTRL_MSG_KEY_DELTA \<equiv> ''KEY_DELTA''"
abbreviation CTRL_MSG_KEY_REF_NUM :: string where "CTRL_MSG_KEY_REF_NUM \<equiv> ''KEY_REF_NUM''"
abbreviation CTRL_MSG_KEY_CHALLENGE :: string where "CTRL_MSG_KEY_CHALLENGE \<equiv> ''KEY_CHALLENGE''"
abbreviation METHOD_NOTIFY_REQUEST :: int where "METHOD_NOTIFY_REQUEST \<equiv> 1"
abbreviation CTRL_MSG_METHOD_NOTIFY_REQUEST :: int where "CTRL_MSG_METHOD_NOTIFY_REQUEST \<equiv> 1"

record BleCtlMessageSerializationContext =
  lm_connectionId :: nat
  lm_flag :: int
  lm_method :: int
  lm_delta :: int
  lm_referenceNumber :: int
  lm_challengeCode :: nat

definition BleCtrlMsgSerializeByJson ::
  "(json_object \<Rightarrow> bytes option) \<Rightarrow> bool \<Rightarrow> (nat \<Rightarrow> nat \<Rightarrow> bool) \<Rightarrow> BleCtlMessageSerializationContext \<Rightarrow> int \<times> bytes option" where
  "BleCtrlMsgSerializeByJson print createOk al ctx =
     (if \<not> createOk then (SOFTBUS_CREATE_JSON_ERR, None)
      else if lm_method ctx = METHOD_NOTIFY_REQUEST then
        (case AddNumberToJsonObject (al 0) [] CTRL_MSG_KEY_METHOD CTRL_MSG_METHOD_NOTIFY_REQUEST of (ok, json) \<Rightarrow>
         if \<not> ok then (SOFTBUS_CREATE_JSON_ERR, None)
         else case AddNumberToJsonObject (al 1) json CTRL_MSG_KEY_DELTA (lm_delta ctx) of (ok, json) \<Rightarrow>
         if \<not> ok then (SOFTBUS_CREATE_JSON_ERR, None)
         else case AddNumberToJsonObject (al 2) json CTRL_MSG_KEY_REF_NUM (lm_referenceNumber ctx) of (ok, json) \<Rightarrow>
         if \<not> ok then (SOFTBUS_CREATE_JSON_ERR, None)
         else case AddNumber16ToJsonObject (al 3) json CTRL_MSG_KEY_CHALLENGE (lm_challengeCode ctx) of (ok, json) \<Rightarrow>
         if \<not> ok then (SOFTBUS_CREATE_JSON_ERR, None)
         else case print json of
                None \<Rightarrow> (SOFTBUS_CREATE_JSON_ERR, None)
              | Some data \<Rightarrow> (SOFTBUS_OK, Some (data @ [0])))
      else (SOFTBUS_CONN_BLE_INTERNAL_ERR, None))"

text \<open>The sequence number of the head, and the generator after the call.\<close>

definition ConnBlePackCtrlMsgHeader :: "endian \<Rightarrow> int \<Rightarrow> nat \<Rightarrow> int \<times> ConnPktHead \<times> int" where
  "ConnBlePackCtrlMsgHeader e gen dataLen =
     (gen, PackConnPktHead e \<lparr>h_magic = MAGIC_NUMBER, h_module = word_of_int MODULE_CONNECTION, h_seq = word_of_int gen,
        h_flag = word_of_int CONN_HIGH, h_len = word_of_nat dataLen\<rparr>, gen + 1)"

definition ConnBlePackCtlMessage ::
  "endian \<Rightarrow> (json_object \<Rightarrow> bytes option) \<Rightarrow> bool \<times> (nat \<Rightarrow> nat \<Rightarrow> bool) \<times> bool \<Rightarrow> int \<Rightarrow> BleCtlMessageSerializationContext \<Rightarrow>
   int \<times> bytes option \<times> int" where
  "ConnBlePackCtlMessage e print env gen ctx =
     (case BleCtrlMsgSerializeByJson print (fst env) (fst (snd env)) ctx of
        (ret, data) \<Rightarrow>
          if ret \<noteq> SOFTBUS_OK then (ret, None, gen)
          else
            let dataLen = u32 (length (the data)); bufLen = u32 (dataLen + CONN_PKT_HEAD_LEN)
            in case SoftBusCalloc (snd (snd env)) bufLen of
                 None \<Rightarrow> (SOFTBUS_MALLOC_ERR, None, gen)
               | Some buf \<Rightarrow>
                   (case ConnBlePackCtrlMsgHeader e gen dataLen of
                      (seq, header, gen) \<Rightarrow>
                        if \<not> memcpy_s_ok (u32_sub bufLen CONN_PKT_HEAD_LEN) dataLen then (SOFTBUS_MEM_ERR, None, gen)
                        else (seq, Some (mem_write (mem_write buf 0 (pkt_image e header)) CONN_PKT_HEAD_LEN (the data)), gen)))"

section \<open>The CoC stream\<close>

text \<open>The head is converted in place, in the buffer.\<close>

definition ConnCocTransRecv :: "endian \<Rightarrow> bool \<Rightarrow> LimitedBuffer \<Rightarrow> bytes option \<times> LimitedBuffer" where
  "ConnCocTransRecv e okCalloc b =
     (if length_of b < CONN_PKT_HEAD_LEN then (None, b)
      else
        let head = UnpackConnPktHead e (pkt_load e (take CONN_PKT_HEAD_LEN (buffer b)));
            b = b\<lparr>buffer := mem_write (buffer b) 0 (pkt_image e head)\<rparr>
        in if h_magic head \<noteq> MAGIC_NUMBER then (None, b\<lparr>length_of := 0\<rparr>)
           else if u32_sub (capacity b) CONN_PKT_HEAD_LEN < unat (h_len head) then (None, b\<lparr>length_of := 0\<rparr>)
           else
             let packLen = u32 (unat (h_len head) + CONN_PKT_HEAD_LEN)
             in if length_of b < packLen then (None, b)
                else case SoftBusCalloc okCalloc packLen of
                       None \<Rightarrow> (None, b)
                     | Some dataCopy \<Rightarrow>
                         if \<not> memcpy_s_ok packLen packLen then (None, b)
                         else if length_of b > packLen \<and> \<not> memcpy_s_ok (length_of b) (length_of b - packLen) then (None, b)
                         else
                           let data = mem_write dataCopy 0 (take packLen (buffer b));
                               moved = (if length_of b > packLen
                                        then mem_write (buffer b) 0 (segment packLen (length_of b - packLen) (buffer b))
                                        else buffer b)
                           in (Some data, b\<lparr>buffer := moved, length_of := length_of b - packLen\<rparr>))"

text \<open>
  The status of each write is dropped.  A negative result of \<open>apply\<close> becomes a length far behind the end of
  the message, which is the outcome \<open>OutOfRangeRead\<close>.
\<close>

partial_function (option) CocTransSend_loop ::
  "(BleProtocolType \<Rightarrow> 'd BleUnifyInterface option) \<Rightarrow> ('d \<Rightarrow> attempt list \<times> 'd) \<Rightarrow> ConnBleConnection \<Rightarrow> int \<Rightarrow> bytes \<Rightarrow> nat \<Rightarrow> nat \<Rightarrow>
   ConnSlideWindowController option \<Rightarrow> 'd \<Rightarrow> (fault + int \<times> ConnSlideWindowController option \<times> 'd) option" where
  "CocTransSend_loop unify att c modul data dataLen sentLen ctl d =
     (if dataLen > sentLen then
        case att d of (envs, d) \<Rightarrow>
          (case Apply envs ctl (s32 (int (dataLen - sentLen))) of
             None \<Rightarrow> None
           | Some (grant, ctl) \<Rightarrow>
               let amnt = nat (grant mod 4294967296)
               in if amnt > dataLen - sentLen then Some (Inl OutOfRangeRead)
                  else case ConnBleSend unify (Some c) (take amnt (drop sentLen data)) modul d of
                         (status, d) \<Rightarrow> CocTransSend_loop unify att c modul data dataLen (u32 (sentLen + amnt)) ctl d)
      else Some (Inr (SOFTBUS_OK, ctl, d)))"

definition ConnCocTransSend ::
  "(BleProtocolType \<Rightarrow> 'd BleUnifyInterface option) \<Rightarrow> ('d \<Rightarrow> attempt list \<times> 'd) \<Rightarrow> ConnBleConnection \<Rightarrow> bytes \<Rightarrow> int \<Rightarrow>
   ConnSlideWindowController option \<Rightarrow> 'd \<Rightarrow> (fault + int \<times> ConnSlideWindowController option \<times> 'd) option" where
  "ConnCocTransSend unify att c data modul ctl d = CocTransSend_loop unify att c modul data (length data) 0 ctl d"

section \<open>Connections\<close>

record ble_conns =
  lo_heap :: "nat \<Rightarrow> ConnBleConnection option"
  lo_list :: "nat list"

definition put_ble :: "nat \<Rightarrow> ConnBleConnection \<Rightarrow> ble_conns \<Rightarrow> ble_conns" where
  "put_ble a c s = s\<lparr>lo_heap := (lo_heap s)(a := Some c)\<rparr>"

definition ConnectionCompareByConnectId :: "nat \<Rightarrow> ConnBleConnection \<Rightarrow> bool" where
  "ConnectionCompareByConnectId connectionId connection = (le_connectionId connection = connectionId)"

fun find_ble :: "(ConnBleConnection \<Rightarrow> bool) \<Rightarrow> (nat \<Rightarrow> ConnBleConnection option) \<Rightarrow> nat list \<Rightarrow> fault + nat option" where
  "find_ble P heap [] = Inr None"
| "find_ble P heap (it # rest) =
     (case heap it of None \<Rightarrow> Inl InvalidPointer | Some c \<Rightarrow> if P c then Inr (Some it) else find_ble P heap rest)"

definition GetConnectionByOption :: "(nat \<Rightarrow> bool) \<Rightarrow> (ConnBleConnection \<Rightarrow> bool) \<Rightarrow> ble_conns \<Rightarrow> fault + nat option \<times> ble_conns" where
  "GetConnectionByOption ok compareFunc s =
     (if \<not> ok 0 then Inr (None, s)
      else case find_ble compareFunc (lo_heap s) (lo_list s) of
             Inl f \<Rightarrow> Inl f
           | Inr None \<Rightarrow> Inr (None, s)
           | Inr (Some target) \<Rightarrow>
               (case lo_heap s target of
                  None \<Rightarrow> Inl InvalidPointer
                | Some c \<Rightarrow>
                    if \<not> ok 1 then Inr (None, s)
                    else Inr (Some target, put_ble target (c\<lparr>le_objectRc := s32 (le_objectRc c + 1)\<rparr>) s)))"

definition ConnBleGetConnectionById :: "(nat \<Rightarrow> bool) \<Rightarrow> nat \<Rightarrow> ble_conns \<Rightarrow> fault + nat option \<times> ble_conns" where
  "ConnBleGetConnectionById ok connectionId s = GetConnectionByOption ok (ConnectionCompareByConnectId connectionId) s"

definition ConnBleReturnConnection :: "(nat \<Rightarrow> bool) \<Rightarrow> nat option \<Rightarrow> ble_conns \<Rightarrow> fault + ble_conns" where
  "ConnBleReturnConnection ok connection s =
     (case connection of None \<Rightarrow> Inr s
      | Some a \<Rightarrow>
        (case lo_heap s a of
           None \<Rightarrow> Inl InvalidPointer
         | Some c \<Rightarrow>
             if \<not> ok 0 then Inr s
             else
               let objectRc = s32 (le_objectRc c - 1)
               in if objectRc \<le> 0 then Inr (s\<lparr>lo_heap := (lo_heap s)(a := None)\<rparr>)
                  else Inr (put_ble a (c\<lparr>le_objectRc := objectRc\<rparr>) s)))"

section \<open>Posting and the send task\<close>

abbreviation SOFTBUS_CONN_BLE_CONNECTION_NOT_EXIST_ERR :: int where "SOFTBUS_CONN_BLE_CONNECTION_NOT_EXIST_ERR \<equiv> - 425918431"
abbreviation SOFTBUS_CONN_BLE_CONNECTION_NOT_READY_ERR :: int where "SOFTBUS_CONN_BLE_CONNECTION_NOT_READY_ERR \<equiv> - 425918430"
abbreviation MODULE_BLE_NET :: int where "MODULE_BLE_NET \<equiv> 100"
abbreviation CONNECT_BLE :: nat where "CONNECT_BLE \<equiv> 3"

record StartBleSendLPInfo =
  ll_messagePosted :: bool
  ll_sendTaskRunning :: bool

record 'd ble_world =
  lw_conns :: ble_conns
  lw_queues :: "SendQueueNode send_queues"
  lw_lp :: StartBleSendLPInfo
  lw_flow :: "ConnSlideWindowController option"
  lw_refreshed :: "nat list"
  lw_finished :: "(SendQueueNode \<times> int) list"
  lw_drv :: 'd

record 'd ble_platform =
  lp_host :: endian
  lp_unify :: "BleProtocolType \<Rightarrow> 'd BleUnifyInterface option"
  lp_att :: "'d \<Rightarrow> attempt list \<times> 'd"
  lp_alloc :: "'d \<Rightarrow> bool"

definition ble_post_notify :: "bool \<Rightarrow> int \<Rightarrow> StartBleSendLPInfo \<Rightarrow> int \<times> StartBleSendLPInfo" where
  "ble_post_notify okLock started lp =
     (if \<not> okLock then (SOFTBUS_LOCK_ERR, lp)
      else
        let lp = lp\<lparr>ll_messagePosted := True\<rparr>
        in if \<not> ll_sendTaskRunning lp then
             (if started \<noteq> SOFTBUS_OK then (started, lp) else (SOFTBUS_OK, lp\<lparr>ll_sendTaskRunning := True\<rparr>))
           else (SOFTBUS_OK, lp))"

record ble_post_env =
  lpe_get :: "nat \<Rightarrow> bool"
  lpe_lock :: bool
  lpe_return :: "nat \<Rightarrow> bool"
  lpe_calloc :: bool
  lpe_queue :: "nat \<Rightarrow> bool"
  lpe_queueLock :: bool
  lpe_waits :: "(int \<times> SendQueueNode send_queues) list"
  lpe_lpLock :: bool
  lpe_started :: int

text \<open>Returning the connection and then the result of the call.\<close>

definition return_ble :: "(nat \<Rightarrow> bool) \<Rightarrow> nat \<Rightarrow> 'd ble_world \<Rightarrow> fault + 'd ble_world" where
  "return_ble ok a w = map_sum id (\<lambda>conns. w\<lparr>lw_conns := conns\<rparr>) (ConnBleReturnConnection ok (Some a) (lw_conns w))"

definition ConnBlePostBytesInner ::
  "ble_post_env \<Rightarrow> nat \<Rightarrow> bytes option \<Rightarrow> int \<Rightarrow> int \<Rightarrow> int \<Rightarrow> int \<Rightarrow> 'd ble_world \<Rightarrow> (fault + int \<times> 'd ble_world) option" where
  "ConnBlePostBytesInner env connectionId data pid flag modul seq w =
     (case data of None \<Rightarrow> Some (Inr (SOFTBUS_INVALID_PARAM, w))
      | Some bytes \<Rightarrow>
        if length bytes = 0 \<or> length bytes > MAX_DATA_LEN then Some (Inr (SOFTBUS_INVALID_PARAM, w))
        else case ConnBleGetConnectionById (lpe_get env) connectionId (lw_conns w) of
          Inl f \<Rightarrow> Some (Inl f)
        | Inr (None, conns) \<Rightarrow> Some (Inr (SOFTBUS_CONN_BLE_CONNECTION_NOT_EXIST_ERR, w\<lparr>lw_conns := conns\<rparr>))
        | Inr (Some a, conns) \<Rightarrow>
            let w = w\<lparr>lw_conns := conns\<rparr>
            in case lo_heap conns a of
                 None \<Rightarrow> Some (Inl InvalidPointer)
               | Some connection \<Rightarrow>
                   if \<not> lpe_lock env then Some (map_sum id (Pair SOFTBUS_LOCK_ERR) (return_ble (lpe_return env) a w))
                   else if le_state connection \<noteq> BLE_CONNECTION_STATE_EXCHANGED_BASIC_INFO \<and> modul \<noteq> MODULE_CONNECTION \<and> modul \<noteq> MODULE_BLE_NET
                   then Some (map_sum id (Pair SOFTBUS_CONN_BLE_CONNECTION_NOT_READY_ERR) (return_ble (lpe_return env) a w))
                   else if \<not> lpe_calloc env then Some (map_sum id (Pair SOFTBUS_MALLOC_ERR) (return_ble (lpe_return env) a w))
                   else
                     let node = \<lparr>sn_connectionId = connectionId, sn_pid = pid, sn_flag = flag, sn_module = modul, sn_seq = seq, sn_data = bytes\<rparr>
                     in case ConnBleEnqueueNonBlock (lpe_queue env) (lpe_queueLock env) (lpe_waits env) (Some node) (lw_queues w) of
                          None \<Rightarrow> None
                        | Some (Inl f) \<Rightarrow> Some (Inl f)
                        | Some (Inr (status, signalled, queues)) \<Rightarrow>
                            let w = w\<lparr>lw_queues := queues\<rparr>
                            in if status \<noteq> SOFTBUS_OK then Some (map_sum id (Pair status) (return_ble (lpe_return env) a w))
                               else
                                 (case return_ble (lpe_return env) a (w\<lparr>lw_refreshed := lw_refreshed w @ [le_connectionId connection]\<rparr>) of
                                    Inl f \<Rightarrow> Some (Inl f)
                                  | Inr w \<Rightarrow>
                                      (case ble_post_notify (lpe_lpLock env) (lpe_started env) (lw_lp w) of
                                         (status, lp) \<Rightarrow> Some (Inr (status, w\<lparr>lw_lp := lp\<rparr>)))))"

definition ble_task_timeout :: "StartBleSendLPInfo \<Rightarrow> bool \<times> StartBleSendLPInfo" where
  "ble_task_timeout lp =
     (if ll_messagePosted lp then (True, lp\<lparr>ll_messagePosted := False\<rparr>)
      else (False, lp\<lparr>ll_sendTaskRunning := False\<rparr>))"

definition ble_task_dequeued :: "StartBleSendLPInfo \<Rightarrow> StartBleSendLPInfo" where
  "ble_task_dequeued lp = lp\<lparr>ll_messagePosted := False\<rparr>"

definition onPostBytesFinished :: "SendQueueNode \<Rightarrow> int \<Rightarrow> 'd ble_world \<Rightarrow> 'd ble_world" where
  "onPostBytesFinished node status w = w\<lparr>lw_finished := lw_finished w @ [(node, status)]\<rparr>"

record ble_send_env =
  lse_getTime :: int
  lse_queueLock :: bool
  lse_waits :: "(int \<times> SendQueueNode send_queues) list"
  lse_lpLock :: bool
  lse_get :: "nat \<Rightarrow> bool"
  lse_return :: "nat \<Rightarrow> bool"

text \<open>The \<open>switch\<close> over the protocol; for any other protocol the status of the dequeue stays.\<close>

definition ble_transmit :: "'d ble_platform \<Rightarrow> nat \<Rightarrow> ConnBleConnection \<Rightarrow> SendQueueNode \<Rightarrow> 'd ble_world \<Rightarrow> (fault + int \<times> 'd ble_world) option" where
  "ble_transmit plat a connection node w =
     (case le_protocol connection of
        BLE_GATT \<Rightarrow>
          (case ConnGattTransSend (lp_host plat) (lp_unify plat) (lp_att plat) (lp_alloc plat) connection (sn_data node) (sn_module node) (lw_flow w) (lw_drv w) of
             None \<Rightarrow> None
           | Some (status, connection, flow, d) \<Rightarrow>
               Some (Inr (status, w\<lparr>lw_conns := put_ble a connection (lw_conns w), lw_flow := flow, lw_drv := d\<rparr>)))
      | BLE_COC \<Rightarrow>
          (case ConnCocTransSend (lp_unify plat) (lp_att plat) connection (sn_data node) (sn_module node) (lw_flow w) (lw_drv w) of
             None \<Rightarrow> None
           | Some (Inl f) \<Rightarrow> Some (Inl f)
           | Some (Inr (status, flow, d)) \<Rightarrow> Some (Inr (status, w\<lparr>lw_flow := flow, lw_drv := d\<rparr>)))
      | BLE_PROTOCOL_MAX \<Rightarrow> Some (Inr (SOFTBUS_OK, w)))"

definition BleSendTask_node :: "'d ble_platform \<Rightarrow> ble_send_env \<Rightarrow> SendQueueNode \<Rightarrow> 'd ble_world \<Rightarrow> (fault + 'd ble_world) option" where
  "BleSendTask_node plat env sendNode w =
     (case ConnBleGetConnectionById (lse_get env) (sn_connectionId sendNode) (lw_conns w) of
        Inl f \<Rightarrow> Some (Inl f)
      | Inr (None, conns) \<Rightarrow> Some (Inr (w\<lparr>lw_conns := conns\<rparr>))
      | Inr (Some a, conns) \<Rightarrow>
          let w = w\<lparr>lw_conns := conns\<rparr>
          in case lo_heap conns a of
               None \<Rightarrow> Some (Inl InvalidPointer)
             | Some connection \<Rightarrow>
                 (case ble_transmit plat a connection sendNode w of
                    None \<Rightarrow> None
                  | Some (Inl f) \<Rightarrow> Some (Inl f)
                  | Some (Inr (status, w)) \<Rightarrow>
                      Some (map_sum id (onPostBytesFinished sendNode status) (return_ble (lse_return env) a w))))"

definition BleSendTask_pass :: "'d ble_platform \<Rightarrow> ble_send_env \<Rightarrow> 'd ble_world \<Rightarrow> (fault + bool \<times> 'd ble_world) option" where
  "BleSendTask_pass plat env w =
     (case ConnBleDequeueBlock (lse_getTime env) True (lse_queueLock env) (lse_waits env) (lw_queues w) of
        None \<Rightarrow> None
      | Some (Inl f) \<Rightarrow> Some (Inl f)
      | Some (Inr (status, msg, isFull, queues)) \<Rightarrow>
          let w = w\<lparr>lw_queues := queues\<rparr>; sendNode = (case msg of None \<Rightarrow> None | Some m \<Rightarrow> m)
          in if status = SOFTBUS_TIMOUT \<and> sendNode = None then
               (if \<not> lse_lpLock env then Some (Inr (False, w))
                else case ble_task_timeout (lw_lp w) of (goes_on, lp) \<Rightarrow> Some (Inr (goes_on, w\<lparr>lw_lp := lp\<rparr>)))
             else if \<not> lse_lpLock env then (if sendNode = None then Some (Inl InvalidPointer) else Some (Inr (False, w)))
             else
               let w = w\<lparr>lw_lp := ble_task_dequeued (lw_lp w)\<rparr>
               in if status \<noteq> SOFTBUS_OK \<or> sendNode = None then Some (Inr (True, w))
                  else map_option (map_sum id (Pair True)) (BleSendTask_node plat env (the sendNode) w))"

fun BleSendTask :: "'d ble_platform \<Rightarrow> ble_send_env list \<Rightarrow> 'd ble_world \<Rightarrow> (fault + bool \<times> 'd ble_world) option" where
  "BleSendTask plat [] w = Some (Inr (False, w))"
| "BleSendTask plat (env # envs) w =
     (case BleSendTask_pass plat env w of
        None \<Rightarrow> None
      | Some (Inl f) \<Rightarrow> Some (Inl f)
      | Some (Inr (goes_on, w)) \<Rightarrow> if goes_on then BleSendTask plat envs w else Some (Inr (True, w)))"

definition ConnBleTransConfigPostLimit ::
  "bool \<Rightarrow> LimitConfiguration option \<Rightarrow> ConnSlideWindowController option \<Rightarrow> int \<times> ConnSlideWindowController option" where
  "ConnBleTransConfigPostLimit lock configuration flow =
     (case configuration of None \<Rightarrow> (SOFTBUS_INVALID_PARAM, flow)
      | Some c \<Rightarrow>
        if lc_type c \<noteq> CONNECT_BLE then (SOFTBUS_INVALID_PARAM, flow)
        else if \<not> lc_active c then Disable lock flow
        else Enable lock flow (lc_windowInMillis c) (lc_quotaInBytes c))"

definition ConnBleInitTransModule ::
  "(nat \<Rightarrow> bool) \<Rightarrow> bool \<times> bool \<Rightarrow> (nat \<Rightarrow> bool) \<Rightarrow> int \<times> int \<times> int \<Rightarrow> int \<Rightarrow> 'd ble_world \<Rightarrow> int \<times> 'd ble_world" where
  "ConnBleInitTransModule given flowInit al inits mutexInit w =
     (if \<not> given 0 then (SOFTBUS_INVALID_PARAM, w)
      else if \<not> given 1 then (SOFTBUS_INVALID_PARAM, w)
      else case ConnSlideWindowControllerNew (fst flowInit) (snd flowInit) of
             None \<Rightarrow> (SOFTBUS_CONN_BLE_INTERNAL_ERR, w)
           | Some controller \<Rightarrow>
               (case ConnBleInitSendQueue al (fst inits) (fst (snd inits)) (snd (snd inits)) (lw_queues w) of
                  (status, queues) \<Rightarrow>
                    let w = w\<lparr>lw_queues := queues\<rparr>
                    in if status \<noteq> SOFTBUS_OK then (status, w)
                       else if mutexInit \<noteq> SOFTBUS_OK then (mutexInit, w\<lparr>lw_queues := ConnBleDeinitSendQueue (lw_queues w)\<rparr>)
                       else (SOFTBUS_OK, w\<lparr>lw_flow := Some controller\<rparr>)))"

section \<open>Interfaces\<close>

text \<open>The CoC parser is the parser of the BR connection.\<close>

lemma ConnCocTransRecv_eq: "ConnCocTransRecv = BrRecvDataParse"
  by (intro ext) (simp only: ConnCocTransRecv_def BrRecvDataParse_def)

interpretation cocp: frame_parser "ConnCocTransRecv Little"
  unfolding ConnCocTransRecv_eq by unfold_locales

interpretation bletask: send_task "sq_inv ble_key" sq_content ble_key ble_enq ble_deq "ble_post_notify True" ble_task_timeout ble_task_dequeued
  ll_messagePosted ll_sendTaskRunning
  by unfold_locales (auto simp: ble_post_notify_def ble_task_timeout_def ble_task_dequeued_def Let_def split: if_splits)

section \<open>Findings\<close>

text \<open>
  Over CoC the status of a write is dropped: with a link that refuses everything the send succeeds.
\<close>

definition dead_link :: "BleProtocolType \<Rightarrow> bytes list BleUnifyInterface option" where
  "dead_link p = Some \<lparr>bleClientSend = (\<lambda>c data m d. (SOFTBUS_LOCK_ERR, d)), bleServerSend = (\<lambda>c data m d. (SOFTBUS_LOCK_ERR, d))\<rparr>"

lemma coc_send_drops_status:
  "ConnCocTransSend dead_link ready (ble_conn\<lparr>le_protocol := BLE_COC\<rparr>) [1, 2, 3] 3 (Some free_flow) [] = Some (Inr (SOFTBUS_OK, Some free_flow, []))"
proof -
  have three: "Suc (Suc (Suc 0)) = 3" by simp
  show ?thesis
    unfolding ConnCocTransSend_def
    by (subst CocTransSend_loop.simps, simp add: ApplyOnce_def ConnBleSend_def dead_link_def ble_conn_def three, subst CocTransSend_loop.simps, simp)
qed

text \<open>A message whose connection is gone is dropped, and the listener is not told.\<close>

lemma ble_gone_not_reported:
  assumes "ConnBleGetConnectionById (lse_get env) (sn_connectionId node) (lw_conns w) = Inr (None, conns)"
  shows "BleSendTask_node plat env node w = Some (Inr (w\<lparr>lw_conns := conns\<rparr>))"
  using assms by (simp add: BleSendTask_node_def)

section \<open>An example\<close>

definition ble_ex_world :: "bytes list ble_world" where
  "ble_ex_world = \<lparr>lw_conns = \<lparr>lo_heap = (\<lambda>a. if a = 0 then Some ble_conn else None), lo_list = [0]\<rparr>,
     lw_queues = \<lparr>sq_list = [], sq_inner = None, sq_next = 0\<rparr>, lw_lp = \<lparr>ll_messagePosted = False, ll_sendTaskRunning = False\<rparr>,
     lw_flow = Some free_flow, lw_refreshed = [], lw_finished = [], lw_drv = []\<rparr>"

definition ble_ex_plat :: "bytes list ble_platform" where
  "ble_ex_plat = \<lparr>lp_host = Little, lp_unify = list_link, lp_att = ready, lp_alloc = (\<lambda>_. True)\<rparr>"

definition ble_ex_env :: ble_send_env where
  "ble_ex_env = \<lparr>lse_getTime = 0, lse_queueLock = True, lse_waits = [], lse_lpLock = True, lse_get = (\<lambda>_. True), lse_return = (\<lambda>_. True)\<rparr>"

definition ble_ex_node :: SendQueueNode where
  "ble_ex_node = \<lparr>sn_connectionId = 196609, sn_pid = 9, sn_flag = CONN_MIDDLE, sn_module = 3, sn_seq = 1, sn_data = [1, 2, 3, 4, 5]\<rparr>"

lemma ble_ex_sent:
  obtains w' p1 p2 where "BleSendTask_node ble_ex_plat ble_ex_env ble_ex_node ble_ex_world = Some (Inr w')"
    "lw_finished w' = [(ble_ex_node, SOFTBUS_OK)]" "lw_drv w' = [p1, p2]"
proof -
  obtain p1 p2 where send: "ConnGattTransSend Little list_link ready (\<lambda>_. True) (ble_conn\<lparr>le_objectRc := 2\<rparr>) [1, 2, 3, 4, 5] 3 (Some free_flow) [] =
      Some (SOFTBUS_OK, ble_conn\<lparr>le_objectRc := 2, le_sequence := 8\<rparr>, Some free_flow, [p1, p2])"
    by (rule ble_sent)
  let ?w = "BleSendTask_node ble_ex_plat ble_ex_env ble_ex_node ble_ex_world"
  have "\<exists>w'. ?w = Some (Inr w') \<and> lw_finished w' = [(ble_ex_node, SOFTBUS_OK)] \<and> lw_drv w' = [p1, p2]"
    using send
    by (simp add: BleSendTask_node_def ConnBleGetConnectionById_def GetConnectionByOption_def ConnectionCompareByConnectId_def put_ble_def
        ble_transmit_def return_ble_def ConnBleReturnConnection_def onPostBytesFinished_def ble_ex_world_def ble_ex_plat_def ble_ex_env_def ble_ex_node_def ble_conn_def)
  with that show thesis by blast
qed

lemma find_ble_found: "find_ble P heap as = Inr (Some a) \<Longrightarrow> \<exists>c. heap a = Some c \<and> P c"
  by (induction as) (auto split: option.splits if_splits)

lemma ConnBleGet_found:
  assumes "ConnBleGetConnectionById ok i s = Inr (Some a, s')" "lo_heap s' a = Some c'"
  shows "\<exists>c. lo_heap s a = Some c \<and> le_connectionId c = i \<and> le_protocol c' = le_protocol c"
  using assms
  by (auto simp: ConnBleGetConnectionById_def GetConnectionByOption_def put_ble_def ConnectionCompareByConnectId_def dest!: find_ble_found
      split: if_splits sum.splits option.splits)

section \<open>Properties\<close>

text \<open>
  C35: What a success report means over GATT.  When the send task reports \<open>SOFTBUS_OK\<close> for a message, not empty and of at most
  \<open>MAX_DATA_LEN\<close> (40000) bytes, whose id is that of GATT connections only, then a receiver that is not in the middle of a message and gets the packets sent while handling it, in any order,
  delivers exactly the message, with the last of them.  The driver passes on each packet it says it sent, and the waits of the flow controller send nothing; other
  connections may be of any kind.
\<close>

theorem ble_reported_delivered:
  assumes "packet_link (lp_unify plat) out" "\<forall>d. out (snd (lp_att plat d)) = out d"
    and "sn_data node \<noteq> []" "length (sn_data node) \<le> MAX_DATA_LEN"
    and "BleSendTask_node plat env node w = Some (Inr w')" "lw_finished w' = lw_finished w @ [(node, SOFTBUS_OK)]"
    and "\<forall>a c. lo_heap (lw_conns w) a = Some c \<and> le_connectionId c = sn_connectionId node \<longrightarrow> le_protocol c = BLE_GATT"
    and "out (lw_drv w') = out (lw_drv w) @ sent" "mset ps = mset sent"
  shows "gatt_feed e' ps idle = (replicate (length ps - 1) None @ [Some (sn_data node)], idle)"
proof -
  obtain r conns where get: "ConnBleGetConnectionById (lse_get env) (sn_connectionId node) (lw_conns w) = Inr (r, conns)"
    using assms(5) by (auto simp: BleSendTask_node_def split: sum.splits)
  then obtain a where r: "r = Some a" using assms(5,6) by (cases r) (auto simp: BleSendTask_node_def)
  obtain c where c: "lo_heap conns a = Some c" using assms(5) get r by (auto simp: BleSendTask_node_def split: option.splits)
  have gatt: "le_protocol c = BLE_GATT"
    using ConnBleGet_found [OF get [unfolded r] c] assms(7) by auto
  obtain status c' flow d where send: "ConnGattTransSend (lp_host plat) (lp_unify plat) (lp_att plat) (lp_alloc plat) c (sn_data node) (sn_module node) (lw_flow w) (lw_drv w) =
      Some (status, c', flow, d)"
    using assms(5) get r c gatt by (auto simp: BleSendTask_node_def ble_transmit_def split: option.splits)
  have "status = SOFTBUS_OK \<and> lw_drv w' = d"
    using assms(5,6) get r c gatt send
    by (auto simp: BleSendTask_node_def ble_transmit_def return_ble_def onPostBytesFinished_def map_sum_def split: sum.splits)
  with gatt_sent_received [OF assms(1-4) _ _ assms(9)] send assms(8) show ?thesis by blast
qed

theorem ble_reported_delivered_witness:
  "\<exists>w' p1 p2. BleSendTask_node ble_ex_plat ble_ex_env ble_ex_node ble_ex_world = Some (Inr w') \<and> lw_drv w' = [p1, p2] \<and>
     gatt_feed Big [p2, p1] idle = ([None, Some [1, 2, 3, 4, 5]], idle)"
proof -
  obtain w' p1 p2 where w': "BleSendTask_node ble_ex_plat ble_ex_env ble_ex_node ble_ex_world = Some (Inr w')"
    "lw_finished w' = [(ble_ex_node, SOFTBUS_OK)]" "lw_drv w' = [p1, p2]"
    by (rule ble_ex_sent)
  have "gatt_feed Big [p2, p1] idle = (replicate (length [p2, p1] - 1) None @ [Some (sn_data ble_ex_node)], idle)"
  proof (rule ble_reported_delivered [of ble_ex_plat id ble_ex_node ble_ex_env ble_ex_world w' "[p1, p2]"])
    show "packet_link (lp_unify ble_ex_plat) id" using list_link_ok by (simp add: ble_ex_plat_def)
    show "lw_finished w' = lw_finished ble_ex_world @ [(ble_ex_node, SOFTBUS_OK)]" by (simp add: w' ble_ex_world_def)
    show "id (lw_drv w') = id (lw_drv ble_ex_world) @ [p1, p2]" by (simp add: w' ble_ex_world_def)
    show "BleSendTask_node ble_ex_plat ble_ex_env ble_ex_node ble_ex_world = Some (Inr w')" by (rule w')
  qed (simp_all add: ble_ex_plat_def ble_ex_node_def ble_ex_world_def ble_conn_def add_mset_commute)
  with w' show ?thesis by (auto simp: ble_ex_node_def)
qed

text \<open>
  Frames over CoC.  Frames that lie one after the other in the receive buffer are taken out by successive
  \<open>ConnCocTransRecv\<close> calls, each whole, in order and with nothing left over; an incomplete frame at the end stays
  in the buffer.
\<close>

theorem coc_frames_delivered:
  assumes "buf_inv b" "\<forall>f \<in> set (g # fs). wire_frame f \<and> length f \<le> capacity b" "n < length g"
    and "bdata b = concat fs @ take n g"
  shows "\<exists>b'. drain (ConnCocTransRecv Little) (Suc (length fs)) b = (fs, b') \<and> bdata b' = take n g"
  using cocp.drain_frames [OF assms(1), of fs g n "Suc (length fs)"] assms(2-4) by auto

theorem coc_frames_delivered_witness:
  "\<exists>b'. drain (ConnCocTransRecv Little) 2 \<lparr>capacity = 29, buffer = frame_a @ take 3 frame_b, length_of = 29\<rparr> = ([frame_a], b') \<and> bdata b' = take 3 frame_b"
  using coc_frames_delivered [of "\<lparr>capacity = 29, buffer = frame_a @ take 3 frame_b, length_of = 29\<rparr>" frame_b "[frame_a]" 3] example_frames
  by (simp add: buf_inv_def bdata_def MAX_MALLOC_SIZE_def numeral_2_eq_2)

text \<open>
  C36: No BLE message is stranded, as for BR.
\<close>

theorem ble_task_never_stranded:
  assumes "task_start (sq_inv ble_key) sq_content ll_sendTaskRunning s"
    and "(task_step ble_enq ble_deq (ble_post_notify True) ble_task_timeout ble_task_dequeued ll_sendTaskRunning)\<^sup>*\<^sup>* s t"
    and "sq_content (ts_queue t) k \<noteq> []" "ts_posting t = 0" "\<not> ts_startFailed t"
  shows "ll_sendTaskRunning (ts_info t) \<and> (will_scan (ts_place t) \<or> ll_messagePosted (ts_info t))"
  using bletask.never_stranded [OF assms] by blast

theorem ble_task_never_stranded_witness:
  "\<exists>t. (task_step ble_enq ble_deq (ble_post_notify True) ble_task_timeout ble_task_dequeued ll_sendTaskRunning)\<^sup>*\<^sup>*
      \<lparr>ts_queue = ble_example, ts_info = \<lparr>ll_messagePosted = False, ll_sendTaskRunning = False\<rparr>, ts_posting = 0, ts_place = Stopped, ts_startFailed = False\<rparr> t \<and>
    sq_content (ts_queue t) (Some 9, 1) \<noteq> [] \<and> ll_sendTaskRunning (ts_info t) \<and> (will_scan (ts_place t) \<or> ll_messagePosted (ts_info t))"
proof -
  let ?off = "\<lparr>ll_messagePosted = False, ll_sendTaskRunning = False\<rparr>"
  let ?step = "task_step ble_enq ble_deq (ble_post_notify True) ble_task_timeout ble_task_dequeued ll_sendTaskRunning"
  define q where "q = snd (ble_enq (\<lambda>_. True, 0) ble_example (ble_message 1))"
  define s :: "(SendQueueNode send_queues, StartBleSendLPInfo, SendQueueNode) task_state"
    where "s = \<lparr>ts_queue = ble_example, ts_info = ?off, ts_posting = 0, ts_place = Stopped, ts_startFailed = False\<rparr>"
  define t where "t = s\<lparr>ts_queue := q, ts_info := \<lparr>ll_messagePosted = True, ll_sendTaskRunning = True\<rparr>, ts_place := Scans\<rparr>"
  have "fst (ble_enq (\<lambda>_. True, 0) ble_example (ble_message 1))" by code_simp
  then have "ble_enq (\<lambda>_. True, 0) (ts_queue s) (ble_message 1) = (True, q)" by (simp add: q_def s_def prod_eq_iff)
  from task_step.store [of ble_enq "(\<lambda>_. True, 0)" s "ble_message 1" q, OF this] have "?step s (s\<lparr>ts_queue := q, ts_posting := 1\<rparr>)" by (simp add: s_def)
  moreover have "?step (s\<lparr>ts_queue := q, ts_posting := 1\<rparr>) t"
    using task_step.notify [of "s\<lparr>ts_queue := q, ts_posting := 1\<rparr>" 0 "ble_post_notify True" SOFTBUS_OK SOFTBUS_OK
        "\<lparr>ll_messagePosted = True, ll_sendTaskRunning = True\<rparr>" ble_enq ble_deq ble_task_timeout ble_task_dequeued ll_sendTaskRunning]
    by (simp add: s_def t_def ble_post_notify_def)
  ultimately have "?step\<^sup>*\<^sup>* s t" by simp
  moreover have "task_start (sq_inv ble_key) sq_content ll_sendTaskRunning s"
    using init_inv [OF ble_init_eq [OF ble_example_init]] by (simp add: task_start_def s_def)
  moreover have "sq_content q (Some 9, 1) \<noteq> []" unfolding q_def by code_simp
  then have "sq_content (ts_queue t) (Some 9, 1) \<noteq> []" by (simp add: t_def)
  ultimately show ?thesis
    using ble_task_never_stranded [of s t "(Some 9, 1)"] by (intro exI [of _ t]) (simp add: s_def t_def)
qed

end
