(* ===== verification/Data_Refinement.thy ===== *)
theory Data_Refinement
  imports Prelude
begin

text \<open>
  Refinement of an abstract type of data by a data structure of the code.  The code executes a list of operations; each may fault.
  The specification relates, for one operation, its result, the abstract value before and the abstract value after.  Counters of the
  code have a width, so the invariant carries the number of operations that are still to come.
\<close>

fun run_ops :: "('op \<Rightarrow> 's \<Rightarrow> 'f + 'r \<times> 's) \<Rightarrow> 'op list \<Rightarrow> 's \<Rightarrow> 'f + 'r list \<times> 's" where
  "run_ops exec [] s = Inr ([], s)"
| "run_ops exec (c # cs) s =
     (case exec c s of
        Inl f \<Rightarrow> Inl f
      | Inr (r, s) \<Rightarrow> map_sum id (apfst ((#) r)) (run_ops exec cs s))"

fun run_spec :: "('op \<Rightarrow> 'r \<Rightarrow> 'a \<Rightarrow> 'a \<Rightarrow> bool) \<Rightarrow> 'op list \<Rightarrow> 'r list \<Rightarrow> 'a \<Rightarrow> 'a \<Rightarrow> bool" where
  "run_spec spec [] [] a a' \<longleftrightarrow> a' = a"
| "run_spec spec (c # cs) (r # rs) a a'' \<longleftrightarrow> (\<exists>a'. spec c r a a' \<and> run_spec spec cs rs a' a'')"
| "run_spec spec _ _ a a' \<longleftrightarrow> False"

locale data_refinement =
  fixes exec :: "'op \<Rightarrow> 's \<Rightarrow> 'f + 'r \<times> 's"
    and allowed :: "'op \<Rightarrow> bool"
    and inv :: "nat \<Rightarrow> 's \<Rightarrow> bool"
    and absf :: "'s \<Rightarrow> 'a"
    and spec :: "'op \<Rightarrow> 'r \<Rightarrow> 'a \<Rightarrow> 'a \<Rightarrow> bool"
  assumes exec_refines: "inv (Suc n) s \<Longrightarrow> allowed c \<Longrightarrow> \<exists>r s'. exec c s = Inr (r, s') \<and> inv n s' \<and> spec c r (absf s) (absf s')"
begin

lemma ops_refine:
  "inv (length cs + n) s \<Longrightarrow> list_all allowed cs \<Longrightarrow>
   \<exists>rs s'. run_ops exec cs s = Inr (rs, s') \<and> inv n s' \<and> run_spec spec cs rs (absf s) (absf s')"
proof (induction cs arbitrary: s)
  case Nil
  then show ?case by simp
next
  case (Cons c cs)
  then obtain r s1 where 1: "exec c s = Inr (r, s1)" "inv (length cs + n) s1" "spec c r (absf s) (absf s1)"
    using exec_refines [of "length cs + n" s c] by auto
  with Cons obtain rs s' where "run_ops exec cs s1 = Inr (rs, s')" "inv n s'" "run_spec spec cs rs (absf s1) (absf s')"
    by fastforce
  with 1 show ?case by (intro exI [of _ "r # rs"] exI [of _ s']) auto
qed

end

end
