(* ===== verification/Lnn_Map.thy ===== *)
theory Lnn_Map
  imports Adapter_Mem Data_Refinement "HOL-Library.Multiset"
begin

text \<open>
  The hash map of the bus centre, \<^verbatim>\<open>core/bus_center/utils/src/lnn_map.c\<close>: buckets of chained nodes, a BKDR hash, and growth
  when there are as many nodes as buckets.  Keys are C strings, lists of non-zero bytes.  A node owns its key and its value, which
  follow it in the same block.  Whether \<open>char\<close> is signed and the size of a pointer are arguments, as they depend on the
  platform.
\<close>

section \<open>Model\<close>

abbreviation HDF_MIN_MAP_SIZE :: nat where "HDF_MIN_MAP_SIZE \<equiv> 8"
abbreviation HDF_ENLARGE_FACTOR :: nat where "HDF_ENLARGE_FACTOR \<equiv> 2"
abbreviation HDF_MAP_KEY_MAX_SIZE :: nat where "HDF_MAP_KEY_MAX_SIZE \<equiv> 1000"
abbreviation HDF_MAP_VALUE_MAX_SIZE :: nat where "HDF_MAP_VALUE_MAX_SIZE \<equiv> 4000"
abbreviation SHIFT_ALIGN_BYTE :: nat where "SHIFT_ALIGN_BYTE \<equiv> 4"

record MapNode =
  mn_hash :: "32 word"
  mn_valueSize :: nat
  mn_key :: bytes
  mn_value :: bytes

record Map =
  mp_nodes :: "MapNode list list option"
  mp_nodeSize :: nat
  mp_bucketSize :: nat

record platform =
  pf_char :: "byte \<Rightarrow> 32 word"
  pf_pointer :: nat

definition MapHash :: "platform \<Rightarrow> bytes option \<Rightarrow> 32 word" where
  "MapHash pf key = (case key of None \<Rightarrow> 0 | Some key \<Rightarrow> foldl (\<lambda>hash c. hash * 131 + pf_char pf c) 0 (take (u32 (length key)) key) AND 0x7FFFFFFF)"

definition MapHashIdx :: "Map \<Rightarrow> 32 word \<Rightarrow> int" where
  "MapHashIdx mp hash = (if mp_bucketSize mp < 1 then - 1 else uint (hash AND (word_of_nat (mp_bucketSize mp) - 1)))"

text \<open>Access to a bucket: a null array or an index behind its end is a fault.\<close>

definition bucket :: "Map \<Rightarrow> int \<Rightarrow> fault + MapNode list" where
  "bucket mp idx =
     (case mp_nodes mp of None \<Rightarrow> Inl InvalidPointer
      | Some nodes \<Rightarrow> if nat idx < length nodes then Inr (nodes ! nat idx) else Inl OutOfRangeRead)"

definition put_bucket :: "Map \<Rightarrow> int \<Rightarrow> MapNode list \<Rightarrow> Map" where
  "put_bucket mp idx chain = mp\<lparr>mp_nodes := map_option (\<lambda>nodes. nodes[nat idx := chain]) (mp_nodes mp)\<rparr>"

definition MapAddNode :: "Map \<Rightarrow> MapNode \<Rightarrow> fault + Map" where
  "MapAddNode mp node =
     (let idx = MapHashIdx mp (mn_hash node)
      in if idx < 0 then Inr mp
         else case bucket mp idx of Inl f \<Rightarrow> Inl f | Inr chain \<Rightarrow> Inr (put_bucket mp idx (node # chain)))"

text \<open>The two loops that move the nodes to the new buckets.\<close>

fun readd :: "MapNode list \<Rightarrow> Map \<Rightarrow> fault + Map" where
  "readd [] mp = Inr mp"
| "readd (node # rest) mp = (case MapAddNode mp node of Inl f \<Rightarrow> Inl f | Inr mp \<Rightarrow> readd rest mp)"

fun rehash :: "nat list \<Rightarrow> MapNode list list \<Rightarrow> Map \<Rightarrow> fault + Map" where
  "rehash [] tmp mp = Inr mp"
| "rehash (i # js) tmp mp =
     (if i \<ge> length tmp then Inl OutOfRangeRead
      else case readd (tmp ! i) mp of Inl f \<Rightarrow> Inl f | Inr mp \<Rightarrow> rehash js tmp mp)"

definition MapResize :: "platform \<Rightarrow> bool \<Rightarrow> Map \<Rightarrow> nat \<Rightarrow> fault + int \<times> Map" where
  "MapResize pf ok mp sz =
     (if SoftBusCalloc ok (u32 (sz * pf_pointer pf)) = None then Inr (SOFTBUS_MEM_ERR, mp)
      else
        let mp' = mp\<lparr>mp_nodes := Some (replicate sz []), mp_bucketSize := sz\<rparr>
        in case mp_nodes mp of None \<Rightarrow> Inr (SOFTBUS_OK, mp')
           | Some tmp \<Rightarrow> map_sum id (Pair SOFTBUS_OK) (rehash [0..<mp_bucketSize mp] tmp mp'))"

definition MapCreateNode :: "platform \<Rightarrow> bool \<Rightarrow> bytes \<Rightarrow> 32 word \<Rightarrow> bytes \<Rightarrow> nat \<Rightarrow> fault + MapNode option" where
  "MapCreateNode pf ok key hash value valueSize =
     (let keySize = length key + 1; keySize = keySize + (SHIFT_ALIGN_BYTE - keySize mod SHIFT_ALIGN_BYTE)
      in if SoftBusCalloc ok (u32 (8 + 3 * pf_pointer pf + keySize + valueSize)) = None then Inr None
         else if \<not> memcpy_s_ok keySize (length key + 1) then Inr None
         else if \<not> memcpy_s_ok valueSize valueSize then Inr None
         else if length value < valueSize then Inl OutOfRangeRead
         else Inr (Some \<lparr>mn_hash = hash, mn_valueSize = valueSize, mn_key = key, mn_value = take valueSize value\<rparr>))"

text \<open>The search of \<open>LnnMapSet\<close>: it updates the node with the key, if there is one.\<close>

fun set_chain :: "32 word \<Rightarrow> bytes \<Rightarrow> bytes \<Rightarrow> nat \<Rightarrow> MapNode list \<Rightarrow> (fault + int \<times> MapNode list) option" where
  "set_chain hash key value valueSize [] = None"
| "set_chain hash key value valueSize (node # rest) =
     (if mn_hash node \<noteq> hash \<or> mn_key node \<noteq> key
      then map_option (map_sum id (\<lambda>(r, rest). (r, node # rest))) (set_chain hash key value valueSize rest)
      else if mn_valueSize node \<noteq> valueSize then Some (Inr (SOFTBUS_INVALID_PARAM, node # rest))
      else if \<not> memcpy_s_ok (mn_valueSize node) valueSize then Some (Inr (SOFTBUS_MEM_ERR, node # rest))
      else if length value < valueSize then Some (Inl OutOfRangeRead)
      else Some (Inr (SOFTBUS_OK, node\<lparr>mn_value := take valueSize value\<rparr> # rest)))"

text \<open>The part of \<open>LnnMapSet\<close> that adds a node; \<open>ok 0\<close> and \<open>ok 1\<close> are the allocations of the buckets and of the node.\<close>

definition set_new :: "platform \<Rightarrow> (nat \<Rightarrow> bool) \<Rightarrow> Map \<Rightarrow> bytes \<Rightarrow> 32 word \<Rightarrow> bytes \<Rightarrow> nat \<Rightarrow> fault + int \<times> Map" where
  "set_new pf ok mp key hash value valueSize =
     (case (if mp_nodeSize mp \<ge> mp_bucketSize mp
            then MapResize pf (ok 0) mp (if mp_bucketSize mp < HDF_MIN_MAP_SIZE then HDF_MIN_MAP_SIZE
                                          else u32 (mp_bucketSize mp * 2 ^ HDF_ENLARGE_FACTOR))
            else Inr (SOFTBUS_OK, mp)) of
        Inl f \<Rightarrow> Inl f
      | Inr (_, mp) \<Rightarrow>
          if mp_nodes mp = None then Inr (SOFTBUS_INVALID_PARAM, mp)
          else case MapCreateNode pf (ok 1) key hash value valueSize of
                 Inl f \<Rightarrow> Inl f
               | Inr None \<Rightarrow> Inr (SOFTBUS_INVALID_PARAM, mp)
               | Inr (Some node) \<Rightarrow>
                   map_sum id (\<lambda>mp. (SOFTBUS_OK, mp\<lparr>mp_nodeSize := u32 (mp_nodeSize mp + 1)\<rparr>)) (MapAddNode mp node))"

definition LnnMapSet ::
  "platform \<Rightarrow> (nat \<Rightarrow> bool) \<Rightarrow> bytes option \<Rightarrow> bytes option \<Rightarrow> nat \<Rightarrow> Map option \<Rightarrow> fault + int \<times> Map option" where
  "LnnMapSet pf ok key value valueSize mp =
     (case (mp, key, value) of
        (Some mp, Some key, Some value) \<Rightarrow>
          map_sum id (apsnd Some)
          (if valueSize = 0 then Inr (SOFTBUS_INVALID_PARAM, mp)
           else if valueSize > HDF_MAP_VALUE_MAX_SIZE \<or> length key > HDF_MAP_KEY_MAX_SIZE then Inr (SOFTBUS_INVALID_PARAM, mp)
           else
             let hash = MapHash pf (Some key)
             in if mp_nodeSize mp > 0 \<and> mp_nodes mp \<noteq> None then
                  let idx = MapHashIdx mp hash
                  in if idx < 0 then Inr (SOFTBUS_INVALID_PARAM, mp)
                     else case bucket mp idx of
                            Inl f \<Rightarrow> Inl f
                          | Inr chain \<Rightarrow>
                              (case set_chain hash key value valueSize chain of
                                 Some r \<Rightarrow> map_sum id (apsnd (put_bucket mp idx)) r
                               | None \<Rightarrow> set_new pf ok mp key hash value valueSize)
                else set_new pf ok mp key hash value valueSize)
      | _ \<Rightarrow> Inr (SOFTBUS_INVALID_PARAM, mp))"

fun get_chain :: "32 word \<Rightarrow> bytes \<Rightarrow> MapNode list \<Rightarrow> bytes option" where
  "get_chain hash key [] = None"
| "get_chain hash key (node # rest) =
     (if mn_hash node = hash \<and> mn_key node = key then Some (mn_value node) else get_chain hash key rest)"

definition LnnMapGet :: "platform \<Rightarrow> Map option \<Rightarrow> bytes option \<Rightarrow> fault + bytes option" where
  "LnnMapGet pf mp key =
     (case (mp, key) of
        (Some mp, Some key) \<Rightarrow>
          if mp_nodeSize mp = 0 \<or> mp_nodes mp = None then Inr None
          else
            let hash = MapHash pf (Some key); idx = MapHashIdx mp hash
            in if idx < 0 then Inr None else map_sum id (get_chain hash key) (bucket mp idx)
      | _ \<Rightarrow> Inr None)"

fun erase_chain :: "32 word \<Rightarrow> bytes \<Rightarrow> MapNode list \<Rightarrow> MapNode list option" where
  "erase_chain hash key [] = None"
| "erase_chain hash key (node # rest) =
     (if mn_hash node = hash \<and> mn_key node = key then Some rest else map_option ((#) node) (erase_chain hash key rest))"

definition LnnMapErase :: "platform \<Rightarrow> Map option \<Rightarrow> bytes option \<Rightarrow> fault + int \<times> Map option" where
  "LnnMapErase pf mp key =
     (case (mp, key) of
        (Some mp, Some key) \<Rightarrow>
          map_sum id (apsnd Some)
          (if mp_nodeSize mp = 0 \<or> mp_nodes mp = None then Inr (SOFTBUS_INVALID_PARAM, mp)
           else
             let hash = MapHash pf (Some key); idx = MapHashIdx mp hash
             in if idx < 0 then Inr (SOFTBUS_INVALID_PARAM, mp)
                else case bucket mp idx of
                       Inl f \<Rightarrow> Inl f
                     | Inr chain \<Rightarrow>
                         (case erase_chain hash key chain of
                            None \<Rightarrow> Inr (SOFTBUS_INVALID_PARAM, mp)
                          | Some chain \<Rightarrow> Inr (SOFTBUS_OK, (put_bucket mp idx chain)\<lparr>mp_nodeSize := u32_sub (mp_nodeSize mp) 1\<rparr>)))
      | _ \<Rightarrow> Inr (SOFTBUS_INVALID_PARAM, mp))"

definition MapGetSize :: "Map option \<Rightarrow> nat" where
  "MapGetSize mp = (case mp of None \<Rightarrow> 0 | Some mp \<Rightarrow> mp_nodeSize mp)"

definition LnnMapInit :: "Map option \<Rightarrow> Map option" where
  "LnnMapInit mp = map_option (\<lambda>_. \<lparr>mp_nodes = None, mp_nodeSize = 0, mp_bucketSize = 0\<rparr>) mp"

definition LnnMapDelete :: "Map option \<Rightarrow> Map option" where
  "LnnMapDelete mp =
     (case mp of None \<Rightarrow> None
      | Some m \<Rightarrow> if mp_nodes m = None then mp else Some \<lparr>mp_nodes = None, mp_nodeSize = 0, mp_bucketSize = 0\<rparr>)"

text \<open>
  The iterator.  Its node is the chain from that node on, empty before the first step; the map does not change while it is used.
\<close>

record MapIterator =
  it_node :: "MapNode list"
  it_nodeNum :: nat
  it_bucketNum :: nat
  it_map :: Map

definition LnnMapInitIterator :: "bool \<Rightarrow> Map option \<Rightarrow> MapIterator option" where
  "LnnMapInitIterator ok mp =
     (case mp of None \<Rightarrow> None
      | Some mp \<Rightarrow> if ok then Some \<lparr>it_node = [], it_nodeNum = 0, it_bucketNum = 0, it_map = mp\<rparr> else None)"

definition LnnMapHasNext :: "MapIterator \<Rightarrow> bool" where
  "LnnMapHasNext it \<longleftrightarrow> it_nodeNum it < mp_nodeSize (it_map it)"

fun next_bucket :: "MapNode list list \<Rightarrow> MapIterator \<Rightarrow> MapIterator" where
  "next_bucket [] it = it"
| "next_bucket (chain # rest) it =
     (let it = it\<lparr>it_bucketNum := it_bucketNum it + 1\<rparr>
      in case chain of [] \<Rightarrow> next_bucket rest it | _ # _ \<Rightarrow> it\<lparr>it_nodeNum := u32 (it_nodeNum it + 1), it_node := chain\<rparr>)"

definition LnnMapNext :: "MapIterator \<Rightarrow> fault + MapIterator" where
  "LnnMapNext it =
     (if LnnMapHasNext it then
        if it_node it \<noteq> [] \<and> tl (it_node it) \<noteq> []
        then Inr (it\<lparr>it_nodeNum := u32 (it_nodeNum it + 1), it_node := tl (it_node it)\<rparr>)
        else if it_bucketNum it < mp_bucketSize (it_map it) then
          (case mp_nodes (it_map it) of None \<Rightarrow> Inl InvalidPointer
           | Some nodes \<Rightarrow>
               if mp_bucketSize (it_map it) \<le> length nodes
               then Inr (next_bucket (drop (it_bucketNum it) (take (mp_bucketSize (it_map it)) nodes)) it)
               else Inl OutOfRangeRead)
        else Inr it
      else Inr it)"

text \<open>The loop clients write: while there is a next element, step and use the node.\<close>

partial_function (option) map_walk :: "MapIterator \<Rightarrow> (fault + MapNode list) option" where
  "map_walk it =
     (if \<not> LnnMapHasNext it then Some (Inr [])
      else case LnnMapNext it of
             Inl f \<Rightarrow> Some (Inl f)
           | Inr it \<Rightarrow>
               (case it_node it of
                  [] \<Rightarrow> Some (Inl InvalidPointer)
                | node # _ \<Rightarrow>
                    Option.bind (map_walk it) (\<lambda>r. Some (map_sum id ((#) node) r))))"

section \<open>Buckets\<close>

definition home :: "nat \<Rightarrow> MapNode \<Rightarrow> nat" where
  "home b n = unat (mn_hash n) mod b"

definition placed :: "MapNode list list \<Rightarrow> bool" where
  "placed ns \<longleftrightarrow> (\<forall>i < length ns. \<forall>n \<in> set (ns ! i). home (length ns) n = i)"

lemma MapHashIdx_pow:
  assumes "mp_bucketSize m = 2 ^ k" "k \<le> 31"
  shows "MapHashIdx m h = int (unat h mod 2 ^ k)"
proof -
  have "(word_of_nat (2 ^ k) :: 32 word) - 1 = mask k" by (simp add: mask_eq_exp_minus_1)
  then have "uint (h AND (word_of_nat (2 ^ k) - 1)) = uint (take_bit k h)" by (simp add: take_bit_eq_mask)
  also have "\<dots> = int (unat h mod 2 ^ k)" 
    unfolding unsigned_take_bit_eq by (simp add: take_bit_eq_mod zmod_int)
  finally show ?thesis using assms by (simp add: MapHashIdx_def)
qed

lemma concat_update:
  assumes "i < length ns"
  shows "mset (concat (ns[i := c])) + mset (ns ! i) = mset (concat ns) + mset c"
proof -
  have "ns[i := c] = take i ns @ c # drop (Suc i) ns" using assms by (simp add: upd_conv_take_nth_drop)
  moreover have "ns = take i ns @ ns ! i # drop (Suc i) ns" using assms by (simp add: id_take_nth_drop)
  then have "mset (concat ns) = mset (concat (take i ns @ ns ! i # drop (Suc i) ns))" by simp
  ultimately show ?thesis by simp
qed

lemma placed_update: "placed ns \<Longrightarrow> (\<And>n. n \<in> set c \<Longrightarrow> home (length ns) n = i) \<Longrightarrow> placed (ns[i := c])"
  unfolding placed_def by (metis length_list_update nth_list_update_eq nth_list_update_neq)

lemma placed_find:
  assumes "placed ns" "n \<in> set (concat ns)"
  shows "n \<in> set (ns ! home (length ns) n)"
proof -
  obtain c where "c \<in> set ns" "n \<in> set c" using assms(2) by auto
  then obtain i where "i < length ns" "n \<in> set (ns ! i)" by (auto simp: in_set_conv_nth)
  then show ?thesis using assms(1) by (simp add: placed_def)
qed

lemma MapAddNode_ok:
  assumes "mp_nodes m = Some ns" "length ns = mp_bucketSize m" "mp_bucketSize m = 2 ^ k" "k \<le> 31" "placed ns"
  shows "\<exists>ns'. MapAddNode m n = Inr (m\<lparr>mp_nodes := Some ns'\<rparr>) \<and> length ns' = length ns \<and> mset (concat ns') = add_mset n (mset (concat ns)) \<and> placed ns'"
proof -
  let ?i = "home (length ns) n"
  have i: "?i < length ns" using assms(2,3) by (simp add: home_def)
  have "MapHashIdx m (mn_hash n) = int ?i" using MapHashIdx_pow [OF assms(3,4)] assms(2,3) by (simp add: home_def)
  then have "MapAddNode m n = Inr (m\<lparr>mp_nodes := Some (ns[?i := n # ns ! ?i])\<rparr>)"
    using assms(1) i by (simp add: MapAddNode_def bucket_def put_bucket_def)
  moreover have "mset (concat (ns[?i := n # ns ! ?i])) = add_mset n (mset (concat ns))"
    using concat_update [OF i, of "n # ns ! ?i"] by simp
  moreover have "placed (ns[?i := n # ns ! ?i])" 
    using assms(5) i by (metis placed_def placed_update set_ConsD)
  ultimately show ?thesis by auto
qed

lemma readd_ok:
  assumes "mp_nodes m = Some ns" "length ns = mp_bucketSize m" "mp_bucketSize m = 2 ^ k" "k \<le> 31" "placed ns"
  shows "\<exists>ns'. readd xs m = Inr (m\<lparr>mp_nodes := Some ns'\<rparr>) \<and> length ns' = length ns \<and> mset (concat ns') = mset xs + mset (concat ns) \<and> placed ns'"
  using assms
proof (induction xs arbitrary: m ns)
  case Nil
  then show ?case by (intro exI [of _ ns]) simp
next
  case (Cons n xs)
  obtain ns1 where 1: "MapAddNode m n = Inr (m\<lparr>mp_nodes := Some ns1\<rparr>)" "length ns1 = length ns" "mset (concat ns1) = add_mset n (mset (concat ns))" "placed ns1"
    using MapAddNode_ok [OF Cons.prems] by blast
  from Cons.IH [of "m\<lparr>mp_nodes := Some ns1\<rparr>" ns1] 1 Cons.prems show ?case by auto
qed

lemma rehash_ok:
  assumes "mp_nodes m = Some ns" "length ns = mp_bucketSize m" "mp_bucketSize m = 2 ^ k" "k \<le> 31" "placed ns" "\<forall>i \<in> set js. i < length tmp"
  shows "\<exists>ns'. rehash js tmp m = Inr (m\<lparr>mp_nodes := Some ns'\<rparr>) \<and> length ns' = length ns \<and>
    mset (concat ns') = mset (concat (map ((!) tmp) js)) + mset (concat ns) \<and> placed ns'"
  using assms
proof (induction js arbitrary: m ns)
  case Nil
  then show ?case by (intro exI [of _ ns]) simp
next
  case (Cons i js)
  obtain ns1 where 1: "readd (tmp ! i) m = Inr (m\<lparr>mp_nodes := Some ns1\<rparr>)" "length ns1 = length ns"
      "mset (concat ns1) = mset (tmp ! i) + mset (concat ns)" "placed ns1"
    using readd_ok [OF Cons.prems(1-5)] by blast
  from Cons.IH [of "m\<lparr>mp_nodes := Some ns1\<rparr>" ns1] 1 Cons.prems show ?case by (auto simp: ac_simps)
qed

section \<open>The contents of a map\<close>

definition nodes_of :: "Map \<Rightarrow> MapNode list" where
  "nodes_of m = (case mp_nodes m of None \<Rightarrow> [] | Some ns \<Rightarrow> concat ns)"

definition tab :: "MapNode list \<Rightarrow> (bytes \<rightharpoonup> bytes)" where
  "tab xs = map_of (map (\<lambda>n. (mn_key n, mn_value n)) xs)"

definition map_inv :: "platform \<Rightarrow> Map \<Rightarrow> bool" where
  "map_inv pf m \<longleftrightarrow>
     mp_nodeSize m = length (nodes_of m) \<and> distinct (map mn_key (nodes_of m)) \<and>
     (\<forall>n \<in> set (nodes_of m). mn_hash n = MapHash pf (Some (mn_key n)) \<and> mn_valueSize n = length (mn_value n)) \<and>
     (case mp_nodes m of None \<Rightarrow> mp_bucketSize m = 0
      | Some ns \<Rightarrow> placed ns \<and> length ns = mp_bucketSize m \<and> (\<exists>k. 3 \<le> k \<and> k \<le> 27 \<and> mp_bucketSize m = 2 ^ k))"

lemma tab_simps [simp]: "tab [] = Map.empty" "tab (n # xs) = (tab xs)(mn_key n \<mapsto> mn_value n)"
  by (simp_all add: tab_def)

lemma tab_perm: "mset xs = mset ys \<Longrightarrow> distinct (map mn_key xs) \<Longrightarrow> tab xs = tab ys"
proof -
  assume a: "mset xs = mset ys" "distinct (map mn_key xs)"
  then have "distinct (map mn_key ys)" by (metis mset_eq_imp_distinct_iff mset_map)
  moreover have "set xs = set ys" using a(1) by (rule mset_eq_setD)

  ultimately show ?thesis using a(2) unfolding tab_def by (subst map_of_inject_set) (simp_all add: comp_def)
qed

lemma keys_perm: "mset xs = mset ys \<Longrightarrow> distinct (map mn_key xs) \<longleftrightarrow> distinct (map mn_key ys)"
  by (metis mset_eq_imp_distinct_iff mset_map)

lemma dom_tab: "dom (tab xs) = mn_key ` set xs"
  by (simp add: tab_def dom_map_of_conv_image_fst image_comp comp_def)

lemma tab_notin: "k \<notin> mn_key ` set xs \<Longrightarrow> (tab xs)(k := None) = tab xs"
  using dom_tab [of xs] by (auto intro!: ext)

lemma tab_card: "distinct (map mn_key xs) \<Longrightarrow> card (dom (tab xs)) = length xs"
  by (metis dom_tab distinct_card length_map set_map)

text \<open>The bucket of a key: where its node is split off, or nowhere.\<close>

lemma set_chain_miss: "\<forall>x \<in> set xs. mn_key x \<noteq> k \<Longrightarrow> set_chain h k v vs xs = None"
  by (induction xs) auto

lemma get_chain_miss: "\<forall>x \<in> set xs. mn_key x \<noteq> k \<Longrightarrow> get_chain h k xs = None"
  by (induction xs) auto

lemma erase_chain_miss: "\<forall>x \<in> set xs. mn_key x \<noteq> k \<Longrightarrow> erase_chain h k xs = None"
  by (induction xs) auto

lemma get_chain_hit: "\<forall>x \<in> set xs. mn_key x \<noteq> mn_key n \<Longrightarrow> get_chain (mn_hash n) (mn_key n) (xs @ n # ys) = Some (mn_value n)"
  by (induction xs) auto

lemma erase_chain_hit: "\<forall>x \<in> set xs. mn_key x \<noteq> mn_key n \<Longrightarrow> erase_chain (mn_hash n) (mn_key n) (xs @ n # ys) = Some (xs @ ys)"
  by (induction xs) auto

lemma set_chain_hit:
  assumes "\<forall>x \<in> set xs. mn_key x \<noteq> mn_key n" "vs \<le> length v" "0 < vs" "vs \<le> HDF_MAP_VALUE_MAX_SIZE"
  shows "set_chain (mn_hash n) (mn_key n) v vs (xs @ n # ys) =
    Some (Inr (if mn_valueSize n \<noteq> vs then (SOFTBUS_INVALID_PARAM, xs @ n # ys) else (SOFTBUS_OK, xs @ n\<lparr>mn_value := take vs v\<rparr> # ys)))"
  using assms by (induction xs) (auto simp: memcpy_s_ok_def SECUREC_MEM_MAX_LEN_def)

lemma map_bucket:
  fixes k :: bytes
  assumes inv: "map_inv pf m" and ns: "mp_nodes m = Some ns"
  defines "h \<equiv> MapHash pf (Some k)"
  obtains i where "MapHashIdx m h = int i" "i < length ns" "bucket m (int i) = Inr (ns ! i)"
    "k \<in> mn_key ` set (nodes_of m) \<Longrightarrow> \<exists>xs n ys. ns ! i = xs @ n # ys \<and> mn_key n = k \<and> mn_hash n = h \<and> (\<forall>x \<in> set xs. mn_key x \<noteq> k)"
    "k \<notin> mn_key ` set (nodes_of m) \<Longrightarrow> \<forall>x \<in> set (ns ! i). mn_key x \<noteq> k"
proof -
  obtain j where j: "j \<le> 27" "mp_bucketSize m = 2 ^ j" "length ns = 2 ^ j" "placed ns"
    using inv ns by (auto simp: map_inv_def)
  let ?i = "unat h mod 2 ^ j"
  have i: "?i < length ns" using j by simp
  have sub: "set (ns ! ?i) \<subseteq> set (nodes_of m)" using ns nth_mem [OF i] by (auto simp: nodes_of_def)
  have hv: "\<forall>n \<in> set (nodes_of m). mn_hash n = MapHash pf (Some (mn_key n))" using inv unfolding map_inv_def by blast
  have hit: "\<exists>xs n ys. ns ! ?i = xs @ n # ys \<and> mn_key n = k \<and> mn_hash n = h \<and> (\<forall>x \<in> set xs. mn_key x \<noteq> k)"
    if k: "k \<in> mn_key ` set (nodes_of m)"
  proof -
    obtain n where n: "n \<in> set (nodes_of m)" "mn_key n = k" using k by blast
    then have "home (length ns) n = ?i" using j hv unfolding home_def h_def by metis
    then have "n \<in> set (ns ! ?i)" using placed_find [OF j(4), of n] n(1) ns unfolding nodes_of_def by simp
    then have "\<exists>x \<in> set (ns ! ?i). mn_key x = k" using n(2) by blast
    from split_list_first_prop [OF this]
    obtain xs x ys where x: "ns ! ?i = xs @ x # ys" "mn_key x = k" "\<forall>y \<in> set xs. mn_key y \<noteq> k"
      by blast
    have "x \<in> set (nodes_of m)" using x(1) sub by auto
    then have "mn_hash x = h" using hv x(2) unfolding h_def by blast
    with x show ?thesis by blast
  qed
  have miss: "\<forall>x \<in> set (ns ! ?i). mn_key x \<noteq> k" if "k \<notin> mn_key ` set (nodes_of m)" using that sub by blast
  show thesis
  proof (rule that)
    show "MapHashIdx m h = int ?i" using MapHashIdx_pow [of m j h] j by simp
    show "bucket m (int ?i) = Inr (ns ! ?i)" using ns i by (simp add: bucket_def)
  qed (fact i hit miss)+
qed

lemma bucket_replaced:
  assumes "mp_nodes m = Some ns" "i < length ns" "mset (ns ! i) + A = mset c + B"
  shows "mset (nodes_of (put_bucket m (int i) c)) + B = mset (nodes_of m) + A"
proof -
  have "mset (concat (ns[i := c])) + mset (ns ! i) + A = mset (concat ns) + mset c + A"
    using concat_update [OF assms(2), of c] by simp
  then have "mset (concat (ns[i := c])) + B + mset c = mset (concat ns) + A + mset c"
    using assms(3) by (metis (no_types, lifting) add.assoc add.commute)
  then show ?thesis using assms(1) by (simp add: nodes_of_def put_bucket_def)
qed

definition node_ok :: "platform \<Rightarrow> MapNode \<Rightarrow> bool" where
  "node_ok pf n \<longleftrightarrow> mn_hash n = MapHash pf (Some (mn_key n)) \<and> mn_valueSize n = length (mn_value n)"

lemma home_value [simp]: "home b (n\<lparr>mn_value := v\<rparr>) = home b n"
  by (simp add: home_def)

lemma node_ok_value: "node_ok pf n \<Longrightarrow> length v = mn_valueSize n \<Longrightarrow> node_ok pf (n\<lparr>mn_value := v\<rparr>)"
  by (simp add: node_ok_def)

lemma map_inv_put:
  assumes "map_inv pf m" "mp_nodes m = Some ns" "i < length ns" "\<forall>n \<in> set c. home (length ns) n = i \<and> node_ok pf n"
    "distinct (map mn_key (nodes_of (put_bucket m (int i) c)))"
  shows "map_inv pf ((put_bucket m (int i) c)\<lparr>mp_nodeSize := length (nodes_of (put_bucket m (int i) c))\<rparr>)"
proof -
  have "set (concat (ns[i := c])) \<subseteq> set (concat ns) \<union> set c"
    using set_update_subset_insert [of ns i c] by auto
  moreover have "placed (ns[i := c])" using assms(1,2,4) by (intro placed_update) (auto simp: map_inv_def)
  ultimately show ?thesis using assms by (auto simp: map_inv_def nodes_of_def put_bucket_def node_ok_def)
qed

lemma map_hit:
  assumes "map_inv pf m" "mp_nodes m = Some ns" "i < length ns" "ns ! i = xs @ n # ys"
  obtains rest where "mset (nodes_of m) = mset (n # rest)" "mn_key n \<notin> mn_key ` set rest" "distinct (map mn_key rest)"
    "tab (nodes_of m) = (tab rest)(mn_key n \<mapsto> mn_value n)" "home (length ns) n = i" "node_ok pf n"
    "\<forall>x \<in> set xs \<union> set ys. home (length ns) x = i \<and> node_ok pf x"
proof -
  have sub: "set (ns ! i) \<subseteq> set (nodes_of m)" using assms(2) nth_mem [OF assms(3)] by (auto simp: nodes_of_def)
  let ?r = "remove1 n (nodes_of m)"
  have p: "mset (nodes_of m) = mset (n # ?r)" using sub assms(4) by auto
  have d: "distinct (map mn_key (nodes_of m))" using assms(1) by (simp add: map_inv_def)
  then have d': "distinct (map mn_key (n # ?r))" using keys_perm [OF p] by blast
  have all: "\<forall>x \<in> set (ns ! i). home (length ns) x = i \<and> node_ok pf x"
    using assms(1-3) sub by (auto simp: map_inv_def node_ok_def placed_def)
  show thesis
  proof (rule that [OF p])
    show "tab (nodes_of m) = (tab ?r)(mn_key n \<mapsto> mn_value n)" using tab_perm [OF p d] by simp
  qed (use d' all assms(4) in auto)
qed

lemma map_update:
  assumes "map_inv pf m" "mp_nodes m = Some ns" "i < length ns" "ns ! i = xs @ n # ys" "length v = mn_valueSize n"
  defines "m' \<equiv> put_bucket m (int i) (xs @ n\<lparr>mn_value := v\<rparr> # ys)"
  shows "map_inv pf m' \<and> mp_nodeSize m' = mp_nodeSize m \<and> tab (nodes_of m') = (tab (nodes_of m))(mn_key n \<mapsto> v)"
proof -
  obtain rest where r: "mset (nodes_of m) = mset (n # rest)" "mn_key n \<notin> mn_key ` set rest" "distinct (map mn_key rest)"
      "tab (nodes_of m) = (tab rest)(mn_key n \<mapsto> mn_value n)" "home (length ns) n = i" "node_ok pf n"
      "\<forall>x \<in> set xs \<union> set ys. home (length ns) x = i \<and> node_ok pf x"
    using map_hit [OF assms(1-4)] by metis
  let ?n = "n\<lparr>mn_value := v\<rparr>"
  have "mset (nodes_of m') + {#n#} = mset (nodes_of m) + {#?n#}"
    unfolding m'_def by (rule bucket_replaced [OF assms(2,3)]) (simp add: assms(4))
  then have p: "mset (nodes_of m') = mset (?n # rest)" using r(1) by simp
  have d: "distinct (map mn_key (nodes_of m'))" using keys_perm [OF p] r(2,3) by auto
  have "length (nodes_of m') = length (nodes_of m)" using p r(1) by (metis length_Cons size_mset)
  then have "m'\<lparr>mp_nodeSize := length (nodes_of m')\<rparr> = m'" using assms(1) by (simp add: m'_def put_bucket_def map_inv_def)
  moreover have "map_inv pf (m'\<lparr>mp_nodeSize := length (nodes_of m')\<rparr>)"
    unfolding m'_def by (rule map_inv_put [OF assms(1-3)]) (use d r(5-7) assms(5) in \<open>auto simp: m'_def node_ok_value\<close>)
  ultimately have "map_inv pf m'" by simp
  moreover have "tab (nodes_of m') = (tab (nodes_of m))(mn_key n \<mapsto> v)" using tab_perm [OF p d] r(4) by simp
  ultimately show ?thesis by (simp add: m'_def put_bucket_def)
qed

lemma map_remove:
  assumes "map_inv pf m" "mp_nodes m = Some ns" "i < length ns" "ns ! i = xs @ n # ys" "mp_nodeSize m < 2 ^ 32"
  defines "m' \<equiv> (put_bucket m (int i) (xs @ ys))\<lparr>mp_nodeSize := u32_sub (mp_nodeSize m) 1\<rparr>"
  shows "map_inv pf m' \<and> mp_nodeSize m = Suc (mp_nodeSize m') \<and> tab (nodes_of m') = (tab (nodes_of m))(mn_key n := None)"
proof -
  obtain rest where r: "mset (nodes_of m) = mset (n # rest)" "mn_key n \<notin> mn_key ` set rest" "distinct (map mn_key rest)"
      "tab (nodes_of m) = (tab rest)(mn_key n \<mapsto> mn_value n)" "home (length ns) n = i" "node_ok pf n"
      "\<forall>x \<in> set xs \<union> set ys. home (length ns) x = i \<and> node_ok pf x"
    using map_hit [OF assms(1-4)] by metis
  let ?m = "put_bucket m (int i) (xs @ ys)"
  have "mset (nodes_of ?m) + {#n#} = mset (nodes_of m) + {#}"
    by (rule bucket_replaced [OF assms(2,3)]) (simp add: assms(4))
  then have p: "mset (nodes_of ?m) = mset rest" using r(1) by simp
  have d: "distinct (map mn_key (nodes_of ?m))" using keys_perm [OF p] r(3) by simp
  have l: "mp_nodeSize m = Suc (length (nodes_of ?m))"
    using p r(1) assms(1) unfolding map_inv_def by (metis length_Cons size_mset)
  have "m' = ?m\<lparr>mp_nodeSize := length (nodes_of ?m)\<rparr>" using l assms(5) by (simp add: m'_def u32_sub_def)
  moreover have "map_inv pf (?m\<lparr>mp_nodeSize := length (nodes_of ?m)\<rparr>)"
    by (rule map_inv_put [OF assms(1-3)]) (use d r(7) in auto)
  moreover have "tab (nodes_of ?m) = (tab (nodes_of m))(mn_key n := None)"
    using tab_perm [OF p d] r(4) tab_notin [OF r(2)] by simp
  ultimately show ?thesis using l by (simp add: nodes_of_def)
qed

section \<open>Growth and insertion\<close>

lemma map_inv_perm:
  assumes "map_inv pf m" "mset (concat ns') = mset (nodes_of m)" "placed ns'" "length ns' = b" "b = 2 ^ k" "3 \<le> k" "k \<le> 27"
  shows "map_inv pf (m\<lparr>mp_nodes := Some ns', mp_bucketSize := b\<rparr>)"
proof -
  have "set (concat ns') = set (nodes_of m)" using assms(2) by (rule mset_eq_setD)
  moreover have "length (concat ns') = length (nodes_of m)" using assms(2) by (metis size_mset)
  moreover have "distinct (map mn_key (concat ns'))" using keys_perm [OF assms(2)] assms(1) by (simp add: map_inv_def)
  ultimately show ?thesis using assms unfolding map_inv_def by (auto simp: nodes_of_def simp del: set_concat length_concat map_concat)
qed

lemma bucket_block:
  assumes "SoftBusCalloc ok (u32 (2 ^ k * p)) \<noteq> None" "p = 4 \<or> p = 8" "k \<le> 29"
  shows "k \<le> 27"
proof (rule ccontr)
  assume "\<not> k \<le> 27"
  then consider "k = 28" | "k = 29" using assms(3) by linarith
  then show False using assms by cases (auto simp: SoftBusCalloc_Some MAX_MALLOC_SIZE_def u32_def)
qed

lemma MapResize_ok:
  assumes inv: "map_inv pf m" and p: "pf_pointer pf = 4 \<or> pf_pointer pf = 8" and k: "3 \<le> k" "k \<le> 29"
  shows "\<exists>r m'. MapResize pf ok m (2 ^ k) = Inr (r, m') \<and> map_inv pf m' \<and> mset (nodes_of m') = mset (nodes_of m) \<and>
    mp_nodeSize m' = mp_nodeSize m \<and> (mp_nodes m' = None \<longrightarrow> mp_nodes m = None \<and> (k = 3 \<longrightarrow> \<not> ok))"
proof (cases "SoftBusCalloc ok (u32 (2 ^ k * pf_pointer pf))")
  case None
  moreover have "SoftBusCalloc True (u32 (2 ^ 3 * pf_pointer pf)) \<noteq> None"
    using p by (auto simp: SoftBusCalloc_Some MAX_MALLOC_SIZE_def u32_def)
  ultimately show ?thesis using inv by (cases ok) (auto simp: MapResize_def)
next
  case (Some blk)
  then have k27: "k \<le> 27" using bucket_block [of ok k "pf_pointer pf"] p k by auto
  let ?m = "m\<lparr>mp_nodes := Some (replicate (2 ^ k) []), mp_bucketSize := 2 ^ k\<rparr>"
  have pl: "placed (replicate (2 ^ k) [])" by (simp add: placed_def)
  show ?thesis
  proof (cases "mp_nodes m")
    case None
    then have "map_inv pf ?m" using map_inv_perm [OF inv _ pl _ refl k(1) k27] by (simp add: nodes_of_def)
    then show ?thesis using None Some by (auto simp: MapResize_def nodes_of_def)
  next
    case ns: (Some ns)
    then have len: "mp_bucketSize m = length ns" using inv by (simp add: map_inv_def)
    have "concat (map ((!) ns) [0..<length ns]) = concat ns" by (simp add: map_nth)
    then obtain ns' where ns': "rehash [0..<length ns] ns ?m = Inr (?m\<lparr>mp_nodes := Some ns'\<rparr>)" "length ns' = 2 ^ k"
        "mset (concat ns') = mset (nodes_of m)" "placed ns'"
      using rehash_ok [of ?m "replicate (2 ^ k) []" k "[0..<length ns]" ns] k27 pl ns by (auto simp: nodes_of_def)
    have "map_inv pf (m\<lparr>mp_nodes := Some ns', mp_bucketSize := 2 ^ k\<rparr>)" using map_inv_perm [OF inv ns'(3,4,2) refl k(1) k27] .
    moreover have "MapResize pf ok m (2 ^ k) = Inr (SOFTBUS_OK, m\<lparr>mp_nodes := Some ns', mp_bucketSize := 2 ^ k\<rparr>)"
      using ns'(1) ns len Some by (simp add: MapResize_def)
    ultimately show ?thesis using ns'(3) by (simp add: nodes_of_def)
  qed
qed

lemma map_insert:
  assumes inv: "map_inv pf m" and ns: "mp_nodes m = Some ns" and n: "node_ok pf n" "mn_key n \<notin> mn_key ` set (nodes_of m)"
    and sz: "mp_nodeSize m < 2 ^ 32 - 1"
  shows "\<exists>m'. map_sum id (\<lambda>mp. (SOFTBUS_OK, mp\<lparr>mp_nodeSize := u32 (mp_nodeSize mp + 1)\<rparr>)) (MapAddNode m n) = Inr (SOFTBUS_OK, m') \<and>
    map_inv pf m' \<and> mp_nodeSize m' = Suc (mp_nodeSize m) \<and> tab (nodes_of m') = (tab (nodes_of m))(mn_key n \<mapsto> mn_value n)"
proof -
  obtain k where k: "length ns = mp_bucketSize m" "mp_bucketSize m = 2 ^ k" "k \<le> 31" "placed ns" "3 \<le> k" "k \<le> 27"
    using inv ns by (auto simp: map_inv_def)
  obtain ns' where a: "MapAddNode m n = Inr (m\<lparr>mp_nodes := Some ns'\<rparr>)" "length ns' = length ns"
      "mset (concat ns') = add_mset n (mset (concat ns))" "placed ns'"
    using MapAddNode_ok [OF ns k(1-4)] by blast
  let ?m = "m\<lparr>mp_nodes := Some ns', mp_nodeSize := Suc (mp_nodeSize m)\<rparr>"
  have p: "mset (nodes_of ?m) = mset (n # nodes_of m)" using a(3) ns by (simp add: nodes_of_def)
  have d: "distinct (map mn_key (nodes_of ?m))" using keys_perm [OF p] inv n(2) by (auto simp: map_inv_def)
  have s: "set (nodes_of ?m) = insert n (set (nodes_of m))" using mset_eq_setD [OF p] by simp
  have "length (nodes_of ?m) = Suc (length (nodes_of m))" using p by (metis length_Cons size_mset)
  then have "map_inv pf ?m" using inv d s k a(2,4) n(1) unfolding map_inv_def node_ok_def by auto
  moreover have "tab (nodes_of ?m) = (tab (nodes_of m))(mn_key n \<mapsto> mn_value n)" using tab_perm [OF p d] by simp
  ultimately show ?thesis using a(1) sz by (intro exI [of _ ?m]) (simp add: u32_def)
qed

lemma MapCreateNode_ok:
  assumes "pf_pointer pf = 4 \<or> pf_pointer pf = 8" "length key \<le> HDF_MAP_KEY_MAX_SIZE" "0 < vs" "vs \<le> HDF_MAP_VALUE_MAX_SIZE" "vs \<le> length v"
  shows "MapCreateNode pf ok key h v vs =
    Inr (if ok then Some \<lparr>mn_hash = h, mn_valueSize = vs, mn_key = key, mn_value = take vs v\<rparr> else None)"
proof -
  let ?k = "length key + 1 + (SHIFT_ALIGN_BYTE - (length key + 1) mod SHIFT_ALIGN_BYTE)"
  have k: "length key + 1 \<le> ?k" "?k \<le> 1005" using assms(2) by auto
  have s: "8 + 3 * pf_pointer pf + ?k + vs \<le> 6000" using assms(1,4) k(2) by auto
  then have "8 + 3 * pf_pointer pf + ?k + vs \<le> MAX_MALLOC_SIZE" by (simp add: MAX_MALLOC_SIZE_def)
  then have "SoftBusCalloc ok (8 + 3 * pf_pointer pf + ?k + vs) = None \<longleftrightarrow> \<not> ok"
    using SoftBusCalloc_True [of "8 + 3 * pf_pointer pf + ?k + vs"] assms(3) by (cases ok) (auto simp: SoftBusCalloc_def SoftBusMalloc_def)
  moreover have "u32 (8 + 3 * pf_pointer pf + ?k + vs) = 8 + 3 * pf_pointer pf + ?k + vs" using s unfolding u32_def by (intro mod_less) linarith
  moreover have "memcpy_s_ok ?k (length key + 1)" "memcpy_s_ok vs vs"
    using k assms(3,4) by (auto simp: memcpy_s_ok_def SECUREC_MEM_MAX_LEN_def)
  ultimately show ?thesis using assms(5) unfolding MapCreateNode_def Let_def by (simp only: if_False if_True not_le not_less simp_thms) simp
qed

lemma set_new_ok:
  assumes inv: "map_inv pf m" and p: "pf_pointer pf = 4 \<or> pf_pointer pf = 8"
    and v: "length key \<le> HDF_MAP_KEY_MAX_SIZE" "0 < vs" "vs \<le> HDF_MAP_VALUE_MAX_SIZE" "vs \<le> length v"
    and k: "key \<notin> mn_key ` set (nodes_of m)" and sz: "mp_nodeSize m < 2 ^ 32 - 1"
  shows "\<exists>r m'. set_new pf ok m key (MapHash pf (Some key)) v vs = Inr (r, m') \<and> map_inv pf m' \<and>
    (if r = SOFTBUS_OK then mp_nodeSize m' = Suc (mp_nodeSize m) \<and> tab (nodes_of m') = (tab (nodes_of m))(key \<mapsto> take vs v)
     else r = SOFTBUS_INVALID_PARAM \<and> \<not> (ok 0 \<and> ok 1) \<and> mp_nodeSize m' = mp_nodeSize m \<and> tab (nodes_of m') = tab (nodes_of m))"
proof -
  let ?sz = "if mp_bucketSize m < HDF_MIN_MAP_SIZE then HDF_MIN_MAP_SIZE else u32 (mp_bucketSize m * 2 ^ HDF_ENLARGE_FACTOR)"
  let ?grow = "if mp_nodeSize m \<ge> mp_bucketSize m then MapResize pf (ok 0) m ?sz else Inr (SOFTBUS_OK, m)"
  obtain r m1 where g: "?grow = Inr (r, m1)" "map_inv pf m1" "mset (nodes_of m1) = mset (nodes_of m)" "mp_nodeSize m1 = mp_nodeSize m"
      "mp_nodes m1 = None \<longrightarrow> \<not> ok 0"
  proof (cases "mp_nodes m")
    case None
    then have "?grow = MapResize pf (ok 0) m (2 ^ 3)" using inv by (simp add: map_inv_def)
    then show ?thesis using MapResize_ok [OF inv p, of 3 "ok 0"] that by auto
  next
    case (Some ns)
    then obtain j where j: "mp_bucketSize m = 2 ^ j" "3 \<le> j" "j \<le> 27" using inv by (auto simp: map_inv_def)
    have "(2::nat) ^ 3 \<le> 2 ^ j" "(2::nat) ^ (j + 2) \<le> 2 ^ 29"
      using power_increasing [of 3 j "2::nat"] power_increasing [of "j + 2" 29 "2::nat"] j by simp_all
    then have "?sz = 2 ^ (j + 2)" using j by (auto simp: u32_def power_add)
    then show ?thesis using MapResize_ok [OF inv p, of "j + 2" "ok 0"] that Some j inv
      by (cases "mp_nodeSize m \<ge> mp_bucketSize m") auto
  qed
  have dst: "distinct (map mn_key (nodes_of m))" "distinct (map mn_key (nodes_of m1))" using inv g(2) by (simp_all add: map_inv_def)
  have tab1: "tab (nodes_of m1) = tab (nodes_of m)" using tab_perm [OF g(3)] dst by simp
  have k1: "key \<notin> mn_key ` set (nodes_of m1)" using k mset_eq_setD [OF g(3)] by simp
  note def = set_new_def [of pf ok m key "MapHash pf (Some key)" v vs, unfolded g(1) sum.case prod.case MapCreateNode_ok [OF p v]]
  show ?thesis
  proof (cases "mp_nodes m1 = None \<or> \<not> ok 1")
    case True
    then show ?thesis using g tab1 by (auto simp: def)
  next
    case False
    let ?n = "\<lparr>mn_hash = MapHash pf (Some key), mn_valueSize = vs, mn_key = key, mn_value = take vs v\<rparr>"
    obtain ns where "mp_nodes m1 = Some ns" using False by auto
    then show ?thesis using map_insert [OF g(2), of ns ?n] False k1 sz g(4) tab1 v(4) by (auto simp: def node_ok_def)
  qed
qed

section \<open>The operations\<close>

datatype map_op =
  MSet "nat \<Rightarrow> bool" "bytes option" "bytes option" nat
| MGet "bytes option"
| MErase "bytes option"
| MSize
| MDelete

datatype map_result = Code int | Value "bytes option" | Count nat | Unit

definition map_exec :: "platform \<Rightarrow> map_op \<Rightarrow> Map \<Rightarrow> fault + map_result \<times> Map" where
  "map_exec pf c m =
     (case c of
        MSet ok key v vs \<Rightarrow> map_sum id (map_prod Code the) (LnnMapSet pf ok key v vs (Some m))
      | MGet key \<Rightarrow> map_sum id (\<lambda>v. (Value v, m)) (LnnMapGet pf (Some m) key)
      | MErase key \<Rightarrow> map_sum id (map_prod Code the) (LnnMapErase pf (Some m) key)
      | MSize \<Rightarrow> Inr (Count (MapGetSize (Some m)), m)
      | MDelete \<Rightarrow> Inr (Unit, the (LnnMapDelete (Some m))))"

text \<open>The caller's part: the value is at least as long as the size that is passed.\<close>

definition map_allowed :: "map_op \<Rightarrow> bool" where
  "map_allowed c \<longleftrightarrow> (case c of MSet ok key (Some v) vs \<Rightarrow> vs \<le> length v | _ \<Rightarrow> True)"

text \<open>
  What the operations mean for a finite map from keys to values.  A value is only replaced by one of the same size; an insertion
  fails only when an allocation fails.
\<close>

fun map_spec :: "map_op \<Rightarrow> map_result \<Rightarrow> (bytes \<rightharpoonup> bytes) \<Rightarrow> (bytes \<rightharpoonup> bytes) \<Rightarrow> bool" where
  "map_spec (MSet ok (Some key) (Some v) vs) r t t' \<longleftrightarrow>
     (if vs = 0 \<or> vs > HDF_MAP_VALUE_MAX_SIZE \<or> length key > HDF_MAP_KEY_MAX_SIZE then r = Code SOFTBUS_INVALID_PARAM \<and> t' = t
      else case t key of
             Some old \<Rightarrow> if length old = vs then r = Code SOFTBUS_OK \<and> t' = t(key \<mapsto> take vs v) else r = Code SOFTBUS_INVALID_PARAM \<and> t' = t
           | None \<Rightarrow> if r = Code SOFTBUS_OK then t' = t(key \<mapsto> take vs v)
                     else r = Code SOFTBUS_INVALID_PARAM \<and> \<not> (ok 0 \<and> ok 1) \<and> t' = t)"
| "map_spec (MSet ok _ _ vs) r t t' \<longleftrightarrow> r = Code SOFTBUS_INVALID_PARAM \<and> t' = t"
| "map_spec (MGet key) r t t' \<longleftrightarrow> r = Value (Option.bind key t) \<and> t' = t"
| "map_spec (MErase None) r t t' \<longleftrightarrow> r = Code SOFTBUS_INVALID_PARAM \<and> t' = t"
| "map_spec (MErase (Some key)) r t t' \<longleftrightarrow>
     (if t key = None then r = Code SOFTBUS_INVALID_PARAM \<and> t' = t else r = Code SOFTBUS_OK \<and> t' = t(key := None))"
| "map_spec MSize r t t' \<longleftrightarrow> r = Count (card (dom t)) \<and> t' = t"
| "map_spec MDelete r t t' \<longleftrightarrow> r = Unit \<and> t' = Map.empty"

definition map_room :: "platform \<Rightarrow> nat \<Rightarrow> Map \<Rightarrow> bool" where
  "map_room pf n m \<longleftrightarrow> (pf_pointer pf = 4 \<or> pf_pointer pf = 8) \<and> map_inv pf m \<and> mp_nodeSize m + n < 2 ^ 32"

abbreviation contents :: "Map \<Rightarrow> (bytes \<rightharpoonup> bytes)" where "contents m \<equiv> tab (nodes_of m)"

lemma contents_None: "contents m k = None \<longleftrightarrow> k \<notin> mn_key ` set (nodes_of m)"
  by (metis dom_tab domIff)

lemma map_empty: "map_inv pf m \<Longrightarrow> mp_nodeSize m = 0 \<or> mp_nodes m = None \<Longrightarrow> nodes_of m = []"
  by (auto simp: map_inv_def nodes_of_def)

lemma map_room_le: "map_inv pf m' \<Longrightarrow> mp_nodeSize m' \<le> Suc (mp_nodeSize m) \<Longrightarrow> map_room pf (Suc n) m \<Longrightarrow> map_room pf n m'"
  by (simp add: map_room_def)

text \<open>Looking for a key: there are no nodes, its bucket has the node, or its bucket has no such node.\<close>

lemma map_find:
  fixes k :: bytes
  assumes inv: "map_inv pf m"
  defines "h \<equiv> MapHash pf (Some k)"
  obtains (empty) "mp_nodeSize m = 0 \<or> mp_nodes m = None" "nodes_of m = []"
  | (hit) ns i xs n ys where "mp_nodes m = Some ns" "mp_nodeSize m \<noteq> 0" "MapHashIdx m h = int i" "i < length ns"
      "bucket m (int i) = Inr (ns ! i)" "ns ! i = xs @ n # ys" "mn_key n = k" "mn_hash n = h" "\<forall>x \<in> set xs. mn_key x \<noteq> k"
      "contents m k = Some (mn_value n)" "mn_valueSize n = length (mn_value n)"
  | (miss) ns i where "mp_nodes m = Some ns" "mp_nodeSize m \<noteq> 0" "MapHashIdx m h = int i" "i < length ns"
      "bucket m (int i) = Inr (ns ! i)" "\<forall>x \<in> set (ns ! i). mn_key x \<noteq> k" "contents m k = None"
proof (cases "mp_nodeSize m = 0 \<or> mp_nodes m = None")
  case True
  then show ?thesis using map_empty [OF inv] empty by blast
next
  case False
  then obtain ns where ns: "mp_nodes m = Some ns" "mp_nodeSize m \<noteq> 0" by auto
  obtain i where i: "MapHashIdx m h = int i" "i < length ns" "bucket m (int i) = Inr (ns ! i)"
      "k \<in> mn_key ` set (nodes_of m) \<Longrightarrow> \<exists>xs n ys. ns ! i = xs @ n # ys \<and> mn_key n = k \<and> mn_hash n = h \<and> (\<forall>x \<in> set xs. mn_key x \<noteq> k)"
      "k \<notin> mn_key ` set (nodes_of m) \<Longrightarrow> \<forall>x \<in> set (ns ! i). mn_key x \<noteq> k"
    using map_bucket [OF inv ns(1), of k] unfolding h_def by metis
  show ?thesis
  proof (cases "k \<in> mn_key ` set (nodes_of m)")
    case True
    then obtain xs n ys where x: "ns ! i = xs @ n # ys" "mn_key n = k" "mn_hash n = h" "\<forall>x \<in> set xs. mn_key x \<noteq> k"
      using i(4) by blast
    have "contents m k = Some (mn_value n)" "node_ok pf n"
      using map_hit [OF inv ns(1) i(2) x(1)] x(2) by (metis fun_upd_same)+
    then show ?thesis using hit [OF ns i(1-3) x] unfolding node_ok_def by blast
  next
    case False
    then have "contents m k = None" using contents_None by metis
    with i(5) [OF False] show ?thesis using miss [OF ns i(1-3)] by blast
  qed
qed

lemma LnnMapGet_ok:
  assumes "map_inv pf m"
  shows "LnnMapGet pf (Some m) (Some k) = Inr (contents m k)"
  using assms
proof (cases rule: map_find [where k = k])
  case empty
  then show ?thesis by (simp add: LnnMapGet_def)
next
  case (hit ns i xs n ys)
  have "get_chain (MapHash pf (Some k)) k (ns ! i) = contents m k" using get_chain_hit [of xs n ys] hit by simp
  with hit(1-3,5) show ?thesis by (simp add: LnnMapGet_def)
next
  case (miss ns i)
  with get_chain_miss [OF miss(6)] show ?thesis by (simp add: LnnMapGet_def)
qed

lemma LnnMapErase_ok:
  assumes "map_inv pf m" "mp_nodeSize m < 2 ^ 32"
  shows "\<exists>r m'. LnnMapErase pf (Some m) (Some k) = Inr (r, Some m') \<and> map_inv pf m' \<and> mp_nodeSize m' \<le> mp_nodeSize m \<and>
    map_spec (MErase (Some k)) (Code r) (contents m) (contents m')"
  using assms(1)
proof (cases rule: map_find [where k = k])
  case empty
  then show ?thesis using assms by (simp add: LnnMapErase_def)
next
  case (hit ns i xs n ys)
  let ?m = "(put_bucket m (int i) (xs @ ys))\<lparr>mp_nodeSize := u32_sub (mp_nodeSize m) 1\<rparr>"
  have "erase_chain (MapHash pf (Some k)) k (ns ! i) = Some (xs @ ys)" using erase_chain_hit [of xs n ys] hit by simp
  then have "LnnMapErase pf (Some m) (Some k) = Inr (SOFTBUS_OK, Some ?m)"
    using hit(1-3,5) by (simp add: LnnMapErase_def)
  moreover have "map_spec (MErase (Some k)) (Code SOFTBUS_OK) (contents m) (contents ?m)"
    using map_remove [OF assms(1) hit(1,4,6) assms(2)] hit(7,10) by simp
  ultimately show ?thesis using map_remove [OF assms(1) hit(1,4,6) assms(2)] by simp
next
  case (miss ns i)
  then show ?thesis using erase_chain_miss [OF miss(6)] assms by (simp add: LnnMapErase_def)
qed

lemma LnnMapSet_ok:
  assumes room: "map_room pf (Suc n) m" and v: "vs \<le> length v"
  shows "\<exists>r m'. LnnMapSet pf ok (Some key) (Some v) vs (Some m) = Inr (r, Some m') \<and> map_inv pf m' \<and> mp_nodeSize m' \<le> Suc (mp_nodeSize m) \<and>
    map_spec (MSet ok (Some key) (Some v) vs) (Code r) (contents m) (contents m')"
proof (cases "vs = 0 \<or> vs > HDF_MAP_VALUE_MAX_SIZE \<or> length key > HDF_MAP_KEY_MAX_SIZE")
  case True
  then show ?thesis using room by (auto simp: LnnMapSet_def map_room_def)
next
  case False
  then have vs: "length key \<le> HDF_MAP_KEY_MAX_SIZE" "0 < vs" "vs \<le> HDF_MAP_VALUE_MAX_SIZE" by auto
  have inv: "map_inv pf m" and p: "pf_pointer pf = 4 \<or> pf_pointer pf = 8" and sz: "mp_nodeSize m < 2 ^ 32 - 1"
    using room by (auto simp: map_room_def)
  have new: ?thesis if c: "contents m key = None"
    and e: "LnnMapSet pf ok (Some key) (Some v) vs (Some m) = map_sum id (apsnd Some) (set_new pf ok m key (MapHash pf (Some key)) v vs)"
  proof -
    obtain r m' where n: "set_new pf ok m key (MapHash pf (Some key)) v vs = Inr (r, m')" "map_inv pf m'"
        "if r = SOFTBUS_OK then mp_nodeSize m' = Suc (mp_nodeSize m) \<and> contents m' = (contents m)(key \<mapsto> take vs v)
         else r = SOFTBUS_INVALID_PARAM \<and> \<not> (ok 0 \<and> ok 1) \<and> mp_nodeSize m' = mp_nodeSize m \<and> contents m' = contents m"
      using set_new_ok [OF inv p vs v _ sz, of ok] c contents_None [of m key] by blast
    show ?thesis by (rule exI [of _ r], rule exI [of _ m']) (use n e c False in \<open>auto split: if_splits\<close>)
  qed
  show ?thesis
    using inv
  proof (cases rule: map_find [where k = key])
    case empty
    then show ?thesis using vs by (intro new) (auto simp: LnnMapSet_def)
  next
    case (hit ns i xs x ys)
    have "put_bucket m (int i) (ns ! i) = m" using hit(1) by (cases m) (simp add: put_bucket_def)
    then show ?thesis
      using hit set_chain_hit [of xs x vs v ys] vs v inv map_update [OF inv hit(1,4,6), of "take vs v"] by (auto simp: LnnMapSet_def)
  next
    case (miss ns i)
    then show ?thesis using vs set_chain_miss [OF miss(6)] by (intro new) (auto simp: LnnMapSet_def)
  qed
qed

lemma map_exec_ok:
  assumes room: "map_room pf (Suc n) m" and c: "map_allowed c"
  shows "\<exists>r m'. map_exec pf c m = Inr (r, m') \<and> map_room pf n m' \<and> map_spec c r (contents m) (contents m')"
proof -
  have inv: "map_inv pf m" and sz: "mp_nodeSize m < 2 ^ 32" using room by (auto simp: map_room_def)
  show ?thesis
  proof (cases c)
    case (MSet ok key v vs)
    show ?thesis
    proof (cases "key = None \<or> v = None")
      case True
      then show ?thesis using MSet map_room_le [OF inv _ room] by (cases key; cases v) (auto simp: map_exec_def LnnMapSet_def)
    next
      case False
      then obtain k w where kw: "key = Some k" "v = Some w" by auto
      then show ?thesis using LnnMapSet_ok [OF room, of vs w ok k] map_room_le [OF _ _ room] MSet c
        by (auto simp: map_exec_def map_allowed_def simp del: map_spec.simps)
    qed
  next
    case (MGet key)
    then show ?thesis using LnnMapGet_ok [OF inv] map_room_le [OF inv _ room] by (cases key) (auto simp: map_exec_def LnnMapGet_def)
  next
    case (MErase key)
    show ?thesis
    proof (cases key)
      case None
      then show ?thesis using MErase map_room_le [OF inv _ room] by (simp add: map_exec_def LnnMapErase_def)
    next
      case (Some k)
      obtain r m' where e: "LnnMapErase pf (Some m) (Some k) = Inr (r, Some m')" "map_inv pf m'" "mp_nodeSize m' \<le> mp_nodeSize m"
          "map_spec (MErase (Some k)) (Code r) (contents m) (contents m')"
        using LnnMapErase_ok [OF inv sz, of k] by blast
      then have "map_room pf n m'" using map_room_le [OF e(2) _ room] by simp
      then show ?thesis using MErase Some e(1,4) by (auto simp: map_exec_def simp del: map_spec.simps)
    qed
  next
    case MSize
    then show ?thesis using tab_card [of "nodes_of m"] inv map_room_le [OF inv _ room] by (simp add: map_exec_def map_inv_def MapGetSize_def)
  next
    case MDelete
    then show ?thesis using room by (auto simp: map_exec_def LnnMapDelete_def map_room_def map_inv_def nodes_of_def split: option.splits)
  qed
qed

interpretation lnn_store: data_refinement "map_exec pf" map_allowed "map_room pf" contents map_spec for pf
  by unfold_locales (rule map_exec_ok)

text \<open>
  C14: The bus-centre map implements a finite map.  From \<open>LnnMapInit\<close>, any sequence of fewer than 2^32 calls of set, get, erase, size
  and delete runs without touching memory outside its buckets, and every result is the one of a map from keys to values: get returns
  the last value set and not erased, the size is the number of keys, an insertion fails only when an allocation does, and a value
  keeps its size.  Growing the bucket array on the way does not lose or duplicate an entry.
\<close>

theorem lnn_map_refines:
  assumes "pf_pointer pf = 4 \<or> pf_pointer pf = 8" "list_all map_allowed cs" "length cs < 2 ^ 32"
  shows "\<exists>rs m. run_ops (map_exec pf) cs (the (LnnMapInit (Some junk))) = Inr (rs, m) \<and> map_inv pf m \<and>
    run_spec map_spec cs rs Map.empty (contents m)"
proof -
  let ?m = "the (LnnMapInit (Some junk))"
  have "map_room pf (length cs + 0) ?m" using assms by (auto simp: map_room_def map_inv_def nodes_of_def LnnMapInit_def)
  from lnn_store.ops_refine [OF this assms(2)] show ?thesis by (auto simp: map_room_def nodes_of_def LnnMapInit_def)
qed

theorem lnn_map_refines_witness:
  "\<exists>rs m. run_ops (map_exec \<lparr>pf_char = ucast, pf_pointer = 8\<rparr>)
       [MSet (\<lambda>_. True) (Some [65]) (Some [1, 2]) 2, MSet (\<lambda>_. True) (Some [65]) (Some [3]) 1, MGet (Some [65]), MErase (Some [66]), MSize]
       (the (LnnMapInit (Some \<lparr>mp_nodes = None, mp_nodeSize = 7, mp_bucketSize = 7\<rparr>))) = Inr (rs, m) \<and>
     rs = [Code SOFTBUS_OK, Code SOFTBUS_INVALID_PARAM, Value (Some [1, 2]), Code SOFTBUS_INVALID_PARAM, Count 1]"
proof -
  let ?cs = "[MSet (\<lambda>_. True) (Some [65]) (Some [1, 2]) 2, MSet (\<lambda>_. True) (Some [65]) (Some [3]) 1, MGet (Some [65]), MErase (Some [66]), MSize]"
  obtain rs m where "run_ops (map_exec \<lparr>pf_char = ucast, pf_pointer = 8\<rparr>) ?cs
      (the (LnnMapInit (Some \<lparr>mp_nodes = None, mp_nodeSize = 7, mp_bucketSize = 7\<rparr>))) = Inr (rs, m)"
      "run_spec map_spec ?cs rs Map.empty (contents m)"
    using lnn_map_refines [of "\<lparr>pf_char = ucast, pf_pointer = 8\<rparr>" ?cs "\<lparr>mp_nodes = None, mp_nodeSize = 7, mp_bucketSize = 7\<rparr>"]
    by (auto simp: map_allowed_def)
  then show ?thesis
    by (auto simp: neq_Nil_conv split: if_splits elim!: run_spec.elims)
qed

section \<open>The iterator\<close>

lemma next_bucket_ok:
  "concat cs \<noteq> [] \<Longrightarrow>
   \<exists>d c. next_bucket cs it = it\<lparr>it_bucketNum := it_bucketNum it + d, it_nodeNum := u32 (it_nodeNum it + 1), it_node := c\<rparr> \<and>
     c \<noteq> [] \<and> d \<le> length cs \<and> concat cs = c @ concat (drop d cs)"
proof (induction cs arbitrary: it)
  case Nil
  then show ?case by simp
next
  case (Cons c cs)
  show ?case
  proof (cases c)
    case Nil
    then obtain d x where "next_bucket cs (it\<lparr>it_bucketNum := it_bucketNum it + 1\<rparr>) =
        it\<lparr>it_bucketNum := it_bucketNum it + 1 + d, it_nodeNum := u32 (it_nodeNum it + 1), it_node := x\<rparr>"
        "x \<noteq> []" "d \<le> length cs" "concat cs = x @ concat (drop d cs)"
      using Cons.IH [of "it\<lparr>it_bucketNum := it_bucketNum it + 1\<rparr>"] Cons.prems by auto
    then show ?thesis using Nil by (intro exI [of _ "Suc d"] exI [of _ x]) simp
  next
    case (Cons n ns)
    then show ?thesis by (intro exI [of _ 1] exI [of _ c]) simp
  qed
qed

lemma map_walk_rest:
  assumes "mp_nodes (it_map it) = Some ns" "length ns = mp_bucketSize (it_map it)" "mp_nodeSize (it_map it) < 2 ^ 32" "it_bucketNum it \<le> length ns"
    "it_nodeNum it + length (tl (it_node it) @ concat (drop (it_bucketNum it) ns)) = mp_nodeSize (it_map it)"
  shows "map_walk it = Some (Inr (tl (it_node it) @ concat (drop (it_bucketNum it) ns)))"
  using assms
proof (induction "tl (it_node it) @ concat (drop (it_bucketNum it) ns)" arbitrary: it)
  case Nil
  have "\<not> LnnMapHasNext it" using Nil.prems(5) unfolding Nil.hyps [symmetric] LnnMapHasNext_def by simp
  then show ?case unfolding Nil.hyps [symmetric] map_walk.simps [of it] by simp
next
  case (Cons n rest)
  have h: "LnnMapHasNext it" using Cons.hyps(2) Cons.prems(5) unfolding LnnMapHasNext_def by (metis length_greater_0_conv list.distinct(1) less_add_same_cancel1)
  have num: "u32 (it_nodeNum it + 1) = it_nodeNum it + 1" using h Cons.prems(3) by (simp add: LnnMapHasNext_def u32_def)
  obtain c b where nx: "LnnMapNext it = Inr (it\<lparr>it_bucketNum := b, it_nodeNum := it_nodeNum it + 1, it_node := c\<rparr>)"
      "c \<noteq> []" "b \<le> length ns" "c @ concat (drop b ns) = n # rest"
  proof (cases "tl (it_node it) = []")
    case True
    then have cs: "concat (drop (it_bucketNum it) ns) = n # rest" using Cons.hyps(2) by simp
    then have "it_bucketNum it < length ns" by (cases "it_bucketNum it < length ns") auto
    moreover obtain d c where "next_bucket (drop (it_bucketNum it) ns) it = it\<lparr>it_bucketNum := it_bucketNum it + d, it_nodeNum := it_nodeNum it + 1, it_node := c\<rparr>"
        "c \<noteq> []" "d \<le> length (drop (it_bucketNum it) ns)" "n # rest = c @ concat (drop d (drop (it_bucketNum it) ns))"
      using next_bucket_ok [of "drop (it_bucketNum it) ns" it] cs num by auto
    ultimately show ?thesis using that [of c "it_bucketNum it + d"] h True Cons.prems(1,2)
      by (auto simp: LnnMapNext_def ac_simps)
  next
    case False
    then show ?thesis using that [of "tl (it_node it)" "it_bucketNum it"] h num Cons.hyps(2) Cons.prems(4)
      by (cases "it_node it") (auto simp: LnnMapNext_def)
  qed
  let ?it = "it\<lparr>it_bucketNum := b, it_nodeNum := it_nodeNum it + 1, it_node := c\<rparr>"
  obtain c' where c: "c = n # c'" "rest = c' @ concat (drop b ns)" using nx(2,4) by (cases c) auto
  have "it_nodeNum it + length (n # rest) = mp_nodeSize (it_map it)" using Cons.prems(5) unfolding Cons.hyps(2) .
  then have "map_walk ?it = Some (Inr rest)" using Cons.hyps(1) [of ?it] Cons.prems(1-3) nx(3) c by simp
  then have "map_walk it = Some (Inr (n # rest))" using h nx(1) c(1) unfolding map_walk.simps [of it] by simp
  then show ?case using Cons.hyps(2) by simp
qed

text \<open>
  C15: The iterator visits every entry exactly once.  On a map of the invariant, the loop that steps a fresh iterator while there is a
  next element ends, never dereferences a null node, and sees exactly the nodes of the map, whose keys are pairwise different, so that the
  pairs it sees are the map.
\<close>

theorem lnn_map_iterates:
  assumes "map_inv pf m" "mp_nodeSize m < 2 ^ 32" "LnnMapInitIterator ok (Some m) = Some it"
  shows "\<exists>ns. map_walk it = Some (Inr ns) \<and> distinct (map mn_key ns) \<and> length ns = mp_nodeSize m \<and>
    map_of (map (\<lambda>n. (mn_key n, mn_value n)) ns) = contents m"
proof -
  have it: "it = \<lparr>it_node = [], it_nodeNum = 0, it_bucketNum = 0, it_map = m\<rparr>" using assms(3) by (simp add: LnnMapInitIterator_def split: if_splits)
  have inv: "mp_nodeSize m = length (nodes_of m)" "distinct (map mn_key (nodes_of m))" using assms(1) by (simp_all add: map_inv_def)
  have "map_walk it = Some (Inr (nodes_of m))"
  proof (cases "mp_nodes m")
    case None
    then have "\<not> LnnMapHasNext it" "nodes_of m = []" using inv(1) by (simp_all add: it LnnMapHasNext_def nodes_of_def)
    then show ?thesis unfolding map_walk.simps [of it] by simp
  next
    case (Some ns)
    then have "length ns = mp_bucketSize m" "nodes_of m = concat ns" using assms(1) by (simp_all add: map_inv_def nodes_of_def)
    then show ?thesis using map_walk_rest [of it ns] Some assms(2) inv(1) unfolding it by simp
  qed
  then show ?thesis using inv by (simp add: tab_def)
qed

definition ex_map :: Map where
  "ex_map = \<lparr>mp_nodes = Some [[\<lparr>mn_hash = 8, mn_valueSize = 2, mn_key = [8], mn_value = [1, 2]\<rparr>], [], [], [], [], [], [], []],
             mp_nodeSize = 1, mp_bucketSize = 8\<rparr>"

lemma ex_map_inv: "map_inv \<lparr>pf_char = ucast, pf_pointer = 8\<rparr> ex_map"
proof -
  have "\<exists>k. 3 \<le> k \<and> k \<le> 27 \<and> (8 :: nat) = 2 ^ k" by (rule exI [of _ 3]) simp
  moreover have "placed (the (mp_nodes ex_map))" by code_simp
  moreover have "MapHash \<lparr>pf_char = ucast, pf_pointer = 8\<rparr> (Some [8]) = 8" by (simp add: MapHash_def u32_def)
  ultimately show ?thesis by (simp add: map_inv_def ex_map_def nodes_of_def)
qed

theorem lnn_map_iterates_witness:
  "\<exists>ns. map_walk \<lparr>it_node = [], it_nodeNum = 0, it_bucketNum = 0, it_map = ex_map\<rparr> = Some (Inr ns) \<and> length ns = 1 \<and>
     map_of (map (\<lambda>n. (mn_key n, mn_value n)) ns) [8] = Some [1, 2]"
  using lnn_map_iterates [OF ex_map_inv, of True "\<lparr>it_node = [], it_nodeNum = 0, it_bucketNum = 0, it_map = ex_map\<rparr>"]
  by (auto simp: LnnMapInitIterator_def ex_map_def nodes_of_def)

end
