(* ===== verification/Spec2Isabelle.thy ===== *)
theory Spec2Isabelle
  imports Byte_Order Adapter_Mem Seq_Verification Flow_Control Fair_Priority_Queue Ble_Send_Queue Trans_Pending Br_Pending Json_Utils
    Br_Node Ble_Task Softbus_Utils Lnn_Map
begin

text \<open>
  A verification library for DSoftBus, the communication bus of OpenHarmony by which devices near each other exchange
  messages over Bluetooth, Wi-Fi and Ethernet.

  \<^bold>\<open>The program.\<close>  The bus is a service (\<^verbatim>\<open>src/core\<close>) with a client library (\<^verbatim>\<open>src/sdk\<close>).  In the service the connection
  modules (\<^verbatim>\<open>core/connection\<close>) open links to peers and carry bytes: classic Bluetooth (BR), Bluetooth low energy (BLE),
  TCP, Wi-Fi direct.  The transmission modules (\<^verbatim>\<open>core/transmission\<close>) open channels over these links and cut application data
  into packets.  The bus centre (\<^verbatim>\<open>core/bus_center\<close>) keeps what is known about the devices in the network,
  discovery (\<^verbatim>\<open>core/discovery\<close>) finds them and authentication (\<^verbatim>\<open>core/authentication\<close>) admits them.  All of them use the
  common library (\<^verbatim>\<open>core/common\<close>): queues, message loops, JSON, conversions.  Modules run on their own threads and
  on the threads of message loops.

  \<^bold>\<open>Conventions.\<close>  A definition has the name of the C function it translates; loops and parts of a function have names of
  their own.  Structs are records, enumerations datatypes, bytes \<^typ>\<open>8 word\<close>; integers are words or integers with the
  wrap-around written out.  A pointer that may be NULL is an option.  A function that can fail in the environment (a
  lock, an allocation, a clock, a driver) takes the outcomes as arguments or draws them from an oracle in the state, so that theorems
  hold for all of them.  Reading freed memory, writing past an array and casting out of range are faults, values of a
  sum type; a call that blocks forever has no result.  Where a function waits on a condition, the state with
  which it is woken is an argument: what other threads did meanwhile.

  \<^bold>\<open>Theories, and the files they model.\<close>

  \<^item> \<^verbatim>\<open>Prelude\<close>: generic lemmas, faults, status codes; \<^verbatim>\<open>Prog\<close>: programs over a state, triples.
  \<^item> \<^verbatim>\<open>Byte_Order\<close>, \<^verbatim>\<open>Adapter_Mem\<close>: \<^verbatim>\<open>softbus_adapter_socket.c\<close> (byte order), \<^verbatim>\<open>softbus_adapter_mem.c\<close>.
  \<^item> \<^verbatim>\<open>Lock_Free_Queue\<close>: \<^verbatim>\<open>core/common/queue\<close>, the ring all send queues are made of.
  \<^item> \<^verbatim>\<open>Seq_Verification\<close>: \<^verbatim>\<open>softbus_sequence_verification.c\<close>, the replay window.
  \<^item> \<^verbatim>\<open>Softbus_Utils\<close>, \<^verbatim>\<open>Json_Utils\<close>: \<^verbatim>\<open>softbus_utils.c\<close>, \<^verbatim>\<open>softbus_json_utils.c\<close>.
  \<^item> \<^verbatim>\<open>Looper\<close>: \<^verbatim>\<open>message_handler.c\<close>, the message loops.
  \<^item> \<^verbatim>\<open>Flow_Control\<close>, \<^verbatim>\<open>Fair_Priority_Queue\<close>, \<^verbatim>\<open>Conn_Common\<close>, \<^verbatim>\<open>Pkt_Head\<close>: the shared parts of the connection modules.
  \<^item> \<^verbatim>\<open>Keyed_Fifo\<close>, \<^verbatim>\<open>Pending_Table\<close>, \<^verbatim>\<open>Frame_Stream\<close>, \<^verbatim>\<open>Send_Task\<close>: contracts (locales) that several modules satisfy.
  \<^item> \<^verbatim>\<open>Br_Send_Queue\<close>, \<^verbatim>\<open>Br_Pending\<close>, \<^verbatim>\<open>Br_Trans\<close>, \<^verbatim>\<open>Br_Object\<close>, \<^verbatim>\<open>Br_Task\<close>: sending and receiving over BR;
    \<^verbatim>\<open>Br_Connection\<close>, \<^verbatim>\<open>Br_Manager\<close>: \<^verbatim>\<open>softbus_conn_br_connection.c\<close> and \<^verbatim>\<open>softbus_conn_br_manager.c\<close>; \<^verbatim>\<open>Br_Requests\<close>,
    \<^verbatim>\<open>Br_Node\<close>: the account of requests and runs of the two modules.
  \<^item> \<^verbatim>\<open>Ble_Send_Queue\<close>, \<^verbatim>\<open>Ble_Trans\<close>, \<^verbatim>\<open>Ble_Task\<close>: sending and receiving over BLE.
  \<^item> \<^verbatim>\<open>Trans_Pending\<close>: \<^verbatim>\<open>trans_pending_pkt.c\<close>.
  \<^item> \<^verbatim>\<open>Data_Refinement\<close>: the contract of a data structure of the code with the abstract data it stands for (\<open>data_refinement\<close>).
  \<^item> \<^verbatim>\<open>Lnn_Map\<close>: \<^verbatim>\<open>core/bus_center/utils/src/lnn_map.c\<close>, the hash map of the bus centre.

  \<^bold>\<open>What is shown.\<close>  The ring refines a bounded queue (\<open>fifo_queue\<close>), the send queues built from it keep the order of each
  client and priority (\<open>keyed_fifo\<close>) and lose no wake-up; the fair queue serves every client within a bounded
  number of turns.  A message stored for a connection is reported once, in order, as long as the send task gets the lock of its status and no
  caller waits for room, and it is reported as sent only if its bytes were
  written, once; no message is stranded while the send task sleeps (\<open>send_task\<close>).  What is written in pieces is
  received, on a little-endian host, as the frames that were sent (\<open>head_codec\<close>, \<open>frame_parser\<close>).  The flow controller grants no more
  than its quota in any window if its records can be allocated and the clock does not go backwards.  The replay window refines its specification and accepts no number twice, with the
  exceptions its lemmas name.  Tables of pending packets deliver the reply to the one who waits for it (\<open>pending_table\<close>).
  The message loop refines a set of timers.  Over all interleavings of requests, messages, threads and driver events, the BR manager answers
  no request twice and, if the posts of requests succeed, loses none; its messages are well typed.
  Reference counted connections are never used after they are freed, unless an object is removed whose id was given to another one.  Conversions and serialisations are inverted
  by their parsers.
  The hash map of the bus centre refines a finite map across its growth, and its iterator visits every entry once.

  \<^bold>\<open>Loops and bounds.\<close>  Loops over lists are structural.  Loops that wait (\<open>ConnEnqueue_loop\<close>, \<open>await_stopped\<close> and others) recurse over
  the list of wake-ups and have no result when it ends; \<open>BrTransSend\<close>, \<open>allocate_loop\<close> and \<open>Apply\<close> are partial functions whose returning is
  proved from what makes them return (a driver that makes progress, a free identifier, a window that passes).  No
  fuel is used.

  \<^bold>\<open>Not modelled.\<close>  The operating system and driver bindings (\<^verbatim>\<open>src/adapter\<close> but for byte order and allocation), whose outcomes are
  arguments.  The protocol library \<^verbatim>\<open>components/nstackx\<close>, which has its own build.  Modules whose behaviour is that of services outside the
  sources: authentication (the device authentication service), broadcast and discovery (the Bluetooth service), the ledger of the bus
  centre (databases filled by device services), Wi-Fi direct (C++ over the Wi-Fi service), TCP (socket event loops).  Sessions and
  channels above the pending tables.  The BLE manager, whose structure is that of the BR manager.  Start-up, IPC stubs, the SDK, logging,
  statistics events and dumps.  Destruction that only frees memory.
\<close>

end
